(* ===== verification/Mw_Prelude.thy ===== *)
theory Mw_Prelude
  imports Main "HOL-Library.Word" "HOL-Library.Sublist"
begin

text \<open>
  The shared prelude of the miniweb development.

  It holds what the components have in common and the C library functions the sources call:
  \<^item> C strings as character lists: \<open>c_str\<close> cuts a byte buffer at its first NUL, as every
    \<^verbatim>\<open>str*\<close> function does; \<open>strchr\<close>, \<open>strrchr\<close>, \<open>strstr\<close>, \<open>strcasestr\<close> return the offset a
    pointer result would have; \<open>strlcpy\<close> and \<open>snprintf_out\<close> are the text left in a buffer of a given size;
  \<^item> the \<^verbatim>\<open>ctype.h\<close> classes in the C locale, \<open>atoi\<close> with the width of \<^verbatim>\<open>int\<close>, decimal printing;
  \<^item> \<open>fgets_lines\<close>, the chunks that a \<^verbatim>\<open>fgets\<close> loop sees;
  \<^item> generic lemmas on lists, on searching and on modular indices of rings.

  Strings handed between functions are NUL-free; where a byte buffer can hold a NUL the models
  apply \<open>c_str\<close> at the point where the code starts to read it as a string.
\<close>

named_theorems cstr_simps \<open>unfolding rules of the C string library\<close>
named_theorems inv_intros \<open>preservation of component invariants\<close>

type_synonym bytes = "char list"

section \<open>Characters\<close>

definition chr_code :: "char \<Rightarrow> nat" where
  "chr_code c = of_char c"

definition isdigit :: "char \<Rightarrow> bool" where
  "isdigit c \<longleftrightarrow> 48 \<le> chr_code c \<and> chr_code c \<le> 57"

definition isupper :: "char \<Rightarrow> bool" where
  "isupper c \<longleftrightarrow> 65 \<le> chr_code c \<and> chr_code c \<le> 90"

definition islower :: "char \<Rightarrow> bool" where
  "islower c \<longleftrightarrow> 97 \<le> chr_code c \<and> chr_code c \<le> 122"

definition isalnum :: "char \<Rightarrow> bool" where
  "isalnum c \<longleftrightarrow> isdigit c \<or> isupper c \<or> islower c"

definition isspace :: "char \<Rightarrow> bool" where
  "isspace c \<longleftrightarrow> chr_code c = 32 \<or> (9 \<le> chr_code c \<and> chr_code c \<le> 13)"

definition tolower :: "char \<Rightarrow> char" where
  "tolower c = (if isupper c then char_of (chr_code c + 32) else c)"

lemmas ctype_defs = isdigit_def isupper_def islower_def isalnum_def isspace_def tolower_def
  chr_code_def

lemma chr_code_less [simp]: "chr_code c < 256"
  by (simp add: chr_code_def)

lemma chr_code_inject [simp]: "chr_code c = chr_code d \<longleftrightarrow> c = d"
  by (simp add: chr_code_def)

lemma char_of_chr_code [simp]: "char_of (chr_code c) = c"
  by (simp add: chr_code_def)

lemma chr_code_char_of [simp]: "n < 256 \<Longrightarrow> chr_code (char_of n) = n"
  by (simp add: chr_code_def)

lemma chr_code_tolower: "chr_code (tolower c) = (if isupper c then chr_code c + 32 else chr_code c)"
  by (auto simp: tolower_def isupper_def)

lemma tolower_eq_low: "chr_code d < 65 \<Longrightarrow> tolower c = d \<longleftrightarrow> c = d"
  using chr_code_tolower [of c] by (auto simp: isupper_def tolower_def)

lemma tolower_tolower [simp]: "tolower (tolower c) = tolower c"
  using chr_code_tolower [of c] by (auto simp: tolower_def [of "tolower c"] isupper_def)

section \<open>C strings\<close>

abbreviation NUL :: char where
  "NUL \<equiv> CHR 0x00"

abbreviation CRLF :: string where
  "CRLF \<equiv> [CHR 0x0D, CHR 0x0A]"

abbreviation QUOTE :: char where
  "QUOTE \<equiv> CHR 0x22"

abbreviation BACKSLASH :: char where
  "BACKSLASH \<equiv> CHR 0x5C"

text \<open>A buffer read as a string ends at its first NUL.\<close>

definition c_str :: "bytes \<Rightarrow> string" where
  "c_str bs = takeWhile (\<lambda>c. c \<noteq> NUL) bs"

lemma c_str_no_nul [simp]: "NUL \<notin> set (c_str bs)"
  by (auto simp: c_str_def dest: set_takeWhileD)

lemma c_str_id [simp]: "NUL \<notin> set s \<Longrightarrow> c_str s = s"
  by (auto simp: c_str_def takeWhile_eq_all_conv)

lemma length_c_str_le: "length (c_str bs) \<le> length bs"
  by (simp add: c_str_def length_takeWhile_le)

lemma set_c_str_subset: "set (c_str bs) \<subseteq> set bs"
  by (auto simp: c_str_def dest: set_takeWhileD)

subsection \<open>Searching\<close>

fun strchr :: "string \<Rightarrow> char \<Rightarrow> nat option" where
  "strchr [] c = None"
| "strchr (x # xs) c = (if x = c then Some 0 else map_option Suc (strchr xs c))"

fun strstr :: "string \<Rightarrow> string \<Rightarrow> nat option" where
  "strstr [] n = (if n = [] then Some 0 else None)"
| "strstr (x # xs) n = (if prefix n (x # xs) then Some 0 else map_option Suc (strstr xs n))"

definition strcasestr :: "string \<Rightarrow> string \<Rightarrow> nat option" where
  "strcasestr s n = strstr (map tolower s) (map tolower n)"

definition strrchr :: "string \<Rightarrow> char \<Rightarrow> nat option" where
  "strrchr s c = map_option (\<lambda>i. length s - 1 - i) (strchr (rev s) c)"

definition strcspn :: "string \<Rightarrow> char set \<Rightarrow> nat" where
  "strcspn s rej = length (takeWhile (\<lambda>c. c \<notin> rej) s)"

definition strcaseeq :: "string \<Rightarrow> string \<Rightarrow> bool" where
  "strcaseeq a b \<longleftrightarrow> map tolower a = map tolower b"

definition strncaseeq :: "string \<Rightarrow> string \<Rightarrow> bool" where
  \<comment> \<open>\<^verbatim>\<open>strncasecmp(s, p, strlen(p)) == 0\<close>\<close>
  "strncaseeq s p \<longleftrightarrow> prefix (map tolower p) (map tolower s)"

lemma strchr_None_iff: "strchr s c = None \<longleftrightarrow> c \<notin> set s"
  by (induction s) auto

lemma strchr_SomeD:
  "strchr s c = Some i \<Longrightarrow> i < length s \<and> s ! i = c \<and> c \<notin> set (take i s)"
  by (induction s arbitrary: i) (auto split: if_splits)

lemma strchr_split:
  assumes "strchr s c = Some i"
  shows "s = take i s @ c # drop (Suc i) s" "c \<notin> set (take i s)" "length (take i s) = i"
  using strchr_SomeD [OF assms] by (auto simp: id_take_nth_drop [symmetric])

lemma strchr_append [simp]:
  "strchr (a @ b) c = (if c \<in> set a then strchr a c else map_option ((+) (length a)) (strchr b c))"
  by (induction a) (auto simp: option.map_comp comp_def option.map_ident cong: option.map_cong)

lemma first_char_inj:
  assumes "a @ c # b = a' @ (c :: char) # b'" "c \<notin> set a" "c \<notin> set a'"
  shows "a = a' \<and> b = b'"
proof -
  have "strchr (a @ c # b) c = Some (length a)" "strchr (a' @ c # b') c = Some (length a')" using assms(2,3) by simp_all
  then show ?thesis using assms(1) by simp
qed

lemma strrchr_last: "c \<notin> set b \<Longrightarrow> strrchr (a @ c # b) c = Some (length a)"
  by (simp add: strrchr_def)

lemma strrchr_None_iff: "strrchr s c = None \<longleftrightarrow> c \<notin> set s"
  by (simp add: strrchr_def strchr_None_iff)

lemma strrchr_SomeE:
  assumes "strrchr s c = Some i"
  obtains a b where "s = a @ c # b" "c \<notin> set b" "i = length a"
proof -
  have "c \<in> set s" using assms strrchr_None_iff [of s c] by auto
  then obtain a b where "s = a @ c # b" "c \<notin> set b" by (meson split_list_last)
  then show thesis using that assms strrchr_last [of c b a] by simp
qed

lemma last_char_inj:
  assumes "a @ (c :: char) # b = a' @ c # b'" "c \<notin> set b" "c \<notin> set b'"
  shows "a = a' \<and> b = b'"
  using strrchr_last [OF assms(2), of a] strrchr_last [OF assms(3), of a'] assms(1) by simp

lemma strchr_Some_memI: "c \<in> set s \<Longrightarrow> \<exists>i. strchr s c = Some i"
  using strchr_None_iff by (metis option.exhaust)

lemma strstr_Nil [simp]: "strstr s [] = Some 0"
  by (cases s) auto

lemma strstr_None_iff: "strstr s n = None \<longleftrightarrow> \<not> sublist n s"
proof (induction s)
  case Nil
  then show ?case by simp
next
  case (Cons x xs)
  then show ?case by (auto simp: sublist_Cons_right)
qed

lemma strstr_SomeD:
  "strstr s n = Some i \<Longrightarrow> i + length n \<le> length s \<and> prefix n (drop i s)"
proof (induction s arbitrary: i)
  case Nil
  then show ?case by (auto split: if_splits)
next
  case (Cons x xs)
  then show ?case by (auto split: if_splits dest: prefix_length_le)
qed

lemma strstr_split:
  assumes "strstr s n = Some i"
  shows "s = take i s @ n @ drop (i + length n) s"
proof -
  obtain zs where "drop i s = n @ zs"
    using strstr_SomeD [OF assms] by (auto simp: prefix_def)
  moreover then have "drop (i + length n) s = zs"
    by (metis add.commute append_eq_conv_conj drop_drop)
  ultimately show ?thesis by (metis append_take_drop_id)
qed

lemma strstr_least:
  "strstr s n = Some i \<Longrightarrow> j < i \<Longrightarrow> \<not> prefix n (drop j s)"
proof (induction s arbitrary: i j)
  case Nil
  then show ?case by (auto split: if_splits)
next
  case (Cons x xs)
  then show ?case by (cases j) (auto split: if_splits)
qed

lemma strstr_appendI:
  "(\<And>j. j < length a \<Longrightarrow> \<not> prefix n (drop j (a @ n @ b))) \<Longrightarrow>
    strstr (a @ n @ b) n = Some (length a)"
proof (induction a)
  case Nil
  have "prefix n (n @ b)" by simp
  then show ?case by (cases "n @ b") auto
next
  case (Cons x xs)
  have "\<not> prefix n (x # xs @ n @ b)"
    using Cons.prems [of 0] by simp
  moreover have "\<And>j. j < length xs \<Longrightarrow> \<not> prefix n (drop j (xs @ n @ b))"
    using Cons.prems [of "Suc _"] by simp
  ultimately show ?case using Cons.IH by simp
qed

text \<open>A needle whose first character does not occur before it is found where it stands.\<close>

lemma strstr_fresh:
  assumes "n = c # m" "c \<notin> set a"
  shows "strstr (a @ n @ b) n = Some (length a)"
  using assms by (induction a) auto

lemma length_tolower_map [simp]: "length (map tolower s) = length s"
  by simp

subsection \<open>Copying and printing into buffers\<close>

text \<open>
  \<^verbatim>\<open>strlcpy(dst, src, n)\<close> and \<^verbatim>\<open>snprintf(dst, n, ...)\<close> leave at most \<open>n - 1\<close> characters
  and a NUL; \<open>snprintf\<close> returns the length of the whole text, so that the caller can see the
  truncation.
\<close>

definition strlcpy :: "nat \<Rightarrow> string \<Rightarrow> string" where
  "strlcpy n src = take (n - 1) src"

definition snprintf_out :: "nat \<Rightarrow> string \<Rightarrow> string" where
  "snprintf_out n s = take (n - 1) s"

lemma length_strlcpy: "0 < n \<Longrightarrow> length (strlcpy n s) < n"
  by (auto simp: strlcpy_def min_def)

lemma strlcpy_short: "length s < n \<Longrightarrow> strlcpy n s = s"
  by (simp add: strlcpy_def)

lemma length_snprintf_out: "0 < n \<Longrightarrow> length (snprintf_out n s) < n"
  by (auto simp: snprintf_out_def min_def)

lemma snprintf_out_short: "length s < n \<Longrightarrow> snprintf_out n s = s"
  by (simp add: snprintf_out_def)

lemma prefix_snprintf_out: "prefix (snprintf_out n s) s"
  by (simp add: snprintf_out_def take_is_prefix)

subsection \<open>Numbers as text\<close>

definition digit_char :: "nat \<Rightarrow> char" where
  "digit_char d = char_of (48 + d)"

fun show_nat :: "nat \<Rightarrow> string" where
  "show_nat n = (if n < 10 then [digit_char n] else show_nat (n div 10) @ [digit_char (n mod 10)])"

declare show_nat.simps [simp del]

definition show_int :: "int \<Rightarrow> string" where
  "show_int i = (if i < 0 then CHR ''-'' # show_nat (nat (- i)) else show_nat (nat i))"

definition digit_val :: "char \<Rightarrow> nat" where
  "digit_val c = chr_code c - 48"

fun digits_val :: "nat \<Rightarrow> string \<Rightarrow> nat" where
  "digits_val acc [] = acc"
| "digits_val acc (c # cs) = (if isdigit c then digits_val (10 * acc + digit_val c) cs else acc)"

text \<open>
  \<^verbatim>\<open>atoi\<close>: leading white space, an optional sign, the longest run of digits. The value is
  computed by \<^verbatim>\<open>strtol\<close>, which saturates at the range of a 64-bit \<^verbatim>\<open>long\<close>, and is then
  converted to a 32-bit \<^verbatim>\<open>int\<close>.
\<close>

definition strtol10 :: "string \<Rightarrow> int" where
  "strtol10 s =
     (let t = dropWhile isspace s;
          v = (case t of
                 [] \<Rightarrow> 0
               | c # u \<Rightarrow> if c = CHR ''-'' then - int (digits_val 0 u)
                          else if c = CHR ''+'' then int (digits_val 0 u)
                          else int (digits_val 0 t))
      in max (- (2 ^ 63)) (min (2 ^ 63 - 1) v))"

definition atoi :: "string \<Rightarrow> int" where
  "atoi s = sint (word_of_int (strtol10 s) :: 32 word)"

lemma show_nat_not_Nil [simp]: "show_nat n \<noteq> []"
  by (subst show_nat.simps) simp

lemma isdigit_digit_char [simp]: "d < 10 \<Longrightarrow> isdigit (digit_char d)"
  by (simp add: digit_char_def isdigit_def)

lemma digit_val_digit_char [simp]: "d < 10 \<Longrightarrow> digit_val (digit_char d) = d"
  by (simp add: digit_char_def digit_val_def)

lemma show_nat_isdigit: "c \<in> set (show_nat n) \<Longrightarrow> isdigit c"
proof (induction n rule: show_nat.induct)
  case (1 n)
  then show ?case by (subst (asm) (2) show_nat.simps) (auto split: if_splits)
qed

lemma digits_val_append:
  "(\<And>c. c \<in> set a \<Longrightarrow> isdigit c) \<Longrightarrow> digits_val acc (a @ b) = digits_val (digits_val acc a) b"
  by (induction a arbitrary: acc) auto

lemma digits_val_show_nat: "digits_val 0 (show_nat n) = n"
proof (induction n rule: show_nat.induct)
  case (1 n)
  show ?case
  proof (cases "n < 10")
    case True
    then show ?thesis by (simp add: show_nat.simps [of n])
  next
    case False
    with 1 have "digits_val 0 (show_nat (n div 10)) = n div 10" by simp
    with False show ?thesis
      by (simp add: show_nat.simps [of n] digits_val_append show_nat_isdigit)
  qed
qed

lemma isdigit_neq [simp]:
  "isdigit c \<Longrightarrow> c \<noteq> CHR ''-''" "isdigit c \<Longrightarrow> c \<noteq> CHR ''+''" "isdigit c \<Longrightarrow> \<not> isspace c"
  by (auto simp: isdigit_def isspace_def chr_code_def)

lemma strtol10_show_nat: "int n < 2 ^ 63 \<Longrightarrow> strtol10 (show_nat n) = int n"
proof -
  assume n: "int n < 2 ^ 63"
  obtain c u where cu: "show_nat n = c # u" by (cases "show_nat n") auto
  then have c: "isdigit c" using show_nat_isdigit [of c n] by simp
  then have "dropWhile isspace (show_nat n) = c # u" by (simp add: cu)
  moreover have "int (digits_val 0 (c # u)) = int n"
    using digits_val_show_nat [of n] by (simp add: cu)
  ultimately show ?thesis using c n by (simp add: strtol10_def)
qed

text \<open>Printing and reading back a number that fits an \<^verbatim>\<open>int\<close> is the identity.\<close>

lemma atoi_show_nat: "n < 2 ^ 31 \<Longrightarrow> atoi (show_nat n) = int n"
  using int_word_sint [of "int n", where ?'a = 32] by (simp add: atoi_def strtol10_show_nat)

lemma atoi_range: "- (2 ^ 31) \<le> atoi s \<and> atoi s < 2 ^ 31"
proof -
  have "- (2 ^ (LENGTH(32) - 1)) \<le> sint (w :: 32 word)" for w
    by (rule sint_ge)
  moreover have "sint (w :: 32 word) < 2 ^ (LENGTH(32) - 1)" for w
    by (rule sint_lt)
  ultimately show ?thesis unfolding atoi_def by force
qed

subsection \<open>Reading a file line by line\<close>

text \<open>
  \<^verbatim>\<open>fgets(line, n, fp)\<close> returns at most \<open>n - 1\<close> bytes and stops after a newline; a loop over
  it sees the file as these chunks.
\<close>

definition fgets_chunk :: "nat \<Rightarrow> bytes \<Rightarrow> nat" where
  "fgets_chunk n bs =
     (case strchr (take (n - 1) bs) (CHR 0x0A) of Some i \<Rightarrow> Suc i | None \<Rightarrow> min (n - 1) (length bs))"

lemma fgets_chunk_pos: "1 < n \<Longrightarrow> bs \<noteq> [] \<Longrightarrow> 0 < fgets_chunk n bs"
  by (cases bs) (auto simp: fgets_chunk_def split: option.splits)

lemma fgets_chunk_le: "fgets_chunk n bs \<le> n - 1"
  by (auto simp: fgets_chunk_def split: option.splits dest: strchr_SomeD)

function fgets_lines :: "nat \<Rightarrow> bytes \<Rightarrow> bytes list" where
  "fgets_lines n bs =
     (if n \<le> 1 \<or> bs = [] then [] else
      take (fgets_chunk n bs) bs # fgets_lines n (drop (fgets_chunk n bs) bs))"
  by pat_completeness auto

termination
proof (relation "measure (\<lambda>(n, bs). length bs)")
  fix n :: nat and bs :: bytes
  assume "\<not> (n \<le> 1 \<or> bs = [])"
  then show "((n, drop (fgets_chunk n bs) bs), n, bs) \<in> measure (\<lambda>(n, bs). length bs)"
    using fgets_chunk_pos [of n bs] by (cases bs) auto
qed simp

declare fgets_lines.simps [simp del]

lemma concat_fgets_lines: "1 < n \<Longrightarrow> concat (fgets_lines n bs) = bs"
proof (induction n bs rule: fgets_lines.induct)
  case (1 n bs)
  then show ?case by (cases "bs = []") (simp_all add: fgets_lines.simps [of n bs] fgets_lines.simps [of n "[]"])
qed

lemma fgets_lines_length: "l \<in> set (fgets_lines n bs) \<Longrightarrow> length l < n"
proof (induction n bs rule: fgets_lines.induct)
  case (1 n bs)
  then show ?case
    using fgets_chunk_le [of n bs]
    by (auto simp: fgets_lines.simps [of n bs] split: if_splits)
qed

subsection \<open>Tokens\<close>

text \<open>\<^verbatim>\<open>strtok_r(s, "d", ...)\<close> called until it returns NULL: the maximal non-empty runs.\<close>

fun split_on :: "char \<Rightarrow> string \<Rightarrow> string list" where
  "split_on d [] = [[]]"
| "split_on d (c # cs) =
     (if c = d then [] # split_on d cs
      else (case split_on d cs of [] \<Rightarrow> [[c]] | w # ws \<Rightarrow> (c # w) # ws))"

definition strtok_all :: "char \<Rightarrow> string \<Rightarrow> string list" where
  "strtok_all d s = filter (\<lambda>w. w \<noteq> []) (split_on d s)"

lemma split_on_not_Nil [simp]: "split_on d s \<noteq> []"
  by (induction s) (auto split: list.splits)

lemma split_on_no_delim: "w \<in> set (split_on d s) \<Longrightarrow> d \<notin> set w"
proof (induction s arbitrary: w)
  case Nil
  then show ?case by simp
next
  case (Cons c cs)
  then show ?case by (cases "split_on d cs") (auto split: if_splits)
qed

lemma split_on_chars: "w \<in> set (split_on d s) \<Longrightarrow> set w \<subseteq> set s"
proof (induction s arbitrary: w)
  case Nil
  then show ?case by simp
next
  case (Cons c cs)
  show ?case
  proof (cases "split_on d cs")
    case Nil
    then show ?thesis by simp
  next
    case (Cons v vs)
    have "set v \<subseteq> set cs" "\<And>u. u \<in> set vs \<Longrightarrow> set u \<subseteq> set cs"
      using Cons.IH Cons by auto
    then show ?thesis using Cons Cons.prems by (auto split: if_splits)
  qed
qed

lemma split_on_append: "split_on d (a @ d # b) = split_on d a @ split_on d b"
proof (induction a)
  case (Cons c a)
  then show ?case by (cases "split_on d a") auto
qed simp

lemma split_on_fresh: "d \<notin> set w \<Longrightarrow> split_on d w = [w]"
  by (induction w) auto

lemma strtok_all_token: "w \<in> set (strtok_all d s) \<Longrightarrow> w \<noteq> [] \<and> d \<notin> set w"
  by (auto simp: strtok_all_def dest: split_on_no_delim)

section \<open>Lists used as arrays\<close>

lemma set_list_update_subset: "set (xs[i := x]) \<subseteq> insert x (set xs)"
  by (rule set_update_subset_insert)

lemma nth_update_other [simp]: "i \<noteq> j \<Longrightarrow> xs[i := x] ! j = xs ! j"
  by simp

lemma map_nth_shift: "map (\<lambda>i. xs ! (k + i)) [0..<n] = take n (drop k xs)"
  if "k + n \<le> length xs"
  using that by (auto intro: nth_equalityI)

section \<open>Modular indices of rings\<close>

lemma mod_ring_inj_le:
  fixes h i j c :: nat
  assumes "i \<le> j" "j < c" "(h + i) mod c = (h + j) mod c"
  shows "i = j"
proof -
  have "c dvd (h + j) - (h + i)"
    using assms mod_eq_dvd_iff_nat [of "h + i" "h + j" c] by simp
  then have "c dvd j - i" by simp
  then show ?thesis using assms by (auto dest: dvd_imp_le)
qed

lemma mod_ring_inj:
  fixes h i j c :: nat
  assumes "i < c" "j < c" "(h + i) mod c = (h + j) mod c"
  shows "i = j"
  using assms mod_ring_inj_le [of i j c h] mod_ring_inj_le [of j i c h] by (metis nat_le_linear)

end
