(* ===== verification/Interfaces.thy ===== *)
theory Interfaces
  imports Mw_Prelude
begin

text \<open>
  The interfaces between the components, as locales. A locale fixes the operations a client
  calls and an abstraction of the provider's state, assumes the laws the provider promises, and
  proves once what every client may conclude. The theories of the components interpret them on
  the model of the code:
  \<^item> \<open>bounded_fifo\<close>: a queue that refuses when full (the work queue between dispatcher and
    workers);
  \<^item> \<open>overwriting_ring\<close>: a ring that forgets its oldest entries (the history rings of
    the metrics and the networking module);
  \<^item> \<open>slot_allocator\<close>: a table of slots handed out under a key and given back (the connection
    pool, the response pool);
  \<^item> \<open>normalising_cache\<close>: a cache that keeps its keys in a shortened form (the ring of package
    queries);
  \<^item> \<open>coherent_cache\<close>: a cache that may forget but never answers what was not stored (the file
    cache);
  \<^item> \<open>invariant_system\<close>: a transition system with an inductive invariant (the heartbeat
    scheduler, the server runtime).
\<close>

section \<open>Bounded queues\<close>

datatype 'a fifo_op = Push_op 'a | Pop_op

text \<open>
  A run of pushes and pops: the items accepted, in the order of their pushes, and the items
  returned, in the order of their pops.
\<close>

fun fifo_run ::
  "('q \<Rightarrow> 'a \<Rightarrow> bool \<times> 'q) \<Rightarrow> ('q \<Rightarrow> 'a option \<times> 'q) \<Rightarrow> 'q \<Rightarrow> 'a fifo_op list \<Rightarrow>
    'a list \<times> 'a list \<times> 'q" where
  "fifo_run push pop q [] = ([], [], q)"
| "fifo_run push pop q (Push_op x # ops) =
     (let (ok, q') = push q x; (ins, outs, q'') = fifo_run push pop q' ops
      in (if ok then x # ins else ins, outs, q''))"
| "fifo_run push pop q (Pop_op # ops) =
     (let (r, q') = pop q; (ins, outs, q'') = fifo_run push pop q' ops
      in (ins, (case r of None \<Rightarrow> outs | Some x \<Rightarrow> x # outs), q''))"

locale bounded_fifo =
  fixes empty :: 'q
    and push :: "'q \<Rightarrow> 'a \<Rightarrow> bool \<times> 'q"
    and pop :: "'q \<Rightarrow> 'a option \<times> 'q"
    and contents :: "'q \<Rightarrow> 'a list"
    and cap :: nat
    and invar :: "'q \<Rightarrow> bool"
  assumes invar_empty: "invar empty"
    and contents_empty: "contents empty = []"
    and push_room: "invar q \<Longrightarrow> length (contents q) < cap \<Longrightarrow>
      fst (push q x) \<and> invar (snd (push q x)) \<and> contents (snd (push q x)) = contents q @ [x]"
    and push_full: "invar q \<Longrightarrow> cap \<le> length (contents q) \<Longrightarrow> push q x = (False, q)"
    and pop_empty: "invar q \<Longrightarrow> contents q = [] \<Longrightarrow> pop q = (None, q)"
    and pop_nonempty: "invar q \<Longrightarrow> contents q = x # xs \<Longrightarrow>
      fst (pop q) = Some x \<and> invar (snd (pop q)) \<and> contents (snd (pop q)) = xs"
begin

lemma invar_push: "invar q \<Longrightarrow> invar (snd (push q x))"
  using push_room [of q x] push_full [of q x] by (cases "length (contents q) < cap") auto

lemma invar_pop: "invar q \<Longrightarrow> invar (snd (pop q))"
  using pop_empty [of q] pop_nonempty [of q] by (cases "contents q") auto

lemma push_accepts_iff: "invar q \<Longrightarrow> fst (push q x) \<longleftrightarrow> length (contents q) < cap"
  using push_room [of q x] push_full [of q x] by (cases "length (contents q) < cap") auto

lemma contents_push:
  "invar q \<Longrightarrow> contents (snd (push q x)) = (if fst (push q x) then contents q @ [x] else contents q)"
  using push_room [of q x] push_full [of q x] by (cases "length (contents q) < cap") auto

lemma contents_pop: "invar q \<Longrightarrow>
  contents q = (case fst (pop q) of None \<Rightarrow> [] | Some x \<Rightarrow> [x]) @ contents (snd (pop q))"
  using pop_empty [of q] pop_nonempty [of q] by (cases "contents q") auto

text \<open>First in, first out, nothing lost and nothing made up, over any interleaving.\<close>

lemma fifo_run_order:
  assumes "invar q" "fifo_run push pop q ops = (ins, outs, q')"
  shows "contents q @ ins = outs @ contents q' \<and> invar q'"
  using assms
proof (induction ops arbitrary: q ins outs q')
  case Nil
  then show ?case by simp
next
  case (Cons a ops)
  show ?case
  proof (cases a)
    case (Push_op x)
    obtain ins' outs' where run: "fifo_run push pop (snd (push q x)) ops = (ins', outs', q')"
      and eqs: "ins = (if fst (push q x) then x # ins' else ins')" "outs = outs'"
      using Cons.prems(2) Push_op by (auto split: prod.splits)
    have "contents (snd (push q x)) @ ins' = outs' @ contents q' \<and> invar q'"
      using Cons.IH [OF _ run] invar_push Cons.prems(1) by blast
    then show ?thesis using eqs contents_push [OF Cons.prems(1)] by (auto split: if_splits)
  next
    case Pop_op
    obtain ins' outs' where run: "fifo_run push pop (snd (pop q)) ops = (ins', outs', q')"
      and eqs: "ins = ins'" "outs = (case fst (pop q) of None \<Rightarrow> outs' | Some x \<Rightarrow> x # outs')"
      using Cons.prems(2) Pop_op by (auto split: prod.splits)
    have "contents (snd (pop q)) @ ins' = outs' @ contents q' \<and> invar q'"
      using Cons.IH [OF _ run] invar_pop Cons.prems(1) by blast
    then show ?thesis using eqs contents_pop [OF Cons.prems(1)] by (auto split: option.splits)
  qed
qed

end

section \<open>Overwriting rings\<close>

text \<open>The newest \<open>n\<close> elements of a list.\<close>

definition newest :: "nat \<Rightarrow> 'a list \<Rightarrow> 'a list" where
  "newest n xs = drop (length xs - n) xs"

lemma length_newest [simp]: "length (newest n xs) = min n (length xs)"
  by (simp add: newest_def)

lemma newest_all: "length xs \<le> n \<Longrightarrow> newest n xs = xs"
  by (simp add: newest_def)

lemma newest_newest_append: "newest n (newest n xs @ ys) = newest n (xs @ ys)"
  by (cases "length xs \<le> n") (auto simp: newest_def add.commute)

lemma newest_le: "m \<le> n \<Longrightarrow> newest m (newest n xs) = newest m xs"
proof -
  assume "m \<le> n"
  then have "length xs - (length xs - n + m) + (length xs - n) = length xs - m" by arith
  then show ?thesis by (simp add: newest_def)
qed

lemma last_newest: "0 < n \<Longrightarrow> xs \<noteq> [] \<Longrightarrow> last (newest n xs) = last xs"
  by (auto simp: newest_def last_drop)

text \<open>
  The implementation all rings of the program share: an array of \<open>cap\<close> places, the place of the next
  entry and the number of entries.
\<close>

definition ring_items :: "nat \<Rightarrow> nat \<Rightarrow> nat \<Rightarrow> 'a list \<Rightarrow> 'a list" where
  "ring_items cap head cnt buf = map (\<lambda>i. buf ! ((head + cap - cnt + i) mod cap)) [0..<cnt]"

lemma length_ring_items [simp]: "length (ring_items cap head cnt buf) = cnt"
  by (simp add: ring_items_def)

lemma nth_ring_items: "i < cnt \<Longrightarrow> ring_items cap head cnt buf ! i = buf ! ((head + cap - cnt + i) mod cap)"
  by (simp add: ring_items_def)

lemma ring_items_push:
  assumes "head < cap" "cnt \<le> cap" "length buf = cap"
  shows "ring_items cap ((head + 1) mod cap) (if cnt < cap then cnt + 1 else cnt) (buf[head := x]) =
    newest cap (ring_items cap head cnt buf @ [x])"
proof (rule nth_equalityI)
  let ?cnt = "if cnt < cap then cnt + 1 else cnt"
  let ?h = "(head + 1) mod cap"
  show "length (ring_items cap ?h ?cnt (buf[head := x])) = length (newest cap (ring_items cap head cnt buf @ [x]))"
    using assms by simp
  fix i assume "i < length (ring_items cap ?h ?cnt (buf[head := x]))"
  then have i: "i < ?cnt" by simp
  define k where "k = (if cnt < cap then 0 else 1 :: nat)"
  have "(?h + (cap - ?cnt + i)) mod cap = (head + 1 + (cap - ?cnt + i)) mod cap" by (rule mod_add_left_eq)
  moreover have "?h + cap - ?cnt + i = ?h + (cap - ?cnt + i)" using assms by auto
  moreover have "head + 1 + (cap - ?cnt + i) = head + cap - cnt + (k + i)" using assms by (auto simp: k_def)
  ultimately have idx: "(?h + cap - ?cnt + i) mod cap = (head + cap - cnt + (k + i)) mod cap" by metis
  have left: "ring_items cap ?h ?cnt (buf[head := x]) ! i = buf[head := x] ! ((head + cap - cnt + (k + i)) mod cap)"
    unfolding nth_ring_items [OF i] idx ..
  have right: "newest cap (ring_items cap head cnt buf @ [x]) ! i = (ring_items cap head cnt buf @ [x]) ! (k + i)"
    unfolding newest_def using assms i by (subst nth_drop) (auto simp: k_def)
  show "ring_items cap ?h ?cnt (buf[head := x]) ! i = newest cap (ring_items cap head cnt buf @ [x]) ! i"
  proof (cases "k + i < cnt")
    case True
    have "head + cap - cnt + (k + i) = head + (cap - cnt + (k + i))" using assms by simp
    moreover have "0 < cap - cnt + (k + i)" "cap - cnt + (k + i) < cap" using assms True by (auto simp: k_def)
    ultimately have "(head + cap - cnt + (k + i)) mod cap \<noteq> head"
      using mod_ring_inj [of "cap - cnt + (k + i)" cap 0 head] assms by auto
    then show ?thesis unfolding left right using True by (simp add: nth_append ring_items_def)
  next
    case False
    then have "k + i = cnt" using i assms by (auto simp: k_def)
    then show ?thesis unfolding left right using assms by (simp add: nth_append)
  qed
qed

lemma ring_items_last:
  assumes "n \<le> cnt" "cnt \<le> cap" "0 < cap"
  shows "map (\<lambda>i. buf ! (((head + cap - n) mod cap + i) mod cap)) [0..<n] = newest n (ring_items cap head cnt buf)"
proof (rule nth_equalityI)
  show "length (map (\<lambda>i. buf ! (((head + cap - n) mod cap + i) mod cap)) [0..<n]) = length (newest n (ring_items cap head cnt buf))"
    using assms by simp
  fix i assume "i < length (map (\<lambda>i. buf ! (((head + cap - n) mod cap + i) mod cap)) [0..<n])"
  then have i: "i < n" by simp
  have "((head + cap - n) mod cap + i) mod cap = (head + cap - n + i) mod cap" by (rule mod_add_left_eq)
  moreover have "head + cap - n + i = head + cap - cnt + (cnt - n + i)" using assms i by simp
  ultimately show "map (\<lambda>i. buf ! (((head + cap - n) mod cap + i) mod cap)) [0..<n] ! i = newest n (ring_items cap head cnt buf) ! i"
    using i assms by (simp add: newest_def ring_items_def)
qed

locale overwriting_ring =
  fixes push :: "'r \<Rightarrow> 'a \<Rightarrow> 'r"
    and contents :: "'r \<Rightarrow> 'a list"
    and cap :: nat
    and invar :: "'r \<Rightarrow> bool"
  assumes invar_push: "invar r \<Longrightarrow> invar (push r x)"
    and contents_push: "invar r \<Longrightarrow> contents (push r x) = newest cap (contents r @ [x])"
    and contents_bound: "invar r \<Longrightarrow> length (contents r) \<le> cap"
begin

lemma invar_pushes: "invar r \<Longrightarrow> invar (foldl push r xs)"
  by (induction xs arbitrary: r) (auto intro: invar_push)

text \<open>After any number of pushes the ring holds exactly the newest \<open>cap\<close> entries, in order.\<close>

lemma contents_pushes: "invar r \<Longrightarrow> contents (foldl push r xs) = newest cap (contents r @ xs)"
proof (induction xs arbitrary: r)
  case Nil
  then show ?case by (simp add: newest_all contents_bound)
next
  case (Cons x xs)
  then show ?case by (simp add: invar_push contents_push newest_newest_append)
qed

end

section \<open>Slot allocators\<close>

datatype ('a, 'k) slot_op = Alloc_op 'a | Free_op 'k

text \<open>Any sequence of requests; a key that holds no slot is never given back.\<close>

fun slot_run ::
  "('p \<Rightarrow> 'a \<Rightarrow> ('k \<times> nat) option \<times> 'p) \<Rightarrow> ('p \<Rightarrow> 'k \<Rightarrow> 'p) \<Rightarrow> ('p \<Rightarrow> 'k \<Rightarrow> nat option) \<Rightarrow>
    'p \<Rightarrow> ('a, 'k) slot_op list \<Rightarrow> 'p" where
  "slot_run alloc free live p [] = p"
| "slot_run alloc free live p (Alloc_op a # ops) = slot_run alloc free live (snd (alloc p a)) ops"
| "slot_run alloc free live p (Free_op k # ops) =
     slot_run alloc free live (if live p k = None then p else free p k) ops"

locale slot_allocator =
  fixes alloc :: "'p \<Rightarrow> 'a \<Rightarrow> ('k \<times> nat) option \<times> 'p"
    and free :: "'p \<Rightarrow> 'k \<Rightarrow> 'p"
    and live :: "'p \<Rightarrow> 'k \<Rightarrow> nat option"
    and cap :: nat
    and invar :: "'p \<Rightarrow> bool"
  assumes live_inj: "invar p \<Longrightarrow> live p k = Some s \<Longrightarrow> live p k' = Some s \<Longrightarrow> k = k'"
    and live_bound: "invar p \<Longrightarrow> live p k = Some s \<Longrightarrow> s < cap"
    and alloc_Some: "invar p \<Longrightarrow> fst (alloc p a) = Some (k, s) \<Longrightarrow>
      invar (snd (alloc p a)) \<and> live p k = None \<and> live (snd (alloc p a)) = (live p)(k \<mapsto> s)"
    and alloc_None: "invar p \<Longrightarrow> fst (alloc p a) = None \<Longrightarrow>
      invar (snd (alloc p a)) \<and> live (snd (alloc p a)) = live p"
    and free_live: "invar p \<Longrightarrow> live p k \<noteq> None \<Longrightarrow>
      invar (free p k) \<and> live (free p k) = (live p)(k := None)"
begin

lemma alloc_fresh:
  assumes "invar p" "fst (alloc p a) = Some (k, s)"
  shows "s \<notin> ran (live p)" "s < cap"
proof -
  note new = alloc_Some [OF assms]
  show "s \<notin> ran (live p)"
  proof
    assume "s \<in> ran (live p)"
    then obtain k' where k': "live p k' = Some s" by (auto simp: ran_def)
    moreover have "k' \<noteq> k" using new k' by auto
    ultimately show False
      using live_inj [of "snd (alloc p a)" k s k'] new by (auto split: if_splits)
  qed
  show "s < cap" using live_bound [of "snd (alloc p a)" k s] new by auto
qed

lemma invar_slot_run: "invar p \<Longrightarrow> invar (slot_run alloc free live p ops)"
proof (induction ops arbitrary: p)
  case Nil
  then show ?case by simp
next
  case (Cons a ops)
  show ?case
  proof (cases a)
    case (Alloc_op x)
    have "invar (snd (alloc p x))"
      using alloc_Some [OF Cons.prems] alloc_None [OF Cons.prems]
      by (cases "fst (alloc p x)") auto
    then show ?thesis using Cons.IH Alloc_op by simp
  next
    case (Free_op k)
    then show ?thesis using Cons free_live [of p k] by auto
  qed
qed

text \<open>At any time the slots in use are pairwise different and within the table.\<close>

lemma live_finite_inj:
  assumes "invar p"
  shows "inj_on (live p) (dom (live p))" "card (dom (live p)) \<le> cap" "finite (dom (live p))"
proof -
  show inj: "inj_on (live p) (dom (live p))"
    using live_inj [OF assms] by (force simp: inj_on_def dom_def)
  have sub: "live p ` dom (live p) \<subseteq> Some ` {..<cap}"
    using live_bound [OF assms] by auto
  then show fin: "finite (dom (live p))"
    using inj by (meson finite_imageD finite_imageI finite_lessThan finite_subset)
  have "card (dom (live p)) = card (live p ` dom (live p))"
    using inj by (simp add: card_image)
  also have "\<dots> \<le> card (Some ` {..<cap})"
    using sub by (intro card_mono) auto
  also have "\<dots> = cap" by (simp add: card_image)
  finally show "card (dom (live p)) \<le> cap" .
qed

end

section \<open>Caches\<close>

text \<open>Stores and lookups; \<open>'e\<close> is what a call gets from outside, such as the time.\<close>

datatype ('e, 'k, 'v) cache_op = Store_op 'e 'k 'v | Lookup_op 'e 'k

fun cache_run ::
  "('s \<Rightarrow> 'e \<Rightarrow> 'k \<Rightarrow> 'v \<Rightarrow> 's) \<Rightarrow> ('s \<Rightarrow> 'e \<Rightarrow> 'k \<Rightarrow> 'v option \<times> 's) \<Rightarrow> 's \<Rightarrow> ('e, 'k, 'v) cache_op list \<Rightarrow> 's" where
  "cache_run store lookup s [] = s"
| "cache_run store lookup s (Store_op e k v # ops) = cache_run store lookup (store s e k v) ops"
| "cache_run store lookup s (Lookup_op e k # ops) = cache_run store lookup (snd (lookup s e k)) ops"

definition stored :: "('e, 'k, 'v) cache_op list \<Rightarrow> ('k \<times> 'v) set" where
  "stored ops = {(k, v) | e k v. Store_op e k v \<in> set ops}"

lemma stored_simps [simp]:
  "stored [] = {}" "stored (Store_op e k v # ops) = insert (k, v) (stored ops)"
  "stored (Lookup_op e k # ops) = stored ops"
  by (auto simp: stored_def)

text \<open>
  A cache that keeps a shortened form \<open>norm\<close> of its keys answers for every key with that form.
\<close>

locale normalising_cache =
  fixes store :: "'s \<Rightarrow> 'e \<Rightarrow> 'k \<Rightarrow> 'v \<Rightarrow> 's"
    and lookup :: "'s \<Rightarrow> 'e \<Rightarrow> 'k \<Rightarrow> 'v option \<times> 's"
    and holds :: "'s \<Rightarrow> ('k \<times> 'v) set"
    and invar :: "'s \<Rightarrow> bool"
    and norm :: "'k \<Rightarrow> 'k"
  assumes norm_store_holds: "invar s \<Longrightarrow> invar (store s e k v) \<and> holds (store s e k v) \<subseteq> insert (norm k, v) (holds s)"
    and norm_lookup_holds: "invar s \<Longrightarrow> invar (snd (lookup s e k)) \<and> holds (snd (lookup s e k)) \<subseteq> holds s"
    and norm_lookup_sound: "invar s \<Longrightarrow> fst (lookup s e k) = Some v \<Longrightarrow> (k, v) \<in> holds s"
begin

lemma norm_holds_run:
  "invar s \<Longrightarrow> invar (cache_run store lookup s ops) \<and>
    holds (cache_run store lookup s ops) \<subseteq> holds s \<union> (\<lambda>(k, v). (norm k, v)) ` stored ops"
proof (induction ops arbitrary: s)
  case Nil
  then show ?case by simp
next
  case (Cons op ops)
  show ?case
  proof (cases op)
    case (Store_op e k v)
    then show ?thesis using Cons.IH [of "store s e k v"] norm_store_holds [OF Cons.prems, of e k v] by auto
  next
    case (Lookup_op e k)
    then show ?thesis using Cons.IH [of "snd (lookup s e k)"] norm_lookup_holds [OF Cons.prems, of e k] by auto
  qed
qed

text \<open>A cache never makes up an answer: what it returns was stored under a key of that form.\<close>

lemma norm_lookup_was_stored:
  "invar s \<Longrightarrow> holds s = {} \<Longrightarrow> fst (lookup (cache_run store lookup s ops) e k) = Some v \<Longrightarrow>
    \<exists>k'. norm k' = k \<and> (k', v) \<in> stored ops"
  using norm_holds_run [of s ops] norm_lookup_sound [of "cache_run store lookup s ops" e k v] by auto

end

locale coherent_cache =
  fixes store :: "'s \<Rightarrow> 'e \<Rightarrow> 'k \<Rightarrow> 'v \<Rightarrow> 's"
    and lookup :: "'s \<Rightarrow> 'e \<Rightarrow> 'k \<Rightarrow> 'v option \<times> 's"
    and holds :: "'s \<Rightarrow> ('k \<times> 'v) set"
    and invar :: "'s \<Rightarrow> bool"
  assumes store_holds: "invar s \<Longrightarrow> invar (store s e k v) \<and> holds (store s e k v) \<subseteq> insert (k, v) (holds s)"
    and lookup_holds: "invar s \<Longrightarrow> invar (snd (lookup s e k)) \<and> holds (snd (lookup s e k)) \<subseteq> holds s"
    and lookup_sound: "invar s \<Longrightarrow> fst (lookup s e k) = Some v \<Longrightarrow> (k, v) \<in> holds s"

sublocale coherent_cache \<subseteq> exact: normalising_cache store lookup holds invar "\<lambda>k. k"
  by unfold_locales (use store_holds lookup_holds lookup_sound in auto)

context coherent_cache
begin

lemma holds_run:
  "invar s \<Longrightarrow> invar (cache_run store lookup s ops) \<and> holds (cache_run store lookup s ops) \<subseteq> holds s \<union> stored ops"
  using exact.norm_holds_run [of s ops] by auto

lemma lookup_was_stored:
  "invar s \<Longrightarrow> holds s = {} \<Longrightarrow> fst (lookup (cache_run store lookup s ops) e k) = Some v \<Longrightarrow> (k, v) \<in> stored ops"
  using exact.norm_lookup_was_stored by fastforce

end

section \<open>Transition systems with an invariant\<close>

inductive reach :: "('s \<Rightarrow> bool) \<Rightarrow> ('s \<Rightarrow> 's \<Rightarrow> bool) \<Rightarrow> 's \<Rightarrow> bool"
  for init :: "'s \<Rightarrow> bool" and step :: "'s \<Rightarrow> 's \<Rightarrow> bool" where
  reach_init: "init s \<Longrightarrow> reach init step s"
| reach_step: "reach init step s \<Longrightarrow> step s t \<Longrightarrow> reach init step t"

locale invariant_system =
  fixes init :: "'s \<Rightarrow> bool"
    and step :: "'s \<Rightarrow> 's \<Rightarrow> bool"
    and invar :: "'s \<Rightarrow> bool"
  assumes init_invar: "init s \<Longrightarrow> invar s"
    and step_invar: "invar s \<Longrightarrow> step s t \<Longrightarrow> invar t"
begin

lemma reach_invar: "reach init step s \<Longrightarrow> invar s"
  by (induction rule: reach.induct) (auto intro: init_invar step_invar)

end

text \<open>
  A system that carries out another one: each of its steps is a step of the other on the abstract
  states, or changes nothing there.
\<close>

locale simulation = invariant_system init step invar
  for init :: "'s \<Rightarrow> bool"
    and step :: "'s \<Rightarrow> 's \<Rightarrow> bool"
    and invar :: "'s \<Rightarrow> bool" +
  fixes view :: "'s \<Rightarrow> 'a"
    and start :: 'a
    and spec :: "'a \<Rightarrow> 'a \<Rightarrow> bool"
  assumes init_view: "init s \<Longrightarrow> view s = start"
    and step_view: "invar s \<Longrightarrow> step s t \<Longrightarrow> view t = view s \<or> spec (view s) (view t)"
begin

lemma reach_view: "reach init step s \<Longrightarrow> spec\<^sup>*\<^sup>* start (view s)"
proof (induction rule: reach.induct)
  case (reach_step s t)
  then show ?case using step_view [OF reach_invar] by (metis rtranclp.rtrancl_into_rtrancl)
qed (simp add: init_view)

end

end
