(* ===== verification/Work_Queue.thy ===== *)
theory Work_Queue
  imports Interfaces
begin

text \<open>
  The work queue between the dispatcher and the worker threads
  (\<^verbatim>\<open>src/net/work_queue.c\<close>): a circular buffer of raw pointers with \<open>head\<close>, \<open>tail\<close> and
  \<open>count\<close>. Every operation of the C code runs under the queue's mutex, so one operation is one
  atomic step. A pop on an empty queue of a running server waits on the condition variable; this
  is the result \<open>Pop_wait\<close>, which leaves the queue unchanged.

  The queue refines a bounded list (\<open>work_queue_refines_list\<close>) and is an instance of
  \<^theory_text>\<open>bounded_fifo\<close>.
\<close>

section \<open>Model\<close>

definition MINIWEB_QUEUE_CAPACITY :: nat where
  "MINIWEB_QUEUE_CAPACITY = 4096"

record 'a miniweb_work_queue_t =
  wq_items :: "'a option list"
  wq_head :: nat
  wq_tail :: nat
  wq_count :: nat

definition miniweb_work_queue_init :: "'a miniweb_work_queue_t" where
  "miniweb_work_queue_init =
     \<lparr>wq_items = replicate MINIWEB_QUEUE_CAPACITY None, wq_head = 0, wq_tail = 0, wq_count = 0\<rparr>"

definition miniweb_work_queue_push ::
  "'a miniweb_work_queue_t \<Rightarrow> 'a \<Rightarrow> int \<times> 'a miniweb_work_queue_t" where
  "miniweb_work_queue_push q item =
     (if MINIWEB_QUEUE_CAPACITY \<le> wq_count q then (-1, q)
      else (0, q\<lparr>wq_items := (wq_items q)[wq_tail q := Some item],
                 wq_tail := (wq_tail q + 1) mod MINIWEB_QUEUE_CAPACITY,
                 wq_count := wq_count q + 1\<rparr>))"

datatype 'a pop_result = Pop_wait | Pop_null | Pop_item 'a

definition miniweb_work_queue_pop ::
  "'a miniweb_work_queue_t \<Rightarrow> bool \<Rightarrow> 'a pop_result \<times> 'a miniweb_work_queue_t" where
  "miniweb_work_queue_pop q running =
     (if wq_count q = 0 \<and> running then (Pop_wait, q)
      else if wq_count q = 0 then (Pop_null, q)
      else ((case wq_items q ! wq_head q of None \<Rightarrow> Pop_null | Some x \<Rightarrow> Pop_item x),
            q\<lparr>wq_head := (wq_head q + 1) mod MINIWEB_QUEUE_CAPACITY,
              wq_count := wq_count q - 1\<rparr>))"

section \<open>Invariant and abstraction\<close>

definition work_queue_inv :: "'a miniweb_work_queue_t \<Rightarrow> bool" where
  "work_queue_inv q \<longleftrightarrow>
     length (wq_items q) = MINIWEB_QUEUE_CAPACITY \<and>
     wq_head q < MINIWEB_QUEUE_CAPACITY \<and>
     wq_count q \<le> MINIWEB_QUEUE_CAPACITY \<and>
     wq_tail q = (wq_head q + wq_count q) mod MINIWEB_QUEUE_CAPACITY \<and>
     (\<forall>i < wq_count q. wq_items q ! ((wq_head q + i) mod MINIWEB_QUEUE_CAPACITY) \<noteq> None)"

definition work_queue_contents :: "'a miniweb_work_queue_t \<Rightarrow> 'a list" where
  "work_queue_contents q =
     map (\<lambda>i. the (wq_items q ! ((wq_head q + i) mod MINIWEB_QUEUE_CAPACITY))) [0..<wq_count q]"

lemma queue_capacity_pos [simp]: "0 < MINIWEB_QUEUE_CAPACITY"
  by (simp add: MINIWEB_QUEUE_CAPACITY_def)

lemma wq_length_contents [simp]: "length (work_queue_contents q) = wq_count q"
  by (simp add: work_queue_contents_def)

lemma wq_init_inv: "work_queue_inv miniweb_work_queue_init"
  by (simp add: work_queue_inv_def miniweb_work_queue_init_def)

lemma wq_init_contents: "work_queue_contents miniweb_work_queue_init = []"
  by (simp add: work_queue_contents_def miniweb_work_queue_init_def)

text \<open>The cell behind the last item is not one of the occupied cells.\<close>

lemma wq_tail_cell_fresh:
  assumes "work_queue_inv q" "wq_count q < MINIWEB_QUEUE_CAPACITY" "i < wq_count q"
  shows "(wq_head q + i) mod MINIWEB_QUEUE_CAPACITY \<noteq> wq_tail q"
  using assms mod_ring_inj [of i MINIWEB_QUEUE_CAPACITY "wq_count q" "wq_head q"]
  by (auto simp: work_queue_inv_def)

lemma wq_push_room:
  fixes q :: "'a miniweb_work_queue_t" and x :: 'a
  assumes inv: "work_queue_inv q" and room: "wq_count q < MINIWEB_QUEUE_CAPACITY"
  defines "q' \<equiv> snd (miniweb_work_queue_push q x)"
  shows "work_queue_inv q'" "work_queue_contents q' = work_queue_contents q @ [x]"
proof -
  let ?C = MINIWEB_QUEUE_CAPACITY
  have q': "q' = q\<lparr>wq_items := (wq_items q)[wq_tail q := Some x],
      wq_tail := (wq_tail q + 1) mod ?C, wq_count := wq_count q + 1\<rparr>"
    using room by (simp add: q'_def miniweb_work_queue_push_def)
  have old: "(wq_items q)[wq_tail q := Some x] ! ((wq_head q + i) mod ?C) =
      wq_items q ! ((wq_head q + i) mod ?C)" if "i < wq_count q" for i
    using wq_tail_cell_fresh [OF inv room that] by simp
  have new: "(wq_items q)[wq_tail q := Some x] ! ((wq_head q + wq_count q) mod ?C) = Some x"
    using inv by (simp add: work_queue_inv_def)
  show "work_queue_inv q'"
    using inv room old new by (auto simp: q' work_queue_inv_def less_Suc_eq mod_Suc_eq)
  show "work_queue_contents q' = work_queue_contents q @ [x]"
    using old new by (simp add: q' work_queue_contents_def)
qed

lemma wq_pop_nonempty:
  fixes q :: "'a miniweb_work_queue_t" and running :: bool
  assumes inv: "work_queue_inv q" and some: "0 < wq_count q"
  defines "q' \<equiv> snd (miniweb_work_queue_pop q running)"
  shows "work_queue_inv q'"
    "work_queue_contents q = the (wq_items q ! wq_head q) # work_queue_contents q'"
    "fst (miniweb_work_queue_pop q running) = Pop_item (the (wq_items q ! wq_head q))"
proof -
  let ?C = MINIWEB_QUEUE_CAPACITY
  have q': "q' = q\<lparr>wq_head := (wq_head q + 1) mod ?C, wq_count := wq_count q - 1\<rparr>"
    using some by (simp add: q'_def miniweb_work_queue_pop_def)
  have shift: "((wq_head q + 1) mod ?C + i) mod ?C = (wq_head q + Suc i) mod ?C" for i
    by (metis add_Suc_shift mod_add_left_eq plus_1_eq_Suc add.commute)
  have hd: "wq_items q ! wq_head q \<noteq> None"
    using inv some by (force simp: work_queue_inv_def)
  have tail: "((wq_head q + 1) mod ?C + (wq_count q - 1)) mod ?C = (wq_head q + wq_count q) mod ?C"
    using shift [of "wq_count q - 1"] some by simp
  show "work_queue_inv q'"
    using inv some shift tail by (auto simp: q' work_queue_inv_def less_diff_conv)
  have "[0..<wq_count q] = 0 # map Suc [0..<wq_count q - 1]"
    using some by (metis map_Suc_upt upt_conv_Cons Suc_pred' One_nat_def)
  then show "work_queue_contents q = the (wq_items q ! wq_head q) # work_queue_contents q'"
    using inv shift by (simp add: q' work_queue_contents_def work_queue_inv_def)
  show "fst (miniweb_work_queue_pop q running) = Pop_item (the (wq_items q ! wq_head q))"
    using some hd by (auto simp: miniweb_work_queue_pop_def)
qed

section \<open>The queue as a bounded FIFO\<close>

definition push_view :: "'a miniweb_work_queue_t \<Rightarrow> 'a \<Rightarrow> bool \<times> 'a miniweb_work_queue_t" where
  "push_view q x = (let (rc, q') = miniweb_work_queue_push q x in (rc = 0, q'))"

definition pop_view :: "'a miniweb_work_queue_t \<Rightarrow> 'a option \<times> 'a miniweb_work_queue_t" where
  "pop_view q =
     (let (r, q') = miniweb_work_queue_pop q True
      in (case r of Pop_item x \<Rightarrow> Some x | _ \<Rightarrow> None, q'))"

lemma snd_push_view [simp]: "snd (push_view q x) = snd (miniweb_work_queue_push q x)"
  by (simp add: push_view_def split_beta Let_def)

lemma snd_pop_view [simp]: "snd (pop_view q) = snd (miniweb_work_queue_pop q True)"
  by (simp add: pop_view_def split_beta Let_def)

interpretation lq: bounded_fifo miniweb_work_queue_init push_view pop_view work_queue_contents
  MINIWEB_QUEUE_CAPACITY work_queue_inv
proof unfold_locales
  fix q :: "'a miniweb_work_queue_t" and x :: 'a and xs
  show "work_queue_inv miniweb_work_queue_init" by (rule wq_init_inv)
  show "work_queue_contents miniweb_work_queue_init = []" by (rule wq_init_contents)
  show "fst (push_view q x) \<and> work_queue_inv (snd (push_view q x)) \<and>
      work_queue_contents (snd (push_view q x)) = work_queue_contents q @ [x]"
    if "work_queue_inv q" "length (work_queue_contents q) < MINIWEB_QUEUE_CAPACITY"
    using wq_push_room [of q x] that by (simp add: push_view_def miniweb_work_queue_push_def)
  show "push_view q x = (False, q)"
    if "work_queue_inv q" "MINIWEB_QUEUE_CAPACITY \<le> length (work_queue_contents q)"
    using that by (simp add: push_view_def miniweb_work_queue_push_def)
  show "pop_view q = (None, q)" if "work_queue_inv q" "work_queue_contents q = []"
    using that by (simp add: pop_view_def miniweb_work_queue_pop_def work_queue_contents_def)
  show "fst (pop_view q) = Some x \<and> work_queue_inv (snd (pop_view q)) \<and>
      work_queue_contents (snd (pop_view q)) = xs"
    if "work_queue_inv q" "work_queue_contents q = x # xs"
  proof -
    have "0 < wq_count q" using that(2) wq_length_contents [of q] by simp
    then show ?thesis
      using wq_pop_nonempty [OF that(1), of True] that(2)
      by (simp add: pop_view_def split_beta Let_def)
  qed
qed

lemma wq_push_inv [inv_intros]:
  "work_queue_inv q \<Longrightarrow> work_queue_inv (snd (miniweb_work_queue_push q x))"
  using lq.invar_push [of q x] by simp

lemma wq_pop_inv [inv_intros]:
  "work_queue_inv q \<Longrightarrow> work_queue_inv (snd (miniweb_work_queue_pop q running))"
  using wq_pop_nonempty(1) [of q running]
  by (cases "wq_count q = 0") (auto simp: miniweb_work_queue_pop_def)

lemma wq_pop_contents_subset:
  assumes "work_queue_inv q"
  shows "set (work_queue_contents (snd (miniweb_work_queue_pop q running))) \<subseteq> set (work_queue_contents q)"
proof (cases "work_queue_contents q")
  case Nil
  then have "wq_count q = 0" using wq_length_contents [of q] by simp
  then show ?thesis by (simp add: miniweb_work_queue_pop_def)
next
  case (Cons x xs)
  then have "wq_count q \<noteq> 0" using wq_length_contents [of q] by auto
  then have "snd (miniweb_work_queue_pop q running) = snd (pop_view q)"
    by (simp add: miniweb_work_queue_pop_def)
  then show ?thesis using lq.pop_nonempty [OF assms Cons] Cons by auto
qed

lemma wq_push_contents:
  "work_queue_inv q \<Longrightarrow> work_queue_contents (snd (miniweb_work_queue_push q x)) =
     (if fst (miniweb_work_queue_push q x) = 0 then work_queue_contents q @ [x]
      else work_queue_contents q)"
  using lq.contents_push [of q x] by (simp add: push_view_def split_beta Let_def)

lemma wq_pop_result:
  assumes "work_queue_inv q"
  shows "fst (miniweb_work_queue_pop q running) =
    (case work_queue_contents q of
       [] \<Rightarrow> (if running then Pop_wait else Pop_null) | x # xs \<Rightarrow> Pop_item x)"
proof (cases "wq_count q = 0")
  case True
  then show ?thesis by (simp add: miniweb_work_queue_pop_def work_queue_contents_def)
next
  case False
  then show ?thesis using wq_pop_nonempty [OF assms, of running] by simp
qed

section \<open>Properties\<close>

text \<open>
  C10. The work queue is first in, first out and loses nothing: over every interleaving of
  dispatcher pushes and worker pops, starting from the initialised queue, the items accepted are
  the items handed to workers, in the same order, followed by what is still queued; a push is
  refused only when 4096 items are queued.
\<close>

theorem work_queue_refines_list:
  assumes "fifo_run push_view pop_view miniweb_work_queue_init ops = (accepted, delivered, q)"
  shows "accepted = delivered @ work_queue_contents q \<and>
    length (work_queue_contents q) \<le> 4096 \<and>
    (\<forall>x. fst (miniweb_work_queue_push q x) = (if length (work_queue_contents q) < 4096 then 0 else -1))"
proof -
  have run: "accepted = delivered @ work_queue_contents q" and inv: "work_queue_inv q"
    using lq.fifo_run_order [OF wq_init_inv assms] by (simp_all add: wq_init_contents)
  moreover have "length (work_queue_contents q) \<le> 4096"
    using inv by (simp add: work_queue_inv_def MINIWEB_QUEUE_CAPACITY_def)
  ultimately show ?thesis
    by (simp add: miniweb_work_queue_push_def MINIWEB_QUEUE_CAPACITY_def)
qed

theorem work_queue_refines_list_witness:
  "\<exists>q :: nat miniweb_work_queue_t.
     fifo_run push_view pop_view miniweb_work_queue_init [Push_op 7, Push_op 9, Pop_op] = ([7, 9], [7], q) \<and>
     [7, 9] = [7] @ work_queue_contents q"
proof -
  have run: "\<exists>q :: nat miniweb_work_queue_t.
     fifo_run push_view pop_view miniweb_work_queue_init [Push_op 7, Push_op 9, Pop_op] = ([7, 9], [7], q)"
    by (simp add: push_view_def pop_view_def miniweb_work_queue_push_def miniweb_work_queue_pop_def
        miniweb_work_queue_init_def MINIWEB_QUEUE_CAPACITY_def)
  then show ?thesis using work_queue_refines_list by blast
qed

text \<open>
  A worker never sleeps on a queue that has work, and wakes on shutdown: in every state that
  satisfies the queue invariant a pop waits exactly when the queue is empty and the server runs,
  returns NULL exactly when it is empty and the server stops, and otherwise returns the oldest
  item; in particular the pop that follows a successful push never waits.
\<close>

theorem work_queue_pop_total:
  assumes "work_queue_inv q"
  shows "fst (miniweb_work_queue_pop q running) =
      (case work_queue_contents q of
         [] \<Rightarrow> (if running then Pop_wait else Pop_null) | x # xs \<Rightarrow> Pop_item x) \<and>
    (fst (miniweb_work_queue_push q y) = 0 \<longrightarrow>
      fst (miniweb_work_queue_pop (snd (miniweb_work_queue_push q y)) running) =
        Pop_item (hd (work_queue_contents q @ [y])))"
  using wq_pop_result [OF assms, of running] wq_pop_result [OF wq_push_inv [OF assms], of y running]
    wq_push_contents [OF assms, of y]
  by (auto split: list.splits)

theorem work_queue_pop_total_witness:
  "fst (miniweb_work_queue_pop (miniweb_work_queue_init :: nat miniweb_work_queue_t) True) = Pop_wait \<and>
   fst (miniweb_work_queue_pop (snd (miniweb_work_queue_push miniweb_work_queue_init (5 :: nat))) True) =
     Pop_item 5"
  using work_queue_pop_total [OF wq_init_inv, of True "5 :: nat"]
  by (simp add: wq_init_contents miniweb_work_queue_push_def miniweb_work_queue_init_def
      MINIWEB_QUEUE_CAPACITY_def work_queue_contents_def)

end
