(* ===== verification/Connection_Pool.thy ===== *)
theory Connection_Pool
  imports Interfaces
begin

text \<open>
  The connection pool (\<^verbatim>\<open>src/net/connection_pool.c\<close>): a table indexed by file descriptor that
  points into an array of connection objects, a free stack of array slots, and a generation
  counter per descriptor. A \<^verbatim>\<open>miniweb_connection_t *\<close> is the index of its slot. The time is a
  parameter, the value the call of \<^verbatim>\<open>time(NULL)\<close> returns. The buffer of a connection is the list
  of bytes in front of the NUL the workers keep behind \<open>bytes_read\<close>.

  \<open>conn_pool_inv\<close> ties the four tables together; every operation keeps it, the pool is a
  \<^theory_text>\<open>slot_allocator\<close>, and the staleness test is characterised.
\<close>

section \<open>Model\<close>

definition MINIWEB_MAX_CONNECTIONS :: nat where
  "MINIWEB_MAX_CONNECTIONS = 4096"

definition MINIWEB_REQUEST_BUFFER_SIZE :: nat where
  "MINIWEB_REQUEST_BUFFER_SIZE = 16384"

record sockaddr_in =
  sin_addr :: "32 word"
  sin_port :: "16 word"

record miniweb_connection_t =
  conn_fd :: int
  conn_addr :: sockaddr_in
  conn_buffer :: bytes
  conn_bytes_read :: nat
  conn_created :: int
  conn_last_activity :: int
  conn_requests_served :: int
  conn_gen :: "32 word"

definition zero_connection :: miniweb_connection_t where
  "zero_connection =
     \<lparr>conn_fd = 0, conn_addr = \<lparr>sin_addr = 0, sin_port = 0\<rparr>, conn_buffer = [], conn_bytes_read = 0,
      conn_created = 0, conn_last_activity = 0, conn_requests_served = 0, conn_gen = 0\<rparr>"

record miniweb_connection_pool_t =
  cp_connections :: "nat option list"
  cp_conn_gen :: "32 word list"
  cp_active_connections :: int
  cp_pool :: "miniweb_connection_t list"
  cp_free_stack :: "nat list"
  cp_free_top :: nat

definition miniweb_connection_pool_init :: miniweb_connection_pool_t where
  "miniweb_connection_pool_init =
     \<lparr>cp_connections = replicate MINIWEB_MAX_CONNECTIONS None,
      cp_conn_gen = replicate MINIWEB_MAX_CONNECTIONS 0,
      cp_active_connections = 0,
      cp_pool = replicate MINIWEB_MAX_CONNECTIONS zero_connection,
      cp_free_stack = map (\<lambda>i. MINIWEB_MAX_CONNECTIONS - 1 - i) [0..<MINIWEB_MAX_CONNECTIONS],
      cp_free_top = MINIWEB_MAX_CONNECTIONS\<rparr>"

definition fd_in_range :: "int \<Rightarrow> bool" where
  "fd_in_range fd \<longleftrightarrow> 0 \<le> fd \<and> fd < int MINIWEB_MAX_CONNECTIONS"

definition miniweb_connection_alloc ::
  "miniweb_connection_pool_t \<Rightarrow> int \<Rightarrow> sockaddr_in option \<Rightarrow> int \<Rightarrow> int \<Rightarrow>
    nat option \<times> miniweb_connection_pool_t" where
  "miniweb_connection_alloc p fd addr max_conns now =
     (if \<not> fd_in_range fd then (None, p)
      else if max_conns \<le> cp_active_connections p \<or> cp_connections p ! nat fd \<noteq> None \<or> cp_free_top p = 0
      then (None, p)
      else
        (let top = cp_free_top p - 1;
             slot = cp_free_stack p ! top;
             conn = zero_connection
               \<lparr>conn_fd := fd, conn_created := now, conn_last_activity := now,
                conn_gen := cp_conn_gen p ! nat fd,
                conn_addr := (case addr of Some a \<Rightarrow> a | None \<Rightarrow> conn_addr zero_connection)\<rparr>
         in (Some slot,
             p\<lparr>cp_free_top := top,
               cp_pool := (cp_pool p)[slot := conn],
               cp_connections := (cp_connections p)[nat fd := Some slot],
               cp_active_connections := cp_active_connections p + 1\<rparr>)))"

definition miniweb_connection_free ::
  "miniweb_connection_pool_t \<Rightarrow> int \<Rightarrow> miniweb_connection_pool_t" where
  "miniweb_connection_free p fd =
     (if \<not> fd_in_range fd then p
      else (case cp_connections p ! nat fd of
        None \<Rightarrow> p
      | Some slot \<Rightarrow>
          (let p1 = (if slot < MINIWEB_MAX_CONNECTIONS
                     then (let q = p\<lparr>cp_pool := (cp_pool p)[slot := zero_connection]\<rparr>
                           in if cp_free_top q < MINIWEB_MAX_CONNECTIONS
                              then q\<lparr>cp_free_stack := (cp_free_stack q)[cp_free_top q := slot],
                                     cp_free_top := cp_free_top q + 1\<rparr>
                              else q)
                     else p)
           in p1\<lparr>cp_connections := (cp_connections p1)[nat fd := None],
                 cp_conn_gen := (cp_conn_gen p1)[nat fd := cp_conn_gen p1 ! nat fd + 1],
                 cp_active_connections :=
                   (if 0 < cp_active_connections p1 then cp_active_connections p1 - 1
                    else cp_active_connections p1)\<rparr>)))"

definition miniweb_connection_is_stale ::
  "miniweb_connection_pool_t \<Rightarrow> int \<Rightarrow> nat option \<Rightarrow> bool" where
  "miniweb_connection_is_stale p fd conn =
     (case conn of
        None \<Rightarrow> True
      | Some slot \<Rightarrow> cp_connections p ! nat fd \<noteq> Some slot \<or>
                     conn_gen (cp_pool p ! slot) \<noteq> cp_conn_gen p ! nat fd)"

section \<open>Invariant\<close>

definition conn_at :: "miniweb_connection_pool_t \<Rightarrow> int \<Rightarrow> nat option" where
  "conn_at p fd = (if fd_in_range fd then cp_connections p ! nat fd else None)"

definition free_slots :: "miniweb_connection_pool_t \<Rightarrow> nat list" where
  "free_slots p = take (cp_free_top p) (cp_free_stack p)"

definition count_used :: "'a option list \<Rightarrow> nat" where
  "count_used xs = length (filter (\<lambda>x. x \<noteq> None) xs)"

definition conn_pool_inv :: "miniweb_connection_pool_t \<Rightarrow> bool" where
  "conn_pool_inv p \<longleftrightarrow>
     length (cp_connections p) = MINIWEB_MAX_CONNECTIONS \<and>
     length (cp_conn_gen p) = MINIWEB_MAX_CONNECTIONS \<and>
     length (cp_pool p) = MINIWEB_MAX_CONNECTIONS \<and>
     length (cp_free_stack p) = MINIWEB_MAX_CONNECTIONS \<and>
     cp_free_top p + count_used (cp_connections p) = MINIWEB_MAX_CONNECTIONS \<and>
     cp_active_connections p = int (count_used (cp_connections p)) \<and>
     distinct (free_slots p) \<and>
     (\<forall>s \<in> set (free_slots p). s < MINIWEB_MAX_CONNECTIONS) \<and>
     (\<forall>fd slot. conn_at p fd = Some slot \<longrightarrow>
        slot < MINIWEB_MAX_CONNECTIONS \<and> slot \<notin> set (free_slots p) \<and>
        conn_fd (cp_pool p ! slot) = fd \<and> conn_gen (cp_pool p ! slot) = cp_conn_gen p ! nat fd)"

lemma max_connections_pos [simp]: "0 < MINIWEB_MAX_CONNECTIONS"
  by (simp add: MINIWEB_MAX_CONNECTIONS_def)

lemma fd_in_range_nat: "fd_in_range fd \<Longrightarrow> nat fd < MINIWEB_MAX_CONNECTIONS"
  by (auto simp: fd_in_range_def)

lemma fd_in_range_inj: "fd_in_range fd \<Longrightarrow> fd_in_range fd' \<Longrightarrow> nat fd = nat fd' \<longleftrightarrow> fd = fd'"
  by (auto simp: fd_in_range_def)

text \<open>What the invariant says of a descriptor in use.\<close>

lemma conn_pool_liveD:
  assumes "conn_pool_inv p" "conn_at p fd = Some slot"
  shows "slot < MINIWEB_MAX_CONNECTIONS" "slot \<notin> set (free_slots p)"
    "conn_fd (cp_pool p ! slot) = fd" "conn_gen (cp_pool p ! slot) = cp_conn_gen p ! nat fd"
  using assms by (simp_all add: conn_pool_inv_def)

lemma conn_at_inj:
  "conn_pool_inv p \<Longrightarrow> conn_at p fd = Some slot \<Longrightarrow> conn_at p fd' = Some slot \<Longrightarrow> fd = fd'"
  using conn_pool_liveD(3) by metis

lemma count_used_Nil [simp]: "count_used [] = 0"
  by (simp add: count_used_def)

lemma count_used_Cons [simp]: "count_used (x # xs) = (if x = None then 0 else 1) + count_used xs"
  by (simp add: count_used_def)

lemma count_used_update:
  "i < length xs \<Longrightarrow>
   count_used (xs[i := x]) + (if xs ! i = None then 0 else 1) = count_used xs + (if x = None then 0 else 1)"
proof (induction xs arbitrary: i)
  case Nil
  then show ?case by simp
next
  case (Cons a xs)
  then show ?case by (cases i) (simp_all split: if_splits)
qed

lemma count_used_le: "count_used xs \<le> length xs"
  by (simp add: count_used_def)

lemma count_used_pos: "i < length xs \<Longrightarrow> xs ! i \<noteq> None \<Longrightarrow> 0 < count_used xs"
  using count_used_update [of i xs None] by (simp split: if_splits)

lemma count_used_replicate [simp]: "count_used (replicate n None) = 0"
  by (simp add: count_used_def)

lemma count_used_full:
  assumes "i < length xs" "xs ! i = None"
  shows "count_used xs < length xs"
  using count_used_update [OF assms(1), of "Some undefined"] count_used_le [of "xs[i := Some undefined]"]
    assms(2) by simp

lemma distinct_rev_upt_map: "distinct (map (\<lambda>i. n - Suc i) [0..<n])"
  by (auto simp: distinct_map inj_on_def)

lemma conn_pool_init_inv: "conn_pool_inv miniweb_connection_pool_init"
  using distinct_rev_upt_map [of MINIWEB_MAX_CONNECTIONS]
  by (auto simp: conn_pool_inv_def miniweb_connection_pool_init_def conn_at_def free_slots_def
      fd_in_range_nat)

lemma conn_at_init [simp]: "conn_at miniweb_connection_pool_init fd = None"
  by (simp add: conn_at_def miniweb_connection_pool_init_def fd_in_range_nat)

subsection \<open>Allocation\<close>

text \<open>
  A slot is handed out exactly when the descriptor fits the table, is not in use and the
  configured limit is not reached; the guard on the empty free stack is then never the reason
  for a refusal.
\<close>

lemma alloc_accepts_iff:
  assumes "conn_pool_inv p"
  shows "fst (miniweb_connection_alloc p fd addr mx now) \<noteq> None \<longleftrightarrow>
    fd_in_range fd \<and> cp_active_connections p < mx \<and> conn_at p fd = None"
proof -
  have "cp_free_top p \<noteq> 0" if "fd_in_range fd" "cp_connections p ! nat fd = None"
    using count_used_full [of "nat fd" "cp_connections p"] that assms fd_in_range_nat [of fd]
    by (auto simp: conn_pool_inv_def)
  then show ?thesis
    by (cases "cp_connections p ! nat fd")
      (auto simp: miniweb_connection_alloc_def Let_def conn_at_def not_le)
qed

lemma alloc_None_same: "fst (miniweb_connection_alloc p fd addr mx now) = None \<Longrightarrow>
    snd (miniweb_connection_alloc p fd addr mx now) = p"
  by (auto simp: miniweb_connection_alloc_def Let_def split: if_splits)

lemma alloc_Some_state:
  assumes "fst (miniweb_connection_alloc p fd addr mx now) = Some slot"
  shows "fd_in_range fd" "cp_connections p ! nat fd = None" "0 < cp_free_top p"
    "cp_active_connections p < mx"
    "slot = cp_free_stack p ! (cp_free_top p - 1)"
    "snd (miniweb_connection_alloc p fd addr mx now) =
       p\<lparr>cp_free_top := cp_free_top p - 1,
         cp_pool := (cp_pool p)[slot := zero_connection
               \<lparr>conn_fd := fd, conn_created := now, conn_last_activity := now,
                conn_gen := cp_conn_gen p ! nat fd,
                conn_addr := (case addr of Some a \<Rightarrow> a | None \<Rightarrow> conn_addr zero_connection)\<rparr>],
         cp_connections := (cp_connections p)[nat fd := Some slot],
         cp_active_connections := cp_active_connections p + 1\<rparr>"
  using assms by (auto simp: miniweb_connection_alloc_def Let_def split: if_splits)

lemma free_slots_last:
  assumes "conn_pool_inv p" "0 < cp_free_top p"
  shows "free_slots p =
    take (cp_free_top p - 1) (cp_free_stack p) @ [cp_free_stack p ! (cp_free_top p - 1)]"
proof -
  have "cp_free_top p - 1 < length (cp_free_stack p)"
    using assms by (auto simp: conn_pool_inv_def)
  then show ?thesis
    using assms(2) take_Suc_conv_app_nth [of "cp_free_top p - 1" "cp_free_stack p"]
    by (simp add: free_slots_def)
qed

lemma alloc_Some_inv:
  assumes inv: "conn_pool_inv p" and some: "fst (miniweb_connection_alloc p fd addr mx now) = Some slot"
  defines "p' \<equiv> snd (miniweb_connection_alloc p fd addr mx now)"
  shows "conn_pool_inv p'" "conn_at p fd = None" "conn_at p' = (conn_at p)(fd \<mapsto> slot)"
    "free_slots p = free_slots p' @ [slot]"
proof -
  note st = alloc_Some_state [OF some]
  have rng: "nat fd < length (cp_connections p)"
    using inv st(1) by (simp add: conn_pool_inv_def fd_in_range_nat)
  show fs: "free_slots p = free_slots p' @ [slot]"
    using free_slots_last [OF inv st(3)] st(5,6) by (simp add: p'_def free_slots_def)
  then have slot: "slot < MINIWEB_MAX_CONNECTIONS" "slot \<notin> set (free_slots p')" "distinct (free_slots p')"
    using inv by (auto simp: conn_pool_inv_def)
  show "conn_at p fd = None" using st(1,2) by (simp add: conn_at_def)
  show at: "conn_at p' = (conn_at p)(fd \<mapsto> slot)"
    using st(1,6) rng by (auto simp: p'_def conn_at_def fd_in_range_inj)
  have "count_used (cp_connections p') = Suc (count_used (cp_connections p))"
    using count_used_update [OF rng, of "Some slot"] st(2,6) by (simp add: p'_def)
  moreover have "slot' < MINIWEB_MAX_CONNECTIONS \<and> slot' \<notin> set (free_slots p') \<and>
      conn_fd (cp_pool p' ! slot') = fd' \<and> conn_gen (cp_pool p' ! slot') = cp_conn_gen p' ! nat fd'"
    if "conn_at p' fd' = Some slot'" for fd' slot'
  proof (cases "fd' = fd")
    case True
    then show ?thesis
      using that slot at st(6) inv by (simp add: p'_def conn_pool_inv_def)
  next
    case False
    then have "conn_at p fd' = Some slot'" using that at by simp
    note live = conn_pool_liveD [OF inv this]
    then have "slot' \<noteq> slot" "slot' \<notin> set (free_slots p')" using fs by auto
    then show ?thesis using live st(6) by (simp add: p'_def)
  qed
  moreover have "\<forall>s \<in> set (free_slots p'). s < MINIWEB_MAX_CONNECTIONS"
    using inv fs by (auto simp: conn_pool_inv_def)
  ultimately show "conn_pool_inv p'"
    using inv slot(3) st(3,6) unfolding conn_pool_inv_def by (simp add: p'_def)
qed

lemma alloc_inv [inv_intros]:
  "conn_pool_inv p \<Longrightarrow> conn_pool_inv (snd (miniweb_connection_alloc p fd addr mx now))"
  using alloc_Some_inv(1) [of p fd addr mx now] alloc_None_same [of p fd addr mx now]
  by (cases "fst (miniweb_connection_alloc p fd addr mx now)") auto

subsection \<open>Release\<close>

lemma free_unused: "conn_at p fd = None \<Longrightarrow> miniweb_connection_free p fd = p"
  by (auto simp: miniweb_connection_free_def conn_at_def)

lemma free_state:
  assumes inv: "conn_pool_inv p" and at: "conn_at p fd = Some slot"
  shows "miniweb_connection_free p fd =
    p\<lparr>cp_pool := (cp_pool p)[slot := zero_connection],
      cp_free_stack := (cp_free_stack p)[cp_free_top p := slot],
      cp_free_top := cp_free_top p + 1,
      cp_connections := (cp_connections p)[nat fd := None],
      cp_conn_gen := (cp_conn_gen p)[nat fd := cp_conn_gen p ! nat fd + 1],
      cp_active_connections := cp_active_connections p - 1\<rparr>"
proof -
  have rng: "fd_in_range fd" "cp_connections p ! nat fd = Some slot"
    using at by (auto simp: conn_at_def split: if_splits)
  then have "0 < count_used (cp_connections p)"
    using inv count_used_pos [of "nat fd" "cp_connections p"]
    by (auto simp: conn_pool_inv_def fd_in_range_nat)
  moreover have "slot < MINIWEB_MAX_CONNECTIONS"
    using inv at by (auto simp: conn_pool_inv_def)
  ultimately show ?thesis
    using inv rng by (auto simp: miniweb_connection_free_def Let_def conn_pool_inv_def)
qed

lemma free_used_inv:
  fixes p :: miniweb_connection_pool_t and fd :: int
  assumes inv: "conn_pool_inv p" and at: "conn_at p fd = Some slot"
  defines "p' \<equiv> miniweb_connection_free p fd"
  shows "conn_pool_inv p'" "conn_at p' = (conn_at p)(fd := None)"
    "free_slots p' = free_slots p @ [slot]"
proof -
  note st = free_state [OF inv at]
  have rng: "fd_in_range fd" "cp_connections p ! nat fd = Some slot"
    using at by (auto simp: conn_at_def split: if_splits)
  then have fd: "nat fd < length (cp_connections p)"
    using inv by (simp add: conn_pool_inv_def fd_in_range_nat)
  have used: "count_used (cp_connections p) = Suc (count_used (cp_connections p'))"
    using count_used_update [OF fd, of None] rng(2) by (simp add: p'_def st)
  have top: "cp_free_top p < length (cp_free_stack p)"
    using inv used by (auto simp: conn_pool_inv_def)
  show fs: "free_slots p' = free_slots p @ [slot]"
    using top take_Suc_conv_app_nth [of "cp_free_top p" "(cp_free_stack p)[cp_free_top p := slot]"]
    by (simp add: p'_def st free_slots_def)
  show at': "conn_at p' = (conn_at p)(fd := None)"
    using rng fd by (auto simp: p'_def st conn_at_def fd_in_range_inj)
  have other: "slot' \<noteq> slot \<and> nat fd' \<noteq> nat fd" if "conn_at p fd' = Some slot'" "fd' \<noteq> fd" for fd' slot'
    using conn_at_inj [OF inv, of fd' slot fd] that at rng(1)
    by (auto simp: fd_in_range_inj conn_at_def split: if_splits)
  have "slot' < MINIWEB_MAX_CONNECTIONS \<and> slot' \<notin> set (free_slots p') \<and>
      conn_fd (cp_pool p' ! slot') = fd' \<and> conn_gen (cp_pool p' ! slot') = cp_conn_gen p' ! nat fd'"
    if "conn_at p' fd' = Some slot'" for fd' slot'
  proof -
    have ne: "fd' \<noteq> fd" and old: "conn_at p fd' = Some slot'"
      using that at' by (auto split: if_splits)
    then show ?thesis
      using conn_pool_liveD [OF inv old] other [OF old ne] by (auto simp: fs) (auto simp: p'_def st)
  qed
  moreover have "\<forall>s \<in> set (free_slots p'). s < MINIWEB_MAX_CONNECTIONS" "distinct (free_slots p')"
    using inv conn_pool_liveD(1,2) [OF inv at] by (auto simp: fs conn_pool_inv_def)
  moreover have "length (cp_connections p') = length (cp_connections p)"
    "length (cp_conn_gen p') = length (cp_conn_gen p)" "length (cp_pool p') = length (cp_pool p)"
    "length (cp_free_stack p') = length (cp_free_stack p)" "cp_free_top p' = cp_free_top p + 1"
    "cp_active_connections p' = cp_active_connections p - 1"
    by (simp_all add: p'_def st)
  ultimately show "conn_pool_inv p'"
    using inv used unfolding conn_pool_inv_def by simp
qed

lemma free_inv [inv_intros]:
  "conn_pool_inv p \<Longrightarrow> conn_pool_inv (miniweb_connection_free p fd)"
  using free_used_inv(1) [of p fd] free_unused [of p fd] by (cases "conn_at p fd") auto

lemma conn_at_free: "conn_pool_inv p \<Longrightarrow> conn_at (miniweb_connection_free p fd) = (conn_at p)(fd := None)"
  using free_used_inv(2) [of p fd] free_unused [of p fd] by (cases "conn_at p fd") auto

subsection \<open>Updates of a connection in place\<close>

text \<open>The workers write the buffer and the counters of a connection, never its owner.\<close>

definition update_conn ::
  "nat \<Rightarrow> (miniweb_connection_t \<Rightarrow> miniweb_connection_t) \<Rightarrow> miniweb_connection_pool_t \<Rightarrow>
    miniweb_connection_pool_t" where
  "update_conn slot f p = p\<lparr>cp_pool := (cp_pool p)[slot := f (cp_pool p ! slot)]\<rparr>"

lemma conn_at_update [simp]: "conn_at (update_conn slot f p) = conn_at p"
  by (auto simp: conn_at_def update_conn_def)

lemma update_conn_inv [inv_intros]:
  assumes "conn_pool_inv p" "\<And>c. conn_fd (f c) = conn_fd c" "\<And>c. conn_gen (f c) = conn_gen c"
  shows "conn_pool_inv (update_conn slot f p)"
proof -
  have "conn_fd ((cp_pool p)[slot := f (cp_pool p ! slot)] ! s) = conn_fd (cp_pool p ! s) \<and>
      conn_gen ((cp_pool p)[slot := f (cp_pool p ! slot)] ! s) = conn_gen (cp_pool p ! s)"
    if "s < length (cp_pool p)" for s
    using that assms(2,3) by (cases "s = slot") auto
  moreover have "free_slots (update_conn slot f p) = free_slots p"
    by (simp add: free_slots_def update_conn_def)
  ultimately show ?thesis
    using assms(1) conn_pool_liveD(1) [OF assms(1)] conn_at_update [of slot f p]
    unfolding conn_pool_inv_def by (simp add: update_conn_def)
qed

section \<open>The pool as a slot allocator\<close>

definition pool_alloc_view ::
  "miniweb_connection_pool_t \<Rightarrow> int \<times> sockaddr_in option \<times> int \<times> int \<Rightarrow>
    (int \<times> nat) option \<times> miniweb_connection_pool_t" where
  "pool_alloc_view p a =
     (case a of (fd, addr, mx, now) \<Rightarrow>
        (let (r, p') = miniweb_connection_alloc p fd addr mx now
         in (map_option (\<lambda>slot. (fd, slot)) r, p')))"

interpretation cp: slot_allocator pool_alloc_view miniweb_connection_free conn_at
  MINIWEB_MAX_CONNECTIONS conn_pool_inv
proof unfold_locales
  fix p :: miniweb_connection_pool_t and k k' :: int and s :: nat
    and a :: "int \<times> sockaddr_in option \<times> int \<times> int"
  obtain fd addr mx now where a: "a = (fd, addr, mx, now)" by (cases a)
  show "k = k'" if "conn_pool_inv p" "conn_at p k = Some s" "conn_at p k' = Some s"
    using that by (rule conn_at_inj)
  show "s < MINIWEB_MAX_CONNECTIONS" if "conn_pool_inv p" "conn_at p k = Some s"
    using that by (rule conn_pool_liveD(1))
  show "conn_pool_inv (snd (pool_alloc_view p a)) \<and> conn_at p k = None \<and>
      conn_at (snd (pool_alloc_view p a)) = (conn_at p)(k \<mapsto> s)"
    if "conn_pool_inv p" "fst (pool_alloc_view p a) = Some (k, s)"
    using alloc_Some_inv [OF that(1), of fd addr mx now s] that(2)
    by (auto simp: pool_alloc_view_def a split_beta Let_def)
  show "conn_pool_inv (snd (pool_alloc_view p a)) \<and> conn_at (snd (pool_alloc_view p a)) = conn_at p"
    if "conn_pool_inv p" "fst (pool_alloc_view p a) = None"
    using alloc_None_same [of p fd addr mx now] that
    by (auto simp: pool_alloc_view_def a split_beta Let_def)
  show "conn_pool_inv (miniweb_connection_free p k) \<and>
      conn_at (miniweb_connection_free p k) = (conn_at p)(k := None)"
    if "conn_pool_inv p" "conn_at p k \<noteq> None"
    using that conn_at_free free_inv by blast
qed

lemma stale_iff:
  assumes "conn_pool_inv p" "fd_in_range fd"
  shows "miniweb_connection_is_stale p fd conn \<longleftrightarrow> conn = None \<or> conn_at p fd \<noteq> conn"
  using assms by (auto simp: miniweb_connection_is_stale_def conn_pool_inv_def conn_at_def split: option.splits)

lemma dom_conn_at: "dom (conn_at p) = int ` {i. i < MINIWEB_MAX_CONNECTIONS \<and> cp_connections p ! i \<noteq> None}"
proof
  show "dom (conn_at p) \<subseteq> int ` {i. i < MINIWEB_MAX_CONNECTIONS \<and> cp_connections p ! i \<noteq> None}"
  proof
    fix fd assume "fd \<in> dom (conn_at p)"
    then have "fd = int (nat fd)" "nat fd < MINIWEB_MAX_CONNECTIONS" "cp_connections p ! nat fd \<noteq> None"
      by (auto simp: conn_at_def fd_in_range_def split: if_splits)
    then show "fd \<in> int ` {i. i < MINIWEB_MAX_CONNECTIONS \<and> cp_connections p ! i \<noteq> None}" by blast
  qed
  show "int ` {i. i < MINIWEB_MAX_CONNECTIONS \<and> cp_connections p ! i \<noteq> None} \<subseteq> dom (conn_at p)"
    by (auto simp: conn_at_def fd_in_range_def)
qed

lemma card_conn_at: "conn_pool_inv p \<Longrightarrow> int (card (dom (conn_at p))) = cp_active_connections p"
  unfolding dom_conn_at
  by (simp add: card_image conn_pool_inv_def count_used_def length_filter_conv_card)

section \<open>Properties\<close>

text \<open>
  The pool never gives one connection object to two sockets: after any sequence of
  allocations and releases from the initialised pool, different descriptors use different slots
  inside the array, the counter of active connections is their number and is at most 4096, and
  whatever slot the next allocation returns is in nobody's use.
\<close>

theorem connection_pool_exclusive:
  defines "after \<equiv> \<lambda>ops. slot_run pool_alloc_view miniweb_connection_free conn_at
    miniweb_connection_pool_init ops"
  shows "inj_on (conn_at (after ops)) (dom (conn_at (after ops))) \<and>
    ran (conn_at (after ops)) \<subseteq> {..<4096} \<and>
    cp_active_connections (after ops) = int (card (dom (conn_at (after ops)))) \<and>
    cp_active_connections (after ops) \<le> 4096 \<and>
    (case fst (miniweb_connection_alloc (after ops) fd addr mx now) of
       None \<Rightarrow> snd (miniweb_connection_alloc (after ops) fd addr mx now) = after ops
     | Some slot \<Rightarrow> slot \<notin> ran (conn_at (after ops)))"
proof -
  have inv: "conn_pool_inv (after ops)"
    unfolding after_def by (rule cp.invar_slot_run [OF conn_pool_init_inv])
  have "card (dom (conn_at (after ops))) \<le> 4096"
    using cp.live_finite_inj(2) [OF inv] by (simp add: MINIWEB_MAX_CONNECTIONS_def)
  moreover have "ran (conn_at (after ops)) \<subseteq> {..<4096}"
    using cp.live_bound [OF inv] by (auto simp: ran_def MINIWEB_MAX_CONNECTIONS_def)
  moreover have "case fst (miniweb_connection_alloc (after ops) fd addr mx now) of
       None \<Rightarrow> snd (miniweb_connection_alloc (after ops) fd addr mx now) = after ops
     | Some slot \<Rightarrow> slot \<notin> ran (conn_at (after ops))"
    using cp.alloc_fresh(1) [OF inv, of "(fd, addr, mx, now)"] alloc_None_same
    by (auto simp: pool_alloc_view_def split_beta Let_def split: option.splits)
  ultimately show ?thesis
    using cp.live_finite_inj(1) [OF inv] card_conn_at [OF inv] by simp
qed

text \<open>
  When a slot is handed out: in every consistent pool an accepted descriptor gets a
  connection exactly when it is below 4096, has no connection yet and fewer than
  \<^verbatim>\<open>max_conns\<close> connections are active; the new object starts with an empty buffer, no request
  served and the descriptor's current generation, and no other descriptor is affected.
\<close>

theorem connection_alloc_spec:
  assumes "conn_pool_inv p"
  shows "(case miniweb_connection_alloc p fd addr mx now of
     (None, p') \<Rightarrow> p' = p \<and> \<not> (0 \<le> fd \<and> fd < 4096 \<and> conn_at p fd = None \<and> cp_active_connections p < mx)
   | (Some slot, p') \<Rightarrow>
       0 \<le> fd \<and> fd < 4096 \<and> conn_at p fd = None \<and> cp_active_connections p < mx \<and>
       conn_pool_inv p' \<and> conn_at p' = (conn_at p)(fd \<mapsto> slot) \<and>
       cp_active_connections p' = cp_active_connections p + 1 \<and>
       conn_bytes_read (cp_pool p' ! slot) = 0 \<and> conn_buffer (cp_pool p' ! slot) = [] \<and>
       conn_requests_served (cp_pool p' ! slot) = 0 \<and> conn_last_activity (cp_pool p' ! slot) = now \<and>
       conn_gen (cp_pool p' ! slot) = cp_conn_gen p ! nat fd)"
proof (cases "fst (miniweb_connection_alloc p fd addr mx now)")
  case None
  then show ?thesis
    using alloc_accepts_iff [OF assms, of fd addr mx now] alloc_None_same [OF None]
    by (auto simp: fd_in_range_def MINIWEB_MAX_CONNECTIONS_def split: prod.splits)
next
  case (Some slot)
  note st = alloc_Some_state [OF Some] and new = alloc_Some_inv [OF assms Some]
  have "slot < length (cp_pool p)"
    using cp.live_bound [OF new(1), of fd slot] new(1,3) assms by (simp add: conn_pool_inv_def)
  then show ?thesis
    using Some st new by (auto simp: fd_in_range_def MINIWEB_MAX_CONNECTIONS_def zero_connection_def
        split: prod.splits)
qed

theorem connection_alloc_spec_witness:
  "\<exists>p'. miniweb_connection_alloc miniweb_connection_pool_init 5 None 10 100 = (Some 0, p') \<and>
     conn_at p' = (conn_at miniweb_connection_pool_init)(5 \<mapsto> 0) \<and> cp_active_connections p' = 1"
proof -
  have "fst (miniweb_connection_alloc miniweb_connection_pool_init 5 None 10 100) = Some 0"
    by (simp add: miniweb_connection_alloc_def miniweb_connection_pool_init_def fd_in_range_def
        MINIWEB_MAX_CONNECTIONS_def Let_def)
  moreover have "cp_active_connections miniweb_connection_pool_init = 0"
    by (simp add: miniweb_connection_pool_init_def)
  ultimately show ?thesis
    using connection_alloc_spec [OF conn_pool_init_inv, where fd = 5 and addr = None and mx = 10 and now = 100]
    by (auto split: prod.splits)
qed

text \<open>
  What the staleness test of an event or queue entry decides: in every consistent pool the
  comparison of generations never changes the answer. A pointer is reported stale exactly when
  it is NULL or no longer the connection of that descriptor.
\<close>

theorem stale_check_is_ownership:
  assumes "conn_pool_inv p" "0 \<le> fd" "fd < 4096"
  shows "miniweb_connection_is_stale p fd conn \<longleftrightarrow> conn = None \<or> conn_at p fd \<noteq> conn"
  using assms stale_iff [of p fd conn] by (simp add: fd_in_range_def MINIWEB_MAX_CONNECTIONS_def)

theorem stale_check_is_ownership_witness:
  "miniweb_connection_is_stale miniweb_connection_pool_init 7 (Some 3)"
  using stale_check_is_ownership [OF conn_pool_init_inv, of 7 "Some 3"] by simp

text \<open>
  A recycled pointer passes the staleness test: when a connection is released and the same
  descriptor number is accepted next, the free stack returns the same slot, and the pointer kept
  from before the release (in a queue entry or an event) is not reported stale although the
  generation of the descriptor has advanced.
\<close>

theorem stale_check_misses_reuse:
  assumes "conn_pool_inv p" "conn_at p fd = Some slot" "cp_active_connections p \<le> mx"
  defines "freed \<equiv> miniweb_connection_free p fd"
  shows "fst (miniweb_connection_alloc freed fd addr mx now) = Some slot \<and>
    \<not> miniweb_connection_is_stale (snd (miniweb_connection_alloc freed fd addr mx now)) fd (Some slot) \<and>
    cp_conn_gen freed ! nat fd = cp_conn_gen p ! nat fd + 1"
proof -
  note st = free_state [OF assms(1,2)] and f = free_used_inv [OF assms(1,2)]
  have rng: "fd_in_range fd" using assms(2) by (auto simp: conn_at_def split: if_splits)
  have "fst (miniweb_connection_alloc freed fd addr mx now) \<noteq> None"
    using alloc_accepts_iff [OF f(1), of fd addr mx now] f(2) rng assms(3) st by (simp add: freed_def)
  then obtain s where s: "fst (miniweb_connection_alloc freed fd addr mx now) = Some s" by auto
  note new = alloc_Some_inv [OF f(1) s [unfolded freed_def]]
  have "s = slot" using new(4) f(3) by simp
  moreover have "\<not> miniweb_connection_is_stale (snd (miniweb_connection_alloc freed fd addr mx now)) fd (Some s)"
    using stale_iff [OF new(1) rng] new(3) by (simp add: freed_def)
  moreover have "cp_conn_gen freed ! nat fd = cp_conn_gen p ! nat fd + 1"
    using st rng assms(1) by (simp add: freed_def conn_pool_inv_def fd_in_range_nat)
  ultimately show ?thesis using s by simp
qed

theorem stale_check_misses_reuse_witness:
  "\<exists>p. conn_pool_inv p \<and> conn_at p 5 = Some 0 \<and>
     \<not> miniweb_connection_is_stale
        (snd (miniweb_connection_alloc (miniweb_connection_free p 5) 5 None 10 101)) 5 (Some 0)"
proof -
  define p where "p = snd (miniweb_connection_alloc miniweb_connection_pool_init 5 None 10 100)"
  have some: "fst (miniweb_connection_alloc miniweb_connection_pool_init 5 None 10 100) = Some 0"
    by (simp add: miniweb_connection_alloc_def miniweb_connection_pool_init_def fd_in_range_def
        MINIWEB_MAX_CONNECTIONS_def Let_def)
  note new = alloc_Some_inv [OF conn_pool_init_inv some, folded p_def]
  have at: "conn_at p 5 = Some 0" using new(3) by simp
  have "cp_active_connections p = 1"
    using alloc_Some_state(6) [OF some, folded p_def] by (simp add: miniweb_connection_pool_init_def)
  then show ?thesis
    using stale_check_misses_reuse [OF new(1) at, where mx = 10 and addr = None and now = 101] new(1) at by auto
qed

end
