(* ===== verification/Http_Request.thy ===== *)
theory Http_Request
  imports Mw_Prelude
begin

text \<open>
  Request parsing in the workers (\<^verbatim>\<open>src/net/worker.c\<close>): the request line, the end of the
  header block and the keep-alive decision, and the request object of
  \<^verbatim>\<open>include/miniweb/http/handler.h\<close>. The functions read the connection buffer as a C string;
  their string arguments are the NUL-free text in front of its terminator.
\<close>

section \<open>Model\<close>

record http_request_t =
  req_fd :: int
  req_method :: string
  req_url :: string
  req_version :: string
  req_keep_alive :: bool
  req_buffer :: string
  req_buffer_len :: nat
  req_client_addr :: "32 word option"

text \<open>
  \<^verbatim>\<open>parse_request_line\<close>: the three fields between the first two blanks and the first line end
  after them, refused when a field is empty or does not fit its buffer (32, 512, 32 bytes).
\<close>

definition parse_request_line :: "string \<Rightarrow> (string \<times> string \<times> string) option" where
  "parse_request_line buf =
     (case strchr buf (CHR '' '') of
        None \<Rightarrow> None
      | Some sp1 \<Rightarrow>
          if sp1 = 0 then None else
          (let rest1 = drop (sp1 + 1) buf in
           case strchr rest1 (CHR '' '') of
             None \<Rightarrow> None
           | Some ulen \<Rightarrow>
               (let rest2 = drop (ulen + 1) rest1 in
                case strstr rest2 CRLF of
                  None \<Rightarrow> None
                | Some vlen \<Rightarrow>
                    if ulen = 0 \<or> vlen = 0 then None
                    else if 32 \<le> sp1 \<or> 512 \<le> ulen \<or> 32 \<le> vlen then None
                    else Some (take sp1 buf, take ulen rest1, take vlen rest2))))"

definition find_header_end :: "string \<Rightarrow> nat option" where
  "find_header_end buf = strstr buf (CRLF @ CRLF)"

definition connection_header :: string where
  "connection_header = CRLF @ ''Connection:''"

lemma strcasestr_bound: "strcasestr s n = Some i \<Longrightarrow> i + length n \<le> length s"
  using strstr_SomeD [of "map tolower s" "map tolower n" i] by (simp add: strcasestr_def)

lemma length_connection_header [simp]: "length connection_header = 13"
  by (simp add: connection_header_def)

text \<open>The scan over all \<^verbatim>\<open>Connection:\<close> lines: the first recognised token decides.\<close>

function keep_alive_scan :: "string \<Rightarrow> bool option" where
  "keep_alive_scan s =
     (case strcasestr s connection_header of
        None \<Rightarrow> None
      | Some i \<Rightarrow>
          (let p = dropWhile (\<lambda>c. c = CHR '' '' \<or> c = CHR 0x09) (drop (i + 13) s)
           in if strncaseeq p ''close'' then Some False
              else if strncaseeq p ''keep-alive'' then Some True
              else keep_alive_scan p))"
  by pat_completeness auto

termination
proof (relation "measure length")
  fix s i p
  assume "strcasestr s connection_header = Some i"
    and p: "p = dropWhile (\<lambda>c. c = CHR '' '' \<or> c = CHR 0x09) (drop (i + 13) s)"
  then have "i + 13 \<le> length s" using strcasestr_bound [of s connection_header i] by simp
  moreover have "length p \<le> length (drop (i + 13) s)"
    unfolding p by (rule length_dropWhile_le)
  ultimately show "(p, s) \<in> measure length" by simp
qed simp

declare keep_alive_scan.simps [simp del]

definition request_keep_alive :: "string \<Rightarrow> string \<Rightarrow> bool" where
  "request_keep_alive buf version =
     (case keep_alive_scan buf of Some b \<Rightarrow> b | None \<Rightarrow> version = ''HTTP/1.1'')"

section \<open>Lemmas\<close>

lemma strstr_CRLF_iff:
  "strstr (v @ CRLF @ rest) CRLF = Some (length v) \<longleftrightarrow> \<not> sublist CRLF v"
proof
  assume at: "strstr (v @ CRLF @ rest) CRLF = Some (length v)"
  show "\<not> sublist CRLF v"
  proof
    assume "sublist CRLF v"
    then obtain a b where v: "v = a @ CRLF @ b" by (auto simp: sublist_def)
    have "prefix CRLF (drop (length a) (v @ CRLF @ rest))" by (simp add: v)
    then show False using strstr_least [OF at, of "length a"] v by simp
  qed
next
  assume "\<not> sublist CRLF v"
  then show "strstr (v @ CRLF @ rest) CRLF = Some (length v)"
  proof (induction v)
    case Nil
    then show ?case by simp
  next
    case (Cons c v)
    have "\<not> prefix CRLF (c # v @ CRLF @ rest)"
      using Cons.prems by (cases v) (auto simp: sublist_Cons_right)
    then show ?case using Cons by (simp add: sublist_Cons_right)
  qed
qed

lemma strchr_eqI: "c \<notin> set a \<Longrightarrow> strchr (a @ c # b) c = Some (length a)"
  by simp

lemma parse_request_line_print:
  assumes "CHR '' '' \<notin> set m" "CHR '' '' \<notin> set u" "\<not> sublist CRLF v"
  shows "parse_request_line (m @ CHR '' '' # u @ CHR '' '' # v @ CRLF @ rest) =
    (if m \<noteq> [] \<and> u \<noteq> [] \<and> v \<noteq> [] \<and> length m < 32 \<and> length u < 512 \<and> length v < 32
     then Some (m, u, v) else None)"
proof -
  have "strstr (v @ CHR 0x0D # CHR 0x0A # rest) CRLF = Some (length v)"
    using strstr_CRLF_iff [of v rest] assms(3) by simp
  then show ?thesis
    using assms by (auto simp: parse_request_line_def Let_def)
qed

lemma parse_request_line_SomeD:
  assumes "parse_request_line buf = Some (m, u, v)"
  shows "\<exists>rest. buf = m @ CHR '' '' # u @ CHR '' '' # v @ CRLF @ rest \<and>
    CHR '' '' \<notin> set m \<and> CHR '' '' \<notin> set u \<and> \<not> sublist CRLF v"
proof -
  obtain sp1 ulen vlen where
      sp1: "strchr buf (CHR '' '') = Some sp1" and
      ulen: "strchr (drop (sp1 + 1) buf) (CHR '' '') = Some ulen" and
      vlen: "strstr (drop (ulen + 1) (drop (sp1 + 1) buf)) CRLF = Some vlen" and
      m: "m = take sp1 buf" and u: "u = take ulen (drop (sp1 + 1) buf)" and
      v: "v = take vlen (drop (ulen + 1) (drop (sp1 + 1) buf))"
    using assms by (auto simp: parse_request_line_def Let_def split: option.splits if_splits)
  define r2 where "r2 = drop (ulen + 1) (drop (sp1 + 1) buf)"
  define rest where "rest = drop (vlen + 2) r2"
  have "buf = m @ CHR '' '' # drop (sp1 + 1) buf"
    using strchr_split(1) [OF sp1] m by simp
  moreover have "drop (sp1 + 1) buf = u @ CHR '' '' # r2"
    using strchr_split(1) [OF ulen] u by (simp add: r2_def)
  moreover have r2: "r2 = v @ CRLF @ rest"
    using strstr_split [OF vlen] v by (simp add: r2_def rest_def)
  ultimately have "buf = m @ CHR '' '' # u @ CHR '' '' # v @ CRLF @ rest" by simp
  moreover have "length v = vlen"
    using strstr_SomeD [OF vlen] v by simp
  then have "strstr (v @ CRLF @ rest) CRLF = Some (length v)"
    using vlen r2 by (simp add: r2_def)
  then have "\<not> sublist CRLF v" using strstr_CRLF_iff [of v rest] by blast
  moreover have "CHR '' '' \<notin> set m" "CHR '' '' \<notin> set u"
    using strchr_split(2) [OF sp1] strchr_split(2) [OF ulen] m u by simp_all
  ultimately show ?thesis by (intro exI [of _ rest] conjI)
qed

subsection \<open>The keep-alive scan, line by line\<close>

text \<open>
  The reference definition: what one line says (\<open>connection_line\<close>), and the first line that
  says something (\<open>first_verdict\<close>). \<open>crlf_lines\<close> joins the lines behind the request line.
\<close>

definition is_blank :: "char \<Rightarrow> bool" where
  "is_blank c \<longleftrightarrow> c = CHR '' '' \<or> c = CHR 0x09"

definition connection_line :: "string \<Rightarrow> bool option" where
  "connection_line l =
     (if strncaseeq l ''Connection:'' then
        (let v = dropWhile is_blank (drop 11 l)
         in if strncaseeq v ''close'' then Some False
            else if strncaseeq v ''keep-alive'' then Some True else None)
      else None)"

fun first_verdict :: "string list \<Rightarrow> bool option" where
  "first_verdict [] = None"
| "first_verdict (l # ls) = (case connection_line l of Some b \<Rightarrow> Some b | None \<Rightarrow> first_verdict ls)"

definition crlf_lines :: "string list \<Rightarrow> string" where
  "crlf_lines ls = concat (map (\<lambda>l. CRLF @ l) ls)"

lemma crlf_lines_simps [simp]:
  "crlf_lines [] = []" "crlf_lines (l # ls) = CRLF @ l @ crlf_lines ls"
  by (simp_all add: crlf_lines_def)

lemma tolower_eq_CR [simp]: "tolower c = CHR 0x0D \<longleftrightarrow> c = CHR 0x0D"
  by (rule tolower_eq_low) (simp add: chr_code_def)

lemma tolower_eq_LF [simp]: "tolower c = CHR 0x0A \<longleftrightarrow> c = CHR 0x0A"
  by (rule tolower_eq_low) (simp add: chr_code_def)

lemma tolower_CR [simp]: "tolower (CHR 0x0D) = CHR 0x0D"
  by simp

lemma tolower_LF [simp]: "tolower (CHR 0x0A) = CHR 0x0A"
  by simp

lemma CR_tolower_image [simp]: "CHR 0x0D \<in> tolower ` set x \<longleftrightarrow> CHR 0x0D \<in> set x"
  by (auto simp: image_iff) (metis tolower_eq_CR)+


lemma strcasestr_skip_CR:
  assumes "CHR 0x0D \<notin> set x"
    and "\<not> prefix (map tolower connection_header) (map tolower (CHR 0x0D # y))"
  shows "strcasestr (x @ CHR 0x0D # y) connection_header =
    map_option (\<lambda>i. length x + 1 + i) (strcasestr y connection_header)"
  using assms
proof (induction x)
  case Nil
  then show ?case by (simp add: strcasestr_def)
next
  case (Cons c x)
  then have "CHR 0x0D \<noteq> tolower c" by (metis tolower_eq_CR list.set_intros(1))
  with Cons show ?case
    by (simp add: strcasestr_def connection_header_def option.map_comp comp_def)
qed

lemma keep_alive_scan_skip:
  assumes "CHR 0x0D \<notin> set x"
    and "\<not> prefix (map tolower connection_header) (map tolower (CHR 0x0D # y))"
  shows "keep_alive_scan (x @ CHR 0x0D # y) = keep_alive_scan y"
proof (cases "strcasestr y connection_header")
  case None
  then show ?thesis
    using strcasestr_skip_CR [OF assms]
    by (simp add: keep_alive_scan.simps [of "x @ CHR 0x0D # y"] keep_alive_scan.simps [of y])
next
  case (Some i)
  have "drop (length x + 1 + i + 13) (x @ CHR 0x0D # y) = drop (Suc (i + 13)) (CHR 0x0D # y)" by simp
  also have "\<dots> = drop (i + 13) y" by (simp only: drop_Suc_Cons)
  finally have "drop (length x + 1 + i + 13) (x @ CHR 0x0D # y) = drop (i + 13) y" .
  then show ?thesis
    using strcasestr_skip_CR [OF assms] Some
    by (simp only: keep_alive_scan.simps [of "x @ CHR 0x0D # y"] keep_alive_scan.simps [of y]
        option.map option.case)
qed

lemma keep_alive_scan_no_CR: "CHR 0x0D \<notin> set x \<Longrightarrow> keep_alive_scan x = None"
proof -
  assume "CHR 0x0D \<notin> set x"
  then have "CHR 0x0D \<notin> set (map tolower x)" by simp
  then have "\<not> sublist (map tolower connection_header) (map tolower x)"
    by (auto simp: connection_header_def simp del: set_map dest!: set_mono_sublist)
  then have "strcasestr x connection_header = None"
    by (simp add: strcasestr_def strstr_None_iff)
  then show ?thesis by (simp add: keep_alive_scan.simps [of x])
qed

lemma dropWhile_blank_append:
  "dropWhile is_blank (v @ crlf_lines ls) = dropWhile is_blank v @ crlf_lines ls"
proof (induction v)
  case Nil
  then show ?case by (cases ls) (simp_all add: is_blank_def)
qed simp

lemma prefix_map_CR_free:
  assumes "CHR 0x0D \<notin> set p"
  shows "strncaseeq (v @ crlf_lines ls) p \<longleftrightarrow> strncaseeq v p"
  using assms
proof (induction v arbitrary: p)
  case Nil
  then show ?case
    by (cases ls; cases p) (auto simp: strncaseeq_def)
next
  case (Cons c v)
  then show ?case by (cases p) (auto simp: strncaseeq_def)
qed

lemma keep_alive_scan_hit:
  assumes "CHR 0x0D \<notin> set x" "strncaseeq l ''Connection:''"
  shows "strcasestr (x @ CRLF @ l @ rest) connection_header = Some (length x)"
proof -
  obtain w where "map tolower l = map tolower ''Connection:'' @ w"
    using assms(2) by (auto simp: strncaseeq_def prefix_def)
  then have "map tolower (x @ CRLF @ l @ rest) =
      map tolower x @ map tolower connection_header @ w @ map tolower rest"
    by (simp add: connection_header_def)
  then show ?thesis
    using strstr_fresh [of "map tolower connection_header" "CHR 0x0D" _ "map tolower x" "w @ map tolower rest"]
      assms(1)
    by (simp add: strcasestr_def connection_header_def)
qed

lemma keep_alive_scan_lines:
  assumes "CHR 0x0D \<notin> set x" "\<forall>l \<in> set ls. CHR 0x0D \<notin> set l"
  shows "keep_alive_scan (x @ crlf_lines ls) = first_verdict ls"
  using assms
proof (induction ls arbitrary: x)
  case Nil
  then show ?case by (simp add: keep_alive_scan_no_CR)
next
  case (Cons l ls)
  show ?case
  proof (cases "strncaseeq l ''Connection:''")
    case True
    then have "11 \<le> length l"
      using prefix_length_le [of "map tolower ''Connection:''" "map tolower l"] by (simp add: strncaseeq_def)
    then have drop: "drop (length x + 13) (x @ CRLF @ l @ crlf_lines ls) = drop 11 l @ crlf_lines ls"
      by simp
    define v where "v = dropWhile is_blank (drop 11 l)"
    have v: "CHR 0x0D \<notin> set v"
      using Cons.prems(2) by (auto simp: v_def dest: in_set_dropD set_dropWhileD)
    have tail: "dropWhile (\<lambda>c. c = CHR '' '' \<or> c = CHR 0x09) (drop (length x + 13) (x @ CRLF @ l @ crlf_lines ls)) =
        v @ crlf_lines ls"
      using dropWhile_blank_append [of "drop 11 l" ls] unfolding drop v_def is_blank_def by simp
    have "keep_alive_scan (v @ crlf_lines ls) = first_verdict ls"
      using Cons.IH [OF v] Cons.prems(2) by simp
    then show ?thesis
      using True keep_alive_scan_hit [OF Cons.prems(1) True, of "crlf_lines ls"] tail
      by (simp add: keep_alive_scan.simps [of "x @ CHR 0x0D # CHR 0x0A # l @ crlf_lines ls"]
          prefix_map_CR_free connection_line_def v_def Let_def)
  next
    case False
    have "\<not> prefix (map tolower connection_header) (map tolower (CHR 0x0D # CHR 0x0A # l @ crlf_lines ls))"
      using False prefix_map_CR_free [of "''Connection:''" l ls]
      by (simp add: connection_header_def strncaseeq_def)
    then have "keep_alive_scan (x @ crlf_lines (l # ls)) = keep_alive_scan ((CHR 0x0A # l) @ crlf_lines ls)"
      using keep_alive_scan_skip [OF Cons.prems(1), of "CHR 0x0A # l @ crlf_lines ls"] by simp
    also have "\<dots> = first_verdict ls"
      using Cons.IH [of "CHR 0x0A # l"] Cons.prems(2) by simp
    finally show ?thesis using False by (simp add: connection_line_def)
  qed
qed

section \<open>Properties\<close>

text \<open>
  C21. The request-line parser accepts exactly the well-formed lines and returns their fields: it
  returns (method, URL, version) if and only if the buffer is
  \<^verbatim>\<open>method SP url SP version CRLF ...\<close> with non-empty fields, no blank in the method or URL,
  no line end inside the version, and lengths below 32, 512 and 32, the sizes of the three
  buffers it copies into.
\<close>

theorem parse_request_line_correct:
  "parse_request_line buf = Some (m, u, v) \<longleftrightarrow>
    (\<exists>rest. buf = m @ CHR '' '' # u @ CHR '' '' # v @ CRLF @ rest) \<and>
    CHR '' '' \<notin> set m \<and> CHR '' '' \<notin> set u \<and> \<not> sublist CRLF v \<and>
    m \<noteq> [] \<and> u \<noteq> [] \<and> v \<noteq> [] \<and> length m < 32 \<and> length u < 512 \<and> length v < 32"
  (is "?parse \<longleftrightarrow> ?good")
proof
  assume ?parse
  note D = parse_request_line_SomeD [OF this]
  then obtain rest where "buf = m @ CHR '' '' # u @ CHR '' '' # v @ CRLF @ rest"
      "CHR '' '' \<notin> set m" "CHR '' '' \<notin> set u" "\<not> sublist CRLF v" by blast
  then show ?good
    using \<open>?parse\<close> parse_request_line_print [of m u v rest] by (auto split: if_splits)
next
  assume ?good
  then show ?parse using parse_request_line_print [of m u v] by auto
qed

text \<open>
  C22. The keep-alive decision is the one a line-by-line reading gives: for a buffer made of a
  first line and further lines separated by CRLF, the pointer scan over the whole buffer answers
  with the first line that starts with \<^verbatim>\<open>Connection:\<close> (in any case) and whose value, after
  blanks and tabs, starts with \<^verbatim>\<open>close\<close> (not kept) or \<^verbatim>\<open>keep-alive\<close> (kept); if there is
  none, exactly \<^verbatim>\<open>HTTP/1.1\<close> connections are kept.
\<close>

theorem request_keep_alive_by_lines:
  assumes "CHR 0x0D \<notin> set request_line" "\<forall>l \<in> set ls. CHR 0x0D \<notin> set l"
  shows "request_keep_alive (request_line @ crlf_lines ls) version =
    (case first_verdict ls of Some b \<Rightarrow> b | None \<Rightarrow> version = ''HTTP/1.1'')"
  unfolding request_keep_alive_def keep_alive_scan_lines [OF assms] ..

theorem request_keep_alive_by_lines_witness:
  "\<not> request_keep_alive (''GET / HTTP/1.1'' @ crlf_lines [''Host: x'', ''connection:  Close'', [], []]) ''HTTP/1.1'' \<and>
   request_keep_alive (''GET / HTTP/1.0'' @ crlf_lines [''Connection: foo'', ''Connection: keep-alive'', [], []]) ''HTTP/1.0''"
proof -
  have "first_verdict [''Host: x'', ''connection:  Close'', [], []] = Some False"
    by code_simp
  moreover have "first_verdict [''Connection: foo'', ''Connection: keep-alive'', [], []] = Some True"
    by code_simp
  ultimately show ?thesis
    using request_keep_alive_by_lines [of "''GET / HTTP/1.1''" "[''Host: x'', ''connection:  Close'', [], []]" "''HTTP/1.1''"]
      request_keep_alive_by_lines [of "''GET / HTTP/1.0''" "[''Connection: foo'', ''Connection: keep-alive'', [], []]" "''HTTP/1.0''"]
    by simp
qed

end
