(* ===== verification/Conf.thy ===== *)
theory Conf
  imports Mw_Prelude
begin

text \<open>
  The configuration (\<^verbatim>\<open>src/core/conf.c\<close>, \<^verbatim>\<open>conf_defaults.c\<close>, \<^verbatim>\<open>conf_validation.c\<close>) and the
  argument handling of \<^verbatim>\<open>src/app_main.c\<close>. Every C function that writes through its
  \<^verbatim>\<open>miniweb_conf_t *\<close> returns the new record. The file system is a map from paths to file
  contents (\<open>None\<close> when \<^verbatim>\<open>fopen\<close> fails), \<^verbatim>\<open>$HOME\<close>, the number of online processors and the
  list of options \<^verbatim>\<open>getopt\<close> delivers are parameters; an \<^verbatim>\<open>exit\<close> is the result \<open>Inl code\<close>. The
  diagnostics on stderr are the error values of \<open>conf_parse_line\<close>.
\<close>

section \<open>Model\<close>

definition CONF_STR_MAX :: nat where "CONF_STR_MAX = 256"
definition MINIWEB_THREAD_POOL_SIZE :: int where "MINIWEB_THREAD_POOL_SIZE = 32"
definition CONF_MAX_CONNECTIONS :: int where "CONF_MAX_CONNECTIONS = 4096"
definition CONF_REQUEST_BUFFER_SIZE :: int where "CONF_REQUEST_BUFFER_SIZE = 16384"

record miniweb_conf_t =
  cf_port :: int
  cf_bind_addr :: string
  cf_threads :: int
  cf_max_conns :: int
  cf_conn_timeout :: int
  cf_max_req_size :: int
  cf_mandoc_timeout :: int
  cf_static_dir :: string
  cf_templates_dir :: string
  cf_autoindex :: int
  cf_mandoc_path :: string
  cf_trusted_proxy :: string
  cf_verbose :: int
  cf_log_file :: string
  cf_enable_views :: int
  cf_enable_metrics :: int
  cf_enable_networking :: int
  cf_enable_man :: int
  cf_enable_packages :: int

definition ltrim :: "string \<Rightarrow> string" where
  "ltrim s = dropWhile isspace s"

definition rtrim :: "string \<Rightarrow> string" where
  "rtrim s = rev (dropWhile isspace (rev s))"

definition parse_bool :: "string \<Rightarrow> int" where
  "parse_bool val =
     (if strcaseeq val ''yes'' \<or> strcaseeq val ''true'' then 1
      else if strcaseeq val ''no'' \<or> strcaseeq val ''false'' then 0
      else if atoi val \<noteq> 0 then 1 else 0)"

definition conf_apply_kv :: "miniweb_conf_t \<Rightarrow> string \<Rightarrow> string \<Rightarrow> miniweb_conf_t option" where
  "conf_apply_kv conf key val =
     (if strcaseeq key ''port'' then Some (conf\<lparr>cf_port := atoi val\<rparr>)
      else if strcaseeq key ''bind_addr'' \<or> strcaseeq key ''bind''
        then Some (conf\<lparr>cf_bind_addr := strlcpy CONF_STR_MAX val\<rparr>)
      else if strcaseeq key ''threads'' then Some (conf\<lparr>cf_threads := atoi val\<rparr>)
      else if strcaseeq key ''max_conns'' then Some (conf\<lparr>cf_max_conns := atoi val\<rparr>)
      else if strcaseeq key ''conn_timeout'' then Some (conf\<lparr>cf_conn_timeout := atoi val\<rparr>)
      else if strcaseeq key ''max_req_size'' then Some (conf\<lparr>cf_max_req_size := atoi val\<rparr>)
      else if strcaseeq key ''mandoc_timeout'' then Some (conf\<lparr>cf_mandoc_timeout := atoi val\<rparr>)
      else if strcaseeq key ''static_dir''
        then Some (conf\<lparr>cf_static_dir := strlcpy CONF_STR_MAX val\<rparr>)
      else if strcaseeq key ''templates_dir''
        then Some (conf\<lparr>cf_templates_dir := strlcpy CONF_STR_MAX val\<rparr>)
      else if strcaseeq key ''autoindex'' then Some (conf\<lparr>cf_autoindex := parse_bool val\<rparr>)
      else if strcaseeq key ''mandoc_path''
        then Some (conf\<lparr>cf_mandoc_path := strlcpy CONF_STR_MAX val\<rparr>)
      else if strcaseeq key ''trusted_proxy''
        then Some (conf\<lparr>cf_trusted_proxy := strlcpy CONF_STR_MAX val\<rparr>)
      else if strcaseeq key ''verbose'' then Some (conf\<lparr>cf_verbose := parse_bool val\<rparr>)
      else if strcaseeq key ''log_file''
        then Some (conf\<lparr>cf_log_file := strlcpy CONF_STR_MAX val\<rparr>)
      else if strcaseeq key ''enable_views'' then Some (conf\<lparr>cf_enable_views := parse_bool val\<rparr>)
      else if strcaseeq key ''enable_metrics'' then Some (conf\<lparr>cf_enable_metrics := parse_bool val\<rparr>)
      else if strcaseeq key ''enable_networking''
        then Some (conf\<lparr>cf_enable_networking := parse_bool val\<rparr>)
      else if strcaseeq key ''enable_man'' then Some (conf\<lparr>cf_enable_man := parse_bool val\<rparr>)
      else if strcaseeq key ''enable_packages'' then Some (conf\<lparr>cf_enable_packages := parse_bool val\<rparr>)
      else None)"

datatype conf_error = Missing_value string | Unknown_key string

definition conf_parse_line :: "miniweb_conf_t \<Rightarrow> string \<Rightarrow> conf_error + miniweb_conf_t" where
  "conf_parse_line conf line =
     (let p = rtrim (ltrim line) in
      if p = [] \<or> hd p = CHR ''#'' then Inr conf
      else
        (let key = takeWhile (\<lambda>c. \<not> isspace c) p;
             rest = dropWhile (\<lambda>c. \<not> isspace c) p
         in if rest = [] then Inl (Missing_value key)
            else (case conf_apply_kv conf key (ltrim (tl rest)) of
                    None \<Rightarrow> Inl (Unknown_key key)
                  | Some conf' \<Rightarrow> Inr conf')))"

definition conf_validate :: "miniweb_conf_t \<Rightarrow> int" where
  "conf_validate conf =
     (if cf_port conf \<le> 0 \<or> 65535 < cf_port conf then -1
      else if cf_threads conf \<le> 0 then -1
      else if cf_max_conns conf \<le> 0 then -1
      else if cf_conn_timeout conf \<le> 0 then -1
      else if cf_max_req_size conf \<le> 0 then -1
      else if cf_mandoc_timeout conf \<le> 0 then -1
      else 0)"

fun conf_parse_lines :: "miniweb_conf_t \<Rightarrow> bytes list \<Rightarrow> bool \<times> miniweb_conf_t" where
  "conf_parse_lines conf [] = (True, conf)"
| "conf_parse_lines conf (l # ls) =
     (case conf_parse_line conf (c_str l) of
        Inl e \<Rightarrow> (False, conf)
      | Inr conf' \<Rightarrow> conf_parse_lines conf' ls)"

definition conf_parse_file :: "(string \<Rightarrow> bytes option) \<Rightarrow> string \<Rightarrow> miniweb_conf_t \<Rightarrow> int \<times> miniweb_conf_t" where
  "conf_parse_file fs path conf =
     (case fs path of
        None \<Rightarrow> (1, conf)
      | Some content \<Rightarrow>
          (let (ok, conf') = conf_parse_lines conf (fgets_lines 512 content)
           in if \<not> ok then (-1, conf')
              else if conf_validate conf' \<noteq> 0 then (-1, conf')
              else (0, conf')))"

fun conf_try_candidates ::
  "(string \<Rightarrow> bytes option) \<Rightarrow> string option list \<Rightarrow> miniweb_conf_t \<Rightarrow> int \<times> miniweb_conf_t" where
  "conf_try_candidates fs [] conf = (0, conf)"
| "conf_try_candidates fs (None # cs) conf = conf_try_candidates fs cs conf"
| "conf_try_candidates fs (Some path # cs) conf =
     (let (rc, conf') = conf_parse_file fs path conf
      in if rc = 0 then (0, conf') else if rc = -1 then (-1, conf')
         else conf_try_candidates fs cs conf')"

definition conf_load ::
  "(string \<Rightarrow> bytes option) \<Rightarrow> string option \<Rightarrow> string option \<Rightarrow> miniweb_conf_t \<Rightarrow> int \<times> miniweb_conf_t" where
  "conf_load fs home path conf =
     (case path of
        Some p \<Rightarrow>
          (let (rc, conf') = conf_parse_file fs p conf
           in if rc = 1 then (-1, conf') else if rc = 0 then (0, conf') else (-1, conf'))
      | None \<Rightarrow>
          conf_try_candidates fs
            [Some ''./miniweb.conf'',
             map_option (\<lambda>h. snprintf_out CONF_STR_MAX (h @ ''/.miniweb.conf'')) home,
             Some ''/etc/miniweb.conf''] conf)"

definition conf_default_threads :: "int \<Rightarrow> int" where
  "conf_default_threads cores =
     (if cores < 1 then 4
      else if MINIWEB_THREAD_POOL_SIZE < cores then MINIWEB_THREAD_POOL_SIZE
      else cores)"

definition conf_defaults :: "int \<Rightarrow> miniweb_conf_t" where
  "conf_defaults cores =
     \<lparr>cf_port = 9001, cf_bind_addr = ''127.0.0.1'',
      cf_threads = conf_default_threads cores, cf_max_conns = 1280,
      cf_conn_timeout = 30, cf_max_req_size = 16384, cf_mandoc_timeout = 10,
      cf_static_dir = ''static'', cf_templates_dir = ''templates'', cf_autoindex = 0,
      cf_mandoc_path = ''/usr/bin/mandoc'', cf_trusted_proxy = ''127.0.0.1'',
      cf_verbose = 0, cf_log_file = [],
      cf_enable_views = 1, cf_enable_metrics = 1, cf_enable_networking = 1,
      cf_enable_man = 1, cf_enable_packages = 1\<rparr>"

definition conf_apply_cli ::
  "miniweb_conf_t \<Rightarrow> int \<Rightarrow> string option \<Rightarrow> int \<Rightarrow> int \<Rightarrow> string option \<Rightarrow> int \<Rightarrow> miniweb_conf_t" where
  "conf_apply_cli conf cli_port cli_bind cli_threads cli_max_conns cli_log_file cli_verbose =
     (let c1 = (if 0 < cli_port then conf\<lparr>cf_port := cli_port\<rparr> else conf);
          c2 = (case cli_bind of Some b \<Rightarrow> c1\<lparr>cf_bind_addr := strlcpy CONF_STR_MAX b\<rparr> | None \<Rightarrow> c1);
          c3 = (if 0 < cli_threads then c2\<lparr>cf_threads := cli_threads\<rparr> else c2);
          c4 = (if 0 < cli_max_conns then c3\<lparr>cf_max_conns := cli_max_conns\<rparr> else c3);
          c5 = (case cli_log_file of Some l \<Rightarrow> c4\<lparr>cf_log_file := strlcpy CONF_STR_MAX l\<rparr> | None \<Rightarrow> c4)
      in if cli_verbose \<noteq> 0 then c5\<lparr>cf_verbose := cli_verbose\<rparr> else c5)"

text \<open>What \<^verbatim>\<open>conf_dump\<close> prints on the standard error.\<close>

definition conf_dump :: "miniweb_conf_t \<Rightarrow> string" where
  "conf_dump conf = concat (map (\<lambda>l. l @ [CHR 0x0A])
     [''=== miniweb active configuration ==='',
      ''  port          : '' @ show_int (cf_port conf),
      ''  bind_addr     : '' @ cf_bind_addr conf,
      ''  threads       : '' @ show_int (cf_threads conf),
      ''  max_conns     : '' @ show_int (cf_max_conns conf),
      ''  conn_timeout  : '' @ show_int (cf_conn_timeout conf),
      ''  max_req_size  : '' @ show_int (cf_max_req_size conf),
      ''  mandoc_timeout: '' @ show_int (cf_mandoc_timeout conf),
      ''  static_dir    : '' @ cf_static_dir conf,
      ''  templates_dir : '' @ cf_templates_dir conf,
      ''  autoindex     : '' @ show_int (cf_autoindex conf),
      ''  mandoc_path   : '' @ cf_mandoc_path conf,
      ''  trusted_proxy : '' @ cf_trusted_proxy conf,
      ''  verbose       : '' @ show_int (cf_verbose conf),
      ''  log_file      : '' @ (if cf_log_file conf \<noteq> [] then cf_log_file conf else ''(stderr)''),
      ''  enable_views  : '' @ show_int (cf_enable_views conf),
      ''  enable_metrics: '' @ show_int (cf_enable_metrics conf),
      ''  enable_networking: '' @ show_int (cf_enable_networking conf),
      ''  enable_man    : '' @ show_int (cf_enable_man conf),
      ''  enable_packages: '' @ show_int (cf_enable_packages conf),
      ''=====================================''])"

subsection \<open>Command line\<close>

record cli_opts =
  opt_conf_file :: "string option"
  opt_port :: int
  opt_bind :: "string option"
  opt_threads :: int
  opt_conns :: int
  opt_log_file :: "string option"
  opt_verbose :: int

fun parse_opts :: "cli_opts \<Rightarrow> (char \<times> string) list \<Rightarrow> int + cli_opts" where
  "parse_opts os [] = Inr os"
| "parse_opts os ((c, arg) # rest) =
     (if c = CHR ''f'' then parse_opts (os\<lparr>opt_conf_file := Some arg\<rparr>) rest
      else if c = CHR ''p'' then parse_opts (os\<lparr>opt_port := atoi arg\<rparr>) rest
      else if c = CHR ''b'' then parse_opts (os\<lparr>opt_bind := Some arg\<rparr>) rest
      else if c = CHR ''t'' then parse_opts (os\<lparr>opt_threads := atoi arg\<rparr>) rest
      else if c = CHR ''c'' then parse_opts (os\<lparr>opt_conns := atoi arg\<rparr>) rest
      else if c = CHR ''l'' then parse_opts (os\<lparr>opt_log_file := Some arg\<rparr>) rest
      else if c = CHR ''v'' then parse_opts (os\<lparr>opt_verbose := 1\<rparr>) rest
      else if c = CHR ''h'' then Inl 0
      else Inl 1)"

definition no_opts :: cli_opts where
  "no_opts = \<lparr>opt_conf_file = None, opt_port = -1, opt_bind = None, opt_threads = -1,
     opt_conns = -1, opt_log_file = None, opt_verbose = 0\<rparr>"

definition clamp_config :: "miniweb_conf_t \<Rightarrow> miniweb_conf_t" where
  "clamp_config c =
     (let c1 = (if cf_threads c < 1 then c\<lparr>cf_threads := 1\<rparr> else c);
          c2 = (if MINIWEB_THREAD_POOL_SIZE < cf_threads c1
                then c1\<lparr>cf_threads := MINIWEB_THREAD_POOL_SIZE\<rparr> else c1);
          c3 = (if CONF_MAX_CONNECTIONS < cf_max_conns c2
                then c2\<lparr>cf_max_conns := CONF_MAX_CONNECTIONS\<rparr> else c2)
      in if CONF_REQUEST_BUFFER_SIZE < cf_max_req_size c3
         then c3\<lparr>cf_max_req_size := CONF_REQUEST_BUFFER_SIZE\<rparr> else c3)"

definition parse_args ::
  "(string \<Rightarrow> bytes option) \<Rightarrow> string option \<Rightarrow> int \<Rightarrow> (char \<times> string) list \<Rightarrow> int + miniweb_conf_t" where
  "parse_args fs home cores opts =
     (case parse_opts no_opts opts of
        Inl code \<Rightarrow> Inl code
      | Inr os \<Rightarrow>
          (let (rc, conf) = conf_load fs home (opt_conf_file os) (conf_defaults cores)
           in if rc \<noteq> 0 then Inl 1
              else Inr (clamp_config
                     (conf_apply_cli conf (opt_port os) (opt_bind os) (opt_threads os) (opt_conns os)
                        (opt_log_file os) (opt_verbose os)))))"

section \<open>Trimming and lines\<close>

lemma rtrim_append_nonspace:
  "a \<noteq> [] \<Longrightarrow> \<not> isspace (last a) \<Longrightarrow> \<forall>c \<in> set w. isspace c \<Longrightarrow> rtrim (a @ w) = a"
proof (cases a rule: rev_cases)
  case (snoc ys y)
  assume "\<not> isspace (last a)" "\<forall>c \<in> set w. isspace c"
  moreover from this have "dropWhile isspace (rev w @ y # rev ys) = dropWhile isspace (y # rev ys)"
    by (intro dropWhile_append2) auto
  ultimately show ?thesis using snoc by (simp add: rtrim_def)
qed simp

lemma ltrim_append_space:
  "\<forall>c \<in> set w. isspace c \<Longrightarrow> a \<noteq> [] \<Longrightarrow> \<not> isspace (hd a) \<Longrightarrow> ltrim (w @ a) = a"
  by (cases a) (auto simp: ltrim_def)

lemma conf_parse_line_blank: "\<forall>c \<in> set l. isspace c \<Longrightarrow> conf_parse_line conf l = Inr conf"
proof -
  assume "\<forall>c \<in> set l. isspace c"
  then have "ltrim l = []" by (simp add: ltrim_def dropWhile_eq_Nil_conv)
  then show ?thesis by (simp add: conf_parse_line_def rtrim_def)
qed

lemma conf_parse_line_comment:
  assumes "\<forall>c \<in> set w. isspace c"
  shows "conf_parse_line conf (w @ CHR ''#'' # l) = Inr conf"
proof -
  have h: "\<not> isspace (CHR ''#'')" by (simp add: isspace_def chr_code_def)
  then have "ltrim (w @ CHR ''#'' # l) = CHR ''#'' # l"
    using assms by (simp add: ltrim_append_space)
  moreover obtain l' where "rtrim (CHR ''#'' # l) = CHR ''#'' # l'"
    using h by (cases "\<forall>c \<in> set l. isspace c")
      (auto simp: rtrim_def dropWhile_append1 dropWhile_append2 dropWhile_append3)
  ultimately show ?thesis by (simp add: conf_parse_line_def Let_def)
qed

text \<open>A directive: key, white space, value, possibly with white space around the line.\<close>

lemma conf_parse_line_directive:
  assumes w: "\<forall>c \<in> set w1. isspace c" "\<forall>c \<in> set w2. isspace c" "\<forall>c \<in> set w3. isspace c"
    and key: "key \<noteq> []" "\<forall>c \<in> set key. \<not> isspace c" "hd key \<noteq> CHR ''#''"
    and val: "val \<noteq> []" "\<not> isspace (hd val)" "\<not> isspace (last val)" and s: "isspace s"
  shows "conf_parse_line conf (w1 @ key @ s # w2 @ val @ w3) =
    (case conf_apply_kv conf key val of None \<Rightarrow> Inl (Unknown_key key) | Some c \<Rightarrow> Inr c)"
proof -
  have hk: "\<not> isspace (hd key)" using key by (cases key) auto
  have "ltrim (w1 @ key @ s # w2 @ val @ w3) = key @ s # w2 @ val @ w3"
    using w(1) key(1) hk by (intro ltrim_append_space) auto
  moreover have "rtrim (key @ s # w2 @ val @ w3) = key @ s # w2 @ val"
    using rtrim_append_nonspace [of "key @ s # w2 @ val" w3] w(3) val by simp
  moreover have "takeWhile (\<lambda>c. \<not> isspace c) (key @ s # w2 @ val) = key"
    "dropWhile (\<lambda>c. \<not> isspace c) (key @ s # w2 @ val) = s # w2 @ val"
    using key(2) s by simp_all
  moreover have "ltrim (w2 @ val) = val"
    using w(2) val by (intro ltrim_append_space) auto
  ultimately show ?thesis
    using key(1,3) by (simp add: conf_parse_line_def Let_def split: option.splits)
qed

section \<open>Invariants of a configuration\<close>

definition conf_positive :: "miniweb_conf_t \<Rightarrow> bool" where
  "conf_positive c \<longleftrightarrow> 0 < cf_port c \<and> 0 < cf_threads c \<and> 0 < cf_max_conns c \<and>
     0 < cf_conn_timeout c \<and> 0 < cf_max_req_size c \<and> 0 < cf_mandoc_timeout c"

definition conf_strings_fit :: "miniweb_conf_t \<Rightarrow> bool" where
  "conf_strings_fit c \<longleftrightarrow>
     length (cf_bind_addr c) < CONF_STR_MAX \<and> length (cf_static_dir c) < CONF_STR_MAX \<and>
     length (cf_templates_dir c) < CONF_STR_MAX \<and> length (cf_mandoc_path c) < CONF_STR_MAX \<and>
     length (cf_trusted_proxy c) < CONF_STR_MAX \<and> length (cf_log_file c) < CONF_STR_MAX"

lemma conf_validate_positive: "conf_validate c = 0 \<Longrightarrow> conf_positive c \<and> cf_port c \<le> 65535"
  by (auto simp: conf_validate_def conf_positive_def split: if_splits)

lemma conf_defaults_positive: "conf_positive (conf_defaults cores)"
  by (simp add: conf_defaults_def conf_positive_def conf_default_threads_def MINIWEB_THREAD_POOL_SIZE_def)

lemma conf_defaults_fit: "conf_strings_fit (conf_defaults cores)"
  by (simp add: conf_defaults_def conf_strings_fit_def CONF_STR_MAX_def)

lemma length_strlcpy_conf [simp]: "length (strlcpy CONF_STR_MAX s) < CONF_STR_MAX"
  by (rule length_strlcpy) (simp add: CONF_STR_MAX_def)

lemma conf_apply_kv_fit:
  "conf_apply_kv c k v = Some c' \<Longrightarrow> conf_strings_fit c \<Longrightarrow> conf_strings_fit c'"
  unfolding conf_apply_kv_def
  by (simp only: split: if_splits) (auto simp: conf_strings_fit_def)

lemma conf_parse_line_fit:
  "conf_parse_line c l = Inr c' \<Longrightarrow> conf_strings_fit c \<Longrightarrow> conf_strings_fit c'"
  by (auto simp: conf_parse_line_def Let_def split: if_splits option.splits dest: conf_apply_kv_fit)

lemma conf_parse_lines_fit:
  "conf_strings_fit c \<Longrightarrow> conf_strings_fit (snd (conf_parse_lines c ls))"
proof (induction ls arbitrary: c)
  case (Cons l ls)
  then show ?case by (cases "conf_parse_line c (c_str l)") (auto dest: conf_parse_line_fit)
qed simp

lemma conf_parse_file_fit: "conf_strings_fit c \<Longrightarrow> conf_strings_fit (snd (conf_parse_file fs p c))"
  using conf_parse_lines_fit [of c]
  by (auto simp: conf_parse_file_def Let_def split_beta split: option.splits)

lemma conf_parse_file_rc:
  "conf_parse_file fs p c = (rc, c') \<Longrightarrow>
    (rc = 1 \<and> fs p = None \<and> c' = c) \<or> (rc = -1 \<and> fs p \<noteq> None) \<or>
    (rc = 0 \<and> fs p \<noteq> None \<and> conf_validate c' = 0)"
  by (auto simp: conf_parse_file_def Let_def split_beta split: option.splits if_splits)

lemma conf_try_candidates_valid:
  "conf_try_candidates fs cs c = (0, c') \<Longrightarrow> c' = c \<or> conf_validate c' = 0"
proof (induction fs cs c rule: conf_try_candidates.induct)
  case (3 fs path cs conf)
  obtain rc d where rc: "conf_parse_file fs path conf = (rc, d)" by fastforce
  then show ?case using 3 conf_parse_file_rc [OF rc] by (auto split: if_splits)
qed simp_all

lemma conf_try_candidates_fit:
  "conf_strings_fit c \<Longrightarrow> conf_strings_fit (snd (conf_try_candidates fs cs c))"
proof (induction fs cs c rule: conf_try_candidates.induct)
  case (3 fs path cs conf)
  obtain rc d where rc: "conf_parse_file fs path conf = (rc, d)" by fastforce
  then show ?case using 3 conf_parse_file_fit [of conf fs path] by (auto split: if_splits)
qed simp_all

lemma conf_load_valid:
  "conf_load fs home p c = (0, c') \<Longrightarrow> c' = c \<or> conf_validate c' = 0"
  by (cases p; cases "conf_parse_file fs (the p) c")
    (auto simp: conf_load_def simp del: conf_try_candidates.simps split: if_splits
      dest: conf_try_candidates_valid conf_parse_file_rc)

lemma conf_load_fit:
  "conf_strings_fit c \<Longrightarrow> conf_strings_fit (snd (conf_load fs home p c))"
  using conf_parse_file_fit [of c fs] conf_try_candidates_fit [of c fs]
  by (auto simp: conf_load_def Let_def split_beta simp del: conf_try_candidates.simps
      split: option.splits)

lemma conf_apply_cli_positive:
  "conf_positive c \<Longrightarrow> conf_positive (conf_apply_cli c p b t m l v)"
  by (auto simp: conf_positive_def conf_apply_cli_def Let_def split: option.splits)

lemma conf_apply_cli_fit:
  "conf_strings_fit c \<Longrightarrow> conf_strings_fit (conf_apply_cli c p b t m l v)"
  by (auto simp: conf_strings_fit_def conf_apply_cli_def Let_def split: option.splits)

lemma clamp_config_bounds:
  "conf_positive c \<Longrightarrow> conf_positive (clamp_config c) \<and> cf_threads (clamp_config c) \<le> 32 \<and>
    cf_max_conns (clamp_config c) \<le> 4096 \<and> cf_max_req_size (clamp_config c) \<le> 16384"
  by (auto simp: clamp_config_def Let_def conf_positive_def MINIWEB_THREAD_POOL_SIZE_def
      CONF_MAX_CONNECTIONS_def CONF_REQUEST_BUFFER_SIZE_def)

lemma clamp_config_fit: "conf_strings_fit (clamp_config c) = conf_strings_fit c"
  by (auto simp: clamp_config_def Let_def conf_strings_fit_def)

lemma conf_load_positive:
  assumes "conf_load fs home p (conf_defaults cores) = (0, c)"
  shows "conf_positive c"
  using conf_load_valid [OF assms] conf_validate_positive conf_defaults_positive by auto

section \<open>Properties\<close>

text \<open>
  C23. Whatever the command line, the environment and the configuration files say, a server that
  starts runs with a configuration inside its compile-time limits: between 1 and 32 worker
  threads, between 1 and 4096 connections, a request size between 1 and 16384 bytes (the size of
  the connection buffer), positive timeouts, and every string shorter than its 256-byte buffer.
\<close>

theorem parse_args_within_limits:
  assumes "parse_args fs home cores opts = Inr c"
  shows "1 \<le> cf_threads c \<and> cf_threads c \<le> 32 \<and> 1 \<le> cf_max_conns c \<and> cf_max_conns c \<le> 4096 \<and>
    1 \<le> cf_max_req_size c \<and> cf_max_req_size c \<le> 16384 \<and> 1 \<le> cf_port c \<and>
    1 \<le> cf_conn_timeout c \<and> 1 \<le> cf_mandoc_timeout c \<and> conf_strings_fit c"
proof -
  obtain os where os: "parse_opts no_opts opts = Inr os"
    using assms by (auto simp: parse_args_def split: sum.splits)
  obtain conf where load: "conf_load fs home (opt_conf_file os) (conf_defaults cores) = (0, conf)"
    and c: "c = clamp_config (conf_apply_cli conf (opt_port os) (opt_bind os) (opt_threads os) (opt_conns os)
        (opt_log_file os) (opt_verbose os))" (is "c = clamp_config ?cli")
    using assms os by (cases "conf_load fs home (opt_conf_file os) (conf_defaults cores)")
      (auto simp: parse_args_def split: if_splits)
  have "conf_positive ?cli" by (intro conf_apply_cli_positive conf_load_positive [OF load])
  moreover have "conf_strings_fit ?cli"
    using conf_load_fit [OF conf_defaults_fit, of fs home "opt_conf_file os" cores] load
    by (intro conf_apply_cli_fit) simp
  ultimately show ?thesis
    using clamp_config_bounds [of ?cli] c by (auto simp: conf_positive_def clamp_config_fit)
qed

theorem parse_args_within_limits_witness:
  "\<exists>c. parse_args (\<lambda>_. None) None 8 [(CHR ''t'', ''99''), (CHR ''c'', ''100000'')] = Inr c \<and>
     cf_threads c = 32 \<and> cf_max_conns c = 4096 \<and> cf_max_req_size c \<le> 16384"
proof -
  have "\<exists>c. parse_args (\<lambda>_. None) None 8 [(CHR ''t'', ''99''), (CHR ''c'', ''100000'')] = Inr c \<and>
      cf_threads c = 32 \<and> cf_max_conns c = 4096"
    by (simp add: parse_args_def no_opts_def conf_load_def conf_parse_file_def Let_def
        conf_apply_cli_def clamp_config_def conf_defaults_def MINIWEB_THREAD_POOL_SIZE_def
        CONF_MAX_CONNECTIONS_def CONF_REQUEST_BUFFER_SIZE_def atoi_def strtol10_def ctype_defs digit_val_def)
  then show ?thesis using parse_args_within_limits by blast
qed

text \<open>
  A configuration line means what the manual says: white space around the line does not
  matter, blank lines and lines that start with \<^verbatim>\<open>#\<close> change nothing, and a line made of a key,
  white space and a value (a value may contain white space) applies that key and value, or is
  refused as an unknown key.
\<close>

theorem conf_line_grammar:
  assumes "\<forall>c \<in> set w1. isspace c" "\<forall>c \<in> set w2. isspace c" "\<forall>c \<in> set w3. isspace c"
    and "key \<noteq> []" "\<forall>c \<in> set key. \<not> isspace c" "hd key \<noteq> CHR ''#''"
    and "val \<noteq> []" "\<not> isspace (hd val)" "\<not> isspace (last val)" "isspace s"
  shows "conf_parse_line conf (w1 @ key @ s # w2 @ val @ w3) =
      (case conf_apply_kv conf key val of None \<Rightarrow> Inl (Unknown_key key) | Some c \<Rightarrow> Inr c) \<and>
    conf_parse_line conf (w1 @ key @ w3) = Inl (Missing_value key) \<and>
    conf_parse_line conf w1 = Inr conf \<and> conf_parse_line conf (w1 @ CHR ''#'' # val) = Inr conf"
proof -
  have hk: "\<not> isspace (hd key)" "\<not> isspace (last key)" using assms(4,5) by (cases key; auto)+
  have "ltrim (w1 @ key @ w3) = key @ w3"
    using assms(1,4) hk by (intro ltrim_append_space) auto
  moreover have "rtrim (key @ w3) = key"
    using assms(3,4) hk by (intro rtrim_append_nonspace) auto
  moreover have "takeWhile (\<lambda>c. \<not> isspace c) key = key" "dropWhile (\<lambda>c. \<not> isspace c) key = []"
    using assms(5) by (simp_all add: takeWhile_eq_all_conv dropWhile_eq_Nil_conv)
  ultimately have "conf_parse_line conf (w1 @ key @ w3) = Inl (Missing_value key)"
    using assms(4,6) by (simp add: conf_parse_line_def Let_def)
  then show ?thesis
    using conf_parse_line_directive [OF assms, of conf] conf_parse_line_blank [OF assms(1)]
      conf_parse_line_comment [OF assms(1)] by simp
qed

theorem conf_line_grammar_witness:
  "conf_parse_line (conf_defaults 4) (''  Port'' @ CHR 0x09 # '' 8080'' @ [CHR 0x0A]) =
     Inr ((conf_defaults 4)\<lparr>cf_port := 8080\<rparr>)"
proof -
  have "conf_apply_kv (conf_defaults 4) ''Port'' ''8080'' = Some ((conf_defaults 4)\<lparr>cf_port := 8080\<rparr>)"
    by code_simp
  then show ?thesis
    using conf_line_grammar [of "'' ''@'' ''" "'' ''" "[CHR 0x0A]" "''Port''" "''8080''" "CHR 0x09" "conf_defaults 4"]
    by (simp add: isspace_def chr_code_def)
qed

end
