(* ===== verification/Router.thy ===== *)
theory Router
  imports Mw_Prelude Conf
begin

text \<open>
  The URL registry and the router facade (\<^verbatim>\<open>src/router/url_registry*.c\<close>, \<^verbatim>\<open>router.c\<close>,
  \<^verbatim>\<open>module_attach.c\<close>) and the route registrations of the modules.

  The static arrays \<^verbatim>\<open>routes\<close> and \<^verbatim>\<open>prefix_routes\<close> with their counters are the lists of the
  entries in use; handlers, which the C code keeps as function pointers, are a datatype. The
  registration callbacks of \<^verbatim>\<open>struct router\<close> and the \<^verbatim>\<open>init\<close>/\<^verbatim>\<open>attach_routes\<close> callbacks of a
  module are functions on the registry, \<open>None\<close> standing for a NULL pointer.
\<close>

section \<open>Model\<close>

datatype route_handler_t =
    View_template_handler | Favicon_handler | Static_handler | Metrics_handler
  | Networking_api_handler | Man_render_handler | Man_api_handler | Pkg_api_handler

definition MAX_ROUTES :: nat where "MAX_ROUTES = 32"
definition MAX_PREFIX_ROUTES :: nat where "MAX_PREFIX_ROUTES = 16"

record route =
  rt_method :: string
  rt_path :: string
  rt_handler :: route_handler_t

record prefix_route =
  pr_method :: string
  pr_prefix :: string
  pr_min_slashes :: int
  pr_handler :: route_handler_t

record view_route =
  vr_method :: string
  vr_path :: string
  vr_title :: string
  vr_page :: string
  vr_extra_head :: string
  vr_extra_js :: string

record url_registry =
  routes :: "route list"
  prefix_routes :: "prefix_route list"

fun path_slash_count :: "string \<Rightarrow> int" where
  "path_slash_count [] = 0"
| "path_slash_count (c # path) = (if c = CHR ''/'' then 1 else 0) + path_slash_count path"

definition prefix_route_matches :: "prefix_route \<Rightarrow> string \<Rightarrow> string \<Rightarrow> bool" where
  "prefix_route_matches pr method path =
     (if pr_method pr \<noteq> method then False
      else if \<not> prefix (pr_prefix pr) path then False
      else if pr_min_slashes pr \<le> 0 then True
      else pr_min_slashes pr \<le> path_slash_count (drop (length (pr_prefix pr)) path))"

definition prefix_route_path_matches :: "prefix_route \<Rightarrow> string \<Rightarrow> bool" where
  "prefix_route_path_matches pr path =
     (if \<not> prefix (pr_prefix pr) path then False
      else if pr_min_slashes pr \<le> 0 then True
      else pr_min_slashes pr \<le> path_slash_count (drop (length (pr_prefix pr)) path))"

definition route_method_seen_for_path :: "url_registry \<Rightarrow> nat \<Rightarrow> string \<Rightarrow> bool" where
  "route_method_seen_for_path reg route_index path =
     list_ex (\<lambda>r. rt_path r = path \<and> rt_method r = rt_method (routes reg ! route_index))
       (take route_index (routes reg))"

definition register_route :: "string \<Rightarrow> string \<Rightarrow> route_handler_t \<Rightarrow> url_registry \<Rightarrow> url_registry" where
  "register_route method path handler reg =
     (if length (routes reg) < MAX_ROUTES
      then reg\<lparr>routes := routes reg @ [\<lparr>rt_method = method, rt_path = path, rt_handler = handler\<rparr>]\<rparr>
      else reg)"

definition register_prefix_route ::
  "string \<Rightarrow> string \<Rightarrow> int \<Rightarrow> route_handler_t \<Rightarrow> url_registry \<Rightarrow> url_registry" where
  "register_prefix_route method pfx min_slashes handler reg =
     (if MAX_PREFIX_ROUTES \<le> length (prefix_routes reg) then reg
      else reg\<lparr>prefix_routes := prefix_routes reg @
             [\<lparr>pr_method = method, pr_prefix = pfx, pr_min_slashes = min_slashes, pr_handler = handler\<rparr>]\<rparr>)"

subsection \<open>The router facade\<close>

record router =
  register_fn :: "(string \<Rightarrow> string \<Rightarrow> route_handler_t \<Rightarrow> url_registry \<Rightarrow> int \<times> url_registry) option"
  register_prefix_fn ::
    "(string \<Rightarrow> string \<Rightarrow> int \<Rightarrow> route_handler_t \<Rightarrow> url_registry \<Rightarrow> int \<times> url_registry) option"

definition router_register ::
  "router option \<Rightarrow> string \<Rightarrow> string \<Rightarrow> route_handler_t \<Rightarrow> url_registry \<Rightarrow> int \<times> url_registry" where
  "router_register r method path handler reg =
     (case r of None \<Rightarrow> (-1, reg)
      | Some rr \<Rightarrow> (case register_fn rr of None \<Rightarrow> (-1, reg) | Some f \<Rightarrow> f method path handler reg))"

definition router_register_prefix ::
  "router option \<Rightarrow> string \<Rightarrow> string \<Rightarrow> int \<Rightarrow> route_handler_t \<Rightarrow> url_registry \<Rightarrow> int \<times> url_registry" where
  "router_register_prefix r method pfx min_slashes handler reg =
     (case r of None \<Rightarrow> (-1, reg)
      | Some rr \<Rightarrow> (case register_prefix_fn rr of None \<Rightarrow> (-1, reg)
                   | Some f \<Rightarrow> f method pfx min_slashes handler reg))"

definition url_registry_register ::
  "string \<Rightarrow> string \<Rightarrow> route_handler_t \<Rightarrow> url_registry \<Rightarrow> int \<times> url_registry" where
  "url_registry_register method path handler reg = (0, register_route method path handler reg)"

definition url_registry_register_prefix ::
  "string \<Rightarrow> string \<Rightarrow> int \<Rightarrow> route_handler_t \<Rightarrow> url_registry \<Rightarrow> int \<times> url_registry" where
  "url_registry_register_prefix method pfx min_slashes handler reg =
     (0, register_prefix_route method pfx min_slashes handler reg)"

subsection \<open>The registrations of the modules\<close>

definition view_routes :: "view_route list" where
  "view_routes =
    [\<lparr>vr_method = ''GET'', vr_path = ''/'', vr_title = ''MiniWeb - Dashboard'', vr_page = ''dashboard.html'',
      vr_extra_head = ''dashboard_extra_head.html'', vr_extra_js = ''dashboard_extra_js.html''\<rparr>,
     \<lparr>vr_method = ''GET'', vr_path = ''/docs'', vr_title = ''MiniWeb - Documentation'', vr_page = ''docs.html'',
      vr_extra_head = ''docs_extra_head.html'', vr_extra_js = ''docs_extra_js.html''\<rparr>,
     \<lparr>vr_method = ''GET'', vr_path = ''/apiroot'', vr_title = ''MiniWeb - API Root'', vr_page = ''api.html'',
      vr_extra_head = ''api_extra_head.html'', vr_extra_js = ''api_extra_js.html''\<rparr>,
     \<lparr>vr_method = ''GET'', vr_path = ''/networking'', vr_title = ''MiniWeb - Networking'', vr_page = ''networking.html'',
      vr_extra_head = ''networking_extra_head.html'', vr_extra_js = ''networking_extra_js.html''\<rparr>,
     \<lparr>vr_method = ''GET'', vr_path = ''/packages'', vr_title = ''MiniWeb - Package Manager'', vr_page = ''packages.html'',
      vr_extra_head = ''packages_extra_head.html'', vr_extra_js = ''packages_extra_js.html''\<rparr>]"

text \<open>\<^verbatim>\<open>if (f(...) != 0) return -1;\<close> in a sequence of registrations.\<close>

definition attach_then ::
  "(url_registry \<Rightarrow> int \<times> url_registry) \<Rightarrow> (url_registry \<Rightarrow> int \<times> url_registry) \<Rightarrow> url_registry \<Rightarrow> int \<times> url_registry" where
  "attach_then f g reg = (let (rc, reg') = f reg in if rc \<noteq> 0 then (-1, reg') else g reg')"

definition attach_ok :: "url_registry \<Rightarrow> int \<times> url_registry" where
  "attach_ok reg = (0, reg)"

definition views_module_attach_routes :: "router option \<Rightarrow> url_registry \<Rightarrow> int \<times> url_registry" where
  "views_module_attach_routes r =
     foldr (\<lambda>v. attach_then (router_register r (vr_method v) (vr_path v) View_template_handler)) view_routes
       (attach_then (router_register r ''GET'' ''/favicon.ico'' Favicon_handler)
         (attach_then (router_register_prefix r ''GET'' ''/static/'' 0 Static_handler)
            attach_ok))"

definition metrics_module_attach_routes :: "router option \<Rightarrow> url_registry \<Rightarrow> int \<times> url_registry" where
  "metrics_module_attach_routes r =
     attach_then (router_register r ''GET'' ''/api/metrics'' Metrics_handler)
       (router_register r ''GET'' ''/api/metric'' Metrics_handler)"

definition networking_module_attach_routes :: "router option \<Rightarrow> url_registry \<Rightarrow> int \<times> url_registry" where
  "networking_module_attach_routes r =
     router_register r ''GET'' ''/api/networking'' Networking_api_handler"

definition man_module_attach_routes :: "router option \<Rightarrow> url_registry \<Rightarrow> int \<times> url_registry" where
  "man_module_attach_routes r =
     attach_then (router_register_prefix r ''GET'' ''/man/'' 2 Man_render_handler)
       (attach_then (router_register_prefix r ''GET'' ''/api/man'' 0 Man_api_handler)
         (attach_then (router_register r ''GET'' ''/api/man/sections'' Man_api_handler)
            attach_ok))"

definition packages_module_attach_routes :: "router option \<Rightarrow> url_registry \<Rightarrow> int \<times> url_registry" where
  "packages_module_attach_routes r =
     attach_then (router_register_prefix r ''GET'' ''/api/packages'' 0 Pkg_api_handler) attach_ok"

record miniweb_module =
  mod_name :: string
  mod_init :: "(url_registry \<Rightarrow> int \<times> url_registry) option"
  mod_attach_routes :: "(router option \<Rightarrow> url_registry \<Rightarrow> int \<times> url_registry) option"
  mod_enabled_by_default :: int

fun miniweb_module_attach_enabled ::
  "router option \<Rightarrow> miniweb_module list \<Rightarrow> url_registry \<Rightarrow> int \<times> url_registry" where
  "miniweb_module_attach_enabled r [] reg = (0, reg)"
| "miniweb_module_attach_enabled r (m # ms) reg =
     (if mod_enabled_by_default m = 0 then miniweb_module_attach_enabled r ms reg
      else
        (let (rc, reg1) = (case mod_init m of None \<Rightarrow> (0, reg) | Some f \<Rightarrow> f reg) in
         if rc \<noteq> 0 then (-1, reg1)
         else
           (let (rc2, reg2) = (case mod_attach_routes m of None \<Rightarrow> (0, reg1) | Some f \<Rightarrow> f r reg1) in
            if rc2 \<noteq> 0 then (-1, reg2)
            else miniweb_module_attach_enabled r ms reg2)))"

record module_attach_config =
  mac_enable_views :: int
  mac_enable_metrics :: int
  mac_enable_networking :: int
  mac_enable_man :: int
  mac_enable_packages :: int

definition module_config :: "miniweb_conf_t option \<Rightarrow> module_attach_config" where
  "module_config conf =
     (case conf of
        None \<Rightarrow> \<lparr>mac_enable_views = 1, mac_enable_metrics = 1, mac_enable_networking = 1,
                 mac_enable_man = 1, mac_enable_packages = 1\<rparr>
      | Some c \<Rightarrow> \<lparr>mac_enable_views = cf_enable_views c, mac_enable_metrics = cf_enable_metrics c,
                   mac_enable_networking = cf_enable_networking c, mac_enable_man = cf_enable_man c,
                   mac_enable_packages = cf_enable_packages c\<rparr>)"

definition url_router :: router where
  "url_router = \<lparr>register_fn = Some url_registry_register,
     register_prefix_fn = Some url_registry_register_prefix\<rparr>"

definition init_modules :: "module_attach_config \<Rightarrow> miniweb_module list" where
  "init_modules d =
    [\<lparr>mod_name = ''views'', mod_init = None, mod_attach_routes = Some views_module_attach_routes,
      mod_enabled_by_default = mac_enable_views d\<rparr>,
     \<lparr>mod_name = ''metrics'', mod_init = None, mod_attach_routes = Some metrics_module_attach_routes,
      mod_enabled_by_default = mac_enable_metrics d\<rparr>,
     \<lparr>mod_name = ''networking'', mod_init = None, mod_attach_routes = Some networking_module_attach_routes,
      mod_enabled_by_default = mac_enable_networking d\<rparr>,
     \<lparr>mod_name = ''man'', mod_init = None, mod_attach_routes = Some man_module_attach_routes,
      mod_enabled_by_default = mac_enable_man d\<rparr>,
     \<lparr>mod_name = ''packages'', mod_init = None, mod_attach_routes = Some packages_module_attach_routes,
      mod_enabled_by_default = mac_enable_packages d\<rparr>]"

definition init_routes :: "miniweb_conf_t option \<Rightarrow> url_registry \<Rightarrow> url_registry" where
  "init_routes conf reg =
     snd (miniweb_module_attach_enabled (Some url_router) (init_modules (module_config conf))
            (reg\<lparr>routes := [], prefix_routes := []\<rparr>))"

subsection \<open>Lookup\<close>

definition find_view_route :: "string \<Rightarrow> string \<Rightarrow> view_route option" where
  "find_view_route method path = find (\<lambda>v. vr_method v = method \<and> vr_path v = path) view_routes"

definition route_match :: "url_registry \<Rightarrow> string \<Rightarrow> string \<Rightarrow> route_handler_t option" where
  "route_match reg method path =
     (case find (\<lambda>r. rt_method r = method \<and> rt_path r = path) (routes reg) of
        Some r \<Rightarrow> Some (rt_handler r)
      | None \<Rightarrow> map_option pr_handler (find (\<lambda>pr. prefix_route_matches pr method path) (prefix_routes reg)))"

definition route_path_known :: "url_registry \<Rightarrow> string option \<Rightarrow> bool" where
  "route_path_known reg path =
     (case path of None \<Rightarrow> False
      | Some p \<Rightarrow> list_ex (\<lambda>r. rt_path r = p) (routes reg) \<or>
                 list_ex (\<lambda>pr. prefix_route_path_matches pr p) (prefix_routes reg))"

text \<open>
  The loop over the exact routes of \<^verbatim>\<open>route_allow_methods\<close>: the flag says whether it ended by the
  early return of a truncated write.
\<close>

fun allow_exact :: "url_registry \<Rightarrow> string \<Rightarrow> nat \<Rightarrow> nat list \<Rightarrow> string \<Rightarrow> nat \<Rightarrow> bool \<times> nat \<times> string" where
  "allow_exact reg path buf_len [] buf count = (False, count, buf)"
| "allow_exact reg path buf_len (i # is) buf count =
     (if rt_path (routes reg ! i) \<noteq> path then allow_exact reg path buf_len is buf count
      else if route_method_seen_for_path reg i path then allow_exact reg path buf_len is buf count
      else
        (let s = (if 0 < count then '', '' else []) @ rt_method (routes reg ! i) in
         if buf_len - length buf \<le> length s
         then (True, count, buf @ snprintf_out (buf_len - length buf) s)
         else allow_exact reg path buf_len is (buf @ s) (count + 1)))"

definition route_allow_methods :: "url_registry \<Rightarrow> string option \<Rightarrow> nat \<Rightarrow> nat \<times> string" where
  "route_allow_methods reg path buf_len =
     (case path of None \<Rightarrow> (0, [])
      | Some p \<Rightarrow>
        if buf_len = 0 then (0, [])
        else
          (let (early, count, buf) = allow_exact reg p buf_len [0..<length (routes reg)] [] 0 in
           if early then (count, buf)
           else (case find (\<lambda>pr. prefix (pr_prefix pr) p) (prefix_routes reg) of
                   None \<Rightarrow> (count, buf)
                 | Some pr \<Rightarrow>
                     (if count = 0 then 1 else count,
                      if count = 0 \<and> 3 < buf_len then snprintf_out buf_len (pr_method pr) else buf))))"

section \<open>What the modules register\<close>

definition exact :: "string \<Rightarrow> route_handler_t \<Rightarrow> route" where
  "exact path h = \<lparr>rt_method = ''GET'', rt_path = path, rt_handler = h\<rparr>"

definition under :: "string \<Rightarrow> int \<Rightarrow> route_handler_t \<Rightarrow> prefix_route" where
  "under pfx n h = \<lparr>pr_method = ''GET'', pr_prefix = pfx, pr_min_slashes = n, pr_handler = h\<rparr>"

lemmas router_facade_defs = router_register_def router_register_prefix_def url_router_def
  url_registry_register_def url_registry_register_prefix_def

lemma url_router_register [simp]:
  "router_register (Some url_router) method path h reg = (0, register_route method path h reg)"
  "router_register_prefix (Some url_router) method pfx n h reg = (0, register_prefix_route method pfx n h reg)"
  by (simp_all add: router_facade_defs)

lemma attach_then_ok [simp]: "fst (f reg) = 0 \<Longrightarrow> attach_then f g reg = g (snd (f reg))"
  by (simp add: attach_then_def split_beta)

text \<open>\<open>registered reg rs ps reg'\<close>: \<open>reg'\<close> is \<open>reg\<close> with these entries appended.\<close>

definition registered :: "route list \<Rightarrow> prefix_route list \<Rightarrow> url_registry \<Rightarrow> url_registry" where
  "registered rs ps reg = reg\<lparr>routes := routes reg @ rs, prefix_routes := prefix_routes reg @ ps\<rparr>"

lemma registered_twice [simp]:
  "registered rs' ps' (registered rs ps reg) = registered (rs @ rs') (ps @ ps') reg"
  by (simp add: registered_def)

lemma registered_none [simp]: "registered [] [] reg = reg"
  by (simp add: registered_def)

lemma register_route_registered:
  "length (routes reg) + length rs < MAX_ROUTES \<Longrightarrow>
    register_route ''GET'' path h (registered rs ps reg) = registered (rs @ [exact path h]) ps reg"
  by (simp add: register_route_def registered_def exact_def)

lemma register_prefix_route_registered:
  "length (prefix_routes reg) + length ps < MAX_PREFIX_ROUTES \<Longrightarrow>
    register_prefix_route ''GET'' pfx n h (registered rs ps reg) = registered rs (ps @ [under pfx n h]) reg"
  by (simp add: register_prefix_route_def registered_def under_def)

lemmas register_here = register_route_registered [where rs = "[]" and ps = "[]", simplified]
  register_prefix_route_registered [where rs = "[]" and ps = "[]", simplified]

definition views_exact :: "route list" where
  "views_exact = [exact ''/'' View_template_handler, exact ''/docs'' View_template_handler,
     exact ''/apiroot'' View_template_handler, exact ''/networking'' View_template_handler,
     exact ''/packages'' View_template_handler, exact ''/favicon.ico'' Favicon_handler]"

lemma views_attach:
  "length (routes reg) + 6 \<le> MAX_ROUTES \<Longrightarrow> length (prefix_routes reg) < MAX_PREFIX_ROUTES \<Longrightarrow>
    views_module_attach_routes (Some url_router) reg =
      (0, registered views_exact [under ''/static/'' 0 Static_handler] reg)"
  by (simp add: views_module_attach_routes_def view_routes_def views_exact_def attach_ok_def
      register_here register_route_registered register_prefix_route_registered)

lemma metrics_attach:
  "length (routes reg) + 2 \<le> MAX_ROUTES \<Longrightarrow>
    metrics_module_attach_routes (Some url_router) reg =
      (0, registered [exact ''/api/metrics'' Metrics_handler, exact ''/api/metric'' Metrics_handler] [] reg)"
  by (simp add: metrics_module_attach_routes_def register_here register_route_registered)

lemma networking_attach:
  "length (routes reg) < MAX_ROUTES \<Longrightarrow>
    networking_module_attach_routes (Some url_router) reg =
      (0, registered [exact ''/api/networking'' Networking_api_handler] [] reg)"
  by (simp add: networking_module_attach_routes_def register_here)

lemma man_attach:
  "length (routes reg) < MAX_ROUTES \<Longrightarrow> length (prefix_routes reg) + 2 \<le> MAX_PREFIX_ROUTES \<Longrightarrow>
    man_module_attach_routes (Some url_router) reg =
      (0, registered [exact ''/api/man/sections'' Man_api_handler]
            [under ''/man/'' 2 Man_render_handler, under ''/api/man'' 0 Man_api_handler] reg)"
  by (simp add: man_module_attach_routes_def attach_ok_def register_here register_route_registered
      register_prefix_route_registered)

lemma packages_attach:
  "length (prefix_routes reg) < MAX_PREFIX_ROUTES \<Longrightarrow>
    packages_module_attach_routes (Some url_router) reg =
      (0, registered [] [under ''/api/packages'' 0 Pkg_api_handler] reg)"
  by (simp add: packages_module_attach_routes_def attach_ok_def register_here)

lemma attach_enabled_step:
  assumes "mod_init m = None" "mod_attach_routes m = Some f"
    and "mod_enabled_by_default m \<noteq> 0 \<Longrightarrow> f r reg = (0, registered rs ps reg)"
  shows "miniweb_module_attach_enabled r (m # ms) reg =
    miniweb_module_attach_enabled r ms
      (registered (if mod_enabled_by_default m \<noteq> 0 then rs else [])
         (if mod_enabled_by_default m \<noteq> 0 then ps else []) reg)"
  using assms by simp

definition routes_of :: "module_attach_config \<Rightarrow> route list" where
  "routes_of d =
     (if mac_enable_views d \<noteq> 0 then views_exact else []) @
     (if mac_enable_metrics d \<noteq> 0
      then [exact ''/api/metrics'' Metrics_handler, exact ''/api/metric'' Metrics_handler] else []) @
     (if mac_enable_networking d \<noteq> 0 then [exact ''/api/networking'' Networking_api_handler] else []) @
     (if mac_enable_man d \<noteq> 0 then [exact ''/api/man/sections'' Man_api_handler] else [])"

definition prefix_routes_of :: "module_attach_config \<Rightarrow> prefix_route list" where
  "prefix_routes_of d =
     (if mac_enable_views d \<noteq> 0 then [under ''/static/'' 0 Static_handler] else []) @
     (if mac_enable_man d \<noteq> 0
      then [under ''/man/'' 2 Man_render_handler, under ''/api/man'' 0 Man_api_handler] else []) @
     (if mac_enable_packages d \<noteq> 0 then [under ''/api/packages'' 0 Pkg_api_handler] else [])"

lemmas module_attach_lemmas = views_attach metrics_attach networking_attach man_attach packages_attach

lemma init_routes_contents:
  "routes (init_routes conf reg) = routes_of (module_config conf) \<and>
   prefix_routes (init_routes conf reg) = prefix_routes_of (module_config conf)"
proof -
  let ?d = "module_config conf"
  have len: "length views_exact = 6" by (simp add: views_exact_def)
  have "miniweb_module_attach_enabled (Some url_router) (init_modules ?d) (reg\<lparr>routes := [], prefix_routes := []\<rparr>)
    = (0, registered (routes_of ?d) (prefix_routes_of ?d) (reg\<lparr>routes := [], prefix_routes := []\<rparr>))"
    by (simp add: init_modules_def module_attach_lemmas registered_def routes_of_def prefix_routes_of_def
        MAX_ROUTES_def MAX_PREFIX_ROUTES_def len)
  then show ?thesis by (simp add: init_routes_def registered_def)
qed

section \<open>Lookup\<close>

lemma find_Some_iff_list_ex: "find P xs \<noteq> None \<longleftrightarrow> list_ex P xs"
  by (induction xs) auto

lemma prefix_route_matches_iff:
  "prefix_route_matches pr m p \<longleftrightarrow> pr_method pr = m \<and> prefix_route_path_matches pr p"
  by (simp add: prefix_route_matches_def prefix_route_path_matches_def)

lemma route_match_some_iff:
  "route_match reg m p \<noteq> None \<longleftrightarrow>
    list_ex (\<lambda>r. rt_method r = m \<and> rt_path r = p) (routes reg) \<or>
    list_ex (\<lambda>pr. prefix_route_matches pr m p) (prefix_routes reg)"
proof (cases "find (\<lambda>r. rt_method r = m \<and> rt_path r = p) (routes reg)")
  case None
  then have "\<not> list_ex (\<lambda>r. rt_method r = m \<and> rt_path r = p) (routes reg)"
    using find_Some_iff_list_ex by metis
  then show ?thesis using None by (simp add: route_match_def flip: find_Some_iff_list_ex)
next
  case (Some r)
  then have "list_ex (\<lambda>r. rt_method r = m \<and> rt_path r = p) (routes reg)"
    using find_Some_iff_list_ex by fastforce
  then show ?thesis using Some by (simp add: route_match_def)
qed

text \<open>The two searches of \<open>route_match\<close> for a GET request, entry by entry.\<close>

definition orelse :: "'a option \<Rightarrow> 'a option \<Rightarrow> 'a option" where
  "orelse a b = (case a of None \<Rightarrow> b | Some x \<Rightarrow> Some x)"

definition exact_lookup :: "string \<Rightarrow> route list \<Rightarrow> route_handler_t option" where
  "exact_lookup path rs = map_option rt_handler (find (\<lambda>r. rt_method r = ''GET'' \<and> rt_path r = path) rs)"

definition prefix_lookup :: "string \<Rightarrow> prefix_route list \<Rightarrow> route_handler_t option" where
  "prefix_lookup path ps = map_option pr_handler (find (\<lambda>pr. prefix_route_matches pr ''GET'' path) ps)"

definition exact_paths :: "string list" where
  "exact_paths = [''/'', ''/docs'', ''/apiroot'', ''/networking'', ''/packages'', ''/favicon.ico'',
     ''/api/metrics'', ''/api/metric'', ''/api/networking'', ''/api/man/sections'']"

lemma orelse_simps [simp]: "orelse None b = b" "orelse (Some x) b = Some x"
  by (simp_all add: orelse_def)

lemma find_append_case: "find P (xs @ ys) = (case find P xs of None \<Rightarrow> find P ys | Some x \<Rightarrow> Some x)"
  by (induction xs) auto

lemma exact_lookup_simps [simp]:
  "exact_lookup path [] = None"
  "exact_lookup path (exact q h # rs) = (if q = path then Some h else exact_lookup path rs)"
  "exact_lookup path (rs @ rs') = orelse (exact_lookup path rs) (exact_lookup path rs')"
  by (auto simp: exact_lookup_def exact_def find_append_case split: option.splits)

lemma prefix_lookup_simps [simp]:
  "prefix_lookup path [] = None"
  "prefix_lookup path (under q n h # ps) =
     (if prefix q path \<and> (n \<le> 0 \<or> n \<le> path_slash_count (drop (length q) path)) then Some h
      else prefix_lookup path ps)"
  "prefix_lookup path (ps @ ps') = orelse (prefix_lookup path ps) (prefix_lookup path ps')"
  by (auto simp: prefix_lookup_def under_def prefix_route_matches_def find_append_case split: option.splits)

lemma route_match_lookup:
  "route_match reg ''GET'' path = orelse (exact_lookup path (routes reg)) (prefix_lookup path (prefix_routes reg))"
  by (simp add: route_match_def exact_lookup_def prefix_lookup_def split: option.splits)

subsection \<open>The methods of a path\<close>

definition methods_upto :: "url_registry \<Rightarrow> string \<Rightarrow> nat \<Rightarrow> string list" where
  "methods_upto reg path n =
     foldl (\<lambda>ms m. if m \<in> set ms then ms else ms @ [m]) []
       (map rt_method (filter (\<lambda>r. rt_path r = path) (take n (routes reg))))"

text \<open>The distinct methods registered for exactly this path, in the order of registration.\<close>

definition exact_methods :: "url_registry \<Rightarrow> string \<Rightarrow> string list" where
  "exact_methods reg path = methods_upto reg path (length (routes reg))"

fun join_methods :: "string list \<Rightarrow> string" where
  "join_methods [] = []"
| "join_methods [m] = m"
| "join_methods (m # ms) = m @ '', '' @ join_methods ms"

lemma set_methods_upto:
  "m \<in> set (methods_upto reg path n) \<longleftrightarrow>
    (\<exists>r \<in> set (take n (routes reg)). rt_path r = path \<and> rt_method r = m)"
proof -
  have "set (foldl (\<lambda>ms m. if m \<in> set ms then ms else ms @ [m]) acc xs) = set acc \<union> set xs"
    for acc xs :: "string list"
    by (induction xs arbitrary: acc) auto
  then show ?thesis by (auto simp: methods_upto_def)
qed

lemma methods_upto_Suc:
  assumes "n < length (routes reg)"
  shows "methods_upto reg path (Suc n) =
    (if rt_path (routes reg ! n) = path \<and> rt_method (routes reg ! n) \<notin> set (methods_upto reg path n)
     then methods_upto reg path n @ [rt_method (routes reg ! n)] else methods_upto reg path n)"
  using assms by (simp add: methods_upto_def take_Suc_conv_app_nth)

lemma methods_upto_distinct: "distinct (methods_upto reg path n)"
proof -
  have "distinct acc \<Longrightarrow> distinct (foldl (\<lambda>ms m. if m \<in> set ms then ms else ms @ [m]) acc xs)"
    for acc xs :: "string list"
    by (induction xs arbitrary: acc) auto
  then show ?thesis by (simp add: methods_upto_def)
qed

lemma join_methods_snoc:
  "join_methods (ms @ [m]) = join_methods ms @ (if ms = [] then [] else '', '') @ m"
  by (induction ms rule: join_methods.induct) auto

lemma join_upto_le:
  "j \<le> length (routes reg) \<Longrightarrow> i \<le> j \<Longrightarrow>
    length (join_methods (methods_upto reg path i)) \<le> length (join_methods (methods_upto reg path j))"
proof (induction j)
  case (Suc j)
  then show ?case by (cases "i = Suc j") (auto simp: methods_upto_Suc join_methods_snoc le_Suc_eq)
qed simp

lemma seen_iff:
  "n < length (routes reg) \<Longrightarrow>
    route_method_seen_for_path reg n path \<longleftrightarrow> rt_method (routes reg ! n) \<in> set (methods_upto reg path n)"
  by (auto simp: route_method_seen_for_path_def set_methods_upto list_ex_iff)

lemma allow_exact_correct:
  assumes "i \<le> length (routes reg)"
    and "length (join_methods (exact_methods reg path)) < buf_len"
  shows "allow_exact reg path buf_len [i..<length (routes reg)]
      (join_methods (methods_upto reg path i)) (length (methods_upto reg path i)) =
    (False, length (exact_methods reg path), join_methods (exact_methods reg path))"
  using assms
proof (induction "length (routes reg) - i" arbitrary: i)
  case 0
  then show ?case by (simp add: exact_methods_def)
next
  case (Suc k)
  then have i: "i < length (routes reg)" by simp
  let ?ms = "methods_upto reg path i"
  have IH: "allow_exact reg path buf_len [Suc i..<length (routes reg)]
      (join_methods (methods_upto reg path (Suc i))) (length (methods_upto reg path (Suc i))) =
    (False, length (exact_methods reg path), join_methods (exact_methods reg path))"
    using Suc i by simp
  have le: "length (join_methods (methods_upto reg path (Suc i))) < buf_len"
    using join_upto_le [where i = "Suc i" and path = path and reg = reg, OF order_refl] i Suc.prems(2) by (simp add: exact_methods_def)
  show ?case
    using IH le i
    by (auto simp: upt_conv_Cons methods_upto_Suc seen_iff join_methods_snoc Let_def split: if_splits)
qed

text \<open>The buffer always keeps room for its terminator.\<close>

lemma allow_exact_bound:
  "length buf < buf_len \<Longrightarrow> allow_exact reg path buf_len is buf count = (e, n, out) \<Longrightarrow> length out < buf_len"
proof (induction reg path buf_len "is" buf count rule: allow_exact.induct)
  case (2 reg path buf_len i "is" buf count)
  show ?case
  proof (cases "rt_path (routes reg ! i) \<noteq> path \<or> route_method_seen_for_path reg i path")
    case True
    then show ?thesis using 2 by (auto split: if_splits)
  next
    case False
    then show ?thesis using 2 by (auto simp: Let_def snprintf_out_def split: if_splits)
  qed
qed simp

lemma route_allow_methods_bound: "0 < buf_len \<Longrightarrow> length (snd (route_allow_methods reg path buf_len)) < buf_len"
  by (cases path)
    (auto simp: route_allow_methods_def snprintf_out_def min_def split: prod.splits option.splits
      dest: allow_exact_bound [rotated])

lemma join_methods_zero: "methods_upto reg path 0 = []"
  by (simp add: methods_upto_def)

lemmas allow_exact_all = allow_exact_correct [of 0, unfolded join_methods_zero, simplified]

text \<open>The routing table of a running server, as the documentation lists it.\<close>

definition route_spec :: "module_attach_config \<Rightarrow> string \<Rightarrow> string \<Rightarrow> route_handler_t option" where
  "route_spec d method path =
     (if method \<noteq> ''GET'' then None
      else if mac_enable_views d \<noteq> 0 \<and>
              path \<in> {''/'', ''/docs'', ''/apiroot'', ''/networking'', ''/packages''}
        then Some View_template_handler
      else if mac_enable_views d \<noteq> 0 \<and> path = ''/favicon.ico'' then Some Favicon_handler
      else if mac_enable_views d \<noteq> 0 \<and> prefix ''/static/'' path then Some Static_handler
      else if mac_enable_metrics d \<noteq> 0 \<and> path \<in> {''/api/metrics'', ''/api/metric''}
        then Some Metrics_handler
      else if mac_enable_networking d \<noteq> 0 \<and> path = ''/api/networking'' then Some Networking_api_handler
      else if mac_enable_man d \<noteq> 0 \<and> prefix ''/man/'' path \<and> 2 \<le> path_slash_count (drop 5 path)
        then Some Man_render_handler
      else if mac_enable_man d \<noteq> 0 \<and> prefix ''/api/man'' path then Some Man_api_handler
      else if mac_enable_packages d \<noteq> 0 \<and> prefix ''/api/packages'' path then Some Pkg_api_handler
      else None)"

lemma route_match_spec:
  "route_match (init_routes conf reg) method path = route_spec (module_config conf) method path"
proof (cases "method = ''GET''")
  case False
  then have "\<not> list_ex (\<lambda>r. rt_method r = method \<and> rt_path r = path) (routes_of d)"
    "\<not> list_ex (\<lambda>pr. prefix_route_matches pr method path) (prefix_routes_of d)" for d
    by (auto simp: routes_of_def prefix_routes_of_def views_exact_def exact_def under_def prefix_route_matches_def)
  then have "route_match (init_routes conf reg) method path = None"
    using route_match_some_iff [of "init_routes conf reg" "method" "path"] init_routes_contents [of conf reg]
    by simp
  then show ?thesis using False by (simp add: route_spec_def)
next
  case True
  have m: "route_match (init_routes conf reg) method path =
      orelse (exact_lookup path (routes_of d)) (prefix_lookup path (prefix_routes_of d))"
    if "d = module_config conf" for d
    using that by (simp add: route_match_lookup init_routes_contents True)
  show ?thesis
  proof (cases "path \<in> set exact_paths")
    case True
    then have "path = ''/'' \<or> path = ''/docs'' \<or> path = ''/apiroot'' \<or> path = ''/networking'' \<or>
        path = ''/packages'' \<or> path = ''/favicon.ico'' \<or> path = ''/api/metrics'' \<or>
        path = ''/api/metric'' \<or> path = ''/api/networking'' \<or> path = ''/api/man/sections''"
      by (simp add: exact_paths_def)
    then show ?thesis
      unfolding m [OF refl]
      by (elim disjE; simp add: \<open>method = ''GET''\<close> routes_of_def prefix_routes_of_def views_exact_def
            route_spec_def)
  next
    case False
    then have "exact_lookup path (routes_of (module_config conf)) = None"
      by (auto simp: routes_of_def views_exact_def exact_paths_def)
    moreover have "path \<notin> {''/'', ''/docs'', ''/apiroot'', ''/networking'', ''/packages''}"
      "path \<noteq> ''/favicon.ico''" "path \<notin> {''/api/metrics'', ''/api/metric''}" "path \<noteq> ''/api/networking''"
      using False by (auto simp: exact_paths_def)
    ultimately show ?thesis
      unfolding m [OF refl] prefix_routes_of_def route_spec_def
      by (simp add: \<open>method = ''GET''\<close> eval_nat_numeral)
  qed
qed

subsection \<open>Only GET is registered\<close>

lemma init_routes_all_get:
  "(\<forall>r \<in> set (routes (init_routes conf reg)). rt_method r = ''GET'') \<and>
   (\<forall>pr \<in> set (prefix_routes (init_routes conf reg)). pr_method pr = ''GET'')"
  by (auto simp: init_routes_contents routes_of_def prefix_routes_of_def views_exact_def exact_def under_def)

lemma methods_only:
  assumes "\<forall>r \<in> set (routes reg). rt_method r = m0"
  shows "exact_methods reg path = [] \<or> exact_methods reg path = [m0]"
proof -
  have "set (exact_methods reg path) \<subseteq> {m0}"
    using assms by (auto simp: exact_methods_def set_methods_upto)
  moreover have "distinct (exact_methods reg path)"
    by (simp add: exact_methods_def methods_upto_distinct)
  ultimately show ?thesis
    by (cases "exact_methods reg path" rule: list.exhaust; cases "tl (exact_methods reg path)") auto
qed

lemma allow_methods_only_get:
  assumes get: "(\<forall>r \<in> set (routes reg). rt_method r = ''GET'') \<and>
      (\<forall>pr \<in> set (prefix_routes reg). pr_method pr = ''GET'')"
    and "route_path_known reg (Some path)" "4 \<le> buf_len"
  shows "route_allow_methods reg (Some path) buf_len = (1, ''GET'')"
proof (cases "exact_methods reg path = []")
  case False
  then have "exact_methods reg path = [''GET'']" using methods_only get by blast
  then show ?thesis
    using assms(3) by (auto simp: route_allow_methods_def allow_exact_all split: option.splits)
next
  case True
  then have "\<not> list_ex (\<lambda>r. rt_path r = path) (routes reg)"
    using set_methods_upto [of _ reg path "length (routes reg)"] by (auto simp: exact_methods_def list_ex_iff)
  then have "list_ex (\<lambda>pr. prefix (pr_prefix pr) path) (prefix_routes reg)"
    using assms(2)
    by (auto simp: route_path_known_def list_ex_iff prefix_route_path_matches_def split: if_splits)
  then obtain pr where "find (\<lambda>pr. prefix (pr_prefix pr) path) (prefix_routes reg) = Some pr"
    using find_Some_iff_list_ex by (metis option.exhaust)
  moreover from this have "pr \<in> set (prefix_routes reg)"
    by (auto simp: find_Some_iff)
  ultimately show ?thesis
    using True get assms(3)
    by (simp add: route_allow_methods_def allow_exact_all snprintf_out_def)
qed

section \<open>Properties\<close>

text \<open>
  C5. The routing decision of a running server. Whatever was registered before, after
  \<^verbatim>\<open>init_routes\<close> the handler of a request is the one of the routing table: only GET is served,
  the five views, the icon, the metrics and networking endpoints match exactly, and the static
  files, the rendered manual pages (at least two more slashes), the manual and the package API
  match by prefix; a module that the configuration disables contributes nothing.
\<close>

theorem route_match_init_routes:
  "route_match (init_routes conf reg) method path = route_spec (module_config conf) method path"
  by (rule route_match_spec)

text \<open>
  Unknown paths and refused methods are told apart correctly. For every content of the
  registry, a path is known exactly when some method is routed on it; after \<^verbatim>\<open>init_routes\<close>, when
  a path is known but the method of the request is not routed, GET is routed on it and the Allow
  list built in a buffer of at least four bytes is exactly \<^verbatim>\<open>GET\<close>.
\<close>

theorem route_path_known_correct:
  "(route_path_known reg (Some path) \<longleftrightarrow> (\<exists>m. route_match reg m path \<noteq> None)) \<and>
   (route_path_known (init_routes conf reg0) (Some path) \<and> 4 \<le> buf_len \<longrightarrow>
      route_match (init_routes conf reg0) ''GET'' path \<noteq> None \<and>
      route_allow_methods (init_routes conf reg0) (Some path) buf_len = (1, ''GET''))"
proof (intro conjI impI; (elim conjE)?)
  show "route_path_known reg (Some path) \<longleftrightarrow> (\<exists>m. route_match reg m path \<noteq> None)"
    unfolding route_match_some_iff
    by (auto simp: route_path_known_def list_ex_iff prefix_route_matches_iff)
next
  assume k: "route_path_known (init_routes conf reg0) (Some path)" and b: "4 \<le> buf_len"
  show "route_match (init_routes conf reg0) ''GET'' path \<noteq> None"
    using k init_routes_all_get [of conf reg0] unfolding route_match_some_iff
    by (auto simp: route_path_known_def list_ex_iff prefix_route_matches_iff)
  show "route_allow_methods (init_routes conf reg0) (Some path) buf_len = (1, ''GET'')"
    using k b by (rule allow_methods_only_get [OF init_routes_all_get])
qed

theorem route_path_known_correct_witness:
  "route_match (init_routes None \<lparr>routes = [], prefix_routes = []\<rparr>) ''POST'' ''/api/man/search'' = None \<and>
   route_allow_methods (init_routes None \<lparr>routes = [], prefix_routes = []\<rparr>) (Some ''/api/man/search'') 64 = (1, ''GET'')"
proof -
  have "route_path_known (init_routes None \<lparr>routes = [], prefix_routes = []\<rparr>) (Some ''/api/man/search'')"
    by (simp add: route_path_known_def init_routes_contents module_config_def prefix_routes_of_def
        under_def prefix_route_path_matches_def)
  then show ?thesis
    using route_path_known_correct [where path = "''/api/man/search''" and conf = None and buf_len = 64
        and ?reg0.0 = "\<lparr>routes = [], prefix_routes = []\<rparr>" and reg = "\<lparr>routes = [], prefix_routes = []\<rparr>"]
    by (simp add: route_match_spec route_spec_def)
qed

text \<open>
  The Allow list of a path with exact routes: for every registry, if the text fits the
  buffer, \<^verbatim>\<open>route_allow_methods\<close> writes the distinct methods registered for the path, in the order
  of registration and separated by commas, and returns their number; every method written is one
  that is really routed on the path.
\<close>

theorem route_allow_methods_exact:
  assumes "exact_methods reg path \<noteq> []" "length (join_methods (exact_methods reg path)) < buf_len"
  shows "route_allow_methods reg (Some path) buf_len =
      (length (exact_methods reg path), join_methods (exact_methods reg path)) \<and>
    distinct (exact_methods reg path) \<and>
    (\<forall>m. m \<in> set (exact_methods reg path) \<longrightarrow> route_match reg m path \<noteq> None)"
proof (intro conjI allI impI)
  show "route_allow_methods reg (Some path) buf_len =
      (length (exact_methods reg path), join_methods (exact_methods reg path))"
    using assms by (auto simp: route_allow_methods_def allow_exact_all split: option.splits)
  show "distinct (exact_methods reg path)"
    by (simp add: exact_methods_def methods_upto_distinct)
  fix m assume "m \<in> set (exact_methods reg path)"
  then show "route_match reg m path \<noteq> None"
    unfolding route_match_some_iff by (auto simp: exact_methods_def set_methods_upto list_ex_iff)
qed

theorem route_allow_methods_exact_witness:
  "route_allow_methods
     \<lparr>routes = [\<lparr>rt_method = ''GET'', rt_path = ''/a'', rt_handler = Favicon_handler\<rparr>,
                \<lparr>rt_method = ''PUT'', rt_path = ''/a'', rt_handler = Favicon_handler\<rparr>,
                \<lparr>rt_method = ''GET'', rt_path = ''/a'', rt_handler = Static_handler\<rparr>],
      prefix_routes = []\<rparr> (Some ''/a'') 64 = (2, ''GET, PUT'')"
  using route_allow_methods_exact [where path = "''/a''" and buf_len = 64 and
      reg = "\<lparr>routes = [\<lparr>rt_method = ''GET'', rt_path = ''/a'', rt_handler = Favicon_handler\<rparr>,
                \<lparr>rt_method = ''PUT'', rt_path = ''/a'', rt_handler = Favicon_handler\<rparr>,
                \<lparr>rt_method = ''GET'', rt_path = ''/a'', rt_handler = Static_handler\<rparr>],
      prefix_routes = []\<rparr>"]
  by (simp add: exact_methods_def methods_upto_def)

text \<open>
  A view request always finds its page: when the router picks the view handler, the view
  table has an entry for the same method and path, so the handler does not answer 404.
\<close>

theorem view_handler_has_view:
  assumes "route_match (init_routes conf reg) method path = Some View_template_handler"
  shows "\<exists>v. find_view_route method path = Some v \<and> vr_path v = path \<and> vr_method v = method"
proof -
  have "method = ''GET''" "path \<in> {''/'', ''/docs'', ''/apiroot'', ''/networking'', ''/packages''}"
    using assms [unfolded route_match_spec] by (auto simp: route_spec_def split: if_splits)
  then show ?thesis by (auto simp: find_view_route_def view_routes_def)
qed

theorem view_handler_has_view_witness:
  "\<exists>v. find_view_route ''GET'' ''/docs'' = Some v \<and> vr_path v = ''/docs'' \<and> vr_method v = ''GET''"
  by (rule view_handler_has_view [where conf = None and reg = "\<lparr>routes = [], prefix_routes = []\<rparr>"])
    (simp add: route_match_spec route_spec_def module_config_def)

text \<open>
  A registration that does not fit is lost without an error: with 32 exact routes in the
  table, \<^verbatim>\<open>router_register\<close> through the URL registry returns 0 and the table stays as it was.
\<close>

theorem router_register_full_silent:
  assumes "MAX_ROUTES \<le> length (routes reg)"
  shows "router_register (Some url_router) method path handler reg = (0, reg)"
  using assms by (simp add: register_route_def)

theorem router_register_full_silent_witness:
  "router_register (Some url_router) ''GET'' ''/new'' Static_handler
     \<lparr>routes = replicate 32 (exact ''/'' Favicon_handler), prefix_routes = []\<rparr> =
   (0, \<lparr>routes = replicate 32 (exact ''/'' Favicon_handler), prefix_routes = []\<rparr>)"
  by (rule router_register_full_silent) (simp add: MAX_ROUTES_def)

end
