(* ===== verification/Response_Io.thy ===== *)
theory Response_Io
  imports Mw_Prelude
begin

text \<open>
  Writing to a non-blocking socket (\<^verbatim>\<open>src/http/response_io.c\<close>). The outcomes of the system calls
  are inputs: a list with one entry per \<^verbatim>\<open>write\<close>/\<^verbatim>\<open>writev\<close> call and one with an entry per
  \<^verbatim>\<open>poll\<close> call. \<open>Accepts k\<close> says that the kernel is ready to take \<open>k\<close> bytes; the call then takes
  the smaller of \<open>k\<close> and the bytes offered, which is what \<^verbatim>\<open>write(2)\<close> promises. The loops return
  \<open>None\<close> when the lists end before the code returns; otherwise the C result, the bytes that went
  out, in order, and the outcomes not consumed.
\<close>

section \<open>Model\<close>

definition WRITE_RETRY_LIMIT :: nat where "WRITE_RETRY_LIMIT = 5"

datatype write_outcome = Accepts nat | Write_EINTR | Write_EAGAIN | Write_error

datatype poll_outcome = Poll_revents bool bool | Poll_timeout | Poll_EINTR | Poll_error
  \<comment> \<open>\<open>Poll_revents out err\<close>: a positive result, with POLLOUT and with POLLERR, POLLHUP or POLLNVAL\<close>

fun http_response_wait_fd_writable :: "poll_outcome list \<Rightarrow> (int \<times> poll_outcome list) option" where
  "http_response_wait_fd_writable [] = None"
| "http_response_wait_fd_writable (Poll_revents out err # ps) =
     (if out then Some (0, ps) else if err then Some (-1, ps) else http_response_wait_fd_writable ps)"
| "http_response_wait_fd_writable (Poll_timeout # ps) = Some (-1, ps)"
| "http_response_wait_fd_writable (Poll_EINTR # ps) = http_response_wait_fd_writable ps"
| "http_response_wait_fd_writable (Poll_error # ps) = Some (-1, ps)"

type_synonym io_result = "(int \<times> bytes \<times> write_outcome list \<times> poll_outcome list) option"

text \<open>The bytes of an iteration go out before those of the later ones.\<close>

definition after_sent :: "bytes \<Rightarrow> io_result \<Rightarrow> io_result" where
  "after_sent b r = map_option (\<lambda>(rc, out, rest). (rc, b @ out, rest)) r"

fun write_all_loop :: "nat \<Rightarrow> bytes \<Rightarrow> write_outcome list \<Rightarrow> poll_outcome list \<Rightarrow> io_result" where
  "write_all_loop retries p [] ps = (if p = [] then Some (0, [], [], ps) else None)"
| "write_all_loop retries p (w # ws) ps =
     (if p = [] then Some (0, [], w # ws, ps) else
      case w of
        Write_EINTR \<Rightarrow> write_all_loop retries p ws ps
      | Write_EAGAIN \<Rightarrow>
          if WRITE_RETRY_LIMIT < retries then Some (-1, [], ws, ps)
          else (case http_response_wait_fd_writable ps of
                  None \<Rightarrow> None
                | Some (rc, ps') \<Rightarrow>
                    if rc < 0 then Some (-1, [], ws, ps') else write_all_loop (retries + 1) p ws ps')
      | Write_error \<Rightarrow> Some (-1, [], ws, ps)
      | Accepts k \<Rightarrow>
          (let n = min k (length p) in
           if n = 0 then Some (-1, [], ws, ps)
           else after_sent (take n p) (write_all_loop 0 (drop n p) ws ps)))"

definition http_response_write_all :: "bytes \<Rightarrow> write_outcome list \<Rightarrow> poll_outcome list \<Rightarrow> io_result" where
  "http_response_write_all buf ws ps = write_all_loop 0 buf ws ps"

text \<open>
  The vectors from \<^verbatim>\<open>iov[idx]\<close> on; the inner loop of \<^verbatim>\<open>http_response_writev_all\<close> skips the
  vectors that were sent whole and shortens the one that was sent in part.
\<close>

fun iov_advance :: "nat \<Rightarrow> bytes list \<Rightarrow> bytes list" where
  "iov_advance left [] = []"
| "iov_advance left (v # vs) =
     (if length v \<le> left then iov_advance (left - length v) vs else drop left v # vs)"

fun writev_all_loop :: "nat \<Rightarrow> bytes list \<Rightarrow> write_outcome list \<Rightarrow> poll_outcome list \<Rightarrow> io_result" where
  "writev_all_loop retries iov [] ps = (if iov = [] then Some (0, [], [], ps) else None)"
| "writev_all_loop retries iov (w # ws) ps =
     (if iov = [] then Some (0, [], w # ws, ps) else
      case w of
        Write_EINTR \<Rightarrow> writev_all_loop retries iov ws ps
      | Write_EAGAIN \<Rightarrow>
          if WRITE_RETRY_LIMIT < retries then Some (-1, [], ws, ps)
          else (case http_response_wait_fd_writable ps of
                  None \<Rightarrow> None
                | Some (rc, ps') \<Rightarrow>
                    if rc < 0 then Some (-1, [], ws, ps') else writev_all_loop (retries + 1) iov ws ps')
      | Write_error \<Rightarrow> Some (-1, [], ws, ps)
      | Accepts k \<Rightarrow>
          (let n = min k (length (concat iov)) in
           if n = 0 then Some (-1, [], ws, ps)
           else after_sent (take n (concat iov)) (writev_all_loop 0 (iov_advance n iov) ws ps)))"

definition http_response_writev_all :: "bytes list \<Rightarrow> write_outcome list \<Rightarrow> poll_outcome list \<Rightarrow> io_result" where
  "http_response_writev_all iov ws ps = writev_all_loop 0 iov ws ps"

definition http_response_status_text :: "int \<Rightarrow> string" where
  "http_response_status_text code =
     (if code = 200 then ''OK''
      else if code = 301 then ''Moved Permanently''
      else if code = 302 then ''Found''
      else if code = 304 then ''Not Modified''
      else if code = 400 then ''Bad Request''
      else if code = 403 then ''Forbidden''
      else if code = 404 then ''Not Found''
      else if code = 405 then ''Method Not Allowed''
      else if code = 500 then ''Internal Server Error''
      else if code = 503 then ''Service Unavailable''
      else ''Unknown'')"

section \<open>Lemmas\<close>

lemma wait_fd_rc: "http_response_wait_fd_writable ps = Some (rc, ps') \<Longrightarrow> rc = 0 \<or> rc = -1"
  by (induction ps rule: http_response_wait_fd_writable.induct) (auto split: if_splits)

lemma after_sent_Some:
  "after_sent b r = Some (rc, out, ws, ps) \<longleftrightarrow> (\<exists>out'. r = Some (rc, out', ws, ps) \<and> out = b @ out')"
  by (auto simp: after_sent_def)

lemma after_sent_None [simp]: "after_sent b r = None \<longleftrightarrow> r = None"
  by (simp add: after_sent_def)

lemma concat_iov_advance: "concat (iov_advance n iov) = drop n (concat iov)"
  by (induction n iov rule: iov_advance.induct) auto

lemma iov_advance_nonempty:
  "[] \<notin> set iov \<Longrightarrow> [] \<notin> set (iov_advance n iov)"
  by (induction n iov rule: iov_advance.induct) auto

lemma concat_nonempty_iff: "[] \<notin> set iov \<Longrightarrow> concat iov = [] \<longleftrightarrow> iov = []"
  by (cases iov) auto

text \<open>What goes out is a prefix of the buffer, all of it exactly on success.\<close>

lemma write_all_loop_sent:
  "write_all_loop retries p ws ps = Some (rc, out, ws', ps') \<Longrightarrow>
    (rc = 0 \<and> out = p) \<or> (rc = -1 \<and> strict_prefix out p)"
proof (induction retries p ws ps arbitrary: out rule: write_all_loop.induct)
  case (1 retries p ps)
  then show ?case by (simp split: if_splits)
next
  case (2 retries p w ws ps)
  show ?case
  proof (cases "p = []")
    case True
    then show ?thesis using 2 by simp
  next
    case p: False
    show ?thesis
    proof (cases w)
      case (Accepts k)
      show ?thesis
      proof (cases "min k (length p) = 0")
        case True
        then show ?thesis using 2 Accepts p by (auto simp: strict_prefix_def split: if_splits)
      next
        case False
        then have "write_all_loop retries p (w # ws) ps =
            after_sent (take (min k (length p)) p) (write_all_loop 0 (drop (min k (length p)) p) ws ps)"
          using Accepts p by (simp only: write_all_loop.simps Let_def write_outcome.case if_False)
        then obtain out' where o': "write_all_loop 0 (drop (min k (length p)) p) ws ps = Some (rc, out', ws', ps')"
          "out = take (min k (length p)) p @ out'"
          using 2(4) after_sent_Some by metis
        have "(rc = 0 \<and> out' = drop (min k (length p)) p) \<or>
            (rc = -1 \<and> strict_prefix out' (drop (min k (length p)) p))"
          using 2(1) [OF p Accepts refl False o'(1)] .
        moreover have "strict_prefix (take n p @ out') p" if "strict_prefix out' (drop n p)" for n
          using that append_take_drop_id [of n p]
          by (metis append_same_eq same_append_eq same_prefix_prefix strict_prefix_def)
        ultimately show ?thesis unfolding o'(2) by auto
      qed
    next
      case Write_EAGAIN
      then show ?thesis using 2(3,4) p
        by (auto simp: strict_prefix_def split: if_splits option.splits prod.splits)
    qed (use 2(2,4) p in \<open>auto simp: strict_prefix_def\<close>)
  qed
qed

text \<open>The scattered write is the plain write of the concatenation.\<close>

lemma writev_all_loop_eq:
  "[] \<notin> set iov \<Longrightarrow> writev_all_loop retries iov ws ps = write_all_loop retries (concat iov) ws ps"
proof (induction ws arbitrary: retries iov ps)
  case Nil
  then show ?case by (cases iov) auto
next
  case (Cons w ws)
  obtain p where p: "concat iov = p" by simp
  have e: "p = [] \<longleftrightarrow> iov = []" using concat_nonempty_iff [OF Cons.prems] p by simp
  have adv: "writev_all_loop 0 (iov_advance n iov) ws ps = write_all_loop 0 (drop n p) ws ps" for n
    using Cons.IH [OF iov_advance_nonempty [OF Cons.prems]] p by (simp add: concat_iov_advance)
  have same: "writev_all_loop r iov ws ps' = write_all_loop r p ws ps'" for r ps'
    using Cons.IH [OF Cons.prems] p by simp
  show ?case
    unfolding writev_all_loop.simps write_all_loop.simps p adv same e ..
qed

text \<open>
  How many outcomes the loop can consume: a run of more than six EAGAIN answers ends it, every
  accepted byte starts a new run.
\<close>

lemma wait_fd_returns:
  "p0 \<notin> {Poll_EINTR, Poll_revents False False} \<Longrightarrow> \<exists>rc. http_response_wait_fd_writable (p0 # ps) = Some (rc, ps)"
  by (cases p0) auto

lemma write_all_loop_returns:
  "Write_EINTR \<notin> set ws \<Longrightarrow> Poll_EINTR \<notin> set ps \<Longrightarrow> Poll_revents False False \<notin> set ps \<Longrightarrow>
    retries \<le> 6 \<Longrightarrow> 7 * length p \<le> length ws + retries \<Longrightarrow> length ws \<le> length ps \<Longrightarrow>
    write_all_loop retries p ws ps \<noteq> None"
proof (induction ws arbitrary: retries p ps)
  case Nil
  then show ?case by (cases p) auto
next
  case (Cons w ws)
  then obtain p0 ps0 where ps: "ps = p0 # ps0" by (cases ps) auto
  show ?case
  proof (cases "p = []")
    case p: False
    show ?thesis
    proof (cases w)
      case (Accepts k)
      have "write_all_loop 0 (drop (min k (length p)) p) ws ps \<noteq> None" if "min k (length p) \<noteq> 0"
        using Cons.prems that by (intro Cons.IH) auto
      then show ?thesis using Accepts p by (simp add: Let_def del: not_None_eq)
    next
      case Write_EAGAIN
      obtain rc where rc: "http_response_wait_fd_writable ps = Some (rc, ps0)"
        using wait_fd_returns [of p0 ps0] Cons.prems(2,3) ps by auto
      have "write_all_loop (retries + 1) p ws ps0 \<noteq> None" if "\<not> WRITE_RETRY_LIMIT < retries"
        using Cons.prems that ps by (intro Cons.IH) (auto simp: WRITE_RETRY_LIMIT_def)
      then show ?thesis using Write_EAGAIN p rc by simp
    qed (use Cons.prems p in auto)
  qed simp
qed

section \<open>Properties\<close>

text \<open>
  C9. Nothing is lost, repeated or reordered by partial writes: whatever the kernel accepts per
  call and however often it asks to retry, the scattered write of non-empty vectors sends exactly
  what a plain write of their concatenation would send, with the same result; the bytes that went
  out are the whole message when the result is 0, and a proper prefix of it when it is -1.
\<close>

theorem http_response_writev_all_correct:
  assumes "[] \<notin> set iov"
  shows "http_response_writev_all iov ws ps = http_response_write_all (concat iov) ws ps \<and>
    (case http_response_writev_all iov ws ps of
       None \<Rightarrow> True
     | Some (rc, out, ws', ps') \<Rightarrow>
         (rc = 0 \<and> out = concat iov) \<or> (rc = -1 \<and> strict_prefix out (concat iov)))"
  using writev_all_loop_eq [OF assms, of 0 ws ps] write_all_loop_sent [of 0 "concat iov" ws ps]
  by (auto simp: http_response_writev_all_def http_response_write_all_def split: option.splits)

theorem http_response_writev_all_correct_witness:
  "http_response_writev_all [''head'', ''body''] [Accepts 3, Write_EAGAIN, Accepts 2, Write_EINTR, Accepts 9]
      [Poll_revents True False] = Some (0, ''headbody'', [], []) \<and>
   http_response_write_all ''headbody'' [Accepts 3, Write_EAGAIN, Accepts 2, Write_EINTR, Accepts 9]
      [Poll_revents True False] = Some (0, ''headbody'', [], [])"
proof -
  have "http_response_writev_all [''head'', ''body'']
      [Accepts 3, Write_EAGAIN, Accepts 2, Write_EINTR, Accepts 9] [Poll_revents True False] =
    Some (0, ''headbody'', [], [])"
    by code_simp
  then show ?thesis
    using http_response_writev_all_correct [of "[''head'', ''body'']"
        "[Accepts 3, Write_EAGAIN, Accepts 2, Write_EINTR, Accepts 9]" "[Poll_revents True False]"]
    by simp
qed



end
