(* ===== verification/Response_Pool.thy ===== *)
theory Response_Pool
  imports Interfaces
begin

text \<open>
  The sharded pool of response objects (\<^verbatim>\<open>src/http/response_pool.c\<close>) and the response object of
  \<^verbatim>\<open>include/miniweb/http/handler.h\<close>.

  A response pointer is an address: item \<open>i\<close> of shard \<open>s\<close>, or a block from \<^verbatim>\<open>calloc\<close>. The objects
  themselves are passed by value: an item is cleared when it is handed out and again when it is
  given back, so the array never carries a value from one user to the next, and the shard keeps
  only its free list. The text in the \<^verbatim>\<open>headers\<close> array is \<open>rs_headers\<close>, whose length is the C
  field \<^verbatim>\<open>headers_len\<close>; \<open>rs_body\<close> holds the bytes of the buffer that \<^verbatim>\<open>body\<close> points to. The
  identity of the calling thread is a parameter.
\<close>

section \<open>Model\<close>

unbundle bit_operations_syntax

definition RESPONSE_POOL_SHARDS :: nat where "RESPONSE_POOL_SHARDS = 16"
definition RESPONSE_POOL_ITEMS :: nat where "RESPONSE_POOL_ITEMS = 1024"

datatype resp_addr = Pool_item nat nat | Heap_block

record http_response_t =
  rs_status_code :: int
  rs_content_type :: string
  rs_body :: "bytes option"
  rs_body_len :: nat
  rs_free_body :: bool
  rs_pool_shard_idx :: int
  rs_headers :: string
  rs_addr :: resp_addr

definition zero_response :: "resp_addr \<Rightarrow> http_response_t" where
  "zero_response a = \<lparr>rs_status_code = 0, rs_content_type = [], rs_body = None, rs_body_len = 0,
     rs_free_body = False, rs_pool_shard_idx = 0, rs_headers = [], rs_addr = a\<rparr>"

record response_pool_t =
  rp_free_stack :: "nat list"
  rp_free_top :: nat
  rp_initialized :: bool

definition thread_hash :: "64 word \<Rightarrow> 64 word" where
  "thread_hash tid = tid XOR drop_bit 7 tid XOR drop_bit 13 tid"

definition response_pool_shard_index :: "64 word \<Rightarrow> nat" where
  "response_pool_shard_index tid = unat (thread_hash tid) mod RESPONSE_POOL_SHARDS"

definition response_pool_init_locked :: "response_pool_t \<Rightarrow> response_pool_t" where
  "response_pool_init_locked pool =
     (if rp_initialized pool then pool
      else pool\<lparr>rp_free_top := RESPONSE_POOL_ITEMS,
                rp_free_stack := map (\<lambda>i. RESPONSE_POOL_ITEMS - 1 - i) [0..<RESPONSE_POOL_ITEMS],
                rp_initialized := True\<rparr>)"

definition response_pools0 :: "response_pool_t list" where
  "response_pools0 = replicate RESPONSE_POOL_SHARDS
     \<lparr>rp_free_stack = replicate RESPONSE_POOL_ITEMS 0, rp_free_top = 0, rp_initialized = False\<rparr>"

text \<open>The critical sections of acquire and release, on one shard.\<close>

definition response_pool_take :: "response_pool_t \<Rightarrow> nat option \<times> response_pool_t" where
  "response_pool_take pool =
     (let p = response_pool_init_locked pool in
      if 0 < rp_free_top p
      then (Some (rp_free_stack p ! (rp_free_top p - 1)), p\<lparr>rp_free_top := rp_free_top p - 1\<rparr>)
      else (None, p))"

definition response_pool_give :: "response_pool_t \<Rightarrow> nat \<Rightarrow> response_pool_t" where
  "response_pool_give pool idx =
     (if rp_free_top pool < RESPONSE_POOL_ITEMS
      then pool\<lparr>rp_free_stack := (rp_free_stack pool)[rp_free_top pool := idx],
                rp_free_top := rp_free_top pool + 1\<rparr>
      else pool)"

definition http_response_pool_acquire ::
  "64 word \<Rightarrow> response_pool_t list \<Rightarrow> http_response_t option \<times> response_pool_t list" where
  "http_response_pool_acquire tid pools =
     (let shard_idx = response_pool_shard_index tid;
          (r, pool) = response_pool_take (pools ! shard_idx)
      in (map_option (\<lambda>idx. (zero_response (Pool_item shard_idx idx))
                              \<lparr>rs_pool_shard_idx := int shard_idx\<rparr>) r,
          pools[shard_idx := pool]))"

definition http_response_pool_release ::
  "http_response_t option \<Rightarrow> response_pool_t list \<Rightarrow> bool \<times> response_pool_t list" where
  "http_response_pool_release resp pools =
     (case resp of None \<Rightarrow> (False, pools)
      | Some r \<Rightarrow>
          (let shard_idx = rs_pool_shard_idx r in
           if shard_idx < 0 \<or> int RESPONSE_POOL_SHARDS \<le> shard_idx then (False, pools)
           else (case rs_addr r of
                   Heap_block \<Rightarrow> (False, pools)
                 | Pool_item s idx \<Rightarrow>
                     if s \<noteq> nat shard_idx \<or> RESPONSE_POOL_ITEMS \<le> idx then (False, pools)
                     else (True, pools[s := response_pool_give (pools ! s) idx]))))"

section \<open>The free list\<close>

definition rp_free :: "response_pool_t \<Rightarrow> nat list" where
  "rp_free p = (let q = response_pool_init_locked p in take (rp_free_top q) (rp_free_stack q))"

definition response_pool_inv :: "response_pool_t \<Rightarrow> bool" where
  "response_pool_inv p \<longleftrightarrow>
     length (rp_free_stack (response_pool_init_locked p)) = RESPONSE_POOL_ITEMS \<and>
     rp_free_top (response_pool_init_locked p) \<le> RESPONSE_POOL_ITEMS \<and>
     distinct (rp_free p) \<and> set (rp_free p) \<subseteq> {..<RESPONSE_POOL_ITEMS}"

text \<open>The items that are handed out.\<close>

definition rp_live :: "response_pool_t \<Rightarrow> nat \<Rightarrow> nat option" where
  "rp_live p k = (if k < RESPONSE_POOL_ITEMS \<and> k \<notin> set (rp_free p) then Some k else None)"

lemma response_pool_init_idem [simp]:
  "response_pool_init_locked (response_pool_init_locked p) = response_pool_init_locked p"
  by (simp add: response_pool_init_locked_def)

lemma rp_initialized_init [simp]: "rp_initialized (response_pool_init_locked p)"
  by (simp add: response_pool_init_locked_def)

lemma response_pool_init_same: "rp_initialized p \<Longrightarrow> response_pool_init_locked p = p"
  by (simp add: response_pool_init_locked_def)

lemma rp_free_init [simp]: "rp_free (response_pool_init_locked p) = rp_free p"
  by (simp add: rp_free_def)

lemma response_pool_inv_init [simp]: "response_pool_inv (response_pool_init_locked p) = response_pool_inv p"
  by (simp add: response_pool_inv_def)

lemma response_pool_inv_fresh:
  assumes "\<not> rp_initialized p"
  shows "response_pool_inv p" "rp_free p = map (\<lambda>i. 1023 - i) [0..<1024]"
proof -
  show free: "rp_free p = map (\<lambda>i. 1023 - i) [0..<1024]"
    using assms by (simp add: rp_free_def response_pool_init_locked_def RESPONSE_POOL_ITEMS_def)
  have "inj_on (\<lambda>i. 1023 - i) (set [0..<1024])" by (auto simp: inj_on_def)
  then have "distinct (rp_free p)" unfolding free by (simp add: distinct_map)
  then show "response_pool_inv p"
    using assms unfolding response_pool_inv_def free
    by (auto simp: response_pool_init_locked_def RESPONSE_POOL_ITEMS_def)
qed

lemma response_pool_take_Some:
  assumes inv: "response_pool_inv p" and t: "response_pool_take p = (Some i, p')"
  shows "rp_free p = rp_free p' @ [i]" "response_pool_inv p'" "rp_initialized p'"
    "rp_free_stack p' ! rp_free_top p' = i" "rp_free_top p' < RESPONSE_POOL_ITEMS"
    "p'\<lparr>rp_free_top := rp_free_top p' + 1\<rparr> = response_pool_init_locked p"
proof -
  let ?q = "response_pool_init_locked p"
  have top: "0 < rp_free_top ?q" "rp_free_top ?q \<le> 1024" "length (rp_free_stack ?q) = 1024"
    and p': "p' = ?q\<lparr>rp_free_top := rp_free_top ?q - 1\<rparr>" and i: "i = rp_free_stack ?q ! (rp_free_top ?q - 1)"
    using t inv by (auto simp: response_pool_take_def response_pool_inv_def RESPONSE_POOL_ITEMS_def Let_def
        split: if_splits)
  show init: "rp_initialized p'" using p' by simp
  have free': "rp_free p' = take (rp_free_top ?q - 1) (rp_free_stack ?q)"
    using init p' by (simp add: rp_free_def response_pool_init_same)
  show free: "rp_free p = rp_free p' @ [i]"
    unfolding free' i using top take_Suc_conv_app_nth [of "rp_free_top ?q - 1" "rp_free_stack ?q"]
    by (simp add: rp_free_def Let_def)
  show "rp_free_stack p' ! rp_free_top p' = i" "rp_free_top p' < RESPONSE_POOL_ITEMS"
    "p'\<lparr>rp_free_top := rp_free_top p' + 1\<rparr> = ?q"
    using p' i top by (simp_all add: RESPONSE_POOL_ITEMS_def)
  show "response_pool_inv p'"
    using inv top p' init free unfolding response_pool_inv_def
    by (auto simp: response_pool_init_same RESPONSE_POOL_ITEMS_def)
qed

lemma response_pool_take_None:
  "response_pool_inv p \<Longrightarrow> response_pool_take p = (None, p') \<Longrightarrow>
    rp_free p = [] \<and> p' = response_pool_init_locked p"
  by (auto simp: response_pool_take_def rp_free_def Let_def split: if_splits)

lemma response_pool_give_live:
  assumes inv: "response_pool_inv p" and live: "rp_live p k = Some s" and init: "rp_initialized p"
  shows "rp_free (response_pool_give p k) = rp_free p @ [k]" "response_pool_inv (response_pool_give p k)"
    "rp_initialized (response_pool_give p k)"
proof -
  have k: "k < 1024" "k \<notin> set (rp_free p)" "s = k"
    using live by (auto simp: rp_live_def RESPONSE_POOL_ITEMS_def split: if_splits)
  have free: "rp_free p = take (rp_free_top p) (rp_free_stack p)"
    and len: "length (rp_free_stack p) = 1024" and top: "rp_free_top p \<le> 1024"
    and dist: "distinct (rp_free p)" and sub: "set (rp_free p) \<subseteq> {..<1024}"
    using inv init by (simp_all add: rp_free_def response_pool_init_same response_pool_inv_def RESPONSE_POOL_ITEMS_def)
  have "card (insert k (set (rp_free p))) \<le> card {..<1024::nat}"
    using sub k by (intro card_mono) auto
  then have lt: "rp_free_top p < 1024"
    using k dist len top free by (simp add: distinct_card)
  then have give: "response_pool_give p k = p\<lparr>rp_free_stack := (rp_free_stack p)[rp_free_top p := k],
      rp_free_top := rp_free_top p + 1\<rparr>"
    by (simp add: response_pool_give_def RESPONSE_POOL_ITEMS_def)
  then show init': "rp_initialized (response_pool_give p k)" using init by simp
  show free': "rp_free (response_pool_give p k) = rp_free p @ [k]"
    using init init' lt len by (simp add: give free rp_free_def response_pool_init_same take_Suc_conv_app_nth)
  show "response_pool_inv (response_pool_give p k)"
    using init' lt len dist sub k unfolding response_pool_inv_def free'
    by (simp add: response_pool_init_same give RESPONSE_POOL_ITEMS_def)
qed

text \<open>Acquire and release undo each other exactly.\<close>

lemma response_pool_give_take:
  assumes "response_pool_inv p" "response_pool_take p = (Some i, p')"
  shows "response_pool_give p' i = response_pool_init_locked p"
  using response_pool_take_Some [OF assms] by (auto simp: response_pool_give_def)

section \<open>The pool as a slot allocator\<close>

text \<open>An object is released only by the thread that acquired it: its shard is initialised.\<close>

definition rp_alloc_view :: "response_pool_t \<Rightarrow> unit \<Rightarrow> (nat \<times> nat) option \<times> response_pool_t" where
  "rp_alloc_view p u = (let (r, p') = response_pool_take p in (map_option (\<lambda>i. (i, i)) r, p'))"

definition rp_free_view :: "response_pool_t \<Rightarrow> nat \<Rightarrow> response_pool_t" where
  "rp_free_view p k = response_pool_give (response_pool_init_locked p) k"

lemma rp_alloc_view_take:
  "fst (rp_alloc_view p u) = map_option (\<lambda>i. (i, i)) (fst (response_pool_take p))"
  "snd (rp_alloc_view p u) = snd (response_pool_take p)"
  by (simp_all add: rp_alloc_view_def split_beta)

lemma rp_alloc_view_Some:
  assumes inv: "response_pool_inv p" and r: "fst (rp_alloc_view p u) = Some (k, s)"
  shows "response_pool_inv (snd (rp_alloc_view p u)) \<and> rp_live p k = None \<and>
      rp_live (snd (rp_alloc_view p u)) = (rp_live p)(k \<mapsto> s)"
proof -
  obtain p' where p': "p' = snd (response_pool_take p)" by simp
  have "fst (response_pool_take p) = Some k" "s = k"
    using r unfolding rp_alloc_view_take by auto
  then have t: "response_pool_take p = (Some k, p')" "s = k" using p' by (simp_all add: prod_eq_iff)
  note got = response_pool_take_Some [OF inv t(1)]
  have d: "distinct (rp_free p)" "set (rp_free p) \<subseteq> {..<RESPONSE_POOL_ITEMS}"
    using inv by (simp_all add: response_pool_inv_def)
  have "rp_live p k = None" using got(1) by (simp add: rp_live_def)
  moreover have "rp_live p' = (rp_live p)(k \<mapsto> s)"
    using got(1) t(2) d by (intro ext) (auto simp: rp_live_def)
  ultimately show ?thesis using got(2) p' by (simp add: rp_alloc_view_take)
qed

lemma rp_alloc_view_None:
  assumes inv: "response_pool_inv p" and r: "fst (rp_alloc_view p u) = None"
  shows "response_pool_inv (snd (rp_alloc_view p u)) \<and> rp_live (snd (rp_alloc_view p u)) = rp_live p"
proof -
  have t: "response_pool_take p = (None, snd (response_pool_take p))"
    using r unfolding rp_alloc_view_take by (simp add: prod_eq_iff)
  have "rp_live (response_pool_init_locked p) = rp_live p" by (intro ext) (simp add: rp_live_def)
  then show ?thesis
    using response_pool_take_None [OF inv t] inv by (simp add: rp_alloc_view_take)
qed

lemma rp_free_view_live:
  assumes inv: "response_pool_inv p" and l: "rp_live p k \<noteq> None"
  shows "response_pool_inv (rp_free_view p k) \<and> rp_live (rp_free_view p k) = (rp_live p)(k := None)"
proof -
  have l': "rp_live (response_pool_init_locked p) k = Some k"
    using l by (auto simp: rp_live_def split: if_splits)
  have inv': "response_pool_inv (response_pool_init_locked p)" using inv by simp
  note given = response_pool_give_live [OF inv' l' rp_initialized_init]
  have "rp_live (rp_free_view p k) = (rp_live p)(k := None)"
    using given(1) by (intro ext) (simp add: rp_free_view_def rp_live_def)
  then show ?thesis using given(2) by (simp add: rp_free_view_def)
qed

lemma rp_live_self: "rp_live p k = Some s \<Longrightarrow> s = k \<and> s < RESPONSE_POOL_ITEMS"
  by (simp add: rp_live_def split: if_splits)

interpretation rsp: slot_allocator rp_alloc_view rp_free_view rp_live RESPONSE_POOL_ITEMS response_pool_inv
proof unfold_locales
  show "k = k'" if "rp_live p k = Some s" "rp_live p k' = Some s" for p k k' s
    using rp_live_self [OF that(1)] rp_live_self [OF that(2)] by simp
  show "s < RESPONSE_POOL_ITEMS" if "rp_live p k = Some s" for p k s
    using rp_live_self [OF that] by simp
qed (rule rp_alloc_view_Some rp_alloc_view_None rp_free_view_live; assumption)+

section \<open>Properties\<close>


end
