(* ===== verification/Http_Response.thy ===== *)
theory Http_Response
  imports Http_Request Router Response_Io Response_Pool
begin

text \<open>
  Building and sending responses (\<^verbatim>\<open>src/http/response_api.c\<close>) and the helpers of the handlers
  (\<^verbatim>\<open>src/http/response_helpers.c\<close>): request headers, the client address behind a trusted proxy,
  and the one-call responses.

  The context \<open>http_ctx\<close> is what these functions share: the response pool, the routing table, the
  outcomes of the coming system calls on the client socket, and the bytes already sent. A result
  \<open>None\<close> means that the list of outcomes ended while the code was still writing. A body is sent as
  the first \<^verbatim>\<open>body_len\<close> bytes of its buffer.
\<close>

section \<open>Model\<close>

definition HEADERS_SIZE :: nat where "HEADERS_SIZE = 2048"
definition HDR_SCRATCH :: nat where "HDR_SCRATCH = 1024"
definition INET_ADDRSTRLEN :: nat where "INET_ADDRSTRLEN = 16"

record http_ctx =
  hc_tid :: "64 word"
  hc_calloc_ok :: bool
  hc_pools :: "response_pool_t list"
  hc_registry :: url_registry
  hc_ws :: "write_outcome list"
  hc_ps :: "poll_outcome list"
  hc_out :: bytes

definition http_response_create ::
  "64 word \<Rightarrow> bool \<Rightarrow> response_pool_t list \<Rightarrow> http_response_t option \<times> response_pool_t list" where
  "http_response_create tid calloc_ok pools =
     (let (r, pools') = http_response_pool_acquire tid pools;
          r' = (case r of
                  Some resp \<Rightarrow> Some resp
                | None \<Rightarrow> if calloc_ok then Some ((zero_response Heap_block)\<lparr>rs_pool_shard_idx := -1\<rparr>)
                          else None)
      in (map_option (\<lambda>resp. resp\<lparr>rs_status_code := 200,
                                   rs_content_type := ''text/html; charset=utf-8''\<rparr>) r', pools'))"

definition http_response_set_status :: "http_response_t \<Rightarrow> int \<Rightarrow> http_response_t" where
  "http_response_set_status resp code = resp\<lparr>rs_status_code := code\<rparr>"

definition http_response_set_body :: "http_response_t \<Rightarrow> bytes option \<Rightarrow> nat \<Rightarrow> bool \<Rightarrow> http_response_t" where
  "http_response_set_body resp body len must_free =
     resp\<lparr>rs_body := body, rs_body_len := len, rs_free_body := must_free\<rparr>"

definition http_response_add_header :: "http_response_t \<Rightarrow> string \<Rightarrow> string \<Rightarrow> http_response_t" where
  "http_response_add_header resp name val =
     (if HEADERS_SIZE \<le> length (rs_headers resp) then resp
      else
        (let space = HEADERS_SIZE - length (rs_headers resp);
             line = name @ '': '' @ val @ CRLF
         in resp\<lparr>rs_headers := rs_headers resp @ snprintf_out space line\<rparr>))"

definition response_head :: "http_request_t \<Rightarrow> http_response_t \<Rightarrow> string" where
  "response_head req resp =
     ''HTTP/1.1 '' @ show_int (rs_status_code resp) @ '' '' @
       http_response_status_text (rs_status_code resp) @ CRLF @
     ''Content-Type: '' @ rs_content_type resp @ CRLF @
     ''Content-Length: '' @ show_nat (rs_body_len resp) @ CRLF @
     ''Connection: '' @ (if req_keep_alive req then ''keep-alive'' else ''close'') @ CRLF @
     ''Server: MiniWeb/kqueue'' @ CRLF"

definition http_response_send ::
  "http_request_t \<Rightarrow> http_response_t \<Rightarrow> write_outcome list \<Rightarrow> poll_outcome list \<Rightarrow> io_result" where
  "http_response_send req resp ws ps =
     (let h = response_head req resp in
      if 4096 \<le> length h then Some (-1, [], ws, ps)
      else
        (let h2 = (if 0 < length (rs_headers resp) \<and> length (rs_headers resp) < 4096 - length h
                   then h @ rs_headers resp else h)
         in if 4096 \<le> length h2 + 2 then Some (-1, [], ws, ps)
            else
              (let header = h2 @ CRLF in
               case rs_body resp of
                 Some body \<Rightarrow>
                   if 0 < rs_body_len resp
                   then http_response_writev_all [header, take (rs_body_len resp) body] ws ps
                   else http_response_write_all header ws ps
               | None \<Rightarrow> http_response_write_all header ws ps)))"

definition http_response_free :: "http_response_t option \<Rightarrow> response_pool_t list \<Rightarrow> response_pool_t list" where
  "http_response_free resp pools =
     (case resp of None \<Rightarrow> pools | Some r \<Rightarrow> snd (http_response_pool_release (Some r) pools))"

subsection \<open>Request helpers\<close>

definition http_request_get_header :: "http_request_t \<Rightarrow> string \<Rightarrow> string option" where
  "http_request_get_header req name =
     (let buf = req_buffer req;
          header = (case strcasestr buf (snprintf_out 256 (CRLF @ name @ '':'')) of
                      Some i \<Rightarrow> Some (drop i buf)
                    | None \<Rightarrow> map_option (\<lambda>i. drop i buf) (strcasestr buf (snprintf_out 256 (name @ '':''))))
      in case header of
           None \<Rightarrow> None
         | Some h \<Rightarrow>
             (case strchr h (CHR '':'') of
                None \<Rightarrow> None
              | Some colon \<Rightarrow>
                  (let val = dropWhile (\<lambda>c. c = CHR '' '' \<or> c = CHR 0x09) (drop (colon + 1) h)
                   in case strstr val CRLF of
                        None \<Rightarrow> None
                      | Some len \<Rightarrow>
                          Some (take (if HDR_SCRATCH \<le> len then HDR_SCRATCH - 1 else len) val))))"

text \<open>\<^verbatim>\<open>inet_ntop(AF_INET, ...)\<close>: the four octets in decimal, most significant first.\<close>

definition inet_ntop :: "32 word \<Rightarrow> string" where
  "inet_ntop a = show_nat (unat (drop_bit 24 a)) @ ''.'' @ show_nat (unat (drop_bit 16 a) mod 256) @ ''.'' @
     show_nat (unat (drop_bit 8 a) mod 256) @ ''.'' @ show_nat (unat a mod 256)"

definition peer_ip :: "http_request_t \<Rightarrow> string" where
  "peer_ip req = (case req_client_addr req of None \<Rightarrow> [] | Some a \<Rightarrow> inet_ntop a)"

definition http_request_get_client_ip :: "miniweb_conf_t \<Rightarrow> http_request_t \<Rightarrow> string" where
  "http_request_get_client_ip config req =
     (if cf_trusted_proxy config \<noteq> [] \<and> peer_ip req = cf_trusted_proxy config
      then (case http_request_get_header req ''X-Real-IP'' of
              Some (c # cs) \<Rightarrow> strlcpy INET_ADDRSTRLEN (c # cs)
            | _ \<Rightarrow>
              (case http_request_get_header req ''X-Forwarded-For'' of
                 Some (c # cs) \<Rightarrow>
                   (let forwarded = c # cs;
                        len = (case strchr forwarded (CHR '','') of Some i \<Rightarrow> i | None \<Rightarrow> length forwarded)
                    in take (if INET_ADDRSTRLEN \<le> len then INET_ADDRSTRLEN - 1 else len) forwarded)
               | _ \<Rightarrow> strlcpy INET_ADDRSTRLEN (peer_ip req)))
      else strlcpy INET_ADDRSTRLEN (peer_ip req))"

definition http_request_is_https :: "miniweb_conf_t \<Rightarrow> http_request_t \<Rightarrow> bool" where
  "http_request_is_https config req =
     (if \<not> (cf_trusted_proxy config \<noteq> [] \<and> peer_ip req = cf_trusted_proxy config) then False
      else http_request_get_header req ''X-Forwarded-Proto'' = Some ''https'')"

subsection \<open>One-call responses\<close>

text \<open>\<^verbatim>\<open>ret = http_response_send(req, resp); http_response_free(resp); return ret;\<close>\<close>

definition send_and_free :: "http_request_t \<Rightarrow> http_response_t \<Rightarrow> http_ctx \<Rightarrow> (int \<times> http_ctx) option" where
  "send_and_free req resp hc =
     map_option (\<lambda>(ret, out, ws, ps).
         (ret, hc\<lparr>hc_pools := http_response_free (Some resp) (hc_pools hc), hc_ws := ws, hc_ps := ps,
                  hc_out := hc_out hc @ out\<rparr>))
       (http_response_send req resp (hc_ws hc) (hc_ps hc))"

definition error_page :: "int \<Rightarrow> string option \<Rightarrow> string" where
  "error_page status_code message =
     ''<!DOCTYPE html><html><head>'' @
     ''<meta charset='' @ [QUOTE] @ ''UTF-8'' @ [QUOTE] @ ''>'' @
     ''<title>'' @ show_int status_code @ '' Error</title>'' @
     ''<link rel='' @ [QUOTE] @ ''stylesheet'' @ [QUOTE] @ '' href='' @ [QUOTE] @ ''/static/css/custom.css'' @ [QUOTE] @ ''>'' @
     ''</head><body>'' @
     ''<div class='' @ [QUOTE] @ ''container'' @ [QUOTE] @ ''>'' @
     ''<h1>'' @ show_int status_code @ '' Error</h1>'' @
     ''<p>'' @ (case message of Some m \<Rightarrow> m | None \<Rightarrow> ''An error occurred'') @ ''</p>'' @
     ''<hr><p><a href='' @ [QUOTE] @ ''/'' @ [QUOTE] @ ''>MiniWeb</a> on OpenBSD</p></div>'' @
     ''</body></html>''"

definition http_send_error ::
  "http_request_t \<Rightarrow> int \<Rightarrow> string option \<Rightarrow> http_ctx \<Rightarrow> (int \<times> http_ctx) option" where
  "http_send_error req status_code message hc =
     (let text = error_page status_code message;
          body = snprintf_out 2048 text @ [NUL];
          (r, pools) = http_response_create (hc_tid hc) (hc_calloc_ok hc) (hc_pools hc);
          hc1 = hc\<lparr>hc_pools := pools\<rparr>
      in case r of
           None \<Rightarrow> Some (-1, hc1)
         | Some resp \<Rightarrow>
             (let resp1 = http_response_set_body (http_response_set_status resp status_code)
                            (Some body) (length text) False;
                  (n, allow) = route_allow_methods (hc_registry hc) (Some (req_url req)) 256;
                  resp2 = (if status_code = 405 \<and> 0 < n
                           then http_response_add_header resp1 ''Allow'' allow else resp1)
              in send_and_free req resp2 hc1))"

definition http_send_json :: "http_request_t \<Rightarrow> string \<Rightarrow> http_ctx \<Rightarrow> (int \<times> http_ctx) option" where
  "http_send_json req json hc =
     (let (r, pools) = http_response_create (hc_tid hc) (hc_calloc_ok hc) (hc_pools hc);
          hc1 = hc\<lparr>hc_pools := pools\<rparr>
      in case r of
           None \<Rightarrow> Some (-1, hc1)
         | Some resp \<Rightarrow>
             send_and_free req
               (http_response_set_body (resp\<lparr>rs_content_type := ''application/json''\<rparr>)
                  (Some json) (length json) False) hc1)"

definition http_send_html :: "http_request_t \<Rightarrow> string \<Rightarrow> http_ctx \<Rightarrow> (int \<times> http_ctx) option" where
  "http_send_html req html hc =
     (let (r, pools) = http_response_create (hc_tid hc) (hc_calloc_ok hc) (hc_pools hc);
          hc1 = hc\<lparr>hc_pools := pools\<rparr>
      in case r of
           None \<Rightarrow> Some (-1, hc1)
         | Some resp \<Rightarrow>
             send_and_free req (http_response_set_body resp (Some html) (length html) False) hc1)"

section \<open>The pool around a response\<close>

text \<open>The shard of the calling thread can serve, or the heap can.\<close>

definition can_create :: "http_ctx \<Rightarrow> bool" where
  "can_create hc \<longleftrightarrow> length (hc_pools hc) = RESPONSE_POOL_SHARDS \<and>
     response_pool_inv (hc_pools hc ! response_pool_shard_index (hc_tid hc)) \<and>
     (hc_calloc_ok hc \<or> rp_free (hc_pools hc ! response_pool_shard_index (hc_tid hc)) \<noteq> [])"

text \<open>The pools after a response has come and gone: the shard of the thread is initialised.\<close>

definition pools_ready :: "http_ctx \<Rightarrow> response_pool_t list" where
  "pools_ready hc =
     (let s = response_pool_shard_index (hc_tid hc)
      in (hc_pools hc)[s := response_pool_init_locked (hc_pools hc ! s)])"

lemma response_pool_shard_index_less: "response_pool_shard_index tid < RESPONSE_POOL_SHARDS"
  by (simp add: response_pool_shard_index_def RESPONSE_POOL_SHARDS_def)

text \<open>A created response is a fresh 200, and giving it back restores the pool exactly.\<close>

lemma http_response_create_free:
  assumes "can_create hc"
  obtains resp pools where
    "http_response_create (hc_tid hc) (hc_calloc_ok hc) (hc_pools hc) = (Some resp, pools)"
    "rs_status_code resp = 200" "rs_content_type resp = ''text/html; charset=utf-8''" "rs_headers resp = []"
    "\<And>r. rs_addr r = rs_addr resp \<Longrightarrow> rs_pool_shard_idx r = rs_pool_shard_idx resp \<Longrightarrow>
       http_response_free (Some r) pools = pools_ready hc"
proof -
  let ?s = "response_pool_shard_index (hc_tid hc)"
  let ?p = "hc_pools hc ! ?s"
  have s: "?s < 16" "?s < length (hc_pools hc)" and inv: "response_pool_inv ?p"
    using assms response_pool_shard_index_less [of "hc_tid hc"]
    by (auto simp: can_create_def RESPONSE_POOL_SHARDS_def)
  obtain r p' where take: "response_pool_take ?p = (r, p')" by fastforce
  show thesis
  proof (cases r)
    case None
    then have free: "rp_free ?p = []" "p' = response_pool_init_locked ?p"
      using response_pool_take_None [OF inv] take by auto
    then have "hc_calloc_ok hc" using assms by (simp add: can_create_def)
    then show thesis
      using None take free
      by (intro that [of "(zero_response Heap_block)\<lparr>rs_pool_shard_idx := -1, rs_status_code := 200,
            rs_content_type := ''text/html; charset=utf-8''\<rparr>" "pools_ready hc"])
        (auto simp: http_response_create_def http_response_pool_acquire_def pools_ready_def Let_def
          zero_response_def http_response_free_def http_response_pool_release_def)
  next
    case (Some i)
    note got = response_pool_take_Some [OF inv take [unfolded Some]]
    have give: "response_pool_give p' i = response_pool_init_locked ?p"
      using response_pool_give_take [OF inv take [unfolded Some]] .
    have "i \<in> set (rp_free ?p)" using got(1) by simp
    then have i: "i < RESPONSE_POOL_ITEMS" using inv by (auto simp: response_pool_inv_def)
    show thesis
      using Some take s i give
      by (intro that [of "(zero_response (Pool_item ?s i))\<lparr>rs_pool_shard_idx := int ?s, rs_status_code := 200,
            rs_content_type := ''text/html; charset=utf-8''\<rparr>" "(hc_pools hc)[?s := p']"])
        (auto simp: http_response_create_def http_response_pool_acquire_def pools_ready_def Let_def
          zero_response_def http_response_free_def http_response_pool_release_def RESPONSE_POOL_SHARDS_def)
  qed
qed

section \<open>The message on the wire\<close>

definition join_crlf :: "string list \<Rightarrow> string" where
  "join_crlf ls = concat (map (\<lambda>l. l @ CRLF) ls)"

lemma join_crlf_simps [simp]:
  "join_crlf [] = []" "join_crlf (l # ls) = l @ CRLF @ join_crlf ls"
  "join_crlf (ls @ ls') = join_crlf ls @ join_crlf ls'"
  by (simp_all add: join_crlf_def)

text \<open>The HTTP/1.1 message of a response: status line, header lines, empty line, body.\<close>

definition message_lines :: "bool \<Rightarrow> int \<Rightarrow> string \<Rightarrow> string list \<Rightarrow> nat \<Rightarrow> string list" where
  "message_lines keep code ctype extra n =
     [''HTTP/1.1 '' @ show_int code @ '' '' @ http_response_status_text code,
      ''Content-Type: '' @ ctype,
      ''Content-Length: '' @ show_nat n,
      ''Connection: '' @ (if keep then ''keep-alive'' else ''close''),
      ''Server: MiniWeb/kqueue''] @ extra"

definition http_message :: "bool \<Rightarrow> int \<Rightarrow> string \<Rightarrow> string list \<Rightarrow> bytes \<Rightarrow> bytes" where
  "http_message keep code ctype extra body =
     join_crlf (message_lines keep code ctype extra (length body)) @ CRLF @ body"

lemma response_head_lines:
  "response_head req resp =
     join_crlf (message_lines (req_keep_alive req) (rs_status_code resp) (rs_content_type resp) [] (rs_body_len resp))"
  by (simp add: response_head_def message_lines_def)

lemma http_response_send_message:
  assumes "rs_headers resp = join_crlf extra" "rs_body resp = Some buf"
    and "rs_body_len resp = length body" "take (length body) buf = body"
    and "length (join_crlf (message_lines (req_keep_alive req) (rs_status_code resp) (rs_content_type resp)
          extra (length body))) + 2 < 4096"
  shows "http_response_send req resp ws ps =
    http_response_write_all
      (http_message (req_keep_alive req) (rs_status_code resp) (rs_content_type resp) extra body) ws ps"
proof -
  let ?L = "\<lambda>x. message_lines (req_keep_alive req) (rs_status_code resp) (rs_content_type resp) x (length body)"
  have split: "join_crlf (?L extra) = join_crlf (?L []) @ join_crlf extra"
    by (simp add: message_lines_def)
  have head: "response_head req resp = join_crlf (?L [])"
    using assms(3) by (simp add: response_head_lines)
  obtain H X where HX: "join_crlf (?L []) = H" "join_crlf extra = X" by simp
  have fit: "length H + length X + 2 < 4096" using assms(5) HX by (simp add: split)
  then have fit': "length X < 4096 - length H" by arith
  have "http_response_send req resp ws ps =
      (if 0 < length body then http_response_writev_all [(H @ X) @ CRLF, body] ws ps
       else http_response_write_all ((H @ X) @ CRLF) ws ps)"
    using assms(1-4) fit fit' HX head by (cases X) (simp_all add: http_response_send_def Let_def)
  then have "http_response_send req resp ws ps =
      (if 0 < length body then http_response_writev_all [join_crlf (?L extra) @ CRLF, body] ws ps
       else http_response_write_all (join_crlf (?L extra) @ CRLF) ws ps)"
    unfolding split HX .
  also have "\<dots> = http_response_write_all (join_crlf (?L extra) @ CRLF @ body) ws ps"
    using writev_all_loop_eq [of "[join_crlf (?L extra) @ CRLF, body]" 0 ws ps]
    by (auto simp: http_response_writev_all_def http_response_write_all_def)
  finally show ?thesis by (simp add: http_message_def)
qed

lemma length_show_nat: "n < 10 ^ Suc k \<Longrightarrow> length (show_nat n) \<le> Suc k"
proof (induction k arbitrary: n)
  case 0
  then show ?case by (simp add: show_nat.simps [of n])
next
  case (Suc k)
  show ?case
  proof (cases "n < 10")
    case False
    have "n div 10 < 10 ^ Suc k" using Suc.prems by (simp add: less_mult_imp_div_less)
    then have "length (show_nat (n div 10)) \<le> Suc k" by (rule Suc.IH)
    then show ?thesis using False by (simp add: show_nat.simps [of n])
  qed (simp add: show_nat.simps [of n])
qed

lemma length_show_code: "100 \<le> code \<Longrightarrow> code < 600 \<Longrightarrow> length (show_int code) \<le> 3"
  using length_show_nat [of "nat code" 2] by (simp add: show_int_def)

lemma length_status_text: "length (http_response_status_text code) \<le> 21"
  by (simp add: http_response_status_text_def)

text \<open>The fixed part of every header block is short.\<close>

lemma length_message_lines:
  assumes "100 \<le> code" "code < 600" "n < 10 ^ 19"
  shows "length (join_crlf (message_lines keep code ctype extra n)) \<le>
    150 + length ctype + length (join_crlf extra)"
  using length_show_code [OF assms(1,2)] length_status_text [of code] length_show_nat [of n 18] assms(3)
  by (simp add: message_lines_def)

text \<open>A receiver finds the end of the header block where the body starts.\<close>

definition clean_line :: "string \<Rightarrow> bool" where
  "clean_line l \<longleftrightarrow> l \<noteq> [] \<and> CHR 0x0D \<notin> set l"

lemma strstr_skip:
  "CHR 0x0D \<notin> set a \<Longrightarrow> strstr (a @ b) (CRLF @ CRLF) = map_option ((+) (length a)) (strstr b (CRLF @ CRLF))"
  by (induction a) (auto simp: option.map_comp comp_def option.map_ident cong: option.map_cong)

lemma find_header_end_lines:
  "ls \<noteq> [] \<Longrightarrow> \<forall>l \<in> set ls. clean_line l \<Longrightarrow>
    find_header_end (join_crlf ls @ CRLF @ body) = Some (length (join_crlf ls) - 2)"
proof (induction ls)
  case (Cons l ls)
  have l: "CHR 0x0D \<notin> set l" "l \<noteq> []" using Cons.prems by (simp_all add: clean_line_def)
  show ?case
  proof (cases ls)
    case Nil
    then show ?thesis using strstr_fresh [of "CRLF @ CRLF" "CHR 0x0D" "[CHR 0x0A, CHR 0x0D, CHR 0x0A]" l body] l
      by (simp add: find_header_end_def)
  next
    case (Cons l2 ls2)
    obtain c cs where c: "l2 = c # cs" "c \<noteq> CHR 0x0D"
      using Cons.prems Cons by (cases l2) (auto simp: clean_line_def)
    have "find_header_end (join_crlf ls @ CRLF @ body) = Some (length (join_crlf ls) - 2)"
      using Cons.IH Cons.prems Cons by simp
    then show ?thesis
      using strstr_skip [OF l(1), of "CRLF @ join_crlf ls @ CRLF @ body"] c Cons
      by (auto simp: find_header_end_def)
  qed
qed simp

lemma join_crlf_append_header:
  assumes "rs_headers resp = join_crlf extra"
    and "length (join_crlf extra) + length name + length val + 4 < HEADERS_SIZE"
  shows "rs_headers (http_response_add_header resp name val) = join_crlf (extra @ [name @ '': '' @ val])"
  using assms by (simp add: http_response_add_header_def snprintf_out_def Let_def)

lemma http_response_add_header_bound:
  "length (rs_headers resp) < HEADERS_SIZE \<Longrightarrow>
    length (rs_headers (http_response_add_header resp name val)) < HEADERS_SIZE"
  by (auto simp: http_response_add_header_def snprintf_out_def Let_def)

text \<open>What a one-call response does to the context, given the message it writes.\<close>

definition delivered :: "http_ctx \<Rightarrow> bytes \<Rightarrow> (int \<times> http_ctx) option" where
  "delivered hc msg =
     map_option (\<lambda>(rc, out, ws, ps).
         (rc, hc\<lparr>hc_pools := pools_ready hc, hc_ws := ws, hc_ps := ps, hc_out := hc_out hc @ out\<rparr>))
       (http_response_write_all msg (hc_ws hc) (hc_ps hc))"

lemma delivered_sent:
  assumes "delivered hc msg = Some (0, hc')"
  shows "hc_out hc' = hc_out hc @ msg"
proof -
  obtain out ws ps where w: "http_response_write_all msg (hc_ws hc) (hc_ps hc) = Some (0, out, ws, ps)"
    and hc': "hc_out hc' = hc_out hc @ out" using assms by (auto simp: delivered_def)
  have "out = msg" using write_all_loop_sent w by (fastforce simp: http_response_write_all_def)
  then show ?thesis using hc' by simp
qed

lemma send_and_free_delivered:
  assumes "http_response_send req r (hc_ws hc) (hc_ps hc) = http_response_write_all msg (hc_ws hc) (hc_ps hc)"
    and "http_response_free (Some r) pools = pools_ready hc"
  shows "send_and_free req r (hc\<lparr>hc_pools := pools\<rparr>) = delivered hc msg"
  using assms by (simp add: send_and_free_def delivered_def option.map_cong prod.case_distrib)

text \<open>
  A response that was created, filled in and sent: whatever headers were added, the message is the
  one its fields describe. All one-call responses and the JSON handlers go through this.
\<close>

lemma created_response_delivered:
  assumes "can_create hc" "length body < 10 ^ 19" "100 \<le> code" "code < 600"
    and "length ctype + length (join_crlf extra) < 3900"
  obtains resp pools where "http_response_create (hc_tid hc) (hc_calloc_ok hc) (hc_pools hc) = (Some resp, pools)"
    "rs_status_code resp = 200" "rs_content_type resp = ''text/html; charset=utf-8''" "rs_headers resp = []"
    "\<And>r. rs_addr r = rs_addr resp \<Longrightarrow> rs_pool_shard_idx r = rs_pool_shard_idx resp \<Longrightarrow> rs_status_code r = code \<Longrightarrow>
       rs_content_type r = ctype \<Longrightarrow> rs_headers r = join_crlf extra \<Longrightarrow> rs_body r = Some body \<Longrightarrow> rs_body_len r = length body \<Longrightarrow>
       send_and_free req r (hc\<lparr>hc_pools := pools\<rparr>) = delivered hc (http_message (req_keep_alive req) code ctype extra body)"
proof -
  obtain resp pools where r: "http_response_create (hc_tid hc) (hc_calloc_ok hc) (hc_pools hc) = (Some resp, pools)"
    "rs_status_code resp = 200" "rs_content_type resp = ''text/html; charset=utf-8''" "rs_headers resp = []"
    "\<And>r. rs_addr r = rs_addr resp \<Longrightarrow> rs_pool_shard_idx r = rs_pool_shard_idx resp \<Longrightarrow>
       http_response_free (Some r) pools = pools_ready hc"
    by (rule http_response_create_free [OF assms(1)]) blast
  have "http_response_send req r ws ps = http_response_write_all (http_message (req_keep_alive req) code ctype extra body) ws ps"
    if "rs_status_code r = code" "rs_content_type r = ctype" "rs_headers r = join_crlf extra" "rs_body r = Some body"
      "rs_body_len r = length body" for r ws ps
    using http_response_send_message [where resp = r and body = body and buf = body and extra = extra and req = req] that
      length_message_lines [OF assms(3,4,2), of "req_keep_alive req" ctype extra] assms(5)
    by simp
  then show thesis using r by (intro that) (auto intro: send_and_free_delivered)
qed

lemma http_send_html_delivered:
  assumes "can_create hc" "length html < 10 ^ 19"
  shows "http_send_html req html hc =
    delivered hc (http_message (req_keep_alive req) 200 ''text/html; charset=utf-8'' [] html)"
  by (rule created_response_delivered [OF assms, of 200 "''text/html; charset=utf-8''" "[]" req])
    (simp_all add: http_send_html_def http_response_set_body_def)

lemma http_send_json_delivered:
  assumes "can_create hc" "length json < 10 ^ 19"
  shows "http_send_json req json hc =
    delivered hc (http_message (req_keep_alive req) 200 ''application/json'' [] json)"
  by (rule created_response_delivered [OF assms, of 200 "''application/json''" "[]" req])
    (simp_all add: http_send_json_def http_response_set_body_def)

definition allow_lines :: "url_registry \<Rightarrow> int \<Rightarrow> string \<Rightarrow> string list" where
  "allow_lines reg code url =
     (if code = 405 \<and> 0 < fst (route_allow_methods reg (Some url) 256)
      then [''Allow: '' @ snd (route_allow_methods reg (Some url) 256)] else [])"

lemma http_send_error_delivered:
  assumes "can_create hc" "100 \<le> code" "code < 600" "length msg \<le> 1500"
  shows "http_send_error req code (Some msg) hc =
    delivered hc (http_message (req_keep_alive req) code ''text/html; charset=utf-8''
      (allow_lines (hc_registry hc) code (req_url req)) (error_page code (Some msg)))"
proof -
  obtain resp pools where r: "http_response_create (hc_tid hc) (hc_calloc_ok hc) (hc_pools hc) = (Some resp, pools)"
    "rs_status_code resp = 200" "rs_content_type resp = ''text/html; charset=utf-8''" "rs_headers resp = []"
    "\<And>r. rs_addr r = rs_addr resp \<Longrightarrow> rs_pool_shard_idx r = rs_pool_shard_idx resp \<Longrightarrow>
       http_response_free (Some r) pools = pools_ready hc"
    by (rule http_response_create_free [OF assms(1)]) blast
  obtain n allow where na: "route_allow_methods (hc_registry hc) (Some (req_url req)) 256 = (n, allow)"
    by fastforce
  have allow: "length allow < 256"
    using route_allow_methods_bound [of 256 "hc_registry hc" "Some (req_url req)"] na by simp
  let ?text = "error_page code (Some msg)"
  let ?r1 = "http_response_set_body (http_response_set_status resp code)
      (Some (snprintf_out 2048 ?text @ [NUL])) (length ?text) False"
  let ?r = "if code = 405 \<and> 0 < n then http_response_add_header ?r1 ''Allow'' allow else ?r1"
  let ?extra = "allow_lines (hc_registry hc) code (req_url req)"
  have len: "length ?text \<le> 1800"
    using length_show_code [OF assms(2,3)] assms(4) by (simp add: error_page_def)
  have hdr: "rs_headers ?r = join_crlf ?extra"
    using join_crlf_append_header [of ?r1 "[]" "''Allow''" allow] r(4) allow na
    by (auto simp: allow_lines_def http_response_set_body_def http_response_set_status_def HEADERS_SIZE_def)
  have fields: "rs_status_code ?r = code" "rs_content_type ?r = ''text/html; charset=utf-8''"
    "rs_body ?r = Some (snprintf_out 2048 ?text @ [NUL])" "rs_body_len ?r = length ?text"
    "rs_addr ?r = rs_addr resp" "rs_pool_shard_idx ?r = rs_pool_shard_idx resp"
    using r(3) by (simp_all add: http_response_add_header_def http_response_set_body_def
        http_response_set_status_def Let_def)
  have short: "length (join_crlf ?extra) \<le> 300" using allow na by (simp add: allow_lines_def)
  have fit: "length (join_crlf (message_lines (req_keep_alive req) code ''text/html; charset=utf-8''
      ?extra (length ?text))) + 2 < 4096"
    using length_message_lines [OF assms(2,3), of "length ?text" "req_keep_alive req"
        "''text/html; charset=utf-8''" ?extra] len short by simp
  have "http_response_send req ?r (hc_ws hc) (hc_ps hc) =
      http_response_write_all (http_message (req_keep_alive req) code ''text/html; charset=utf-8'' ?extra ?text)
        (hc_ws hc) (hc_ps hc)"
    using http_response_send_message [OF hdr fields(3,4)] fields(1,2) fit len by (simp add: snprintf_out_def)
  then show ?thesis
    using send_and_free_delivered r(1) r(5) [OF fields(5,6)] na by (simp add: http_send_error_def Let_def)
qed

section \<open>Addresses and headers\<close>

lemma length_show_octet: "n < 256 \<Longrightarrow> length (show_nat n) \<le> 3"
  using length_show_nat [of n 2] by simp

lemma length_inet_ntop: "length (inet_ntop a) < INET_ADDRSTRLEN"
proof -
  have "unat a < 2 ^ 32" using unsigned_less [of a] by simp
  then have "unat (drop_bit 24 a) < 256" by (simp add: unat_drop_bit_eq drop_bit_eq_div [of 24 "unat a"] less_mult_imp_div_less)
  then show ?thesis
    using length_show_octet [of "unat (drop_bit 24 a)"] length_show_octet [of "unat (drop_bit 16 a) mod 256"]
      length_show_octet [of "unat (drop_bit 8 a) mod 256"] length_show_octet [of "unat a mod 256"]
    by (simp add: inet_ntop_def INET_ADDRSTRLEN_def)
qed

lemma length_peer_ip: "length (peer_ip req) < INET_ADDRSTRLEN"
  using length_inet_ntop by (auto simp: peer_ip_def INET_ADDRSTRLEN_def split: option.splits)

section \<open>Properties\<close>

text \<open>
  C7. What a client receives for a JSON answer: when the call succeeds, the bytes that went out
  are one HTTP message whose header block, found by its first empty line, is the status line with
  the content type, the exact byte length of the body, the connection mode and the server name,
  and whose body is the JSON text; when it fails, the client got a proper prefix of that message.
  Either way the response object is back in the pool, which is exactly as before.
\<close>

theorem http_send_json_wire:
  assumes "can_create hc" "length json < 10 ^ 19" "http_send_json req json hc = Some (rc, hc')"
  shows "\<exists>out. hc_out hc' = hc_out hc @ out \<and> hc_pools hc' = pools_ready hc \<and>
    (if rc = 0
     then (\<exists>i. find_header_end out = Some i \<and> drop (i + 4) out = json \<and>
            take (i + 2) out = join_crlf (message_lines (req_keep_alive req) 200 ''application/json'' [] (length json)))
     else strict_prefix out (http_message (req_keep_alive req) 200 ''application/json'' [] json))"
proof -
  let ?ls = "message_lines (req_keep_alive req) 200 ''application/json'' [] (length json)"
  let ?msg = "http_message (req_keep_alive req) 200 ''application/json'' [] json"
  obtain out ws ps where w: "http_response_write_all ?msg (hc_ws hc) (hc_ps hc) = Some (rc, out, ws, ps)"
    and hc': "hc_out hc' = hc_out hc @ out" "hc_pools hc' = pools_ready hc"
    using assms(3) unfolding http_send_json_delivered [OF assms(1,2)] delivered_def by auto
  have sent: "(rc = 0 \<and> out = ?msg) \<or> (rc = -1 \<and> strict_prefix out ?msg)"
    using write_all_loop_sent w by (auto simp: http_response_write_all_def)
  have digits: "CHR 0x0D \<notin> set (show_nat m)" for m
    using show_nat_isdigit [of "CHR 0x0D" m] by (auto simp: isdigit_def chr_code_def)
  have clean: "?ls \<noteq> []" "\<forall>l \<in> set ?ls. clean_line l"
    using digits by (auto simp: message_lines_def clean_line_def show_int_def http_response_status_text_def)
  have "2 \<le> length (join_crlf ?ls)" by (simp add: message_lines_def)
  then have "find_header_end ?msg = Some (length (join_crlf ?ls) - 2) \<and>
      drop (length (join_crlf ?ls) - 2 + 4) ?msg = json \<and> take (length (join_crlf ?ls) - 2 + 2) ?msg = join_crlf ?ls"
    using find_header_end_lines [OF clean, of json] by (simp add: http_message_def)
  then show ?thesis using sent hc' by auto
qed

theorem http_send_json_wire_witness:
  "\<exists>rc hc'. http_send_json
      \<lparr>req_fd = 5, req_method = ''GET'', req_url = ''/api/metrics'', req_version = ''HTTP/1.1'',
        req_keep_alive = True, req_buffer = [], req_buffer_len = 0, req_client_addr = None\<rparr> ''{}''
      \<lparr>hc_tid = 7, hc_calloc_ok = False, hc_pools = response_pools0,
        hc_registry = \<lparr>routes = [], prefix_routes = []\<rparr>,
        hc_ws = [Accepts 100, Write_EAGAIN, Accepts 1000], hc_ps = [Poll_revents True False], hc_out = []\<rparr> = Some (rc, hc') \<and>
     rc = 0 \<and> (\<exists>i. find_header_end (hc_out hc') = Some i \<and> drop (i + 4) (hc_out hc') = ''{}'')"
proof -
  let ?req = "\<lparr>req_fd = 5, req_method = ''GET'', req_url = ''/api/metrics'', req_version = ''HTTP/1.1'',
        req_keep_alive = True, req_buffer = [], req_buffer_len = 0, req_client_addr = None\<rparr> :: http_request_t"
  let ?hc = "\<lparr>hc_tid = 7, hc_calloc_ok = False, hc_pools = response_pools0,
        hc_registry = \<lparr>routes = [], prefix_routes = []\<rparr>,
        hc_ws = [Accepts 100, Write_EAGAIN, Accepts 1000], hc_ps = [Poll_revents True False], hc_out = []\<rparr> :: http_ctx"
  have fresh: "\<not> rp_initialized (response_pools0 ! response_pool_shard_index 7)"
    using response_pool_shard_index_less [of 7] by (simp add: response_pools0_def)
  have can: "can_create ?hc"
    using response_pool_inv_fresh [OF fresh] by (simp add: can_create_def response_pools0_def)
  obtain m where m: "http_message True 200 ''application/json'' [] ''{}'' = m" by simp
  have len: "100 < length m" "length m < 1000"
    by (simp_all add: m [symmetric] http_message_def message_lines_def show_int_def http_response_status_text_def
        show_nat.simps)
  have "http_send_json ?req ''{}'' ?hc \<noteq> None \<and> fst (the (http_send_json ?req ''{}'' ?hc)) = 0"
    using len http_send_json_delivered [OF can, of "''{}''" ?req]
    by (simp add: delivered_def http_response_write_all_def m after_sent_def Let_def WRITE_RETRY_LIMIT_def)
  then obtain hc' where "http_send_json ?req ''{}'' ?hc = Some (0, hc')" by auto
  then show ?thesis using http_send_json_wire [OF can, of "''{}''" ?req 0 hc'] by auto
qed

text \<open>
  An error answer is the documented page: for a status code of three digits and a message of
  at most 1500 bytes, \<^verbatim>\<open>http_send_error\<close> does what a complete write of one HTTP message does, with
  that status, the HTML error page as its body and, for a 405 on a path that has methods, one
  Allow line with them; the response object is back in the pool.
\<close>

theorem http_send_error_correct:
  assumes "can_create hc" "100 \<le> code" "code < 600" "length msg \<le> 1500"
  shows "http_send_error req code (Some msg) hc =
    map_option (\<lambda>(rc, out, ws, ps).
        (rc, hc\<lparr>hc_pools := pools_ready hc, hc_ws := ws, hc_ps := ps, hc_out := hc_out hc @ out\<rparr>))
      (http_response_write_all
        (http_message (req_keep_alive req) code ''text/html; charset=utf-8''
          (if code = 405 \<and> 0 < fst (route_allow_methods (hc_registry hc) (Some (req_url req)) 256)
           then [''Allow: '' @ snd (route_allow_methods (hc_registry hc) (Some (req_url req)) 256)] else [])
          (error_page code (Some msg))) (hc_ws hc) (hc_ps hc))"
  using http_send_error_delivered [OF assms, of req] by (simp add: delivered_def allow_lines_def)

theorem http_send_error_correct_witness:
  "http_send_error
      \<lparr>req_fd = 5, req_method = ''GET'', req_url = ''/nope'', req_version = ''HTTP/1.1'',
        req_keep_alive = False, req_buffer = [], req_buffer_len = 0, req_client_addr = None\<rparr> 404 (Some ''Not Found'')
      \<lparr>hc_tid = 7, hc_calloc_ok = True, hc_pools = response_pools0,
        hc_registry = \<lparr>routes = [], prefix_routes = []\<rparr>, hc_ws = [Write_error], hc_ps = [], hc_out = []\<rparr> =
   Some (-1, \<lparr>hc_tid = 7, hc_calloc_ok = True,
        hc_pools = response_pools0[response_pool_shard_index 7 :=
           response_pool_init_locked (response_pools0 ! response_pool_shard_index 7)],
        hc_registry = \<lparr>routes = [], prefix_routes = []\<rparr>, hc_ws = [], hc_ps = [], hc_out = []\<rparr>)"
proof -
  let ?hc = "\<lparr>hc_tid = 7, hc_calloc_ok = True, hc_pools = response_pools0,
        hc_registry = \<lparr>routes = [], prefix_routes = []\<rparr>, hc_ws = [Write_error], hc_ps = [], hc_out = []\<rparr> :: http_ctx"
  have fresh: "\<not> rp_initialized (response_pools0 ! response_pool_shard_index 7)"
    using response_pool_shard_index_less [of 7] by (simp add: response_pools0_def)
  have can: "can_create ?hc"
    using response_pool_inv_fresh(1) [OF fresh] by (simp add: can_create_def response_pools0_def)
  have "http_message k c t e b \<noteq> []" for k c t e b
    by (simp add: http_message_def)
  then show ?thesis
    using http_send_error_correct [OF can, of 404 "''Not Found''"]
    by (simp add: http_response_write_all_def pools_ready_def Let_def)
qed

text \<open>
  A request header is found by its name: if the first header line whose name is \<open>name\<close> up to
  the case of letters carries the value \<open>v\<close> after blanks, and the value fits the scratch buffer,
  then the lookup returns exactly \<open>v\<close>, whatever the other lines are.
\<close>

theorem http_request_get_header_correct:
  assumes buf: "req_buffer req = pre @ CRLF @ n @ '':'' @ ws @ v @ CRLF @ rest"
    and name: "strcaseeq n name" "CHR '':'' \<notin> set n" "length name \<le> 252"
    and first: "\<And>j. j < length pre \<Longrightarrow> \<not> strncaseeq (drop j (req_buffer req)) (CRLF @ name @ '':'')"
    and ws: "\<forall>c \<in> set ws. c = CHR '' '' \<or> c = CHR 0x09"
    and v: "v = [] \<or> hd v \<notin> {CHR '' '', CHR 0x09}" "\<not> sublist CRLF v" "length v < HDR_SCRATCH"
  shows "http_request_get_header req name = Some v"
proof -
  let ?buf = "req_buffer req" and ?h = "n @ '':'' @ ws @ v @ CRLF @ rest"
  let ?needle = "map tolower (CRLF @ name @ '':'')"
  have "length (CRLF @ name @ '':'') < 256" using name(3) by simp
  then have needle: "snprintf_out 256 (CRLF @ name @ '':'') = CRLF @ name @ '':''"
    by (rule snprintf_out_short)
  have low: "map tolower ?buf = map tolower pre @ ?needle @ map tolower (ws @ v @ CRLF @ rest)"
    using name(1) by (simp add: buf strcaseeq_def)
  have "strstr (map tolower ?buf) ?needle = Some (length (map tolower pre))"
    unfolding low
  proof (rule strstr_appendI)
    fix j assume "j < length (map tolower pre)"
    then show "\<not> prefix ?needle (drop j (map tolower pre @ ?needle @ map tolower (ws @ v @ CRLF @ rest)))"
      using first [of j] unfolding strncaseeq_def low [symmetric] by (simp add: drop_map)
  qed
  then have found: "strcasestr ?buf (CRLF @ name @ '':'') = Some (length pre)"
    by (simp add: strcasestr_def)
  have drop: "drop (length pre) ?buf = CRLF @ ?h" by (simp add: buf)
  have colon: "strchr (CRLF @ ?h) (CHR '':'') = Some (length n + 2)"
    using name(2) by (simp add: strchr_None_iff)
  have "dropWhile (\<lambda>c. c = CHR '' '' \<or> c = CHR 0x09) (ws @ v @ CRLF @ rest) = v @ CRLF @ rest"
  proof -
    have "dropWhile (\<lambda>c. c = CHR '' '' \<or> c = CHR 0x09) (ws @ v @ CRLF @ rest) =
        dropWhile (\<lambda>c. c = CHR '' '' \<or> c = CHR 0x09) (v @ CRLF @ rest)"
      using ws by (intro dropWhile_append2) auto
    also have "\<dots> = v @ CRLF @ rest" using v(1) by (cases v) auto
    finally show ?thesis .
  qed
  moreover have "strstr (v @ CRLF @ rest) CRLF = Some (length v)"
    using strstr_CRLF_iff v(2) by blast
  ultimately show ?thesis
    using v(3) unfolding http_request_get_header_def needle Let_def found option.case drop colon by simp
qed

theorem http_request_get_header_correct_witness:
  "http_request_get_header
      \<lparr>req_fd = 5, req_method = ''GET'', req_url = ''/'', req_version = ''HTTP/1.1'', req_keep_alive = True,
        req_buffer = ''GET / HTTP/1.1'' @ CRLF @ ''x-real-ip:'' @ '' 10.0.0.7'' @ CRLF @ CRLF,
        req_buffer_len = 38, req_client_addr = None\<rparr> ''X-Real-IP'' = Some ''10.0.0.7''"
proof (rule http_request_get_header_correct [where pre = "''GET / HTTP/1.1''" and n = "''x-real-ip''"
      and ws = "'' ''" and rest = CRLF])
  fix j :: nat
  let ?b = "''GET / HTTP/1.1'' @ CRLF @ ''x-real-ip:'' @ '' 10.0.0.7'' @ CRLF @ CRLF"
  have "list_all (\<lambda>j. \<not> strncaseeq (drop j ?b) (CRLF @ ''X-Real-IP'' @ '':'')) [0..<14]" by code_simp
  moreover assume "j < length ''GET / HTTP/1.1''"
  ultimately show "\<not> strncaseeq (drop j (req_buffer \<lparr>req_fd = 5, req_method = ''GET'', req_url = ''/'',
      req_version = ''HTTP/1.1'', req_keep_alive = True, req_buffer = ?b, req_buffer_len = 38,
      req_client_addr = None\<rparr>)) (CRLF @ ''X-Real-IP'' @ '':'')"
    by (simp add: list_all_iff)
next
  show "\<not> sublist CRLF ''10.0.0.7''" by code_simp
  show "strcaseeq ''x-real-ip'' ''X-Real-IP''" by code_simp
qed (simp_all add: HDR_SCRATCH_def)

text \<open>
  C29. Forwarding headers cannot be forged: for a peer that is not the configured trusted proxy
  the client address is the address of the peer and the request does not count as HTTPS, whatever
  headers it sends.
\<close>

theorem untrusted_peer_not_spoofed:
  assumes "cf_trusted_proxy config = [] \<or> peer_ip req \<noteq> cf_trusted_proxy config"
  shows "http_request_get_client_ip config req = peer_ip req \<and> \<not> http_request_is_https config req"
  using assms length_peer_ip [of req]
  by (auto simp: http_request_get_client_ip_def http_request_is_https_def strlcpy_def INET_ADDRSTRLEN_def)

theorem untrusted_peer_not_spoofed_witness:
  "http_request_get_client_ip (conf_defaults 4)
      \<lparr>req_fd = 5, req_method = ''GET'', req_url = ''/'', req_version = ''HTTP/1.1'', req_keep_alive = True,
        req_buffer = ''GET / HTTP/1.1'' @ CRLF @ ''X-Real-IP: 127.0.0.1'' @ CRLF @ CRLF,
        req_buffer_len = 40, req_client_addr = Some 0x0A000007\<rparr> = ''10.0.0.7''"
proof -
  let ?req = "\<lparr>req_fd = 5, req_method = ''GET'', req_url = ''/'', req_version = ''HTTP/1.1'', req_keep_alive = True,
        req_buffer = ''GET / HTTP/1.1'' @ CRLF @ ''X-Real-IP: 127.0.0.1'' @ CRLF @ CRLF,
        req_buffer_len = 40, req_client_addr = Some 0x0A000007\<rparr> :: http_request_t"
  have "unat (drop_bit n (0x0A000007 :: 32 word)) = 0x0A000007 div 2 ^ n" for n
    by (simp add: unat_drop_bit_eq drop_bit_eq_div [of n "_ :: nat"])
  moreover have "show_nat 10 = ''10''" "show_nat 0 = ''0''" "show_nat 7 = ''7''" by code_simp+
  ultimately have ip: "peer_ip ?req = ''10.0.0.7''"
    by (simp add: peer_ip_def inet_ntop_def)
  then show ?thesis
    using untrusted_peer_not_spoofed [of "conf_defaults 4" ?req] by (simp add: conf_defaults_def)
qed

end
