(* ===== verification/Worker.thy ===== *)
theory Worker
  imports Work_Queue Connection_Pool Http_Response
begin

text \<open>
  The worker threads (\<^verbatim>\<open>src/net/worker.c\<close>): reading a request from a connection, routing it and
  deciding whether the connection is kept, and the runtime object they share with the dispatcher
  (\<^verbatim>\<open>include/miniweb/net/server.h\<close>).

  The outcomes of \<^verbatim>\<open>recv\<close>, of the writes and of \<^verbatim>\<open>kevent\<close> are inputs; what the code does to the
  kernel (bytes sent, descriptors closed, kqueue registrations) is appended to a trace. The
  handlers, which C calls through the function pointer that \<open>route_match\<close> returns, are a function
  from handler names: it gets the request and the context and returns the C result, the value of
  \<^verbatim>\<open>req->keep_alive\<close> afterwards and the new context.
\<close>

section \<open>Model\<close>

definition MAX_KEEPALIVE_REQUESTS :: int where "MAX_KEEPALIVE_REQUESTS = 64"

datatype net_action =
    Act_send int bytes | Act_close int
  | Act_kevent_add int nat | Act_kevent_enable int nat | Act_kevent_delete int

record miniweb_server_runtime_t =
  sv_running :: bool
  sv_kq_fd :: int
  sv_listen_fd :: int
  sv_signal_pipe_rfd :: int
  sv_signal_pipe_wfd :: int
  sv_queue :: "nat miniweb_work_queue_t"
  sv_pool :: miniweb_connection_pool_t
  sv_http :: http_ctx
  sv_trace :: "net_action list"

definition act :: "net_action list \<Rightarrow> miniweb_server_runtime_t \<Rightarrow> miniweb_server_runtime_t" where
  "act as rt = rt\<lparr>sv_trace := sv_trace rt @ as\<rparr>"

type_synonym handler_fn = "http_request_t \<Rightarrow> http_ctx \<Rightarrow> (int \<times> bool \<times> http_ctx) option"

text \<open>Outcomes of the calls on one client socket while a worker serves it.\<close>

datatype recv_outcome = Recv_data int bytes | Recv_EAGAIN | Recv_error
  \<comment> \<open>\<open>Recv_data t d\<close>: the socket holds \<open>d\<close> (end of file when empty), read at time \<open>t\<close>\<close>

record socket_io =
  io_recvs :: "recv_outcome list"
  io_ws :: "write_outcome list"
  io_ps :: "poll_outcome list"
  io_kevent_ok :: bool
  io_now :: int

text \<open>A call that writes to a client socket: the bytes it sends go into the trace.\<close>

definition on_socket ::
  "int \<Rightarrow> socket_io \<Rightarrow> (http_ctx \<Rightarrow> (int \<times> bool \<times> http_ctx) option) \<Rightarrow> miniweb_server_runtime_t \<Rightarrow>
    (int \<times> bool \<times> miniweb_server_runtime_t) option" where
  "on_socket fd io f rt =
     map_option (\<lambda>(rc, keep, hc).
         (rc, keep, rt\<lparr>sv_http := hc, sv_trace := sv_trace rt @ [Act_send fd (hc_out hc)]\<rparr>))
       (f ((sv_http rt)\<lparr>hc_ws := io_ws io, hc_ps := io_ps io, hc_out := []\<rparr>))"

text \<open>\<^verbatim>\<open>http_send_error\<close> leaves \<^verbatim>\<open>req->keep_alive\<close> alone.\<close>

definition error_handler :: "int \<Rightarrow> string \<Rightarrow> handler_fn" where
  "error_handler code msg req hc =
     map_option (\<lambda>(rc, hc'). (rc, req_keep_alive req, hc')) (http_send_error req code (Some msg) hc)"

definition internal_request :: "int \<Rightarrow> http_request_t" where
  "internal_request fd = \<lparr>req_fd = fd, req_method = ''GET'', req_url = ''/'', req_version = ''HTTP/1.1'',
     req_keep_alive = False, req_buffer = [], req_buffer_len = 0, req_client_addr = None\<rparr>"

definition send_error_response ::
  "int \<Rightarrow> int \<Rightarrow> string \<Rightarrow> socket_io \<Rightarrow> miniweb_server_runtime_t \<Rightarrow> miniweb_server_runtime_t option" where
  "send_error_response fd code msg io rt =
     map_option (\<lambda>(rc, keep, rt'). rt') (on_socket fd io (error_handler code msg (internal_request fd)) rt)"

definition close_connection :: "int \<Rightarrow> miniweb_server_runtime_t \<Rightarrow> miniweb_server_runtime_t" where
  "close_connection fd rt =
     (act [Act_kevent_delete fd, Act_close fd] rt)\<lparr>sv_pool := miniweb_connection_free (sv_pool rt) fd\<rparr>"

definition try_rearm_keepalive ::
  "nat \<Rightarrow> socket_io \<Rightarrow> miniweb_server_runtime_t \<Rightarrow> bool \<times> miniweb_server_runtime_t" where
  "try_rearm_keepalive slot io rt =
     (let conn = cp_pool (sv_pool rt) ! slot in
      if MAX_KEEPALIVE_REQUESTS \<le> conn_requests_served conn then (False, rt)
      else (io_kevent_ok io,
            act [Act_kevent_enable (conn_fd conn) slot]
              (rt\<lparr>sv_pool := update_conn slot
                 (\<lambda>c. c\<lparr>conn_requests_served := conn_requests_served c + 1, conn_bytes_read := 0,
                        conn_buffer := [], conn_last_activity := io_now io\<rparr>) (sv_pool rt)\<rparr>)))"

datatype recv_result = Recv_again | Recv_closed | Recv_too_large | Recv_done

text \<open>
  The reading loop: at most \<^verbatim>\<open>max_req_size - bytes_read - 1\<close> bytes per call, until the header
  block is complete.
\<close>

definition recv_append :: "miniweb_connection_t \<Rightarrow> int \<Rightarrow> bytes \<Rightarrow> miniweb_connection_t" where
  "recv_append conn now data =
     conn\<lparr>conn_bytes_read := conn_bytes_read conn + length data, conn_last_activity := now,
          conn_buffer := take (conn_bytes_read conn) (conn_buffer conn) @ data\<rparr>"

fun recv_loop ::
  "nat \<Rightarrow> miniweb_connection_t \<Rightarrow> recv_outcome list \<Rightarrow> (recv_result \<times> miniweb_connection_t) option" where
  "recv_loop max_req_size conn [] = None"
| "recv_loop max_req_size conn (Recv_EAGAIN # rs) = Some (Recv_again, conn)"
| "recv_loop max_req_size conn (Recv_error # rs) = Some (Recv_closed, conn)"
| "recv_loop max_req_size conn (Recv_data now d # rs) =
     (let data = take (max_req_size - conn_bytes_read conn - 1) d in
      if data = [] then Some (Recv_closed, conn)
      else
        (let conn' = recv_append conn now data
         in if find_header_end (c_str (conn_buffer conn')) \<noteq> None then Some (Recv_done, conn')
            else if max_req_size - 1 \<le> conn_bytes_read conn' then Some (Recv_too_large, conn')
            else recv_loop max_req_size conn' rs))"

definition put_recv :: "nat \<Rightarrow> miniweb_connection_t \<Rightarrow> miniweb_server_runtime_t \<Rightarrow> miniweb_server_runtime_t" where
  "put_recv slot conn rt =
     rt\<lparr>sv_pool := update_conn slot
        (\<lambda>c. c\<lparr>conn_buffer := conn_buffer conn, conn_bytes_read := conn_bytes_read conn,
               conn_last_activity := conn_last_activity conn\<rparr>) (sv_pool rt)\<rparr>"

text \<open>A complete header block: parse, route, answer, keep or close.\<close>

definition worker_respond ::
  "(route_handler_t \<Rightarrow> handler_fn) \<Rightarrow> socket_io \<Rightarrow> int \<Rightarrow> nat \<Rightarrow> miniweb_connection_t \<Rightarrow>
    miniweb_server_runtime_t \<Rightarrow> miniweb_server_runtime_t option" where
  "worker_respond handlers io fd slot conn rt =
     (let buf = c_str (conn_buffer conn); reg = hc_registry (sv_http rt) in
      case parse_request_line buf of
        None \<Rightarrow> map_option (close_connection fd) (send_error_response fd 400 ''Bad Request'' io rt)
      | Some (method, path, version) \<Rightarrow>
          (let keep_alive = request_keep_alive buf version;
               req = \<lparr>req_fd = fd, req_method = method, req_url = path, req_version = version,
                      req_keep_alive = keep_alive, req_buffer = buf,
                      req_buffer_len = conn_bytes_read conn,
                      req_client_addr = Some (sin_addr (conn_addr conn))\<rparr>;
               run = (case route_match reg method path of
                        Some h \<Rightarrow> handlers h req
                      | None \<Rightarrow>
                          if route_path_known reg (Some path)
                          then error_handler 405 ''Method Not Allowed'' req
                          else error_handler 404 ''Not Found'' req)
           in case on_socket fd io run rt of
                None \<Rightarrow> None
              | Some (handler_result, keep, rt1) \<Rightarrow>
                  if keep \<and> handler_result = 0
                  then (let (ok, rt2) = try_rearm_keepalive slot io rt1
                        in Some (if ok then rt2 else close_connection fd rt2))
                  else Some (close_connection fd rt1)))"

text \<open>What a worker does with a connection it took from the queue and found to be current.\<close>

definition worker_serve ::
  "miniweb_conf_t \<Rightarrow> (route_handler_t \<Rightarrow> handler_fn) \<Rightarrow> socket_io \<Rightarrow> int \<Rightarrow> nat \<Rightarrow>
    miniweb_server_runtime_t \<Rightarrow> miniweb_server_runtime_t option" where
  "worker_serve config handlers io fd slot rt =
     (case recv_loop (nat (cf_max_req_size config)) (cp_pool (sv_pool rt) ! slot) (io_recvs io) of
        None \<Rightarrow> None
      | Some (res, conn) \<Rightarrow>
          (let rt1 = put_recv slot conn rt in
           case res of
             Recv_again \<Rightarrow> Some (act [Act_kevent_enable fd slot] rt1)
           | Recv_closed \<Rightarrow> Some (close_connection fd rt1)
           | Recv_too_large \<Rightarrow>
               map_option (close_connection fd) (send_error_response fd 400 ''Request Too Large'' io rt1)
           | Recv_done \<Rightarrow> worker_respond handlers io fd slot conn rt1))"

text \<open>The head of the worker loop: take an item, check that it still owns its descriptor.\<close>

datatype take_result = Take_wait | Take_exit | Take_skip | Take_serve int nat

definition worker_take :: "miniweb_server_runtime_t \<Rightarrow> take_result \<times> miniweb_server_runtime_t" where
  "worker_take rt =
     (if \<not> sv_running rt then (Take_exit, rt)
      else
        (case miniweb_work_queue_pop (sv_queue rt) (sv_running rt) of
           (Pop_wait, q) \<Rightarrow> (Take_wait, rt\<lparr>sv_queue := q\<rparr>)
         | (Pop_null, q) \<Rightarrow> (Take_exit, rt\<lparr>sv_queue := q\<rparr>)
         | (Pop_item slot, q) \<Rightarrow>
             (let fd = conn_fd (cp_pool (sv_pool rt) ! slot); rt1 = rt\<lparr>sv_queue := q\<rparr> in
              if \<not> fd_in_range fd \<or> miniweb_connection_is_stale (sv_pool rt) fd (Some slot)
              then (Take_skip, rt1) else (Take_serve fd slot, rt1))))"

section \<open>Reading\<close>

text \<open>The bytes of a request are in the buffer, with room for the NUL behind them.\<close>

definition conn_buf_ok :: "nat \<Rightarrow> miniweb_connection_t \<Rightarrow> bool" where
  "conn_buf_ok m c \<longleftrightarrow> conn_bytes_read c = length (conn_buffer c) \<and> conn_bytes_read c \<le> m - 1"

lemma recv_append_simps [simp]:
  "conn_fd (recv_append c t d) = conn_fd c" "conn_gen (recv_append c t d) = conn_gen c"
  "conn_addr (recv_append c t d) = conn_addr c" "conn_created (recv_append c t d) = conn_created c"
  "conn_requests_served (recv_append c t d) = conn_requests_served c"
  "conn_bytes_read (recv_append c t d) = conn_bytes_read c + length d"
  by (simp_all add: recv_append_def)

text \<open>The four ways out of one call that delivers data.\<close>

lemma recv_data_cases [consumes 2]:
  assumes "recv_loop m conn (Recv_data now d # rs) = Some (res, conn')"
    and "data = take (m - conn_bytes_read conn - 1) d"
  obtains (stop) "res = Recv_closed" "conn' = conn" "data = []"
    | (fin) "res = Recv_done" "conn' = recv_append conn now data"
        "find_header_end (c_str (conn_buffer conn')) \<noteq> None" "data \<noteq> []"
    | (large) "res = Recv_too_large" "conn' = recv_append conn now data" "m - 1 \<le> conn_bytes_read conn'"
    | (more) "recv_loop m (recv_append conn now data) rs = Some (res, conn')" "data \<noteq> []"
        "\<not> m - 1 \<le> conn_bytes_read (recv_append conn now data)"
  using assms unfolding recv_loop.simps Let_def assms(2) [symmetric]
  by (metis Pair_inject option.inject)

lemma recv_loop_frame:
  "recv_loop m conn rs = Some (res, conn') \<Longrightarrow>
    conn_fd conn' = conn_fd conn \<and> conn_gen conn' = conn_gen conn \<and> conn_addr conn' = conn_addr conn \<and>
    conn_created conn' = conn_created conn \<and> conn_requests_served conn' = conn_requests_served conn"
proof (induction rs arbitrary: conn)
  case (Cons r rs)
  then show ?case by (cases r) (auto elim!: recv_data_cases [OF _ refl] dest!: Cons.IH simp del: recv_loop.simps(4))
qed simp

lemma recv_append_ok:
  "conn_buf_ok m conn \<Longrightarrow> data = take (m - conn_bytes_read conn - 1) d \<Longrightarrow> conn_buf_ok m (recv_append conn now data)"
  by (auto simp: conn_buf_ok_def recv_append_def)

lemma recv_append_buffer: "conn_buf_ok m conn \<Longrightarrow> conn_buffer (recv_append conn now data) = conn_buffer conn @ data"
  by (simp add: conn_buf_ok_def recv_append_def)

lemma recv_loop_buf_ok:
  "recv_loop m conn rs = Some (res, conn') \<Longrightarrow> conn_buf_ok m conn \<Longrightarrow> conn_buf_ok m conn'"
proof (induction rs arbitrary: conn)
  case (Cons r rs)
  then show ?case
    by (cases r) (auto elim!: recv_data_cases [OF _ refl] dest!: Cons.IH intro: recv_append_ok simp del: recv_loop.simps(4))
qed simp

text \<open>What the socket delivers, call after call.\<close>

fun recv_stream :: "recv_outcome list \<Rightarrow> bytes" where
  "recv_stream (Recv_data t d # rs) = d @ recv_stream rs"
| "recv_stream (_ # rs) = []"
| "recv_stream [] = []"

lemma recv_loop_stream:
  assumes "conn_buf_ok m conn" "recv_loop m conn rs = Some (res, conn')"
  shows "prefix (conn_buffer conn') (conn_buffer conn @ recv_stream rs)"
  using assms
proof (induction rs arbitrary: conn)
  case (Cons r rs)
  show ?case
  proof (cases r)
    case (Recv_data now d)
    obtain data where data: "data = take (m - conn_bytes_read conn - 1) d" by simp
    have ok: "conn_buf_ok m (recv_append conn now data)"
      using recv_append_ok [OF Cons.prems(1) data] .
    note buf = recv_append_buffer [OF Cons.prems(1), of now data]
    have sub: "prefix (conn_buffer conn @ data) (conn_buffer conn @ d @ recv_stream rs)"
      by (simp add: data take_is_prefix prefix_prefix)
    show ?thesis
      using Cons.prems(2) [unfolded Recv_data] data
    proof (cases rule: recv_data_cases)
      case more
      have "data = d" using more(3) by (simp add: data)
      then show ?thesis using Cons.IH [OF ok more(1)] buf Recv_data by simp
    qed (use sub buf Recv_data in simp_all)
  qed (use Cons.prems in auto)
qed simp

lemma recv_loop_result:
  "recv_loop m conn rs = Some (res, conn') \<Longrightarrow> conn_buf_ok m conn \<Longrightarrow>
    (res = Recv_done \<longrightarrow> find_header_end (c_str (conn_buffer conn')) \<noteq> None) \<and>
    (res = Recv_too_large \<longrightarrow> conn_bytes_read conn' = m - 1)"
proof (induction rs arbitrary: conn)
  case (Cons r rs)
  show ?case
  proof (cases r)
    case (Recv_data now d)
    obtain data where data: "data = take (m - conn_bytes_read conn - 1) d" by simp
    have ok: "conn_buf_ok m (recv_append conn now data)"
      using recv_append_ok [OF Cons.prems(2) data] .
    show ?thesis
      using Cons.prems(1) [unfolded Recv_data] data
    proof (cases rule: recv_data_cases)
      case large
      then show ?thesis using ok by (auto simp: conn_buf_ok_def)
    next
      case more
      then show ?thesis using Cons.IH ok by blast
    qed simp_all
  qed (use Cons.prems in auto)
qed simp

text \<open>Every call that does not end the loop reads at least one byte.\<close>

lemma recv_loop_returns:
  "m - conn_bytes_read conn < length rs \<Longrightarrow> recv_loop m conn rs \<noteq> None"
proof (induction rs arbitrary: conn)
  case (Cons r rs)
  show ?case
  proof (cases r)
    case (Recv_data now d)
    obtain data where data: "data = take (m - conn_bytes_read conn - 1) d" by simp
    have "recv_loop m (recv_append conn now data) rs \<noteq> None" if "data \<noteq> []"
    proof (rule Cons.IH)
      have "0 < length data" using that by simp
      moreover have "length data \<le> m - conn_bytes_read conn - 1" by (simp add: data)
      ultimately show "m - conn_bytes_read (recv_append conn now data) < length rs"
        using Cons.prems unfolding length_Cons recv_append_simps by linarith
    qed
    then show ?thesis unfolding Recv_data recv_loop.simps Let_def data [symmetric] by simp
  qed auto
qed simp

section \<open>The fate of a connection\<close>

definition no_close :: "net_action list \<Rightarrow> bool" where
  "no_close as \<longleftrightarrow> (\<forall>fd. Act_close fd \<notin> set as)"

lemma no_close_simps [simp]:
  "no_close []" "no_close (a # as) \<longleftrightarrow> (\<forall>fd. a \<noteq> Act_close fd) \<and> no_close as"
  "no_close (as @ bs) \<longleftrightarrow> no_close as \<and> no_close bs"
  by (auto simp: no_close_def)

text \<open>Either the connection is kept and its read event enabled, or it is closed once and released.\<close>

definition kept :: "int \<Rightarrow> nat \<Rightarrow> miniweb_server_runtime_t \<Rightarrow> miniweb_server_runtime_t \<Rightarrow> bool" where
  "kept fd slot rt rt' \<longleftrightarrow> conn_at (sv_pool rt') = conn_at (sv_pool rt) \<and>
     (\<exists>as. sv_trace rt' = sv_trace rt @ as @ [Act_kevent_enable fd slot] \<and> no_close as)"

definition dropped :: "int \<Rightarrow> miniweb_server_runtime_t \<Rightarrow> miniweb_server_runtime_t \<Rightarrow> bool" where
  "dropped fd rt rt' \<longleftrightarrow> conn_at (sv_pool rt') = (conn_at (sv_pool rt))(fd := None) \<and>
     (\<exists>as. sv_trace rt' = sv_trace rt @ as @ [Act_kevent_delete fd, Act_close fd] \<and> no_close as)"

text \<open>Steps that only extend the trace and write into the connection.\<close>

definition quiet :: "miniweb_server_runtime_t \<Rightarrow> miniweb_server_runtime_t \<Rightarrow> bool" where
  "quiet rt rt' \<longleftrightarrow> conn_at (sv_pool rt') = conn_at (sv_pool rt) \<and>
     (conn_pool_inv (sv_pool rt) \<longrightarrow> conn_pool_inv (sv_pool rt')) \<and>
     sv_queue rt' = sv_queue rt \<and> sv_running rt' = sv_running rt \<and>
     (\<exists>as. sv_trace rt' = sv_trace rt @ as \<and> no_close as)"

lemma quiet_refl [simp]: "quiet rt rt"
  by (simp add: quiet_def)

lemma quiet_trans: "quiet a b \<Longrightarrow> quiet b c \<Longrightarrow> quiet a c"
  by (auto simp: quiet_def)

lemma quiet_kept: "quiet rt rt1 \<Longrightarrow> kept fd slot rt1 rt' \<Longrightarrow> kept fd slot rt rt'"
  by (auto simp: quiet_def kept_def)

lemma quiet_dropped: "quiet rt rt1 \<Longrightarrow> dropped fd rt1 rt' \<Longrightarrow> dropped fd rt rt'"
  by (auto simp: quiet_def dropped_def)

lemma put_recv_quiet [intro]: "quiet rt (put_recv slot conn rt)"
  by (simp add: quiet_def put_recv_def update_conn_inv)

lemma on_socket_quiet: "on_socket fd io f rt = Some (rc, keep, rt') \<Longrightarrow> quiet rt rt'"
  by (auto simp: on_socket_def quiet_def)

lemma on_socket_pool: "on_socket fd io f rt = Some (rc, keep, rt') \<Longrightarrow> sv_pool rt' = sv_pool rt"
  by (auto simp: on_socket_def)

lemma send_error_response_quiet: "send_error_response fd code msg io rt = Some rt' \<Longrightarrow> quiet rt rt'"
  by (auto simp: send_error_response_def dest: on_socket_quiet)

lemma close_connection_dropped: "conn_pool_inv (sv_pool rt) \<Longrightarrow> dropped fd rt (close_connection fd rt)"
  by (auto simp: close_connection_def act_def dropped_def conn_at_free intro: exI [of _ "[]"])

lemma close_after_quiet:
  "quiet rt rt1 \<Longrightarrow> conn_pool_inv (sv_pool rt) \<Longrightarrow> dropped fd rt (close_connection fd rt1)"
  using close_connection_dropped quiet_dropped by (auto simp: quiet_def)

lemma try_rearm_quiet: "try_rearm_keepalive slot io rt = (ok, rt') \<Longrightarrow> quiet rt rt'"
  by (auto simp: try_rearm_keepalive_def Let_def quiet_def act_def update_conn_inv split: if_splits)

lemma try_rearm_kept:
  "try_rearm_keepalive slot io rt = (True, rt') \<Longrightarrow> conn_fd (cp_pool (sv_pool rt) ! slot) = fd \<Longrightarrow>
    kept fd slot rt rt'"
  by (auto simp: try_rearm_keepalive_def Let_def kept_def act_def intro: exI [of _ "[]"] split: if_splits)

lemma worker_respond_fate:
  assumes inv: "conn_pool_inv (sv_pool rt)" and own: "conn_fd (cp_pool (sv_pool rt) ! slot) = fd"
    and r: "worker_respond handlers io fd slot conn rt = Some rt'"
  shows "kept fd slot rt rt' \<or> dropped fd rt rt'"
proof (cases "parse_request_line (c_str (conn_buffer conn))")
  case None
  then show ?thesis
    using r close_after_quiet [OF send_error_response_quiet inv] by (auto simp: worker_respond_def Let_def)
next
  case (Some mpv)
  then obtain run rc keep rt1 where run: "on_socket fd io run rt = Some (rc, keep, rt1)"
    and rt': "rt' = (if keep \<and> rc = 0
        then (let (ok, rt2) = try_rearm_keepalive slot io rt1 in if ok then rt2 else close_connection fd rt2)
        else close_connection fd rt1)"
    using r unfolding worker_respond_def Let_def by (auto split: prod.splits option.splits if_splits)
  note q = on_socket_quiet [OF run]
  obtain ok rt2 where re: "try_rearm_keepalive slot io rt1 = (ok, rt2)" by fastforce
  have q2: "quiet rt rt2" using quiet_trans [OF q try_rearm_quiet [OF re]] .
  have "kept fd slot rt1 rt2" if ok
    using try_rearm_kept [of slot io rt1 rt2 fd] re that own on_socket_pool [OF run] by simp
  then show ?thesis
    using rt' re close_after_quiet [OF q inv] close_after_quiet [OF q2 inv] quiet_kept [OF q]
    by (auto split: if_splits)
qed

lemma worker_serve_fate:
  assumes inv: "conn_pool_inv (sv_pool rt)" and own: "conn_fd (cp_pool (sv_pool rt) ! slot) = fd"
    and r: "worker_serve config handlers io fd slot rt = Some rt'"
  shows "kept fd slot rt rt' \<or> dropped fd rt rt'"
proof -
  obtain res conn where loop: "recv_loop (nat (cf_max_req_size config)) (cp_pool (sv_pool rt) ! slot) (io_recvs io)
      = Some (res, conn)"
    using r by (auto simp: worker_serve_def split: option.splits)
  let ?rt1 = "put_recv slot conn rt"
  note q = put_recv_quiet [of rt slot conn]
  have inv1: "conn_pool_inv (sv_pool ?rt1)" using q inv by (simp add: quiet_def)
  have own1: "conn_fd (cp_pool (sv_pool ?rt1) ! slot) = fd"
    using own by (cases "slot < length (cp_pool (sv_pool rt))") (simp_all add: put_recv_def update_conn_def list_update_beyond not_less)
  have rt': "(case res of
      Recv_again \<Rightarrow> Some (act [Act_kevent_enable fd slot] ?rt1)
    | Recv_closed \<Rightarrow> Some (close_connection fd ?rt1)
    | Recv_too_large \<Rightarrow> map_option (close_connection fd) (send_error_response fd 400 ''Request Too Large'' io ?rt1)
    | Recv_done \<Rightarrow> worker_respond handlers io fd slot conn ?rt1) = Some rt'"
    using r loop by (simp add: worker_serve_def Let_def)
  show ?thesis
  proof (cases res)
    case Recv_again
    then have "kept fd slot ?rt1 rt'" using rt' by (auto simp: kept_def act_def intro: exI [of _ "[]"])
    then show ?thesis using quiet_kept [OF q] by blast
  next
    case Recv_closed
    then show ?thesis using rt' close_after_quiet [OF q inv] by auto
  next
    case Recv_too_large
    then show ?thesis
      using rt' close_after_quiet [OF quiet_trans [OF q send_error_response_quiet] inv] by auto
  next
    case Recv_done
    then have "worker_respond handlers io fd slot conn ?rt1 = Some rt'" using rt' by simp
    then have "kept fd slot ?rt1 rt' \<or> dropped fd ?rt1 rt'" by (rule worker_respond_fate [OF inv1 own1])
    then show ?thesis using quiet_kept [OF q] quiet_dropped [OF q] by blast
  qed
qed

section \<open>Every state a worker leaves behind\<close>

text \<open>
  The following does not need the connection to be still owned: a worker may finish after the
  dispatcher has released or recycled its slot.
\<close>

definition conns_ok :: "nat \<Rightarrow> miniweb_connection_pool_t \<Rightarrow> bool" where
  "conns_ok m p \<longleftrightarrow> (\<forall>c \<in> set (cp_pool p).
     conn_buf_ok m c \<and> 0 \<le> conn_requests_served c \<and> conn_requests_served c \<le> MAX_KEEPALIVE_REQUESTS)"

lemma conns_okD:
  "conns_ok m p \<Longrightarrow> slot < length (cp_pool p) \<Longrightarrow> conn_buf_ok m (cp_pool p ! slot) \<and>
    0 \<le> conn_requests_served (cp_pool p ! slot) \<and> conn_requests_served (cp_pool p ! slot) \<le> MAX_KEEPALIVE_REQUESTS"
  by (auto simp: conns_ok_def)

lemma conns_ok_update:
  assumes "conns_ok m p"
    and "\<And>c. slot < length (cp_pool p) \<Longrightarrow> c = cp_pool p ! slot \<Longrightarrow> conn_buf_ok m (f c) \<and>
      0 \<le> conn_requests_served (f c) \<and> conn_requests_served (f c) \<le> MAX_KEEPALIVE_REQUESTS"
  shows "conns_ok m (update_conn slot f p)"
proof (cases "slot < length (cp_pool p)")
  case True
  then show ?thesis
    using assms set_list_update_subset [of "cp_pool p" slot] by (fastforce simp: conns_ok_def update_conn_def)
qed (use assms(1) in \<open>simp add: conns_ok_def update_conn_def list_update_beyond\<close>)

definition quiet_ok :: "nat \<Rightarrow> miniweb_server_runtime_t \<Rightarrow> miniweb_server_runtime_t \<Rightarrow> bool" where
  "quiet_ok m rt rt' \<longleftrightarrow> quiet rt rt' \<and> (conns_ok m (sv_pool rt) \<longrightarrow> conns_ok m (sv_pool rt'))"

lemma quiet_ok_trans: "quiet_ok m a b \<Longrightarrow> quiet_ok m b c \<Longrightarrow> quiet_ok m a c"
  using quiet_trans by (auto simp: quiet_ok_def)

lemma quiet_ok_same_pool: "quiet rt rt' \<Longrightarrow> sv_pool rt' = sv_pool rt \<Longrightarrow> quiet_ok m rt rt'"
  by (simp add: quiet_ok_def)

lemma on_socket_quiet_ok: "on_socket fd io f rt = Some (rc, keep, rt') \<Longrightarrow> quiet_ok m rt rt'"
  by (simp add: quiet_ok_same_pool on_socket_quiet on_socket_pool)

lemma send_error_response_quiet_ok: "send_error_response fd code msg io rt = Some rt' \<Longrightarrow> quiet_ok m rt rt'"
  by (auto simp: send_error_response_def dest: on_socket_quiet_ok)

lemma put_recv_quiet_ok:
  assumes "recv_loop m (cp_pool (sv_pool rt) ! slot) rs = Some (res, conn)"
  shows "quiet_ok m rt (put_recv slot conn rt)"
proof -
  let ?f = "\<lambda>c. c\<lparr>conn_buffer := conn_buffer conn, conn_bytes_read := conn_bytes_read conn,
      conn_last_activity := conn_last_activity conn\<rparr>"
  have "conns_ok m (update_conn slot ?f (sv_pool rt))" if ok: "conns_ok m (sv_pool rt)"
  proof (rule conns_ok_update [OF ok])
    fix c assume slot: "slot < length (cp_pool (sv_pool rt))" and c: "c = cp_pool (sv_pool rt) ! slot"
    have "conn_buf_ok m conn" using recv_loop_buf_ok [OF assms] conns_okD [OF ok slot] by blast
    then show "conn_buf_ok m (?f c) \<and> 0 \<le> conn_requests_served (?f c) \<and>
        conn_requests_served (?f c) \<le> MAX_KEEPALIVE_REQUESTS"
      using conns_okD [OF ok slot] c by (simp add: conn_buf_ok_def)
  qed
  moreover have "sv_pool (put_recv slot conn rt) = update_conn slot ?f (sv_pool rt)"
    by (simp add: put_recv_def)
  ultimately show ?thesis by (simp add: quiet_ok_def put_recv_quiet)
qed

lemma try_rearm_quiet_ok:
  assumes "try_rearm_keepalive slot io rt = (ok, rt')"
  shows "quiet_ok m rt rt'"
proof -
  let ?f = "\<lambda>c. c\<lparr>conn_requests_served := conn_requests_served c + 1, conn_bytes_read := 0,
      conn_buffer := [], conn_last_activity := io_now io\<rparr>"
  have "conns_ok m (update_conn slot ?f (sv_pool rt))"
    if "conns_ok m (sv_pool rt)" "conn_requests_served (cp_pool (sv_pool rt) ! slot) < MAX_KEEPALIVE_REQUESTS"
    using conns_okD [OF that(1)] that(2) by (intro conns_ok_update [OF that(1)]) (simp add: conn_buf_ok_def)
  moreover have "rt' = rt \<or> (sv_pool rt' = update_conn slot ?f (sv_pool rt) \<and>
      conn_requests_served (cp_pool (sv_pool rt) ! slot) < MAX_KEEPALIVE_REQUESTS)"
    using assms by (auto simp: try_rearm_keepalive_def Let_def act_def split: if_splits)
  ultimately show ?thesis using try_rearm_quiet [OF assms] by (auto simp: quiet_ok_def)
qed

lemma worker_respond_shape:
  assumes r: "worker_respond handlers io fd slot conn rt = Some rt'"
  shows "\<exists>rt1. quiet_ok m rt rt1 \<and> (rt' = rt1 \<or> rt' = close_connection fd rt1)"
proof (cases "parse_request_line (c_str (conn_buffer conn))")
  case None
  then obtain rt1 where "send_error_response fd 400 ''Bad Request'' io rt = Some rt1" "rt' = close_connection fd rt1"
    using r by (auto simp: worker_respond_def Let_def)
  then show ?thesis using send_error_response_quiet_ok by blast
next
  case (Some mpv)
  then obtain run rc keep rt1 where run: "on_socket fd io run rt = Some (rc, keep, rt1)"
    and rt': "rt' = (if keep \<and> rc = 0
        then (let (ok, rt2) = try_rearm_keepalive slot io rt1 in if ok then rt2 else close_connection fd rt2)
        else close_connection fd rt1)"
    using r unfolding worker_respond_def Let_def by (auto split: prod.splits option.splits if_splits)
  obtain ok rt2 where re: "try_rearm_keepalive slot io rt1 = (ok, rt2)" by fastforce
  show ?thesis
    using rt' re on_socket_quiet_ok [OF run] quiet_ok_trans [OF on_socket_quiet_ok [OF run] try_rearm_quiet_ok [OF re]]
    by (auto split: if_splits)
qed

lemma worker_serve_shape:
  assumes r: "worker_serve config handlers io fd slot rt = Some rt'" and m: "m = nat (cf_max_req_size config)"
  shows "\<exists>rt1. quiet_ok m rt rt1 \<and> (rt' = rt1 \<or> rt' = close_connection fd rt1)"
proof -
  obtain res conn where loop: "recv_loop m (cp_pool (sv_pool rt) ! slot) (io_recvs io) = Some (res, conn)"
    using r m by (auto simp: worker_serve_def split: option.splits)
  let ?rt1 = "put_recv slot conn rt"
  note q = put_recv_quiet_ok [OF loop]
  have en: "quiet_ok m ?rt1 (act [Act_kevent_enable fd slot] ?rt1)"
    by (simp add: quiet_ok_def quiet_def act_def)
  show ?thesis
  proof (cases res)
    case Recv_again
    then have "rt' = act [Act_kevent_enable fd slot] ?rt1" using r loop m by (simp add: worker_serve_def Let_def)
    then show ?thesis using quiet_ok_trans [OF q en] by blast
  next
    case Recv_closed
    then have "rt' = close_connection fd ?rt1" using r loop m by (simp add: worker_serve_def Let_def)
    then show ?thesis using q by blast
  next
    case Recv_too_large
    then obtain rt2 where "send_error_response fd 400 ''Request Too Large'' io ?rt1 = Some rt2"
      "rt' = close_connection fd rt2"
      using r loop m by (auto simp: worker_serve_def Let_def)
    then show ?thesis using quiet_ok_trans [OF q send_error_response_quiet_ok] by blast
  next
    case Recv_done
    then have "worker_respond handlers io fd slot conn ?rt1 = Some rt'"
      using r loop m by (simp add: worker_serve_def Let_def)
    then show ?thesis using worker_respond_shape quiet_ok_trans [OF q] by blast
  qed
qed

lemma act_trace [simp]: "sv_trace (act as rt) = sv_trace rt @ as"
  by (simp add: act_def)

lemma close_connection_trace [simp]:
  "sv_trace (close_connection fd rt) = sv_trace rt @ [Act_kevent_delete fd, Act_close fd]"
  by (simp add: close_connection_def)

text \<open>What an error answer on a socket sends.\<close>

lemma on_socket_error_sent:
  assumes run: "on_socket fd io (error_handler code msg req) rt = Some (rc, keep, rt1)"
    and can: "can_create ((sv_http rt)\<lparr>hc_ws := io_ws io, hc_ps := io_ps io, hc_out := []\<rparr>)"
    and bounds: "100 \<le> code" "code < 600" "length msg \<le> 1500"
  shows "\<exists>out. sv_trace rt1 = sv_trace rt @ [Act_send fd out] \<and>
    prefix out (http_message (req_keep_alive req) code ''text/html; charset=utf-8''
      (allow_lines (hc_registry (sv_http rt)) code (req_url req)) (error_page code (Some msg)))"
proof -
  obtain hc where "http_send_error req code (Some msg)
      ((sv_http rt)\<lparr>hc_ws := io_ws io, hc_ps := io_ps io, hc_out := []\<rparr>) = Some (rc, hc)"
    and rt1: "sv_trace rt1 = sv_trace rt @ [Act_send fd (hc_out hc)]"
    using run by (auto simp: on_socket_def error_handler_def)
  then show ?thesis
    unfolding http_send_error_delivered [OF can bounds] delivered_def
    by (auto dest!: write_all_loop_sent simp: http_response_write_all_def strict_prefix_def)
qed

lemma try_rearm_trace:
  "try_rearm_keepalive slot io rt = (ok, rt') \<Longrightarrow> \<exists>as. sv_trace rt' = sv_trace rt @ as"
  by (auto simp: try_rearm_keepalive_def Let_def split: if_splits)

lemma worker_respond_unrouted:
  assumes p: "parse_request_line (c_str (conn_buffer conn)) = Some (method, path, version)"
    and u: "route_match (hc_registry (sv_http rt)) method path = None"
    and r: "worker_respond handlers io fd slot conn rt = Some rt'"
  obtains rc keep rt1 where
    "on_socket fd io (error_handler
        (if route_path_known (hc_registry (sv_http rt)) (Some path) then 405 else 404)
        (if route_path_known (hc_registry (sv_http rt)) (Some path) then ''Method Not Allowed'' else ''Not Found'')
        \<lparr>req_fd = fd, req_method = method, req_url = path, req_version = version,
          req_keep_alive = request_keep_alive (c_str (conn_buffer conn)) version,
          req_buffer = c_str (conn_buffer conn), req_buffer_len = conn_bytes_read conn,
          req_client_addr = Some (sin_addr (conn_addr conn))\<rparr>) rt = Some (rc, keep, rt1)"
    "\<exists>as. sv_trace rt' = sv_trace rt1 @ as"
proof -
  obtain rc keep rt1 where run: "on_socket fd io (error_handler
        (if route_path_known (hc_registry (sv_http rt)) (Some path) then 405 else 404)
        (if route_path_known (hc_registry (sv_http rt)) (Some path) then ''Method Not Allowed'' else ''Not Found'')
        \<lparr>req_fd = fd, req_method = method, req_url = path, req_version = version,
          req_keep_alive = request_keep_alive (c_str (conn_buffer conn)) version,
          req_buffer = c_str (conn_buffer conn), req_buffer_len = conn_bytes_read conn,
          req_client_addr = Some (sin_addr (conn_addr conn))\<rparr>) rt = Some (rc, keep, rt1)"
    and rt': "rt' = (if keep \<and> rc = 0
        then (let (ok, rt2) = try_rearm_keepalive slot io rt1 in if ok then rt2 else close_connection fd rt2)
        else close_connection fd rt1)"
    using p u r by (auto simp: worker_respond_def Let_def split: option.splits if_splits prod.splits)
  obtain ok rt2 where re: "try_rearm_keepalive slot io rt1 = (ok, rt2)" by fastforce
  have "\<exists>as. sv_trace rt' = sv_trace rt1 @ as"
    using rt' re try_rearm_trace [OF re] by (auto split: if_splits)
  then show thesis using that run by blast
qed

section \<open>Properties\<close>

text \<open>
  C8. Reading a request stays inside the connection buffer and keeps the bytes in order: with a
  configured request size of at most 16384, starting from a consistent connection, the loop ends
  with the terminator inside the 16384-byte buffer, the buffer holds a prefix of what the socket
  delivered, call after call, and the loop reports a complete request only when the buffer
  contains the end of a header block, and an oversized one only when the configured size is used up.
\<close>

theorem recv_loop_safe:
  assumes "conn_buf_ok m conn" "0 < m" "m \<le> MINIWEB_REQUEST_BUFFER_SIZE"
    and "recv_loop m conn rs = Some (res, conn')"
  shows "conn_bytes_read conn' < MINIWEB_REQUEST_BUFFER_SIZE \<and>
    conn_bytes_read conn' = length (conn_buffer conn') \<and>
    prefix (conn_buffer conn') (conn_buffer conn @ recv_stream rs) \<and>
    (res = Recv_done \<longrightarrow> find_header_end (c_str (conn_buffer conn')) \<noteq> None) \<and>
    (res = Recv_too_large \<longrightarrow> conn_bytes_read conn' = m - 1)"
  using recv_loop_buf_ok [OF assms(4,1)] recv_loop_stream [OF assms(1,4)] recv_loop_result [OF assms(4,1)] assms(2,3)
  by (auto simp: conn_buf_ok_def)

theorem recv_loop_safe_witness:
  "\<exists>conn'. recv_loop 16384 zero_connection
      [Recv_data 7 ''GET / HT'', Recv_data 8 (''TP/1.1'' @ CRLF @ CRLF)] = Some (Recv_done, conn') \<and>
     conn_bytes_read conn' < MINIWEB_REQUEST_BUFFER_SIZE \<and>
     find_header_end (c_str (conn_buffer conn')) \<noteq> None"
proof -
  let ?rs = "[Recv_data 7 ''GET / HT'', Recv_data 8 (''TP/1.1'' @ CRLF @ CRLF)]"
  obtain conn' where c: "recv_loop 16384 zero_connection ?rs = Some (Recv_done, conn')"
    by (simp add: zero_connection_def recv_append_def find_header_end_def c_str_def Let_def)
  have "conn_buf_ok 16384 zero_connection" by (simp add: conn_buf_ok_def zero_connection_def)
  then show ?thesis
    using recv_loop_safe [of 16384 zero_connection ?rs Recv_done conn'] c
    by (auto simp: MINIWEB_REQUEST_BUFFER_SIZE_def)
qed

text \<open>
  A worker is never caught in its reading loop: from a connection with \<open>b\<close> bytes read, it
  leaves the loop after at most \<open>m - b + 1\<close> receive calls, however little each of them delivers.
\<close>

theorem recv_loop_terminates:
  assumes "m - conn_bytes_read conn < length rs"
  shows "\<exists>res conn'. recv_loop m conn rs = Some (res, conn')"
  using recv_loop_returns [OF assms] by (cases "recv_loop m conn rs") auto

theorem recv_loop_terminates_witness:
  "\<exists>res conn'. recv_loop 3 zero_connection (replicate 4 (Recv_data 0 ''x'')) = Some (res, conn')"
  by (rule recv_loop_terminates) (simp add: zero_connection_def)

text \<open>
  C3. Every connection a worker serves has exactly one fate, whatever the client, the handler and
  the system calls do: either it is kept, with its read event enabled as the last action and no
  descriptor closed, or its registration is removed and its descriptor closed, once and last, and
  its slot released. All other connections stay as they were.
\<close>

theorem worker_serve_one_fate:
  assumes "conn_pool_inv (sv_pool rt)" "conn_at (sv_pool rt) fd = Some slot"
    and "worker_serve config handlers io fd slot rt = Some rt'"
  shows "(conn_at (sv_pool rt') = conn_at (sv_pool rt) \<and>
      (\<exists>as. sv_trace rt' = sv_trace rt @ as @ [Act_kevent_enable fd slot] \<and> no_close as)) \<or>
    (conn_at (sv_pool rt') = (conn_at (sv_pool rt))(fd := None) \<and>
      (\<exists>as. sv_trace rt' = sv_trace rt @ as @ [Act_kevent_delete fd, Act_close fd] \<and> no_close as))"
  using worker_serve_fate [OF assms(1) conn_pool_liveD(3) [OF assms(1,2)] assms(3)]
  unfolding kept_def dropped_def .

theorem worker_serve_one_fate_witness:
  "\<exists>rt slot rt'. conn_at (sv_pool rt) 5 = Some slot \<and>
     worker_serve (conf_defaults 4) (\<lambda>_ _ _. None)
       \<lparr>io_recvs = [Recv_data 3 ''GET / '', Recv_EAGAIN], io_ws = [], io_ps = [], io_kevent_ok = True, io_now = 3\<rparr>
       5 slot rt = Some rt' \<and>
     (conn_at (sv_pool rt') 5 = Some slot \<or> Act_close 5 \<in> set (sv_trace rt'))"
proof -
  let ?io = "\<lparr>io_recvs = [Recv_data 3 ''GET / '', Recv_EAGAIN], io_ws = [], io_ps = [], io_kevent_ok = True, io_now = 3\<rparr>"
  let ?a = "miniweb_connection_alloc miniweb_connection_pool_init 5 None 10 0"
  have "fst ?a \<noteq> None"
    unfolding alloc_accepts_iff [OF conn_pool_init_inv]
    by (intro conjI conn_at_init)
      (simp_all add: fd_in_range_def MINIWEB_MAX_CONNECTIONS_def miniweb_connection_pool_init_def)
  then obtain slot where slot: "fst ?a = Some slot" by auto
  note a = alloc_Some_inv [OF conn_pool_init_inv slot]
  let ?rt = "\<lparr>sv_running = True, sv_kq_fd = 3, sv_listen_fd = 4, sv_signal_pipe_rfd = 6, sv_signal_pipe_wfd = 7,
      sv_queue = miniweb_work_queue_init, sv_pool = snd ?a,
      sv_http = \<lparr>hc_tid = 1, hc_calloc_ok = True, hc_pools = response_pools0,
        hc_registry = \<lparr>routes = [], prefix_routes = []\<rparr>, hc_ws = [], hc_ps = [], hc_out = []\<rparr>,
      sv_trace = []\<rparr>"
  have len: "slot < length (cp_pool miniweb_connection_pool_init)"
    using a conn_pool_liveD(1) [of "snd ?a" 5 slot] by (simp add: miniweb_connection_pool_init_def)
  have conn: "conn_bytes_read (cp_pool (snd ?a) ! slot) = 0" "conn_buffer (cp_pool (snd ?a) ! slot) = []"
    unfolding alloc_Some_state(6) [OF slot] using len by (simp_all add: zero_connection_def)
  have live: "conn_at (sv_pool ?rt) 5 = Some slot" "conn_pool_inv (sv_pool ?rt)" using a by simp_all
  obtain rt' where r: "worker_serve (conf_defaults 4) (\<lambda>_ _ _. None) ?io 5 slot ?rt = Some rt'"
    using conn
    by (simp add: worker_serve_def conf_defaults_def Let_def recv_append_def find_header_end_def c_str_def)
  have "conn_at (sv_pool rt') 5 = Some slot \<or> Act_close 5 \<in> set (sv_trace rt')"
    using worker_serve_one_fate [OF live(2,1) r] live(1) by auto
  then show ?thesis using live r by blast
qed

text \<open>
  C28. A request that no handler takes is answered with the right error: when the header block is
  complete and parses, and the method and path are not routed, the bytes sent are the error page
  with status 405 and its Allow list if the path is known, and with status 404 otherwise, or a
  prefix of that message if the client stops reading.
\<close>

theorem worker_unrouted_error:
  assumes "parse_request_line (c_str (conn_buffer conn)) = Some (method, path, version)"
    and "route_match (hc_registry (sv_http rt)) method path = None" "can_create (sv_http rt)"
    and "worker_respond handlers io fd slot conn rt = Some rt'"
  shows "\<exists>out as. sv_trace rt' = sv_trace rt @ [Act_send fd out] @ as \<and>
    prefix out
      (if route_path_known (hc_registry (sv_http rt)) (Some path)
       then http_message (request_keep_alive (c_str (conn_buffer conn)) version) 405 ''text/html; charset=utf-8''
         (allow_lines (hc_registry (sv_http rt)) 405 path) (error_page 405 (Some ''Method Not Allowed''))
       else http_message (request_keep_alive (c_str (conn_buffer conn)) version) 404 ''text/html; charset=utf-8''
         [] (error_page 404 (Some ''Not Found'')))"
proof -
  let ?buf = "c_str (conn_buffer conn)" and ?reg = "hc_registry (sv_http rt)"
  let ?req = "\<lparr>req_fd = fd, req_method = method, req_url = path, req_version = version,
      req_keep_alive = request_keep_alive ?buf version, req_buffer = ?buf,
      req_buffer_len = conn_bytes_read conn, req_client_addr = Some (sin_addr (conn_addr conn))\<rparr>"
  let ?code = "if route_path_known ?reg (Some path) then 405 else 404 :: int"
  let ?msg = "if route_path_known ?reg (Some path) then ''Method Not Allowed'' else ''Not Found''"
  obtain rc keep rt1 where run: "on_socket fd io (error_handler ?code ?msg ?req) rt = Some (rc, keep, rt1)"
    and tail: "\<exists>as. sv_trace rt' = sv_trace rt1 @ as"
    using assms(1,2,4) by (rule worker_respond_unrouted)
  let ?hc = "(sv_http rt)\<lparr>hc_ws := io_ws io, hc_ps := io_ps io, hc_out := []\<rparr>"
  have can: "can_create ?hc" using assms(3) by (simp add: can_create_def)
  have b: "100 \<le> ?code" "?code < 600" "length ?msg \<le> 1500" by simp_all
  obtain out where out: "sv_trace rt1 = sv_trace rt @ [Act_send fd out]"
    "prefix out (http_message (req_keep_alive ?req) ?code ''text/html; charset=utf-8''
        (allow_lines ?reg ?code path) (error_page ?code (Some ?msg)))"
    using on_socket_error_sent [OF run can b] unfolding http_request_t.simps by blast
  moreover have "allow_lines ?reg 404 path = []" by (simp add: allow_lines_def)
  ultimately show ?thesis using tail by (auto split: if_splits)
qed

theorem worker_unrouted_error_witness:
  "\<exists>rt'. worker_respond (\<lambda>_ _ _. None)
      \<lparr>io_recvs = [], io_ws = [Accepts 10, Write_error], io_ps = [], io_kevent_ok = True, io_now = 0\<rparr> 5 0
      (zero_connection\<lparr>conn_buffer := ''GET /x HTTP/1.0'' @ CRLF @ CRLF\<rparr>)
      \<lparr>sv_running = True, sv_kq_fd = 3, sv_listen_fd = 4, sv_signal_pipe_rfd = 6, sv_signal_pipe_wfd = 7,
       sv_queue = miniweb_work_queue_init, sv_pool = miniweb_connection_pool_init,
       sv_http = \<lparr>hc_tid = 1, hc_calloc_ok = True, hc_pools = response_pools0,
         hc_registry = \<lparr>routes = [], prefix_routes = []\<rparr>, hc_ws = [], hc_ps = [], hc_out = []\<rparr>,
       sv_trace = []\<rparr> = Some rt' \<and>
    (\<exists>out as. sv_trace rt' = [Act_send 5 out] @ as \<and>
       prefix out (http_message False 404 ''text/html; charset=utf-8'' [] (error_page 404 (Some ''Not Found''))))"
proof -
  let ?io = "\<lparr>io_recvs = [], io_ws = [Accepts 10, Write_error], io_ps = [], io_kevent_ok = True, io_now = 0\<rparr>"
  let ?c = "zero_connection\<lparr>conn_buffer := ''GET /x HTTP/1.0'' @ CRLF @ CRLF\<rparr>"
  let ?hc = "\<lparr>hc_tid = 1, hc_calloc_ok = True, hc_pools = response_pools0,
         hc_registry = \<lparr>routes = [], prefix_routes = []\<rparr>, hc_ws = [], hc_ps = [], hc_out = []\<rparr> :: http_ctx"
  let ?rt = "\<lparr>sv_running = True, sv_kq_fd = 3, sv_listen_fd = 4, sv_signal_pipe_rfd = 6, sv_signal_pipe_wfd = 7,
       sv_queue = miniweb_work_queue_init, sv_pool = miniweb_connection_pool_init,
       sv_http = ?hc, sv_trace = []\<rparr>"
  have fresh: "\<not> rp_initialized (response_pools0 ! response_pool_shard_index 1)"
    using response_pool_shard_index_less [of 1] by (simp add: response_pools0_def)
  have can: "can_create ?hc"
    using response_pool_inv_fresh(1) [OF fresh] by (simp add: can_create_def response_pools0_def)
  have can': "can_create (?hc\<lparr>hc_ws := io_ws ?io, hc_ps := io_ps ?io, hc_out := []\<rparr>)"
    using can by (simp add: can_create_def)
  have p: "parse_request_line (c_str (conn_buffer ?c)) = Some (''GET'', ''/x'', ''HTTP/1.0'')"
    and k: "request_keep_alive (c_str (conn_buffer ?c)) ''HTTP/1.0'' = False" by code_simp+
  have n: "route_match \<lparr>routes = [], prefix_routes = []\<rparr> ''GET'' ''/x'' = None"
    "\<not> route_path_known \<lparr>routes = [], prefix_routes = []\<rparr> (Some ''/x'')"
    by (simp_all add: route_match_def route_path_known_def)
  obtain m where m: "http_message False 404 ''text/html; charset=utf-8'' [] (error_page 404 (Some ''Not Found'')) = m"
    by simp
  have "10 < length m" by (simp add: m [symmetric] http_message_def message_lines_def)
  then have w: "http_response_write_all m [Accepts 10, Write_error] [] = Some (-1, take 10 m, [], [])"
    by (cases m) (simp_all add: http_response_write_all_def after_sent_def Let_def)
  obtain rt' where r: "worker_respond (\<lambda>_ _ _. None) ?io 5 0 ?c ?rt = Some rt'"
    using http_send_error_delivered [OF can', of 404 "''Not Found''"] w m n
    unfolding worker_respond_def p option.case prod.case Let_def k
    by (simp add: on_socket_def error_handler_def delivered_def allow_lines_def)
  show ?thesis
    using worker_unrouted_error [OF p _ _ r] n k can r by auto
qed

end
