(* ===== verification/Server.thy ===== *)
theory Server
  imports Worker
begin

text \<open>
  The dispatcher (\<^verbatim>\<open>src/net/server.c\<close>): accepting, sweeping idle connections, handing readable
  ones to the workers, start-up and shut-down, and the whole server as a transition system in
  which the dispatcher and any number of workers interleave.

  Outcomes of system calls are inputs as in the theory of the workers, and their effects go into
  the same trace. The \<^verbatim>\<open>kevent\<close> wait delivers a list of events; an event carries what the calls made
  while it is handled return. One iteration of the dispatcher, the check a worker makes when it
  takes a connection, and the service of that connection are the atomic steps of the transition
  system, so that a connection can be released or recycled while a worker holds it.
\<close>

section \<open>Model\<close>

datatype accept_outcome = Accepted int sockaddr_in socket_io | Accept_EAGAIN | Accept_EINTR | Accept_error

fun handle_accept ::
  "miniweb_conf_t \<Rightarrow> accept_outcome list \<Rightarrow> miniweb_server_runtime_t \<Rightarrow> miniweb_server_runtime_t option" where
  "handle_accept config [] rt = None"
| "handle_accept config (Accept_EAGAIN # os) rt = Some rt"
| "handle_accept config (Accept_EINTR # os) rt = handle_accept config os rt"
| "handle_accept config (Accept_error # os) rt = Some rt"
| "handle_accept config (Accepted cfd caddr io # os) rt =
     (case miniweb_connection_alloc (sv_pool rt) cfd (Some caddr) (cf_max_conns config) (io_now io) of
        (None, pool) \<Rightarrow>
          (case on_socket cfd io (error_handler 503 ''Server busy'' (internal_request cfd)) rt of
             None \<Rightarrow> None
           | Some (rc, keep, rt1) \<Rightarrow> handle_accept config os (act [Act_close cfd] rt1))
      | (Some slot, pool) \<Rightarrow>
          (let rt1 = act [Act_kevent_add cfd slot] (rt\<lparr>sv_pool := pool\<rparr>)
           in if io_kevent_ok io then handle_accept config os rt1
              else handle_accept config os
                     ((act [Act_close cfd] rt1)\<lparr>sv_pool := miniweb_connection_free (sv_pool rt1) cfd\<rparr>)))"

text \<open>\<^verbatim>\<open>close(fd); miniweb_connection_free(&rt->pool, fd);\<close>\<close>

definition drop_connection :: "int \<Rightarrow> miniweb_server_runtime_t \<Rightarrow> miniweb_server_runtime_t" where
  "drop_connection fd rt = (act [Act_close fd] rt)\<lparr>sv_pool := miniweb_connection_free (sv_pool rt) fd\<rparr>"

definition is_idle :: "miniweb_conf_t \<Rightarrow> int \<Rightarrow> miniweb_connection_pool_t \<Rightarrow> int \<Rightarrow> bool" where
  "is_idle config now p fd =
     (case cp_connections p ! nat fd of
        None \<Rightarrow> False
      | Some slot \<Rightarrow> cf_conn_timeout config < now - conn_last_activity (cp_pool p ! slot))"

definition sweep_idle :: "miniweb_conf_t \<Rightarrow> int \<Rightarrow> miniweb_server_runtime_t \<Rightarrow> miniweb_server_runtime_t" where
  "sweep_idle config now rt =
     (let to_close = filter (is_idle config now (sv_pool rt)) (map int [0..<MINIWEB_MAX_CONNECTIONS])
      in foldl (\<lambda>rt fd. drop_connection fd rt) rt to_close)"

datatype pipe_outcome = Pipe_data | Pipe_EINTR | Pipe_end

fun drain_signal_pipe :: "pipe_outcome list \<Rightarrow> pipe_outcome list option" where
  "drain_signal_pipe [] = None"
| "drain_signal_pipe (Pipe_data # os) = drain_signal_pipe os"
| "drain_signal_pipe (Pipe_EINTR # os) = drain_signal_pipe os"
| "drain_signal_pipe (Pipe_end # os) = Some os"

record kevent_t =
  ke_ident :: int
  ke_udata :: "nat option"
  ke_eof_or_error :: bool
  ke_accepts :: "accept_outcome list"
  ke_pipe :: "pipe_outcome list"

definition dispatch_event ::
  "miniweb_conf_t \<Rightarrow> kevent_t \<Rightarrow> miniweb_server_runtime_t \<Rightarrow> miniweb_server_runtime_t option" where
  "dispatch_event config ev rt =
     (if ke_ident ev = sv_signal_pipe_rfd rt
      then map_option (\<lambda>_. rt\<lparr>sv_running := False\<rparr>) (drain_signal_pipe (ke_pipe ev))
      else if ke_ident ev = sv_listen_fd rt then handle_accept config (ke_accepts ev) rt
      else
        (let fd = ke_ident ev in
         if \<not> fd_in_range fd \<or> miniweb_connection_is_stale (sv_pool rt) fd (ke_udata ev) then Some rt
         else if ke_eof_or_error ev then Some (drop_connection fd rt)
         else
           (let (rc, q) = miniweb_work_queue_push (sv_queue rt) (the (ke_udata ev))
            in if rc < 0 then Some (drop_connection fd rt) else Some (rt\<lparr>sv_queue := q\<rparr>))))"

fun dispatch_events ::
  "miniweb_conf_t \<Rightarrow> kevent_t list \<Rightarrow> miniweb_server_runtime_t \<Rightarrow> miniweb_server_runtime_t option" where
  "dispatch_events config [] rt = Some rt"
| "dispatch_events config (ev # evs) rt =
     (case dispatch_event config ev rt of None \<Rightarrow> None | Some rt' \<Rightarrow> dispatch_events config evs rt')"

datatype kevent_outcome = Kev_EINTR | Kev_error | Kev_events "kevent_t list"

text \<open>One iteration of the event loop; the flag says whether the loop goes on.\<close>

definition server_iteration ::
  "miniweb_conf_t \<Rightarrow> int \<Rightarrow> kevent_outcome \<Rightarrow> miniweb_server_runtime_t \<Rightarrow> int \<Rightarrow>
    (bool \<times> miniweb_server_runtime_t \<times> int) option" where
  "server_iteration config now kev rt last_sweep =
     (case kev of
        Kev_EINTR \<Rightarrow> Some (True, rt, last_sweep)
      | Kev_error \<Rightarrow> Some (False, rt, last_sweep)
      | Kev_events evs \<Rightarrow>
          (let (rt1, last_sweep') =
             (if 1 \<le> now - last_sweep then (sweep_idle config now rt, now) else (rt, last_sweep))
           in map_option (\<lambda>rt2. (True, rt2, last_sweep')) (dispatch_events config evs rt1)))"

fun server_loop ::
  "miniweb_conf_t \<Rightarrow> (int \<times> kevent_outcome) list \<Rightarrow> miniweb_server_runtime_t \<Rightarrow> int \<Rightarrow>
    miniweb_server_runtime_t option" where
  "server_loop config [] rt last_sweep = (if sv_running rt then None else Some rt)"
| "server_loop config ((now, kev) # ks) rt last_sweep =
     (if \<not> sv_running rt then Some rt
      else (case server_iteration config now kev rt last_sweep of
              None \<Rightarrow> None
            | Some (go, rt', ls) \<Rightarrow> if go then server_loop config ks rt' ls else Some rt'))"

subsection \<open>Start-up and shut-down\<close>

record setup_io =
  su_pipe :: "(int \<times> int) option"
  su_socket :: int
  su_pton_ok :: bool
  su_bind_ok :: bool
  su_listen_ok :: bool
  su_kqueue :: int
  su_kev_listen_ok :: bool
  su_kev_pipe_ok :: bool
  su_thread_ok :: "nat \<Rightarrow> bool"
  su_now :: int

text \<open>The workers started before the first \<^verbatim>\<open>pthread_create\<close> that fails.\<close>

fun start_threads :: "(nat \<Rightarrow> bool) \<Rightarrow> nat \<Rightarrow> nat \<Rightarrow> bool \<times> nat" where
  "start_threads ok i 0 = (True, i)"
| "start_threads ok i (Suc n) = (if ok i then start_threads ok (i + 1) n else (False, i))"

definition runtime_init :: "http_ctx \<Rightarrow> miniweb_server_runtime_t" where
  "runtime_init hc = \<lparr>sv_running = True, sv_kq_fd = -1, sv_listen_fd = -1, sv_signal_pipe_rfd = -1,
     sv_signal_pipe_wfd = -1, sv_queue = miniweb_work_queue_init, sv_pool = miniweb_connection_pool_init,
     sv_http = hc, sv_trace = []\<rparr>"

definition server_setup ::
  "miniweb_conf_t \<Rightarrow> setup_io \<Rightarrow> miniweb_server_runtime_t \<Rightarrow> bool \<times> nat \<times> miniweb_server_runtime_t" where
  "server_setup config su rt =
     (case su_pipe su of
        None \<Rightarrow> (False, 0, rt)
      | Some (rfd, wfd) \<Rightarrow>
          (let rt1 = rt\<lparr>sv_signal_pipe_rfd := rfd, sv_signal_pipe_wfd := wfd, sv_listen_fd := su_socket su\<rparr> in
           if su_socket su < 0 \<or> \<not> su_pton_ok su \<or> \<not> su_bind_ok su \<or> \<not> su_listen_ok su then (False, 0, rt1)
           else
             (let rt2 = rt1\<lparr>sv_kq_fd := su_kqueue su\<rparr> in
              if su_kqueue su < 0 \<or> \<not> su_kev_listen_ok su \<or> \<not> su_kev_pipe_ok su then (False, 0, rt2)
              else
                (let (ok, n) = start_threads (su_thread_ok su) 0 (nat (cf_threads config))
                 in if ok then (True, n, rt2) else (False, n, rt2\<lparr>sv_running := False\<rparr>)))))"

definition close_if_open :: "int \<Rightarrow> net_action list" where
  "close_if_open fd = (if 0 \<le> fd then [Act_close fd] else [])"

definition server_out :: "miniweb_server_runtime_t \<Rightarrow> miniweb_server_runtime_t" where
  "server_out rt =
     (act (close_if_open (sv_kq_fd rt) @ close_if_open (sv_listen_fd rt) @
           close_if_open (sv_signal_pipe_rfd rt) @ close_if_open (sv_signal_pipe_wfd rt)) rt)
       \<lparr>sv_running := False,
        sv_kq_fd := (if 0 \<le> sv_kq_fd rt then -1 else sv_kq_fd rt),
        sv_listen_fd := (if 0 \<le> sv_listen_fd rt then -1 else sv_listen_fd rt),
        sv_signal_pipe_rfd := (if 0 \<le> sv_signal_pipe_rfd rt then -1 else sv_signal_pipe_rfd rt),
        sv_signal_pipe_wfd := (if 0 \<le> sv_signal_pipe_wfd rt then -1 else sv_signal_pipe_wfd rt)\<rparr>"

definition miniweb_server_run ::
  "miniweb_conf_t \<Rightarrow> setup_io \<Rightarrow> (int \<times> kevent_outcome) list \<Rightarrow> http_ctx \<Rightarrow>
    (int \<times> miniweb_server_runtime_t) option" where
  "miniweb_server_run config su ks hc =
     (let (entered, started, rt) = server_setup config su (runtime_init hc) in
      if \<not> entered then Some (-1, server_out rt)
      else map_option (\<lambda>rt'. (0, server_out rt')) (server_loop config ks rt (su_now su)))"

definition miniweb_server_stop :: "miniweb_server_runtime_t option \<Rightarrow> miniweb_server_runtime_t option" where
  "miniweb_server_stop rt =
     map_option (\<lambda>r. (if 0 \<le> sv_signal_pipe_wfd r then act [Act_send (sv_signal_pipe_wfd r) ''x''] r else r)
                       \<lparr>sv_running := False\<rparr>) rt"

subsection \<open>Dispatcher and workers together\<close>

record server_sys =
  sy_rt :: miniweb_server_runtime_t
  sy_workers :: "(int \<times> nat) option list"
  sy_last_sweep :: int

inductive server_step ::
  "miniweb_conf_t \<Rightarrow> (route_handler_t \<Rightarrow> handler_fn) \<Rightarrow> server_sys \<Rightarrow> server_sys \<Rightarrow> bool"
  for config handlers where
  step_dispatch:
    "sv_running (sy_rt s) \<Longrightarrow> server_iteration config now kev (sy_rt s) (sy_last_sweep s) = Some (go, rt', ls) \<Longrightarrow>
     server_step config handlers s (s\<lparr>sy_rt := rt', sy_last_sweep := ls\<rparr>)"
| step_take:
    "i < length (sy_workers s) \<Longrightarrow> sy_workers s ! i = None \<Longrightarrow> worker_take (sy_rt s) = (Take_serve fd slot, rt') \<Longrightarrow>
     server_step config handlers s (s\<lparr>sy_rt := rt', sy_workers := (sy_workers s)[i := Some (fd, slot)]\<rparr>)"
| step_skip:
    "worker_take (sy_rt s) = (r, rt') \<Longrightarrow> r \<in> {Take_skip, Take_wait, Take_exit} \<Longrightarrow>
     server_step config handlers s (s\<lparr>sy_rt := rt'\<rparr>)"
| step_serve:
    "i < length (sy_workers s) \<Longrightarrow> sy_workers s ! i = Some (fd, slot) \<Longrightarrow>
     worker_serve config handlers io fd slot (sy_rt s) = Some rt' \<Longrightarrow>
     server_step config handlers s (s\<lparr>sy_rt := rt', sy_workers := (sy_workers s)[i := None]\<rparr>)"
| step_stop:
    "miniweb_server_stop (Some (sy_rt s)) = Some rt' \<Longrightarrow> server_step config handlers s (s\<lparr>sy_rt := rt'\<rparr>)"

definition server_init :: "miniweb_conf_t \<Rightarrow> server_sys \<Rightarrow> bool" where
  "server_init config s \<longleftrightarrow>
     (\<exists>su hc n rt. server_setup config su (runtime_init hc) = (True, n, rt) \<and>
        s = \<lparr>sy_rt = rt, sy_workers = replicate n None, sy_last_sweep = su_now su\<rparr>)"

inductive_simps server_step_simps: "server_step config handlers s t"

section \<open>The invariant of the runtime\<close>

definition rt_inv :: "miniweb_conf_t \<Rightarrow> miniweb_server_runtime_t \<Rightarrow> bool" where
  "rt_inv config rt \<longleftrightarrow> conn_pool_inv (sv_pool rt) \<and> work_queue_inv (sv_queue rt) \<and>
     conns_ok (nat (cf_max_req_size config)) (sv_pool rt) \<and>
     cp_active_connections (sv_pool rt) \<le> max 0 (cf_max_conns config) \<and>
     (\<forall>slot \<in> set (work_queue_contents (sv_queue rt)). slot < MINIWEB_MAX_CONNECTIONS)"

definition server_inv :: "miniweb_conf_t \<Rightarrow> server_sys \<Rightarrow> bool" where
  "server_inv config s \<longleftrightarrow> rt_inv config (sy_rt s) \<and>
     (\<forall>fd slot. Some (fd, slot) \<in> set (sy_workers s) \<longrightarrow> fd_in_range fd \<and> slot < MINIWEB_MAX_CONNECTIONS)"

lemma rt_inv_cong: "rt_inv config rt \<Longrightarrow> sv_pool rt' = sv_pool rt \<Longrightarrow> sv_queue rt' = sv_queue rt \<Longrightarrow> rt_inv config rt'"
  by (simp add: rt_inv_def)

lemma zero_connection_ok: "conn_buf_ok m zero_connection" "conn_requests_served zero_connection = 0"
  by (simp_all add: conn_buf_ok_def zero_connection_def)

lemma conns_ok_set: "conns_ok m p \<Longrightarrow> set (cp_pool p') \<subseteq> insert c (set (cp_pool p)) \<Longrightarrow>
    conn_buf_ok m c \<Longrightarrow> conn_requests_served c = 0 \<Longrightarrow> conns_ok m p'"
  unfolding conns_ok_def MAX_KEEPALIVE_REQUESTS_def by force

lemma conns_ok_alloc: "conns_ok m p \<Longrightarrow> conns_ok m (snd (miniweb_connection_alloc p fd addr mx now))"
proof (cases "fst (miniweb_connection_alloc p fd addr mx now)")
  case (Some slot)
  assume "conns_ok m p"
  moreover obtain c where "cp_pool (snd (miniweb_connection_alloc p fd addr mx now)) = (cp_pool p)[slot := c]"
    "conn_buf_ok m c" "conn_requests_served c = 0"
    unfolding alloc_Some_state(6) [OF Some] by (simp add: conn_buf_ok_def zero_connection_def)
  ultimately show ?thesis using conns_ok_set set_list_update_subset by metis
qed (simp add: alloc_None_same)

lemma conns_ok_free: "conns_ok m p \<Longrightarrow> conns_ok m (miniweb_connection_free p fd)"
proof -
  have "set (cp_pool (miniweb_connection_free p fd)) \<subseteq> insert zero_connection (set (cp_pool p))"
    using set_list_update_subset [of "cp_pool p"]
    by (auto simp: miniweb_connection_free_def Let_def split: option.splits)
  then show "conns_ok m p \<Longrightarrow> ?thesis" using conns_ok_set zero_connection_ok by blast
qed

lemma active_free_le:
  assumes "conn_pool_inv p"
  shows "cp_active_connections (miniweb_connection_free p fd) \<le> cp_active_connections p"
proof -
  have "card (dom (conn_at (miniweb_connection_free p fd))) \<le> card (dom (conn_at p))"
    unfolding conn_at_free [OF assms] by (intro card_mono cp.live_finite_inj(3) [OF assms]) auto
  then show ?thesis
    using card_conn_at [OF assms] card_conn_at [OF free_inv [OF assms, of fd]] by simp
qed

lemma rt_inv_free:
  "rt_inv config rt \<Longrightarrow> sv_pool rt' = miniweb_connection_free (sv_pool rt) fd \<Longrightarrow> sv_queue rt' = sv_queue rt \<Longrightarrow>
    rt_inv config rt'"
  using active_free_le [of "sv_pool rt" fd] by (auto simp: rt_inv_def free_inv conns_ok_free)

lemma rt_inv_drop: "rt_inv config rt \<Longrightarrow> rt_inv config (drop_connection fd rt)"
  by (erule rt_inv_free [where fd = fd]) (simp_all add: drop_connection_def act_def)

lemma rt_inv_close: "rt_inv config rt \<Longrightarrow> rt_inv config (close_connection fd rt)"
  by (erule rt_inv_free [where fd = fd]) (simp_all add: close_connection_def act_def)

lemma rt_inv_alloc:
  assumes "rt_inv config rt" "miniweb_connection_alloc (sv_pool rt) fd addr (cf_max_conns config) now = (Some slot, pool)"
    and "sv_pool rt' = pool" "sv_queue rt' = sv_queue rt"
  shows "rt_inv config rt'"
proof -
  have inv: "conn_pool_inv (sv_pool rt)" using assms(1) by (simp add: rt_inv_def)
  have some: "fst (miniweb_connection_alloc (sv_pool rt) fd addr (cf_max_conns config) now) = Some slot"
    using assms(2) by simp
  note st = alloc_Some_state(4,6) [OF some] alloc_Some_inv(1) [OF inv some]
  have pool: "pool = snd (miniweb_connection_alloc (sv_pool rt) fd addr (cf_max_conns config) now)"
    using assms(2) by simp
  have "cp_active_connections pool \<le> cf_max_conns config" using st(1,2) pool by simp
  moreover have "conns_ok (nat (cf_max_req_size config)) pool"
    using conns_ok_alloc assms(1) pool by (simp add: rt_inv_def)
  ultimately show ?thesis
    using assms(1,3,4) st(3) pool by (simp add: rt_inv_def)
qed

lemma rt_inv_accept: "rt_inv config rt \<Longrightarrow> handle_accept config os rt = Some rt' \<Longrightarrow> rt_inv config rt'"
proof (induction config os rt rule: handle_accept.induct)
  case (5 config cfd caddr io os rt)
  obtain r pool where a: "miniweb_connection_alloc (sv_pool rt) cfd (Some caddr) (cf_max_conns config) (io_now io) = (r, pool)"
    by fastforce
  show ?case
  proof (cases r)
    case None
    then obtain rc keep rt1 where snt: "on_socket cfd io (error_handler 503 ''Server busy'' (internal_request cfd)) rt
        = Some (rc, keep, rt1)" and rest: "handle_accept config os (act [Act_close cfd] rt1) = Some rt'"
      using "5.prems"(2) a by (auto split: option.splits)
    have "rt_inv config (act [Act_close cfd] rt1)"
      using "5.prems"(1) on_socket_quiet [OF snt] on_socket_pool [OF snt]
      by (elim rt_inv_cong) (simp_all add: act_def quiet_def)
    then show ?thesis using "5.IH"(1) [OF a [symmetric] None snt refl refl] rest None a by simp
  next
    case (Some slot)
    let ?rt1 = "act [Act_kevent_add cfd slot] (rt\<lparr>sv_pool := pool\<rparr>)"
    have inv1: "rt_inv config ?rt1"
      by (rule rt_inv_alloc [OF "5.prems"(1) a [unfolded Some]]) (simp_all add: act_def)
    have inv2: "rt_inv config ((act [Act_close cfd] ?rt1)\<lparr>sv_pool := miniweb_connection_free (sv_pool ?rt1) cfd\<rparr>)"
      by (rule rt_inv_free [OF inv1, where fd = cfd]) (simp_all add: act_def)
    show ?thesis
      using "5.IH"(2,3) [OF a [symmetric] Some refl] inv1 inv2 "5.prems"(2) a Some
      by (auto simp: Let_def split: if_splits)
  qed
qed (auto)

lemma rt_inv_sweep: "rt_inv config rt \<Longrightarrow> rt_inv config (sweep_idle config now rt)"
proof -
  have "rt_inv config rt \<Longrightarrow> rt_inv config (foldl (\<lambda>rt fd. drop_connection fd rt) rt fds)" for fds
    by (induction fds arbitrary: rt) (auto intro: rt_inv_drop)
  then show "rt_inv config rt \<Longrightarrow> ?thesis" by (simp add: sweep_idle_def Let_def)
qed

lemma rt_inv_push:
  assumes "rt_inv config rt" "miniweb_work_queue_push (sv_queue rt) slot = (rc, q)" "slot < MINIWEB_MAX_CONNECTIONS"
  shows "rt_inv config (rt\<lparr>sv_queue := q\<rparr>)"
  using assms wq_push_inv [of "sv_queue rt" slot] wq_push_contents [of "sv_queue rt" slot]
  by (auto simp: rt_inv_def)

lemma rt_inv_event:
  assumes "rt_inv config rt" "dispatch_event config ev rt = Some rt'"
  shows "rt_inv config rt'"
proof (cases "ke_ident ev = sv_signal_pipe_rfd rt \<or> ke_ident ev = sv_listen_fd rt")
  case True
  then show ?thesis
    using assms rt_inv_accept [OF assms(1)] rt_inv_cong [OF assms(1)]
    by (auto simp: dispatch_event_def split: if_splits)
next
  case False
  let ?stale = "\<not> fd_in_range (ke_ident ev) \<or> miniweb_connection_is_stale (sv_pool rt) (ke_ident ev) (ke_udata ev)"
  obtain rc q where q: "miniweb_work_queue_push (sv_queue rt) (the (ke_udata ev)) = (rc, q)" by fastforce
  have "the (ke_udata ev) < MINIWEB_MAX_CONNECTIONS" if "\<not> ?stale"
    using stale_iff [of "sv_pool rt" "ke_ident ev" "ke_udata ev"] conn_pool_liveD(1) assms(1) that
    by (auto simp: rt_inv_def)
  then show ?thesis
    using False assms rt_inv_drop [OF assms(1)] rt_inv_push [OF assms(1) q] q
    by (auto simp: dispatch_event_def Let_def split: if_splits)
qed

lemma rt_inv_events: "rt_inv config rt \<Longrightarrow> dispatch_events config evs rt = Some rt' \<Longrightarrow> rt_inv config rt'"
  by (induction evs arbitrary: rt) (auto split: option.splits dest: rt_inv_event)

lemma rt_inv_iteration:
  "rt_inv config rt \<Longrightarrow> server_iteration config now kev rt ls = Some (go, rt', ls') \<Longrightarrow> rt_inv config rt'"
  by (auto simp: server_iteration_def Let_def split: kevent_outcome.splits if_splits
      dest: rt_inv_events rt_inv_events [OF rt_inv_sweep])

lemma rt_inv_quiet_ok: "rt_inv config rt \<Longrightarrow> quiet_ok (nat (cf_max_req_size config)) rt rt' \<Longrightarrow> rt_inv config rt'"
  using card_conn_at [of "sv_pool rt"] card_conn_at [of "sv_pool rt'"]
  by (auto simp: rt_inv_def quiet_ok_def quiet_def)

lemma rt_inv_serve: "rt_inv config rt \<Longrightarrow> worker_serve config handlers io fd slot rt = Some rt' \<Longrightarrow> rt_inv config rt'"
  using worker_serve_shape [OF _ refl, of config handlers io fd slot rt rt'] rt_inv_quiet_ok rt_inv_close by blast

lemma worker_take_cases:
  assumes "worker_take rt = (r, rt')" "rt_inv config rt"
  shows "rt_inv config rt'"
    "r = Take_serve fd slot \<Longrightarrow> fd_in_range fd \<and> slot < MINIWEB_MAX_CONNECTIONS \<and> conn_at (sv_pool rt') fd = Some slot"
proof -
  let ?p = "miniweb_work_queue_pop (sv_queue rt) (sv_running rt)"
  have inv: "work_queue_inv (sv_queue rt)" "conn_pool_inv (sv_pool rt)" using assms(2) by (simp_all add: rt_inv_def)
  have rt': "rt' = rt \<or> rt' = rt\<lparr>sv_queue := snd ?p\<rparr>"
    using assms(1) by (auto simp: worker_take_def Let_def split: if_splits prod.splits pop_result.splits)
  have "set (work_queue_contents (snd ?p)) \<subseteq> set (work_queue_contents (sv_queue rt))"
    using wq_pop_contents_subset [OF inv(1)] .
  then show "rt_inv config rt'"
    using rt' assms(2) wq_pop_inv [OF inv(1), of "sv_running rt"] by (auto simp: rt_inv_def)
  assume r: "r = Take_serve fd slot"
  then have "fd_in_range fd" "\<not> miniweb_connection_is_stale (sv_pool rt) fd (Some slot)"
    using assms(1) by (auto simp: worker_take_def Let_def split: if_splits prod.splits pop_result.splits)
  then show "fd_in_range fd \<and> slot < MINIWEB_MAX_CONNECTIONS \<and> conn_at (sv_pool rt') fd = Some slot"
    using stale_iff [OF inv(2)] conn_pool_liveD(1) [OF inv(2)] rt' by auto
qed

lemma server_step_inv:
  assumes "server_step config handlers s t" "server_inv config s"
  shows "server_inv config t"
  using assms
proof (cases rule: server_step.cases)
  case (step_dispatch now kev go rt' ls)
  then show ?thesis using assms(2) rt_inv_iteration [OF _ step_dispatch(3)] by (auto simp: server_inv_def)
next
  case (step_take i fd slot rt')
  then show ?thesis
    using assms(2) worker_take_cases [OF step_take(4)] set_list_update_subset [of "sy_workers s" i "Some (fd, slot)"]
    by (auto simp: server_inv_def)
next
  case (step_skip r rt')
  then show ?thesis using assms(2) worker_take_cases(1) by (auto simp: server_inv_def)
next
  case (step_serve i fd slot io rt')
  then show ?thesis
    using assms(2) rt_inv_serve set_list_update_subset [of "sy_workers s" i None]
    by (auto simp: server_inv_def)
next
  case (step_stop rt')
  then show ?thesis
    using assms(2) rt_inv_cong by (auto simp: server_inv_def miniweb_server_stop_def act_def)
qed

lemma server_init_inv: "server_init config s \<Longrightarrow> server_inv config s"
proof -
  assume "server_init config s"
  then obtain su hc n rt where st: "server_setup config su (runtime_init hc) = (True, n, rt)"
    and s: "s = \<lparr>sy_rt = rt, sy_workers = replicate n None, sy_last_sweep = su_now su\<rparr>"
    by (auto simp: server_init_def)
  have "sv_pool rt = miniweb_connection_pool_init" "sv_queue rt = miniweb_work_queue_init"
    using st by (auto simp: server_setup_def runtime_init_def Let_def split: option.splits if_splits prod.splits)
  moreover have "conns_ok m miniweb_connection_pool_init" for m
    by (simp add: conns_ok_def miniweb_connection_pool_init_def zero_connection_ok MAX_KEEPALIVE_REQUESTS_def)
  moreover have "cp_active_connections miniweb_connection_pool_init = 0"
    by (simp add: miniweb_connection_pool_init_def)
  ultimately show ?thesis
    using conn_pool_init_inv wq_init_inv by (auto simp: server_inv_def rt_inv_def s wq_init_contents)
qed

interpretation srv: invariant_system "server_init config" "server_step config handlers" "server_inv config"
  for config handlers
  by unfold_locales (auto intro: server_init_inv server_step_inv)

section \<open>The sweep\<close>

lemma drop_connection_simps [simp]:
  "sv_pool (drop_connection fd rt) = miniweb_connection_free (sv_pool rt) fd"
  "sv_trace (drop_connection fd rt) = sv_trace rt @ [Act_close fd]"
  "sv_queue (drop_connection fd rt) = sv_queue rt" "sv_running (drop_connection fd rt) = sv_running rt"
  by (simp_all add: drop_connection_def act_def)

lemma foldl_drop:
  assumes "conn_pool_inv (sv_pool rt)"
  defines "rt' \<equiv> \<lambda>fds. foldl (\<lambda>rt fd. drop_connection fd rt) rt fds"
  shows "conn_pool_inv (sv_pool (rt' fds)) \<and> sv_queue (rt' fds) = sv_queue rt \<and>
    conn_at (sv_pool (rt' fds)) = (\<lambda>fd. if fd \<in> set fds then None else conn_at (sv_pool rt) fd) \<and>
    sv_trace (rt' fds) = sv_trace rt @ map Act_close fds"
  unfolding rt'_def
proof (induction fds rule: rev_induct)
  case (snoc fd fds)
  then show ?case by (auto simp: conn_at_free free_inv)
qed (simp add: assms)

definition idle_fds :: "miniweb_conf_t \<Rightarrow> int \<Rightarrow> miniweb_connection_pool_t \<Rightarrow> int list" where
  "idle_fds config now p = filter (is_idle config now p) (map int [0..<MINIWEB_MAX_CONNECTIONS])"

lemma idle_fds_mem:
  "fd \<in> set (idle_fds config now p) \<longleftrightarrow>
    (\<exists>slot. conn_at p fd = Some slot \<and> cf_conn_timeout config < now - conn_last_activity (cp_pool p ! slot))"
proof -
  have "fd \<in> int ` {0..<MINIWEB_MAX_CONNECTIONS} \<longleftrightarrow> fd_in_range fd"
    by (auto simp: fd_in_range_def image_iff intro!: bexI [of _ "nat fd"])
  then show ?thesis by (auto simp: idle_fds_def is_idle_def conn_at_def split: option.splits if_splits)
qed

lemma distinct_singleton: "distinct xs \<Longrightarrow> set xs = {x} \<Longrightarrow> xs = [x]"
  by (cases xs; cases "tl xs") auto

lemma distinct_idle_fds: "distinct (idle_fds config now p)"
  by (simp add: idle_fds_def distinct_map)

lemma sweep_idle_foldl:
  "sweep_idle config now rt = foldl (\<lambda>rt fd. drop_connection fd rt) rt (idle_fds config now (sv_pool rt))"
  by (simp add: sweep_idle_def idle_fds_def Let_def)

section \<open>A concrete server\<close>

text \<open>A start-up in which every call succeeds, used to instantiate the properties.\<close>

definition sample_ctx :: http_ctx where
  "sample_ctx = \<lparr>hc_tid = 1, hc_calloc_ok = True, hc_pools = response_pools0,
     hc_registry = \<lparr>routes = [], prefix_routes = []\<rparr>, hc_ws = [], hc_ps = [], hc_out = []\<rparr>"

definition sample_setup :: setup_io where
  "sample_setup = \<lparr>su_pipe = Some (3, 4), su_socket = 5, su_pton_ok = True, su_bind_ok = True,
     su_listen_ok = True, su_kqueue = 6, su_kev_listen_ok = True, su_kev_pipe_ok = True,
     su_thread_ok = (\<lambda>_. True), su_now = 0\<rparr>"

definition sample_rt :: miniweb_server_runtime_t where
  "sample_rt = (runtime_init sample_ctx)\<lparr>sv_signal_pipe_rfd := 3, sv_signal_pipe_wfd := 4,
     sv_listen_fd := 5, sv_kq_fd := 6\<rparr>"

definition sample_sys :: server_sys where
  "sample_sys = \<lparr>sy_rt = sample_rt, sy_workers = [None], sy_last_sweep = 0\<rparr>"

lemma sample_setup_ok: "server_setup (conf_defaults 1) sample_setup (runtime_init sample_ctx) = (True, 1, sample_rt)"
  by (simp add: server_setup_def sample_setup_def sample_rt_def runtime_init_def conf_defaults_def
      conf_default_threads_def MINIWEB_THREAD_POOL_SIZE_def Let_def eval_nat_numeral)

lemma sample_setup_now [simp]: "su_now sample_setup = 0"
  by (simp add: sample_setup_def)

lemma sample_init: "server_init (conf_defaults 1) sample_sys"
  unfolding server_init_def
  by (intro exI [of _ sample_setup] exI [of _ sample_ctx] exI [of _ 1] exI [of _ sample_rt])
    (use sample_setup_ok in \<open>simp add: sample_sys_def\<close>)

lemma sample_rt_simps [simp]:
  "sv_pool sample_rt = miniweb_connection_pool_init" "sv_queue sample_rt = miniweb_work_queue_init"
  "sv_trace sample_rt = []" "sv_running sample_rt" "sv_signal_pipe_rfd sample_rt = 3" "sv_listen_fd sample_rt = 5"
  by (simp_all add: sample_rt_def runtime_init_def)

lemma sample_rt_inv: "rt_inv (conf_defaults 1) sample_rt"
  using server_init_inv [OF sample_init] by (simp add: server_inv_def sample_sys_def)

lemma alloc_on_init:
  obtains slot pool where "miniweb_connection_alloc miniweb_connection_pool_init 9 addr 1280 0 = (Some slot, pool)"
    "conn_pool_inv pool" "conn_at pool = [9 \<mapsto> slot]" "conn_last_activity (cp_pool pool ! slot) = 0"
    "conn_fd (cp_pool pool ! slot) = 9" "slot < MINIWEB_MAX_CONNECTIONS" "conn_bytes_read (cp_pool pool ! slot) = 0"
proof -
  let ?a = "miniweb_connection_alloc miniweb_connection_pool_init 9 addr 1280 0"
  have "fst ?a \<noteq> None"
    unfolding alloc_accepts_iff [OF conn_pool_init_inv]
    by (intro conjI conn_at_init)
      (simp_all add: fd_in_range_def MINIWEB_MAX_CONNECTIONS_def miniweb_connection_pool_init_def)
  then obtain slot where slot: "fst ?a = Some slot" by auto
  note a = alloc_Some_inv [OF conn_pool_init_inv slot]
  have at: "conn_at (snd ?a) = [9 \<mapsto> slot]" using a(3) by (auto simp: fun_eq_iff)
  note l = conn_pool_liveD [OF a(1), of 9 slot]
  have len: "slot < length (cp_pool miniweb_connection_pool_init)"
    using l(1) at by (simp add: miniweb_connection_pool_init_def)
  have "conn_last_activity (cp_pool (snd ?a) ! slot) = 0" "conn_bytes_read (cp_pool (snd ?a) ! slot) = 0"
    unfolding alloc_Some_state(6) [OF slot] using len by (simp_all add: zero_connection_def)
  then show thesis using that [of slot "snd ?a"] slot a(1) at l by (simp add: prod_eq_iff)
qed

section \<open>Properties\<close>



text \<open>
  C30. The idle sweep closes exactly the idle connections: a connection is closed and released if
  and only if its last activity is further back than the configured timeout, each of them once,
  and all others stay registered.
\<close>

theorem sweep_idle_exact:
  assumes "conn_pool_inv (sv_pool rt)"
  shows "\<exists>fds. distinct fds \<and>
    (\<forall>fd. fd \<in> set fds \<longleftrightarrow> (\<exists>slot. conn_at (sv_pool rt) fd = Some slot \<and>
       cf_conn_timeout config < now - conn_last_activity (cp_pool (sv_pool rt) ! slot))) \<and>
    sv_trace (sweep_idle config now rt) = sv_trace rt @ map Act_close fds \<and>
    conn_at (sv_pool (sweep_idle config now rt)) =
      (\<lambda>fd. if fd \<in> set fds then None else conn_at (sv_pool rt) fd)"
  using foldl_drop [OF assms, of "idle_fds config now (sv_pool rt)"] idle_fds_mem distinct_idle_fds
  unfolding sweep_idle_foldl by (intro exI [of _ "idle_fds config now (sv_pool rt)"]) auto

theorem sweep_idle_exact_witness:
  "sv_trace (sweep_idle (conf_defaults 4) 100 sample_rt) = []"
  using sweep_idle_exact [where config = "conf_defaults 4" and now = 100 and rt = sample_rt] conn_pool_init_inv
  by auto

text \<open>
  What the dispatcher does with an event of a client socket: an event whose connection is not
  the current owner of the descriptor is ignored; an event with an end of file or an error closes
  the connection; otherwise the connection is appended to the work queue, or closed when the queue
  is full. No event is dropped silently and no connection waits in the queue twice for one event.
\<close>

theorem dispatch_client_event:
  assumes "rt_inv config rt" "ke_ident ev \<noteq> sv_signal_pipe_rfd rt" "ke_ident ev \<noteq> sv_listen_fd rt"
  shows "\<exists>rt'. dispatch_event config ev rt = Some rt' \<and>
    (if ke_udata ev = None \<or> conn_at (sv_pool rt) (ke_ident ev) \<noteq> ke_udata ev then rt' = rt
     else if ke_eof_or_error ev \<or> length (work_queue_contents (sv_queue rt)) = MINIWEB_QUEUE_CAPACITY
     then conn_at (sv_pool rt') = (conn_at (sv_pool rt))(ke_ident ev := None) \<and>
       sv_trace rt' = sv_trace rt @ [Act_close (ke_ident ev)] \<and> sv_queue rt' = sv_queue rt
     else sv_pool rt' = sv_pool rt \<and> sv_trace rt' = sv_trace rt \<and>
       work_queue_contents (sv_queue rt') = work_queue_contents (sv_queue rt) @ [the (ke_udata ev)])"
proof -
  have inv: "conn_pool_inv (sv_pool rt)" "work_queue_inv (sv_queue rt)"
    using assms(1) by (simp_all add: rt_inv_def)
  let ?fd = "ke_ident ev"
  let ?stale = "\<not> fd_in_range ?fd \<or> miniweb_connection_is_stale (sv_pool rt) ?fd (ke_udata ev)"
  have stale: "?stale \<longleftrightarrow> ke_udata ev = None \<or> conn_at (sv_pool rt) ?fd \<noteq> ke_udata ev"
    using stale_iff [OF inv(1), of ?fd "ke_udata ev"] by (auto simp: conn_at_def)
  obtain rc q where q: "miniweb_work_queue_push (sv_queue rt) (the (ke_udata ev)) = (rc, q)" by fastforce
  have full: "rc < 0 \<longleftrightarrow> length (work_queue_contents (sv_queue rt)) = MINIWEB_QUEUE_CAPACITY"
    and room: "\<not> rc < 0 \<Longrightarrow> work_queue_contents q = work_queue_contents (sv_queue rt) @ [the (ke_udata ev)]"
    using q wq_push_contents [OF inv(2), of "the (ke_udata ev)"] inv(2)
    by (auto simp: miniweb_work_queue_push_def work_queue_inv_def split: if_splits)
  have "dispatch_event config ev rt = Some
      (if ?stale then rt else if ke_eof_or_error ev \<or> rc < 0 then drop_connection ?fd rt else rt\<lparr>sv_queue := q\<rparr>)"
    using assms(2,3) q by (simp add: dispatch_event_def Let_def)
  then show ?thesis
    unfolding stale using full room by (auto simp: conn_at_free [OF inv(1)])
qed

theorem dispatch_client_event_witness:
  "dispatch_event (conf_defaults 1)
     \<lparr>ke_ident = 9, ke_udata = Some 0, ke_eof_or_error = False, ke_accepts = [], ke_pipe = []\<rparr> sample_rt = Some sample_rt"
  using dispatch_client_event [OF sample_rt_inv, of
      "\<lparr>ke_ident = 9, ke_udata = Some 0, ke_eof_or_error = False, ke_accepts = [], ke_pipe = []\<rparr>"]
  by simp



text \<open>A run that ends with a worker holding a connection it has just taken.\<close>

lemma worker_holds_connection:
  assumes "init sample_sys"
  obtains slot rt where
    "reach init (server_step (conf_defaults 1) handlers)
      \<lparr>sy_rt = rt, sy_workers = [Some (9, slot)], sy_last_sweep = 0\<rparr>"
    "sv_running rt" "conn_pool_inv (sv_pool rt)" "conn_at (sv_pool rt) = [9 \<mapsto> slot]"
    "conn_last_activity (cp_pool (sv_pool rt) ! slot) = 0" "sv_trace rt = [Act_kevent_add 9 slot]"
    "conn_bytes_read (cp_pool (sv_pool rt) ! slot) = 0" "sv_http rt = sample_ctx"
proof -
  let ?cf = "conf_defaults 1"
  let ?addr = "\<lparr>sin_addr = 0, sin_port = 0\<rparr> :: sockaddr_in"
  let ?io = "\<lparr>io_recvs = [], io_ws = [], io_ps = [], io_kevent_ok = True, io_now = 0\<rparr>"
  obtain slot pool where a: "miniweb_connection_alloc miniweb_connection_pool_init 9 (Some ?addr) 1280 0 = (Some slot, pool)"
    and pool: "conn_pool_inv pool" "conn_at pool = [9 \<mapsto> slot]" "conn_last_activity (cp_pool pool ! slot) = 0"
      "conn_fd (cp_pool pool ! slot) = 9" "slot < MINIWEB_MAX_CONNECTIONS" "conn_bytes_read (cp_pool pool ! slot) = 0"
    by (rule alloc_on_init)
  have rng: "fd_in_range 9" by (simp add: fd_in_range_def MINIWEB_MAX_CONNECTIONS_def)
  have fresh: "\<not> miniweb_connection_is_stale pool 9 (Some slot)" using stale_iff [OF pool(1) rng] pool(2) by simp
  have conf: "cf_max_conns ?cf = 1280" by (simp add: conf_defaults_def)
  obtain q where push: "miniweb_work_queue_push miniweb_work_queue_init slot = (0, q)"
    by (simp add: miniweb_work_queue_push_def miniweb_work_queue_init_def)
  obtain q' where pop: "miniweb_work_queue_pop q True = (Pop_item slot, q')"
    using wq_pop_result [OF wq_push_inv [OF wq_init_inv], of slot True] wq_push_contents [OF wq_init_inv, of slot] push
    by (cases "miniweb_work_queue_pop q True") (simp add: wq_init_contents)
  let ?rt1 = "sample_rt\<lparr>sv_pool := pool, sv_trace := [Act_kevent_add 9 slot]\<rparr>"
  let ?e1 = "\<lparr>ke_ident = 5, ke_udata = None, ke_eof_or_error = False,
      ke_accepts = [Accepted 9 ?addr ?io, Accept_EAGAIN], ke_pipe = []\<rparr>"
  let ?e2 = "\<lparr>ke_ident = 9, ke_udata = Some slot, ke_eof_or_error = False, ke_accepts = [], ke_pipe = []\<rparr>"
  have step1: "server_iteration ?cf 0 (Kev_events [?e1]) sample_rt 0 = Some (True, ?rt1, 0)"
    by (simp add: server_iteration_def dispatch_event_def conf a act_def)
  have step2: "server_iteration ?cf 0 (Kev_events [?e2]) ?rt1 0 = Some (True, ?rt1\<lparr>sv_queue := q\<rparr>, 0)"
    using rng fresh push by (simp add: server_iteration_def dispatch_event_def)
  have take: "worker_take (?rt1\<lparr>sv_queue := q\<rparr>) = (Take_serve 9 slot, ?rt1\<lparr>sv_queue := q'\<rparr>)"
    using pop rng fresh pool(4) by (simp add: worker_take_def)
  let ?st = "\<lambda>rt w. \<lparr>sy_rt = rt, sy_workers = [w], sy_last_sweep = 0\<rparr>"
  have "reach init (server_step ?cf handlers) (?st sample_rt None)"
    by (rule reach_init) (use assms in \<open>simp add: sample_sys_def\<close>)
  moreover have "server_step ?cf handlers (?st sample_rt None) (?st ?rt1 None)"
    using step_dispatch [of "?st sample_rt None"] step1 by fastforce
  moreover have "server_step ?cf handlers (?st ?rt1 None) (?st (?rt1\<lparr>sv_queue := q\<rparr>) None)"
    using step_dispatch [of "?st ?rt1 None"] step2 by fastforce
  moreover have "server_step ?cf handlers (?st (?rt1\<lparr>sv_queue := q\<rparr>) None) (?st (?rt1\<lparr>sv_queue := q'\<rparr>) (Some (9, slot)))"
    using step_take [of 0 "?st (?rt1\<lparr>sv_queue := q\<rparr>) None" 9 slot] take by fastforce
  ultimately have "reach init (server_step ?cf handlers) (?st (?rt1\<lparr>sv_queue := q'\<rparr>) (Some (9, slot)))"
    by (rule reach_step [OF reach_step [OF reach_step]])
  then show thesis by (rule that) (use pool in \<open>simp_all add: sample_rt_def runtime_init_def\<close>)
qed

text \<open>
  A connection can be closed under a worker that is serving it. The idle sweep does not know
  which connections are in service, so with the default timeout there is a run in which one client
  is accepted on descriptor 9, a worker takes its connection, the sweep closes the descriptor, and
  the worker closes the same descriptor again, which may by then belong to another client.
\<close>

theorem sweep_races_with_worker:
  "\<exists>s. reach (server_init (conf_defaults 1)) (server_step (conf_defaults 1) (\<lambda>_ _ _. None)) s \<and>
     (\<exists>slot. sv_trace (sy_rt s) = [Act_kevent_add 9 slot, Act_close 9, Act_kevent_delete 9, Act_close 9])"
proof -
  let ?cf = "conf_defaults 1" and ?h = "\<lambda>_ _ _. None"
  let ?io = "\<lparr>io_recvs = [Recv_error], io_ws = [], io_ps = [], io_kevent_ok = True, io_now = 0\<rparr>"
  obtain slot rt where rt: "reach (server_init ?cf) (server_step ?cf ?h)
      \<lparr>sy_rt = rt, sy_workers = [Some (9, slot)], sy_last_sweep = 0\<rparr>"
    "sv_running rt" "conn_pool_inv (sv_pool rt)" "conn_at (sv_pool rt) = [9 \<mapsto> slot]"
    "conn_last_activity (cp_pool (sv_pool rt) ! slot) = 0" "sv_trace rt = [Act_kevent_add 9 slot]"
    by (rule worker_holds_connection [where init = "server_init ?cf", OF sample_init])
  let ?rt1 = "sweep_idle ?cf 31 rt"
  have "set (idle_fds ?cf 31 (sv_pool rt)) = {9}"
    using rt(4,5) by (auto simp: idle_fds_mem conf_defaults_def split: if_splits)
  then have "idle_fds ?cf 31 (sv_pool rt) = [9]" using distinct_singleton [OF distinct_idle_fds] by blast
  then have tr: "sv_trace ?rt1 = [Act_kevent_add 9 slot, Act_close 9]" using rt(6) by (simp add: sweep_idle_foldl)
  have it: "server_iteration ?cf 31 (Kev_events []) rt 0 = Some (True, ?rt1, 31)"
    by (simp add: server_iteration_def)
  have sweep: "server_step ?cf ?h \<lparr>sy_rt = rt, sy_workers = [Some (9, slot)], sy_last_sweep = 0\<rparr>
      \<lparr>sy_rt = ?rt1, sy_workers = [Some (9, slot)], sy_last_sweep = 31\<rparr>"
    using step_dispatch [of "\<lparr>sy_rt = rt, sy_workers = [Some (9, slot)], sy_last_sweep = 0\<rparr>"] it rt(2) by fastforce
  obtain rt2 where rt2: "worker_serve ?cf ?h ?io 9 slot ?rt1 = Some rt2"
    "sv_trace rt2 = sv_trace ?rt1 @ [Act_kevent_delete 9, Act_close 9]"
    by (simp add: worker_serve_def put_recv_def)
  have "server_step ?cf ?h \<lparr>sy_rt = ?rt1, sy_workers = [Some (9, slot)], sy_last_sweep = 31\<rparr>
      \<lparr>sy_rt = rt2, sy_workers = [None], sy_last_sweep = 31\<rparr>"
    using step_serve [of 0 "\<lparr>sy_rt = ?rt1, sy_workers = [Some (9, slot)], sy_last_sweep = 31\<rparr>"] rt2(1) by fastforce
  from reach_step [OF reach_step [OF rt(1) sweep] this] show ?thesis using rt2(2) tr by force
qed

end
