(* ===== verification/World.thy ===== *)
theory World
  imports Mw_Prelude
begin

text \<open>
  What the operating system shows to a call of the file-serving and rendering code: a snapshot of
  the clock and of the file system, and the outcomes of the coming heap allocations. The answers of
  the system calls are parameters: the models say what the code does with every combination of
  them. One call of an operation sees one snapshot; different calls see different ones.
\<close>

record file_stat =
  st_size :: int
  st_mtime :: int
  st_isdir :: bool
  st_isreg :: bool

text \<open>A stdio stream as \<^verbatim>\<open>fseek\<close>, \<^verbatim>\<open>ftell\<close>, \<^verbatim>\<open>fread\<close> and \<^verbatim>\<open>ferror\<close> answer for it.\<close>

record file_stream =
  fl_seek_end_ok :: bool
  fl_tell :: int
  fl_seek_set_ok :: bool
  fl_data :: bytes
  fl_error :: bool

record world =
  wd_time :: int
  wd_readdir :: "string \<Rightarrow> string list option"
  wd_stat :: "string \<Rightarrow> file_stat option"
  wd_fopen :: "string \<Rightarrow> file_stream option"

text \<open>
  The outcomes of the coming \<^verbatim>\<open>malloc\<close>, \<^verbatim>\<open>realloc\<close> and \<^verbatim>\<open>strdup\<close> calls, in order; once the list is
  used up, allocations succeed.
\<close>

fun next_alloc :: "bool list \<Rightarrow> bool \<times> bool list" where
  "next_alloc [] = (True, [])"
| "next_alloc (b # bs) = (b, bs)"

text \<open>
  Code that can go wrong returns a sum: \<open>Inl\<close> the fault that stops it, \<open>Inr\<close> its result. \<open>Blocked\<close>
  says that the given outcomes of the system calls end while the code is still waiting for one.
\<close>

datatype fault = Out_of_bounds | Use_after_free | Double_free | Null_deref | Double_unlock | Blocked

definition bindR :: "'e + 'a \<Rightarrow> ('a \<Rightarrow> 'e + 'b) \<Rightarrow> 'e + 'b" where
  "bindR r f = (case r of Inl e \<Rightarrow> Inl e | Inr x \<Rightarrow> f x)"

lemma bindR_simps [simp]: "bindR (Inl e) f = Inl e" "bindR (Inr x) f = f x"
  by (simp_all add: bindR_def)

lemma bindR_Inr_iff: "bindR r f = Inr y \<longleftrightarrow> (\<exists>x. r = Inr x \<and> f x = Inr y)"
  by (cases r) auto

lemma bindR_InrE: "bindR r f = Inr y \<Longrightarrow> (\<And>x. r = Inr x \<Longrightarrow> f x = Inr y \<Longrightarrow> P) \<Longrightarrow> P"
  by (cases r) auto

subsection \<open>Appending to a buffer\<close>

text \<open>
  \<^verbatim>\<open>w = snprintf(ptr, left, ...); ptr += w; left -= w;\<close> in a buffer of \<open>cap\<close> bytes, or the same with an
  offset. The state is the text in the buffer and the number of bytes \<^verbatim>\<open>snprintf\<close> has reported so far,
  which counts also what did not fit. Once it is past \<open>cap\<close>, the unsigned \<^verbatim>\<open>left\<close> has wrapped around and
  the next call writes behind the buffer.
\<close>

type_synonym out_buf = "string \<times> nat"

definition buf_put :: "nat \<Rightarrow> string \<Rightarrow> out_buf \<Rightarrow> fault + out_buf" where
  "buf_put cap text w =
     (if cap < snd w then Inl Out_of_bounds
      else if snd w = cap then Inr (fst w, snd w + length text)
      else Inr (fst w @ snprintf_out (cap - snd w) text, snd w + length text))"

lemma buf_put_fits:
  "length b = n \<Longrightarrow> n + length text < cap \<Longrightarrow> buf_put cap text (b, n) = Inr (b @ text, n + length text)"
  by (simp add: buf_put_def snprintf_out_def)

text \<open>\<^verbatim>\<open>left > n\<close>, with the wrapped \<^verbatim>\<open>left\<close> larger than every buffer.\<close>

definition left_over :: "nat \<Rightarrow> nat \<Rightarrow> out_buf \<Rightarrow> bool" where
  "left_over cap n w \<longleftrightarrow> cap < snd w \<or> n < cap - snd w"

end
