(* ===== verification/Http_Utils.thy ===== *)
theory Http_Utils
  imports Mw_Prelude
begin

text \<open>
  The string utilities of \<^verbatim>\<open>src/http/utils.c\<close> (JSON escaping, sanitising, URL decoding, MIME
  types) and the HTML escaping of \<^verbatim>\<open>src/router/route_table.c\<close>. Allocation failures, which the
  code answers with an empty string, are not modelled here: the functions return the text they
  produce when memory is available.
\<close>

section \<open>Model\<close>

definition hex_digit :: "nat \<Rightarrow> char" where
  "hex_digit n = (if n < 10 then char_of (48 + n) else char_of (87 + n))"

text \<open>The text written for one character: \<^verbatim>\<open>switch (src[s])\<close>.\<close>

definition json_escape_char :: "char \<Rightarrow> string" where
  "json_escape_char c =
     (if c = QUOTE then [BACKSLASH, QUOTE]
      else if c = BACKSLASH then [BACKSLASH, BACKSLASH]
      else if c = CHR 0x08 then [BACKSLASH, CHR ''b'']
      else if c = CHR 0x0C then [BACKSLASH, CHR ''f'']
      else if c = CHR 0x0A then [BACKSLASH, CHR ''n'']
      else if c = CHR 0x0D then [BACKSLASH, CHR ''r'']
      else if c = CHR 0x09 then [BACKSLASH, CHR ''t'']
      else if chr_code c < 32
        then [BACKSLASH, CHR ''u'', CHR ''0'', CHR ''0'', hex_digit (chr_code c div 16), hex_digit (chr_code c mod 16)]
      else [c])"

fun json_escape_loop :: "nat \<Rightarrow> nat \<Rightarrow> string \<Rightarrow> string" where
  "json_escape_loop max_out d [] = []"
| "json_escape_loop max_out d (c # src) =
     (if max_out - 1 \<le> d + 7 then []
      else json_escape_char c @ json_escape_loop max_out (d + length (json_escape_char c)) src)"

definition json_escape_string :: "string option \<Rightarrow> string" where
  "json_escape_string src =
     (case src of None \<Rightarrow> [] | Some s \<Rightarrow> json_escape_loop (length s * 6 + 1) 0 s)"

definition sanitize_string :: "string \<Rightarrow> string" where
  "sanitize_string s =
     map (\<lambda>c. if \<not> isalnum c \<and> c \<noteq> CHR ''.'' \<and> c \<noteq> CHR ''-'' \<and> c \<noteq> CHR ''_'' \<and> c \<noteq> CHR ''+''
              then CHR ''_'' else c) s"

definition hex_value :: "char \<Rightarrow> int" where
  "hex_value c =
     (if 48 \<le> chr_code c \<and> chr_code c \<le> 57 then int (chr_code c) - 48
      else if 97 \<le> chr_code c \<and> chr_code c \<le> 102 then 10 + (int (chr_code c) - 97)
      else if 65 \<le> chr_code c \<and> chr_code c \<le> 70 then 10 + (int (chr_code c) - 65)
      else -1)"

fun url_decode_loop :: "nat \<Rightarrow> nat \<Rightarrow> string \<Rightarrow> string option" where
  "url_decode_loop dst_len out [] = Some []"
| "url_decode_loop dst_len out (c # src) =
     (if dst_len \<le> out + 1 then None
      else if c = CHR ''%'' then
        (case src of
           h # l # rest \<Rightarrow>
             if hex_value h < 0 \<or> hex_value l < 0 then None
             else map_option ((#) (char_of (16 * nat (hex_value h) + nat (hex_value l))))
                    (url_decode_loop dst_len (out + 1) rest)
         | _ \<Rightarrow> None)
      else if c = CHR ''+'' then map_option ((#) (CHR '' '')) (url_decode_loop dst_len (out + 1) src)
      else map_option ((#) c) (url_decode_loop dst_len (out + 1) src))"

definition url_decode :: "string option \<Rightarrow> nat \<Rightarrow> bytes option" where
  "url_decode src dst_len =
     (case src of None \<Rightarrow> None | Some s \<Rightarrow> if dst_len = 0 then None else url_decode_loop dst_len 0 s)"

definition mime_type_for_path :: "string option \<Rightarrow> string" where
  "mime_type_for_path path =
     (case path of
        None \<Rightarrow> ''application/octet-stream''
      | Some p \<Rightarrow>
          (case strrchr p (CHR ''.'') of
             None \<Rightarrow> ''application/octet-stream''
           | Some i \<Rightarrow>
               (let ext = drop i p in
                if ext = ''.html'' then ''text/html''
                else if ext = ''.css'' then ''text/css''
                else if ext = ''.js'' then ''application/javascript''
                else if ext = ''.png'' then ''image/png''
                else if ext = ''.svg'' then ''image/svg+xml''
                else if ext = ''.jpg'' \<or> ext = ''.jpeg'' then ''image/jpeg''
                else if ext = ''.gif'' then ''image/gif''
                else if ext = ''.ico'' then ''image/x-icon''
                else if ext = ''.pdf'' then ''application/pdf''
                else if ext = ''.ps'' then ''application/postscript''
                else if ext = ''.md'' then ''text/markdown; charset=utf-8''
                else if ext = ''.txt'' then ''text/plain; charset=utf-8''
                else ''application/octet-stream'')))"

subsection \<open>HTML\<close>

definition html_escape_char :: "char \<Rightarrow> string" where
  "html_escape_char c =
     (if c = CHR ''&'' then ''&amp;''
      else if c = CHR ''<'' then ''&lt;''
      else if c = CHR ''>'' then ''&gt;''
      else if c = QUOTE then ''&quot;''
      else [c])"

definition html_escape :: "string option \<Rightarrow> string" where
  "html_escape s = (case s of None \<Rightarrow> [] | Some t \<Rightarrow> concat (map html_escape_char t))"

text \<open>The first pass of \<^verbatim>\<open>html_escape\<close>, which computes the size of the buffer.\<close>

definition html_escape_len :: "string \<Rightarrow> nat" where
  "html_escape_len s = sum_list (map (\<lambda>c. if c = CHR ''&'' then 5 else if c = CHR ''<'' \<or> c = CHR ''>'' then 4
     else if c = QUOTE then 6 else 1) s)"

section \<open>Reference decoders\<close>

text \<open>The value of a JSON string body, as a JSON parser reads it (escapes of the code only).\<close>

fun json_unescape :: "string \<Rightarrow> string option" where
  "json_unescape [] = Some []"
| "json_unescape (c # s) =
     (if c = QUOTE \<or> chr_code c < 32 then None
      else if c = BACKSLASH then
        (case s of
           e # t \<Rightarrow>
             if e = QUOTE \<or> e = BACKSLASH then map_option ((#) e) (json_unescape t)
             else if e = CHR ''b'' then map_option ((#) (CHR 0x08)) (json_unescape t)
             else if e = CHR ''f'' then map_option ((#) (CHR 0x0C)) (json_unescape t)
             else if e = CHR ''n'' then map_option ((#) (CHR 0x0A)) (json_unescape t)
             else if e = CHR ''r'' then map_option ((#) (CHR 0x0D)) (json_unescape t)
             else if e = CHR ''t'' then map_option ((#) (CHR 0x09)) (json_unescape t)
             else if e = CHR ''u'' then
               (case t of
                  z1 # z2 # h # l # t' \<Rightarrow>
                    if z1 = CHR ''0'' \<and> z2 = CHR ''0'' \<and> 0 \<le> hex_value h \<and> 0 \<le> hex_value l
                    then map_option ((#) (char_of (16 * nat (hex_value h) + nat (hex_value l)))) (json_unescape t')
                    else None
                | _ \<Rightarrow> None)
             else None
         | [] \<Rightarrow> None)
      else map_option ((#) c) (json_unescape s))"

text \<open>The inverse of the decoder for URLs: every reserved byte as a percent escape.\<close>

definition url_encode_char :: "char \<Rightarrow> string" where
  "url_encode_char c =
     (if isalnum c \<or> c \<in> {CHR ''-'', CHR ''.'', CHR ''_'', CHR ''~''} then [c]
      else [CHR ''%'', hex_digit (chr_code c div 16), hex_digit (chr_code c mod 16)])"

definition url_encode :: "bytes \<Rightarrow> string" where
  "url_encode s = concat (map url_encode_char s)"

section \<open>Lemmas\<close>

lemma chr_code_hex_digit: "n < 16 \<Longrightarrow> chr_code (hex_digit n) = (if n < 10 then 48 + n else 87 + n)"
  by (simp add: hex_digit_def)

lemma hex_value_hex_digit [simp]: "n < 16 \<Longrightarrow> hex_value (hex_digit n) = int n"
  by (simp add: hex_value_def chr_code_hex_digit)

lemma chr_code_parts: "chr_code c div 16 < 16" "chr_code c mod 16 < 16"
  "char_of (16 * (chr_code c div 16) + chr_code c mod 16) = c"
  using chr_code_less [of c] by (simp_all add: less_mult_imp_div_less)

lemma json_unescape_char: "json_unescape (json_escape_char c @ s) = map_option ((#) c) (json_unescape s)"
proof (cases "c \<in> {QUOTE, BACKSLASH, CHR 0x08, CHR 0x0C, CHR 0x0A, CHR 0x0D, CHR 0x09}")
  case True
  then show ?thesis by (auto simp: json_escape_char_def chr_code_def)
next
  case False
  note parts = chr_code_parts [of c]
  show ?thesis
  proof (cases "chr_code c < 32")
    case True
    then have "json_escape_char c = [BACKSLASH, CHR ''u'', CHR ''0'', CHR ''0'', hex_digit (chr_code c div 16),
        hex_digit (chr_code c mod 16)]"
      using False by (simp add: json_escape_char_def)
    then show ?thesis using parts by (simp add: chr_code_def [of BACKSLASH])
  next
    case plain: False
    then have "json_escape_char c = [c]" using False by (simp add: json_escape_char_def)
    then show ?thesis using plain False by simp
  qed
qed

lemma json_escape_loop_prefix:
  "\<exists>t. prefix t s \<and> json_escape_loop m d s = concat (map json_escape_char t) \<and>
    (m - 1 > d + length (concat (map json_escape_char s)) + 7 \<longrightarrow> t = s)"
proof (induction m d s rule: json_escape_loop.induct)
  case (2 m d c s)
  show ?case
  proof (cases "m - 1 \<le> d + 7")
    case True
    then show ?thesis by (intro exI [of _ "[]"]) simp
  next
    case False
    with 2 obtain t where "prefix t s" "json_escape_loop m (d + length (json_escape_char c)) s =
        concat (map json_escape_char t)"
      "m - 1 > d + length (json_escape_char c) + length (concat (map json_escape_char s)) + 7 \<longrightarrow> t = s" by blast
    then show ?thesis using False by (intro exI [of _ "c # t"]) (simp add: add.assoc)
  qed
qed simp

lemma json_unescape_concat: "json_unescape (concat (map json_escape_char t)) = Some t"
  by (induction t) (simp_all add: json_unescape_char)

lemma json_escape_loop_bound: "d \<le> m - 1 \<Longrightarrow> d + length (json_escape_loop m d s) \<le> m - 1"
proof (induction m d s rule: json_escape_loop.induct)
  case (2 m d c s)
  have "length (json_escape_char c) \<le> 6" by (simp add: json_escape_char_def)
  then show ?case using 2 by auto
qed simp

lemma url_decode_encode_char:
  "out + 1 < n \<Longrightarrow> url_decode_loop n out (url_encode_char c @ s) = map_option ((#) c) (url_decode_loop n (out + 1) s)"
proof (cases "isalnum c \<or> c \<in> {CHR ''-'', CHR ''.'', CHR ''_'', CHR ''~''}")
  case True
  moreover have "c \<noteq> CHR ''%''" "c \<noteq> CHR ''+''"
    using True by (auto simp: isalnum_def isdigit_def isupper_def islower_def chr_code_def)
  ultimately show "out + 1 < n \<Longrightarrow> ?thesis" by (simp add: url_encode_char_def)
next
  case False
  then show "out + 1 < n \<Longrightarrow> ?thesis" using chr_code_parts [of c] by (simp add: url_encode_char_def)
qed

lemma url_decode_loop_encode: "out + length s < n \<Longrightarrow> url_decode_loop n out (concat (map url_encode_char s)) = Some s"
  by (induction s arbitrary: out) (simp_all add: url_decode_encode_char)

lemma url_decode_loop_bound: "url_decode_loop n out s = Some t \<Longrightarrow> out < n \<Longrightarrow> out + length t < n"
proof (induction n out s arbitrary: t rule: url_decode_loop.induct)
  case (2 n out c s)
  show ?case
  proof (cases "c = CHR ''%''")
    case True
    then obtain h l rest t' where "s = h # l # rest" "url_decode_loop n (out + 1) rest = Some t'" "length t = Suc (length t')"
      "out + 1 < n" "\<not> (hex_value h < 0 \<or> hex_value l < 0)"
      using "2.prems" by (auto split: if_splits list.splits)
    then show ?thesis using "2.IH"(1) True by fastforce
  next
    case False
    then obtain t' where "url_decode_loop n (out + 1) s = Some t'" "length t = Suc (length t')" "out + 1 < n"
      using "2.prems" by (auto split: if_splits)
    then show ?thesis using "2.IH"(2,3) False by fastforce
  qed
qed simp

lemma html_escape_len_eq: "html_escape_len s = length (html_escape (Some s))"
  by (induction s) (auto simp: html_escape_len_def html_escape_def html_escape_char_def)

lemma html_escape_safe:
  "CHR ''<'' \<notin> set (html_escape s)" "CHR ''>'' \<notin> set (html_escape s)" "QUOTE \<notin> set (html_escape s)"
  by (auto simp: html_escape_def html_escape_char_def split: option.splits if_splits)

lemma sanitize_string_chars:
  "c \<in> set (sanitize_string s) \<Longrightarrow> isalnum c \<or> c \<in> {CHR ''.'', CHR ''-'', CHR ''_'', CHR ''+''}"
  by (auto simp: sanitize_string_def split: if_splits)

lemma sanitize_string_id:
  "(\<And>c. c \<in> set s \<Longrightarrow> isalnum c \<or> c \<in> {CHR ''.'', CHR ''-'', CHR ''_'', CHR ''+''}) \<Longrightarrow> sanitize_string s = s"
  by (induction s) (auto simp: sanitize_string_def)

section \<open>Properties\<close>

text \<open>
  Escaped text is safe inside a JSON string and means what it was: for every input, a JSON
  reader accepts the escaped text and recovers a prefix of the input, the text fits the buffer of
  six times the length of the input plus one, and the whole input is recovered whenever the
  escaped text stays eight bytes below that size.
\<close>

theorem json_escape_roundtrip:
  "\<exists>t. prefix t s \<and> json_unescape (json_escape_string (Some s)) = Some t \<and>
    length (json_escape_string (Some s)) \<le> 6 * length s \<and>
    (length (concat (map json_escape_char s)) + 7 < 6 * length s \<longrightarrow> t = s)"
proof -
  obtain t where "prefix t s" "json_escape_string (Some s) = concat (map json_escape_char t)"
    "length (concat (map json_escape_char s)) + 7 < 6 * length s \<longrightarrow> t = s"
    using json_escape_loop_prefix [of s "length s * 6 + 1" 0] by (auto simp: json_escape_string_def mult.commute)
  moreover have "length (json_escape_string (Some s)) \<le> 6 * length s"
    using json_escape_loop_bound [of 0 "length s * 6 + 1" s] by (simp add: json_escape_string_def mult.commute)
  ultimately show ?thesis using json_unescape_concat by metis
qed

theorem json_escape_roundtrip_witness:
  "json_unescape (json_escape_string (Some ''a/b c'')) = Some ''a/b c''"
proof -
  have "length (concat (map json_escape_char ''a/b c'')) + 7 < 6 * length ''a/b c''"
    by (simp add: json_escape_char_def chr_code_def)
  then show ?thesis using json_escape_roundtrip [of "''a/b c''"] by auto
qed

text \<open>
  The guard of the escaping loop is too strict for short input: a string of one character,
  whatever it is, is escaped to the empty string.
\<close>

theorem json_escape_loses_single_char: "json_escape_string (Some [c]) = []"
  by (simp add: json_escape_string_def)

text \<open>
  URL decoding inverts percent encoding: every byte string that fits the destination buffer
  is recovered from its encoding, and no input ever decodes to more bytes than fit the buffer
  with its terminator.
\<close>

theorem url_decode_roundtrip:
  "(length s < n \<longrightarrow> url_decode (Some (url_encode s)) n = Some s) \<and>
   (\<forall>src t. url_decode src n = Some t \<longrightarrow> length t < n)"
proof (intro conjI impI allI)
  show "url_decode (Some (url_encode s)) n = Some s" if "length s < n"
    using that url_decode_loop_encode [of 0 s n] by (auto simp: url_decode_def url_encode_def)
  show "length t < n" if "url_decode src n = Some t" for src t
    using that url_decode_loop_bound [of n 0] by (fastforce simp: url_decode_def split: option.splits if_splits)
qed

theorem url_decode_roundtrip_witness:
  "url_decode (Some (url_encode ''a b/c'')) 64 = Some ''a b/c''"
  using url_decode_roundtrip [of "''a b/c''" 64] by simp

end
