(* ===== verification/File_Cache.thy ===== *)
theory File_Cache
  imports Interfaces World
begin

text \<open>
  The sharded file cache (\<^verbatim>\<open>src/http/response_file_cache.c\<close>): sixteen shards of 32 entries with a
  per-second insertion budget, eviction by age and by least recent use, and an admission list
  that lets a path in only when it is stored for the second time. A free array element is one
  whose path is empty, as in the code; the length of an entry is the length of its data. The time
  and whether \<^verbatim>\<open>malloc\<close> succeeds are parameters; the shards are the state after the one-time
  initialisation. The debug log line of a new window is left out.
\<close>

section \<open>Model\<close>

unbundle bit_operations_syntax

definition FILE_CACHE_SLOTS :: nat where "FILE_CACHE_SLOTS = 32"
definition FILE_CACHE_SHARDS :: nat where "FILE_CACHE_SHARDS = 16"
definition FILE_CACHE_MAX_BYTES :: nat where "FILE_CACHE_MAX_BYTES = 256 * 1024"
definition FILE_CACHE_INSERTS_PER_SEC :: int where "FILE_CACHE_INSERTS_PER_SEC = 8"
definition FILE_CACHE_MAX_AGE_SEC :: int where "FILE_CACHE_MAX_AGE_SEC = 240"
definition FILE_CACHE_PATH :: nat where "FILE_CACHE_PATH = 512"

record file_cache_entry_t =
  fe_path :: string
  fe_data :: bytes
  fe_mtime :: int
  fe_atime :: int

record file_cache_candidate_t =
  fk_path :: string
  fk_hits :: "32 word"
  fk_atime :: int

record file_cache_shard_t =
  fs_entries :: "file_cache_entry_t list"
  fs_candidates :: "file_cache_candidate_t list"
  fs_insert_tokens :: int
  fs_insert_window :: int
  fs_window_hits :: "32 word"
  fs_window_misses :: "32 word"
  fs_window_inserts :: "32 word"
  fs_window_throttles :: "32 word"

definition zero_entry :: file_cache_entry_t where
  "zero_entry = \<lparr>fe_path = [], fe_data = [], fe_mtime = 0, fe_atime = 0\<rparr>"

definition zero_candidate :: file_cache_candidate_t where
  "zero_candidate = \<lparr>fk_path = [], fk_hits = 0, fk_atime = 0\<rparr>"

definition file_cache_shard_index :: "string \<Rightarrow> nat" where
  "file_cache_shard_index path =
     unat (foldl (\<lambda>hash c. (hash XOR word_of_nat (chr_code c)) * 1099511628211) (1469598103934665603 :: 64 word) path)
       mod FILE_CACHE_SHARDS"

definition file_cache_init_shards :: "file_cache_shard_t list" where
  "file_cache_init_shards = replicate FILE_CACHE_SHARDS
     \<lparr>fs_entries = replicate FILE_CACHE_SLOTS zero_entry,
      fs_candidates = replicate (FILE_CACHE_SLOTS * 2) zero_candidate,
      fs_insert_tokens = FILE_CACHE_INSERTS_PER_SEC, fs_insert_window = 0,
      fs_window_hits = 0, fs_window_misses = 0, fs_window_inserts = 0, fs_window_throttles = 0\<rparr>"

definition file_cache_refill_budget_locked :: "file_cache_shard_t \<Rightarrow> int \<Rightarrow> file_cache_shard_t" where
  "file_cache_refill_budget_locked shard now =
     (if fs_insert_window shard = 0 \<or> now \<noteq> fs_insert_window shard
      then shard\<lparr>fs_insert_window := now, fs_insert_tokens := FILE_CACHE_INSERTS_PER_SEC,
                 fs_window_hits := 0, fs_window_misses := 0, fs_window_inserts := 0, fs_window_throttles := 0\<rparr>
      else shard)"

definition file_cache_evict_stale_locked :: "file_cache_shard_t \<Rightarrow> int \<Rightarrow> file_cache_shard_t" where
  "file_cache_evict_stale_locked shard now =
     shard\<lparr>fs_entries := map (\<lambda>e. if fe_path e = [] then e
                               else if FILE_CACHE_MAX_AGE_SEC < now - fe_atime e then zero_entry else e) (fs_entries shard),
           fs_candidates := map (\<lambda>k. if fk_path k = [] then k
                               else if FILE_CACHE_MAX_AGE_SEC < now - fk_atime k then zero_candidate else k)
                              (fs_candidates shard)\<rparr>"

text \<open>
  The scan of the admission list: a free element ends it, a known path ends it, otherwise the
  least recently used element is remembered.
\<close>

datatype admit_scan = Known_at nat | Slot_at nat | No_slot

fun file_cache_admit_scan :: "string \<Rightarrow> file_cache_candidate_t list \<Rightarrow> nat \<Rightarrow> (nat \<times> int) option \<Rightarrow> admit_scan" where
  "file_cache_admit_scan path [] i best = (case best of None \<Rightarrow> No_slot | Some (slot, oldest) \<Rightarrow> Slot_at slot)"
| "file_cache_admit_scan path (k # ks) i best =
     (if fk_path k = [] then Slot_at i
      else if fk_path k = path then Known_at i
      else file_cache_admit_scan path ks (i + 1)
             (case best of
                None \<Rightarrow> Some (i, fk_atime k)
              | Some (slot, oldest) \<Rightarrow> if fk_atime k < oldest then Some (i, fk_atime k) else best))"

definition file_cache_admit_locked :: "file_cache_shard_t \<Rightarrow> string \<Rightarrow> int \<Rightarrow> bool \<times> file_cache_shard_t" where
  "file_cache_admit_locked shard path now =
     (case file_cache_admit_scan path (fs_candidates shard) 0 None of
        Known_at i \<Rightarrow>
          (let k = fs_candidates shard ! i; hits = fk_hits k + 1
           in (2 \<le> hits,
               shard\<lparr>fs_candidates := (fs_candidates shard)[i := k\<lparr>fk_hits := hits, fk_atime := now\<rparr>]\<rparr>))
      | No_slot \<Rightarrow> (False, shard)
      | Slot_at i \<Rightarrow>
          (False,
           shard\<lparr>fs_candidates := (fs_candidates shard)
              [i := \<lparr>fk_path = strlcpy FILE_CACHE_PATH path, fk_hits = 1, fk_atime = now\<rparr>]\<rparr>))"

fun file_cache_slot_scan :: "file_cache_entry_t list \<Rightarrow> nat \<Rightarrow> (nat \<times> int) option \<Rightarrow> nat option" where
  "file_cache_slot_scan [] i best = map_option fst best"
| "file_cache_slot_scan (e # es) i best =
     (if fe_path e = [] then Some i
      else file_cache_slot_scan es (i + 1)
             (case best of
                None \<Rightarrow> Some (i, fe_atime e)
              | Some (slot, oldest) \<Rightarrow> if fe_atime e < oldest then Some (i, fe_atime e) else best))"

definition file_cache_insert :: "file_cache_shard_t \<Rightarrow> string \<Rightarrow> int \<Rightarrow> bytes \<Rightarrow> int \<Rightarrow> bool \<Rightarrow> file_cache_shard_t" where
  "file_cache_insert shard path mtime data now malloc_ok =
     (case file_cache_slot_scan (fs_entries shard) 0 None of
        None \<Rightarrow> shard
      | Some slot \<Rightarrow>
          (let s1 = shard\<lparr>fs_insert_tokens := fs_insert_tokens shard - 1\<rparr>
           in if malloc_ok
              then s1\<lparr>fs_entries := (fs_entries s1)
                        [slot := \<lparr>fe_path = strlcpy FILE_CACHE_PATH path, fe_data = data, fe_mtime = mtime, fe_atime = now\<rparr>],
                      fs_window_inserts := fs_window_inserts s1 + 1\<rparr>
              else s1\<lparr>fs_entries := (fs_entries s1)[slot := zero_entry]\<rparr>))"

definition http_file_cache_store ::
  "file_cache_shard_t list \<Rightarrow> int \<Rightarrow> bool \<Rightarrow> string \<Rightarrow> file_stat \<Rightarrow> bytes \<Rightarrow> nat \<Rightarrow> file_cache_shard_t list" where
  "http_file_cache_store shards now malloc_ok path st data len =
     (if len = 0 \<or> FILE_CACHE_MAX_BYTES < len then shards
      else
        (let i = file_cache_shard_index path;
             s1 = file_cache_evict_stale_locked (file_cache_refill_budget_locked (shards ! i) now) now
         in if fs_insert_tokens s1 \<le> 0
            then shards[i := s1\<lparr>fs_window_throttles := fs_window_throttles s1 + 1\<rparr>]
            else
              (let (admitted, s2) = file_cache_admit_locked s1 path now
               in if \<not> admitted then shards[i := s2]
                  else shards[i := file_cache_insert s2 path (st_mtime st) (take len data) now malloc_ok])))"

text \<open>The position of the entry a lookup uses: the first one with this path and modification time.\<close>

fun file_cache_find :: "string \<Rightarrow> int \<Rightarrow> file_cache_entry_t list \<Rightarrow> nat \<Rightarrow> nat option" where
  "file_cache_find path mtime [] i = None"
| "file_cache_find path mtime (e # es) i =
     (if fe_path e = [] then file_cache_find path mtime es (i + 1)
      else if fe_path e \<noteq> path then file_cache_find path mtime es (i + 1)
      else if fe_mtime e \<noteq> mtime then file_cache_find path mtime es (i + 1)
      else Some i)"

definition http_file_cache_lookup ::
  "file_cache_shard_t list \<Rightarrow> int \<Rightarrow> bool \<Rightarrow> string \<Rightarrow> file_stat \<Rightarrow> bytes option \<times> file_cache_shard_t list" where
  "http_file_cache_lookup shards now malloc_ok path st =
     (if st_size st \<le> 0 \<or> int FILE_CACHE_MAX_BYTES < st_size st then (None, shards)
      else
        (let i = file_cache_shard_index path;
             s1 = file_cache_evict_stale_locked (file_cache_refill_budget_locked (shards ! i) now) now;
             miss = s1\<lparr>fs_window_misses := fs_window_misses s1 + 1\<rparr>
         in case file_cache_find path (st_mtime st) (fs_entries s1) 0 of
              None \<Rightarrow> (None, shards[i := miss])
            | Some j \<Rightarrow>
                if malloc_ok
                then (Some (fe_data (fs_entries s1 ! j)),
                      shards[i := s1\<lparr>fs_entries := (fs_entries s1)[j := (fs_entries s1 ! j)\<lparr>fe_atime := now\<rparr>],
                                     fs_window_hits := fs_window_hits s1 + 1\<rparr>])
                else (None, shards[i := miss])))"

definition http_handler_globals_cleanup :: "file_cache_shard_t list \<Rightarrow> file_cache_shard_t list" where
  "http_handler_globals_cleanup shards =
     map (\<lambda>s. s\<lparr>fs_entries := map (\<lambda>e. e\<lparr>fe_path := [], fe_data := []\<rparr>) (fs_entries s)\<rparr>) shards"

section \<open>What the cache holds\<close>

definition entry_facts :: "file_cache_entry_t list \<Rightarrow> ((string \<times> int) \<times> bytes) set" where
  "entry_facts es = {((fe_path e, fe_mtime e), fe_data e) | e. e \<in> set es \<and> fe_path e \<noteq> []}"

definition cache_facts :: "file_cache_shard_t list \<Rightarrow> ((string \<times> int) \<times> bytes) set" where
  "cache_facts shards = (\<Union>s \<in> set shards. entry_facts (fs_entries s))"

lemma entry_facts_update:
  "entry_facts (es[i := e]) \<subseteq> entry_facts es \<union> (if fe_path e = [] then {} else {((fe_path e, fe_mtime e), fe_data e)})"
  using set_list_update_subset [of es i e] by (auto simp: entry_facts_def)

lemma cache_facts_subset: "cache_facts shards \<subseteq> A \<longleftrightarrow> (\<forall>s \<in> set shards. entry_facts (fs_entries s) \<subseteq> A)"
  by (auto simp: cache_facts_def)

lemma cache_facts_update:
  assumes "entry_facts (fs_entries s) \<subseteq> A" "cache_facts shards \<subseteq> A"
  shows "cache_facts (shards[i := s]) \<subseteq> A"
proof -
  have "\<forall>t \<in> set (shards[i := s]). t = s \<or> t \<in> set shards"
    using set_list_update_subset [of shards i s] by auto
  then show ?thesis using assms unfolding cache_facts_subset by metis
qed

lemma shard_facts: "i < length shards \<Longrightarrow> entry_facts (fs_entries (shards ! i)) \<subseteq> cache_facts shards"
  using nth_mem [of i shards] unfolding cache_facts_def by blast

lemma refill_entries [simp]: "fs_entries (file_cache_refill_budget_locked s now) = fs_entries s"
  by (simp add: file_cache_refill_budget_locked_def)

lemma evict_facts: "entry_facts (fs_entries (file_cache_evict_stale_locked s now)) \<subseteq> entry_facts (fs_entries s)"
  by (auto simp: file_cache_evict_stale_locked_def entry_facts_def zero_entry_def split: if_splits)

lemma admit_entries: "file_cache_admit_locked s path now = (ok, s') \<Longrightarrow> fs_entries s' = fs_entries s"
  by (auto simp: file_cache_admit_locked_def Let_def split: admit_scan.splits)

lemma insert_facts:
  "length path < FILE_CACHE_PATH \<Longrightarrow>
    entry_facts (fs_entries (file_cache_insert s path mtime data now m)) \<subseteq> insert ((path, mtime), data) (entry_facts (fs_entries s))"
  using entry_facts_update [of "fs_entries s"]
  by (fastforce simp: file_cache_insert_def Let_def strlcpy_short zero_entry_def split: option.splits if_splits)

lemma file_cache_find_Some:
  "file_cache_find path mtime es i = Some j \<Longrightarrow>
    i \<le> j \<and> j - i < length es \<and> fe_path (es ! (j - i)) = path \<and> fe_mtime (es ! (j - i)) = mtime \<and> path \<noteq> []"
proof (induction path mtime es i rule: file_cache_find.induct)
  case (2 path mtime e es i)
  show ?case
  proof (cases "fe_path e = [] \<or> fe_path e \<noteq> path \<or> fe_mtime e \<noteq> mtime")
    case True
    then have "file_cache_find path mtime es (i + 1) = Some j" using "2.prems" by (auto split: if_splits)
    then have "i + 1 \<le> j \<and> j - (i + 1) < length es \<and> fe_path (es ! (j - (i + 1))) = path \<and>
        fe_mtime (es ! (j - (i + 1))) = mtime \<and> path \<noteq> []"
      using "2.IH" True by blast
    then show ?thesis by (simp add: nth_Cons split: nat.splits) (metis Suc_diff_Suc Suc_le_eq diff_Suc_Suc nat.inject)
  next
    case False
    then show ?thesis using "2.prems" by auto
  qed
qed simp

lemma file_cache_shard_index_less: "file_cache_shard_index path < FILE_CACHE_SHARDS"
  by (simp add: file_cache_shard_index_def FILE_CACHE_SHARDS_def)

lemma store_facts:
  assumes "length shards = FILE_CACHE_SHARDS" "length path < FILE_CACHE_PATH"
  shows "cache_facts (http_file_cache_store shards now m path st data len) \<subseteq>
    insert ((path, st_mtime st), take len data) (cache_facts shards)"
proof -
  let ?A = "insert ((path, st_mtime st), take len data) (cache_facts shards)"
  let ?i = "file_cache_shard_index path"
  let ?s1 = "file_cache_evict_stale_locked (file_cache_refill_budget_locked (shards ! ?i) now) now"
  have i: "?i < length shards" using file_cache_shard_index_less assms(1) by simp
  have s1: "entry_facts (fs_entries ?s1) \<subseteq> cache_facts shards"
    using evict_facts [of "file_cache_refill_budget_locked (shards ! ?i) now" now] shard_facts [OF i] by auto
  obtain ok s2 where s2: "file_cache_admit_locked ?s1 path now = (ok, s2)" by fastforce
  have e2: "entry_facts (fs_entries s2) \<subseteq> ?A" using admit_entries [OF s2] s1 by auto
  have ins: "entry_facts (fs_entries (file_cache_insert s2 path (st_mtime st) (take len data) now m)) \<subseteq> ?A"
    using insert_facts [OF assms(2), of s2 "st_mtime st" "take len data" now m] e2 by auto
  have thr: "entry_facts (fs_entries (?s1\<lparr>fs_window_throttles := fs_window_throttles ?s1 + 1\<rparr>)) \<subseteq> ?A"
    using s1 by auto
  have base: "cache_facts shards \<subseteq> ?A" by blast
  note upd = cache_facts_update [OF e2 base] cache_facts_update [OF ins base] cache_facts_update [OF thr base]
  show ?thesis unfolding http_file_cache_store_def Let_def s2 prod.case by (simp only: upd base split: if_split) simp
qed

lemma lookup_facts:
  assumes "length shards = FILE_CACHE_SHARDS"
  shows "cache_facts (snd (http_file_cache_lookup shards now m path st)) \<subseteq> cache_facts shards"
    "fst (http_file_cache_lookup shards now m path st) = Some v \<Longrightarrow> ((path, st_mtime st), v) \<in> cache_facts shards"
proof -
  let ?i = "file_cache_shard_index path"
  let ?s1 = "file_cache_evict_stale_locked (file_cache_refill_budget_locked (shards ! ?i) now) now"
  let ?f = "file_cache_find path (st_mtime st) (fs_entries ?s1) 0"
  have i: "?i < length shards" using file_cache_shard_index_less assms by simp
  have s1: "entry_facts (fs_entries ?s1) \<subseteq> cache_facts shards"
    using evict_facts [of "file_cache_refill_budget_locked (shards ! ?i) now" now] shard_facts [OF i] by auto
  have found: "((path, st_mtime st), fe_data (fs_entries ?s1 ! j)) \<in> entry_facts (fs_entries ?s1)" if "?f = Some j" for j
    using file_cache_find_Some [OF that] nth_mem [of j "fs_entries ?s1"] by (force simp: entry_facts_def)
  have hit: "entry_facts ((fs_entries ?s1)[j := (fs_entries ?s1 ! j)\<lparr>fe_atime := now\<rparr>]) \<subseteq> cache_facts shards"
    if "?f = Some j" for j
    using entry_facts_update [of "fs_entries ?s1" j "(fs_entries ?s1 ! j)\<lparr>fe_atime := now\<rparr>"] found [OF that]
      file_cache_find_Some [OF that] s1 by auto
  have miss: "entry_facts (fs_entries (?s1\<lparr>fs_window_misses := fs_window_misses ?s1 + 1\<rparr>)) \<subseteq> cache_facts shards"
    using s1 by simp
  show "cache_facts (snd (http_file_cache_lookup shards now m path st)) \<subseteq> cache_facts shards"
  proof (cases ?f)
    case None
    then show ?thesis
      using cache_facts_update [OF miss order_refl] by (simp add: http_file_cache_lookup_def Let_def)
  next
    case (Some j)
    then show ?thesis
      using cache_facts_update [OF miss order_refl]
        cache_facts_update [of "?s1\<lparr>fs_entries := (fs_entries ?s1)[j := (fs_entries ?s1 ! j)\<lparr>fe_atime := now\<rparr>],
            fs_window_hits := fs_window_hits ?s1 + 1\<rparr>" "cache_facts shards" shards ?i] hit [OF Some]
      by (simp add: http_file_cache_lookup_def Let_def)
  qed
  show "((path, st_mtime st), v) \<in> cache_facts shards" if "fst (http_file_cache_lookup shards now m path st) = Some v"
    using that found s1 by (auto simp: http_file_cache_lookup_def Let_def split: if_splits option.splits)
qed

section \<open>The cache as a coherent cache\<close>

text \<open>
  A key is a path with the modification time of the file; the environment of a call is the time,
  whether \<^verbatim>\<open>malloc\<close> succeeds and the size that \<^verbatim>\<open>fstat\<close> reports. Paths are those that fit the
  512-byte buffers of the callers.
\<close>

definition fc_stat :: "int \<Rightarrow> int \<Rightarrow> file_stat" where
  "fc_stat sz mtime = \<lparr>st_size = sz, st_mtime = mtime, st_isdir = False, st_isreg = True\<rparr>"

definition fc_store ::
  "file_cache_shard_t list \<Rightarrow> int \<times> bool \<times> int \<Rightarrow> string \<times> int \<Rightarrow> bytes \<Rightarrow> file_cache_shard_t list" where
  "fc_store shards e k data =
     (case (e, k) of ((now, m, sz), (path, mtime)) \<Rightarrow>
        if length path < FILE_CACHE_PATH
        then http_file_cache_store shards now m path (fc_stat sz mtime) data (length data) else shards)"

definition fc_lookup ::
  "file_cache_shard_t list \<Rightarrow> int \<times> bool \<times> int \<Rightarrow> string \<times> int \<Rightarrow> bytes option \<times> file_cache_shard_t list" where
  "fc_lookup shards e k =
     (case (e, k) of ((now, m, sz), (path, mtime)) \<Rightarrow> http_file_cache_lookup shards now m path (fc_stat sz mtime))"

definition shards_ok :: "file_cache_shard_t list \<Rightarrow> bool" where
  "shards_ok shards \<longleftrightarrow> length shards = FILE_CACHE_SHARDS"

lemma fc_length:
  "length (http_file_cache_store shards now m path st data len) = length shards"
  "length (snd (http_file_cache_lookup shards now m path st)) = length shards"
  by (simp_all add: http_file_cache_store_def http_file_cache_lookup_def Let_def split_beta split: option.splits)

interpretation fc: coherent_cache fc_store fc_lookup cache_facts shards_ok
proof unfold_locales
  fix s :: "file_cache_shard_t list" and e :: "int \<times> bool \<times> int" and k :: "string \<times> int" and v :: bytes
  assume ok: "shards_ok s"
  obtain now m sz path mtime where ek: "e = (now, m, sz)" "k = (path, mtime)" by (metis prod.exhaust)
  show "shards_ok (fc_store s e k v) \<and> cache_facts (fc_store s e k v) \<subseteq> insert (k, v) (cache_facts s)"
    using ok store_facts [of s path now m "fc_stat sz mtime" v "length v"]
    by (auto simp: shards_ok_def fc_store_def ek fc_length fc_stat_def)
  show "shards_ok (snd (fc_lookup s e k)) \<and> cache_facts (snd (fc_lookup s e k)) \<subseteq> cache_facts s"
    using ok lookup_facts(1) [of s now m path "fc_stat sz mtime"]
    by (simp add: shards_ok_def fc_lookup_def ek fc_length)
  show "(k, v) \<in> cache_facts s" if "fst (fc_lookup s e k) = Some v"
    using ok that lookup_facts(2) [of s now m path "fc_stat sz mtime" v]
    by (simp add: shards_ok_def fc_lookup_def ek fc_stat_def)
qed

text \<open>A path stored twice in one second is admitted and found.\<close>

lemma file_cache_second_store_hits:
  "fst (http_file_cache_lookup (cache_run fc_store fc_lookup file_cache_init_shards
      [Store_op (1, True, 2) (''a'', 5) ''hi'', Store_op (1, True, 2) (''a'', 5) ''hi'']) 1 True ''a''
      \<lparr>st_size = 2, st_mtime = 5, st_isdir = False, st_isreg = True\<rparr>) = Some ''hi''"
proof -
  obtain i where i: "file_cache_shard_index ''a'' = i" "i < 16"
    using file_cache_shard_index_less [of "''a''"] by (simp add: FILE_CACHE_SHARDS_def)
  let ?c = "\<lparr>fk_path = ''a'', fk_hits = 1, fk_atime = 1\<rparr>"
  let ?sh = "\<lambda>es cs t ins. \<lparr>fs_entries = es @ replicate 31 zero_entry, fs_candidates = cs @ replicate 63 zero_candidate,
      fs_insert_tokens = t, fs_insert_window = 1, fs_window_hits = 0, fs_window_misses = 0,
      fs_window_inserts = ins, fs_window_throttles = 0\<rparr>"
  let ?e = "\<lparr>fe_path = ''a'', fe_data = ''hi'', fe_mtime = 5, fe_atime = 1\<rparr>"
  have len: "length file_cache_init_shards = 16" by (simp add: file_cache_init_shards_def FILE_CACHE_SHARDS_def)
  have r: "replicate 32 x = x # replicate 31 x" "replicate 64 y = y # replicate 63 y"
    for x :: file_cache_entry_t and y :: file_cache_candidate_t
    by (simp_all add: eval_nat_numeral)
  have s1: "fc_store file_cache_init_shards (1, True, 2) (''a'', 5) ''hi'' =
      file_cache_init_shards[i := ?sh [zero_entry] [?c] 8 0]"
    using i len
    by (simp add: fc_store_def http_file_cache_store_def file_cache_init_shards_def FILE_CACHE_SHARDS_def FILE_CACHE_SLOTS_def
       FILE_CACHE_PATH_def FILE_CACHE_MAX_BYTES_def file_cache_refill_budget_locked_def file_cache_evict_stale_locked_def
       FILE_CACHE_INSERTS_PER_SEC_def FILE_CACHE_MAX_AGE_SEC_def
       r file_cache_admit_locked_def zero_candidate_def zero_entry_def strlcpy_def fc_stat_def)
  have s2: "fc_store (file_cache_init_shards[i := ?sh [zero_entry] [?c] 8 0]) (1, True, 2) (''a'', 5) ''hi'' =
      file_cache_init_shards[i := ?sh [?e] [?c\<lparr>fk_hits := 2\<rparr>] 7 1]"
    using i len
    by (simp add: fc_store_def http_file_cache_store_def FILE_CACHE_PATH_def FILE_CACHE_MAX_BYTES_def
        file_cache_refill_budget_locked_def file_cache_evict_stale_locked_def FILE_CACHE_MAX_AGE_SEC_def
        file_cache_admit_locked_def zero_candidate_def zero_entry_def strlcpy_def fc_stat_def file_cache_insert_def)
  show ?thesis
    using i len s1 s2
    by (simp add: http_file_cache_lookup_def FILE_CACHE_MAX_BYTES_def file_cache_refill_budget_locked_def
        file_cache_evict_stale_locked_def FILE_CACHE_MAX_AGE_SEC_def)
qed

section \<open>Properties\<close>

text \<open>
  C25. The file cache is coherent: after any history of stores and lookups, with any times, sizes
  and allocation failures, a lookup that hits returns bytes that were stored for exactly this path
  and this modification time.
\<close>

theorem file_cache_coherent:
  assumes "fst (http_file_cache_lookup (cache_run fc_store fc_lookup file_cache_init_shards ops) now m path st) = Some data"
  shows "((path, st_mtime st), data) \<in> stored ops"
proof -
  have init: "shards_ok file_cache_init_shards" "cache_facts file_cache_init_shards = {}"
    by (auto simp: shards_ok_def file_cache_init_shards_def cache_facts_def entry_facts_def zero_entry_def)
  have "http_file_cache_lookup s now m path (fc_stat (st_size st) (st_mtime st)) = http_file_cache_lookup s now m path st" for s
    by (simp add: http_file_cache_lookup_def fc_stat_def)
  then have "fst (fc_lookup (cache_run fc_store fc_lookup file_cache_init_shards ops) (now, m, st_size st) (path, st_mtime st))
      = Some data"
    using assms by (simp add: fc_lookup_def)
  then show ?thesis by (rule fc.lookup_was_stored [OF init])
qed

theorem file_cache_coherent_witness:
  "((''a'', 5), ''hi'') \<in> stored
     [Store_op (1 :: int, True, 2 :: int) (''a'', 5 :: int) ''hi'', Store_op (1, True, 2) (''a'', 5) ''hi'']"
  using file_cache_coherent [OF file_cache_second_store_hits] by simp

end
