(* ===== verification/Template.thy ===== *)
theory Template
  imports World
begin

text \<open>
  The template engine (\<^verbatim>\<open>src/render/template_render.c\<close>): the in-memory cache of the templates
  directory with its 60-second refresh, and the layout renderer that fills the placeholders of
  \<^verbatim>\<open>base.html\<close>.

  The cache is the list of its entries in the order of the array; the outcomes of the allocations
  are part of the state. The cache mutex makes each read atomic, so the model has no trace of it.
  An entry keeps the bytes that \<^verbatim>\<open>fread\<close> delivered; what a reader gets is their prefix up to a NUL.
\<close>

section \<open>Model\<close>

definition TEMPLATE_CACHE_TTL_SEC :: int where "TEMPLATE_CACHE_TTL_SEC = 60"
definition PATH_MAX :: nat where "PATH_MAX = 1024"

record template_entry =
  te_filename :: string
  te_content :: bytes
  te_len :: nat
  te_mtime :: int

record template_state =
  tc_cache :: "template_entry list"
  tc_last_refresh :: int
  tc_allocs :: "bool list"

definition template_initial :: template_state where
  "template_initial = \<lparr>tc_cache = [], tc_last_refresh = 0, tc_allocs = []\<rparr>"

record template_data =
  td_title :: "string option"
  td_page_content :: "string option"
  td_extra_head_file :: "string option"
  td_extra_js_file :: "string option"

definition template_alloc :: "template_state \<Rightarrow> bool \<times> template_state" where
  "template_alloc s = (let (ok, al) = next_alloc (tc_allocs s) in (ok, s\<lparr>tc_allocs := al\<rparr>))"

definition read_file_content :: "world \<Rightarrow> string \<Rightarrow> template_state \<Rightarrow> bytes option \<times> template_state" where
  "read_file_content w path s =
     (case wd_fopen w path of
        None \<Rightarrow> (None, s)
      | Some f \<Rightarrow>
          if \<not> fl_seek_end_ok f then (None, s)
          else if fl_tell f < 0 then (None, s)
          else if \<not> fl_seek_set_ok f then (None, s)
          else
            (let (ok, s1) = template_alloc s;
                 n = min (nat (fl_tell f)) (length (fl_data f))
             in if \<not> ok then (None, s1)
                else if n \<noteq> nat (fl_tell f) \<and> fl_error f then (None, s1)
                else (Some (take n (fl_data f)), s1)))"

definition template_cache_cleanup :: "template_state \<Rightarrow> template_state" where
  "template_cache_cleanup s = s\<lparr>tc_cache := [], tc_last_refresh := 0\<rparr>"

definition template_cache_cleanup_locked :: "template_state \<Rightarrow> template_state" where
  "template_cache_cleanup_locked s = s\<lparr>tc_cache := []\<rparr>"

definition add_template_to_cache ::
  "world \<Rightarrow> string \<Rightarrow> string \<Rightarrow> int \<Rightarrow> template_state \<Rightarrow> bool \<times> template_state" where
  "add_template_to_cache w filename path mtime s =
     (case read_file_content w path s of
        (None, s1) \<Rightarrow> (False, s1)
      | (Some content, s1) \<Rightarrow>
          (let (realloc_ok, s2) = template_alloc s1 in
           if \<not> realloc_ok then (False, s2)
           else
             (let (strdup_ok, s3) = template_alloc s2 in
              if \<not> strdup_ok then (False, s3)
              else (True, s3\<lparr>tc_cache := tc_cache s3 @
                      [\<lparr>te_filename = filename, te_content = content,
                        te_len = length (c_str content), te_mtime = mtime\<rparr>]\<rparr>))))"

text \<open>The \<^verbatim>\<open>readdir\<close> loop; \<^const>\<open>None\<close> is its error exit, otherwise the flag \<^verbatim>\<open>loaded\<close>.\<close>

fun reload_entries ::
  "world \<Rightarrow> string \<Rightarrow> string list \<Rightarrow> bool \<Rightarrow> template_state \<Rightarrow> bool option \<times> template_state" where
  "reload_entries w dir [] loaded s = (Some loaded, s)"
| "reload_entries w dir (name # names) loaded s =
     (if name = ''.'' \<or> name = ''..'' then reload_entries w dir names loaded s
      else if PATH_MAX \<le> length (dir @ ''/'' @ name) then (None, template_cache_cleanup_locked s)
      else
        (case wd_stat w (dir @ ''/'' @ name) of
           None \<Rightarrow> reload_entries w dir names loaded s
         | Some st \<Rightarrow>
             if \<not> st_isreg st then reload_entries w dir names loaded s
             else
               (let (ok, s1) = add_template_to_cache w name (dir @ ''/'' @ name) (st_mtime st) s
                in if \<not> ok then (None, template_cache_cleanup_locked s1)
                   else reload_entries w dir names True s1)))"

definition template_cache_reload_locked :: "world \<Rightarrow> string \<Rightarrow> template_state \<Rightarrow> bool \<times> template_state" where
  "template_cache_reload_locked w dir s =
     (let s0 = template_cache_cleanup_locked s in
      case wd_readdir w dir of
        None \<Rightarrow> (False, s0)
      | Some names \<Rightarrow>
          (case reload_entries w dir names False s0 of
             (None, s1) \<Rightarrow> (False, s1)
           | (Some loaded, s1) \<Rightarrow> (loaded, s1\<lparr>tc_last_refresh := wd_time w\<rparr>)))"

definition template_cache_init :: "world \<Rightarrow> string \<Rightarrow> template_state \<Rightarrow> bool \<times> template_state" where
  "template_cache_init w dir s = template_cache_reload_locked w dir s"

definition template_cache_refresh_locked :: "world \<Rightarrow> string \<Rightarrow> template_state \<Rightarrow> bool \<times> template_state" where
  "template_cache_refresh_locked w dir s =
     (if tc_last_refresh s \<noteq> 0 \<and> wd_time w - tc_last_refresh s < TEMPLATE_CACHE_TTL_SEC then (True, s)
      else template_cache_reload_locked w dir s)"

definition read_template_file ::
  "world \<Rightarrow> string \<Rightarrow> string \<Rightarrow> template_state \<Rightarrow> string option \<times> template_state" where
  "read_template_file w dir filename s =
     (let (ok, s1) = template_cache_refresh_locked w dir s in
      if \<not> ok then (None, s1)
      else
        (case find (\<lambda>e. te_filename e = filename) (tc_cache s1) of
           None \<Rightarrow> (None, s1)
         | Some e \<Rightarrow>
             (let (strdup_ok, s2) = template_alloc s1
              in if strdup_ok then (Some (c_str (te_content e)), s2) else (None, s2))))"

definition load_template_component ::
  "world \<Rightarrow> string \<Rightarrow> string option \<Rightarrow> template_state \<Rightarrow> (bool \<times> string option) \<times> template_state" where
  "load_template_component w dir filename s =
     (case filename of
        None \<Rightarrow> ((True, None), s)
      | Some f \<Rightarrow>
          (case read_template_file w dir f s of
             (None, s1) \<Rightarrow> ((False, None), s1)
           | (Some content, s1) \<Rightarrow> ((True, Some content), s1)))"

definition replace_single :: "string \<Rightarrow> string \<Rightarrow> string \<Rightarrow> template_state \<Rightarrow> string option \<times> template_state" where
  "replace_single str needle val s =
     (let (ok, s1) = template_alloc s in
      case strstr str needle of
        None \<Rightarrow> (if ok then Some str else None, s1)
      | Some pos \<Rightarrow>
          (if ok then Some (take pos str @ val @ drop (pos + length needle) str) else None, s1))"

fun replace_pairs ::
  "string \<Rightarrow> (string \<times> string option) list \<Rightarrow> template_state \<Rightarrow> string option \<times> template_state" where
  "replace_pairs result [] s = (Some result, s)"
| "replace_pairs result ((needle, val) # pairs) s =
     (case replace_single result needle (case val of Some v \<Rightarrow> v | None \<Rightarrow> []) s of
        (None, s1) \<Rightarrow> (None, s1)
      | (Some next, s1) \<Rightarrow> replace_pairs next pairs s1)"

definition replace_placeholders ::
  "string \<Rightarrow> (string \<times> string option) list \<Rightarrow> template_state \<Rightarrow> string option \<times> template_state" where
  "replace_placeholders template_str pairs s =
     (let (ok, s1) = template_alloc s in if \<not> ok then (None, s1) else replace_pairs template_str pairs s1)"

definition replace_all ::
  "string \<Rightarrow> string option \<Rightarrow> string option \<Rightarrow> string option \<Rightarrow> string option \<Rightarrow> template_state \<Rightarrow>
    string option \<times> template_state" where
  "replace_all template_str title page_content extra_head extra_js s =
     replace_placeholders template_str
       [(''{{title}}'', title), (''{{page_content}}'', page_content),
        (''{{extra_head}}'', extra_head), (''{{extra_js}}'', extra_js)] s"

text \<open>The four fragments: base, page, head and script.\<close>

definition load_layout_fragments ::
  "world \<Rightarrow> string \<Rightarrow> string \<Rightarrow> template_data \<Rightarrow> template_state \<Rightarrow>
    (string \<times> string \<times> string option \<times> string option) option \<times> template_state" where
  "load_layout_fragments w dir page data s =
     (case read_template_file w dir ''base.html'' s of
        (None, s1) \<Rightarrow> (None, s1)
      | (Some base_template, s1) \<Rightarrow>
          (case read_template_file w dir page s1 of
             (None, s2) \<Rightarrow> (None, s2)
           | (Some page_content, s2) \<Rightarrow>
               (let ((_, extra_head), s3) = load_template_component w dir (td_extra_head_file data) s2;
                    ((_, extra_js), s4) = load_template_component w dir (td_extra_js_file data) s3
                in (Some (base_template, page_content, extra_head, extra_js), s4))))"

definition compose_layout ::
  "string \<Rightarrow> string \<Rightarrow> string \<Rightarrow> string option \<Rightarrow> string option \<Rightarrow> template_state \<Rightarrow>
    string option \<times> template_state" where
  "compose_layout title base_template page_content extra_head extra_js s =
     replace_all base_template (Some title) (Some page_content)
       (Some (case extra_head of Some h \<Rightarrow> h | None \<Rightarrow> []))
       (Some (case extra_js of Some j \<Rightarrow> j | None \<Rightarrow> [])) s"

definition template_render_with_data ::
  "world \<Rightarrow> string \<Rightarrow> template_data \<Rightarrow> template_state \<Rightarrow> string option \<times> template_state" where
  "template_render_with_data w dir data s =
     (case (td_title data, td_page_content data) of
        (Some title, Some page) \<Rightarrow>
          (case load_layout_fragments w dir page data s of
             (None, s1) \<Rightarrow> (None, s1)
           | (Some (base_template, page_content, extra_head, extra_js), s1) \<Rightarrow>
               compose_layout title base_template page_content extra_head extra_js s1)
      | _ \<Rightarrow> (None, s))"

definition template_render :: "world \<Rightarrow> string \<Rightarrow> string \<Rightarrow> template_state \<Rightarrow> string option \<times> template_state" where
  "template_render w dir page s =
     template_render_with_data w dir
       \<lparr>td_title = Some ''MiniWeb'', td_page_content = Some page, td_extra_head_file = None, td_extra_js_file = None\<rparr> s"

section \<open>Filling placeholders\<close>

text \<open>
  The reference: a layout is a sequence of literal text and named holes, and filling it replaces
  every hole that has a value at once.
\<close>

datatype layout_piece = Lit string | Hole string

fun piece_text :: "layout_piece \<Rightarrow> string" where
  "piece_text (Lit s) = s"
| "piece_text (Hole n) = ''{{'' @ n @ ''}}''"

fun fill_piece :: "(string \<Rightarrow> string option) \<Rightarrow> layout_piece \<Rightarrow> layout_piece" where
  "fill_piece f (Lit s) = Lit s"
| "fill_piece f (Hole n) = (case f n of Some v \<Rightarrow> Lit v | None \<Rightarrow> Hole n)"

definition layout_text :: "layout_piece list \<Rightarrow> string" where
  "layout_text ps = concat (map piece_text ps)"

fun layout_holes :: "layout_piece list \<Rightarrow> string list" where
  "layout_holes [] = []"
| "layout_holes (Lit s # ps) = layout_holes ps"
| "layout_holes (Hole n # ps) = n # layout_holes ps"

text \<open>Text that cannot start a placeholder, alone or with what follows it.\<close>

definition plain_text :: "string \<Rightarrow> bool" where
  "plain_text s \<longleftrightarrow> \<not> sublist ''{{'' s \<and> (s = [] \<or> last s \<noteq> CHR ''{'')"

fun plain_piece :: "layout_piece \<Rightarrow> bool" where
  "plain_piece (Lit s) = plain_text s"
| "plain_piece (Hole n) = (n \<noteq> [] \<and> CHR ''{'' \<notin> set n \<and> CHR ''}'' \<notin> set n)"

lemma plain_text_Cons:
  "plain_text (c # s) \<Longrightarrow> plain_text s \<and> (c = CHR ''{'' \<longrightarrow> s \<noteq> [] \<and> hd s \<noteq> CHR ''{'')"
  by (cases s) (auto simp: plain_text_def sublist_Cons_right split: if_splits)

lemma strstr_skip_plain:
  "plain_text a \<Longrightarrow> strstr (a @ b) (''{{'' @ m) = map_option ((+) (length a)) (strstr b (''{{'' @ m))"
proof (induction a)
  case Nil
  then show ?case by (simp add: option.map_ident)
next
  case (Cons c a)
  have "\<not> prefix (''{{'' @ m) (c # a @ b)"
    using plain_text_Cons [OF Cons.prems] by (cases a) auto
  then have "strstr ((c # a) @ b) (''{{'' @ m) = map_option Suc (strstr (a @ b) (''{{'' @ m))"
    by (simp only: append_Cons strstr.simps if_False)
  then show ?case using Cons.IH plain_text_Cons [OF Cons.prems]
    by (auto simp: option.map_comp comp_def intro: option.map_cong)
qed

lemma strstr_skip_braceless:
  "CHR ''{'' \<notin> set a \<Longrightarrow> strstr (a @ b) (''{{'' @ m) = map_option ((+) (length a)) (strstr b (''{{'' @ m))"
  by (rule strstr_skip_plain) (auto simp: plain_text_def sublist_def dest: last_in_set)

lemma braceless_prefix_eq:
  "CHR ''}'' \<notin> set n \<Longrightarrow> CHR ''}'' \<notin> set m \<Longrightarrow> prefix (n @ ''}}'') (m @ ''}}'' @ b) \<Longrightarrow> n = m"
proof (induction n arbitrary: m)
  case Nil
  then show ?case by (cases m) auto
next
  case (Cons c n)
  then show ?case by (cases m) auto
qed

lemma strstr_skip_hole:
  assumes "plain_piece (Hole k)" "plain_piece (Hole n)" "k \<noteq> n"
  shows "strstr (piece_text (Hole k) @ b) (piece_text (Hole n)) =
    map_option ((+) (length (piece_text (Hole k)))) (strstr b (piece_text (Hole n)))"
proof -
  obtain c k' where k: "k = c # k'" "c \<noteq> CHR ''{''" using assms(1) by (cases k) auto
  have "\<not> prefix (n @ ''}}'') (k @ ''}}'' @ b)" using braceless_prefix_eq [of n k b] assms by auto
  moreover have "strstr (k @ ''}}'' @ b) (''{{'' @ n @ ''}}'') =
      map_option ((+) (length k + 2)) (strstr b (''{{'' @ n @ ''}}''))"
    using strstr_skip_braceless [of "k @ ''}}''" b "n @ ''}}''"] assms(1) by simp
  moreover have "prefix (CHR ''{'' # n @ ''}}'') (k @ ''}}'' @ b) = False" using k by simp
  moreover have "strstr (piece_text (Hole k) @ b) (piece_text (Hole n)) =
      (if prefix (n @ ''}}'') (k @ ''}}'' @ b) then Some 0
       else map_option Suc (if prefix (CHR ''{'' # n @ ''}}'') (k @ ''}}'' @ b) then Some 0
         else map_option Suc (strstr (k @ ''}}'' @ b) (''{{'' @ n @ ''}}''))))"
    by simp
  ultimately show ?thesis by (simp only: if_False option.map_comp) (auto simp: comp_def intro: option.map_cong)
qed

lemma strstr_layout:
  assumes "plain_piece (Hole n)" "\<And>p. p \<in> set ps \<Longrightarrow> plain_piece p"
  shows "n \<notin> set (layout_holes ps) \<Longrightarrow> strstr (layout_text ps) (piece_text (Hole n)) = None"
    and "n \<notin> set (layout_holes ps) \<Longrightarrow>
      strstr (layout_text (ps @ Hole n # qs)) (piece_text (Hole n)) = Some (length (layout_text ps))"
proof -
  have skip: "strstr (layout_text ps @ b) (piece_text (Hole n)) =
      map_option ((+) (length (layout_text ps))) (strstr b (piece_text (Hole n)))"
    if "n \<notin> set (layout_holes ps)" for b
    using assms(2) that
  proof (induction ps)
    case Nil
    then show ?case by (simp add: layout_text_def option.map_ident)
  next
    case (Cons p ps)
    then have IH: "strstr (layout_text ps @ b) (piece_text (Hole n)) =
      map_option ((+) (length (layout_text ps))) (strstr b (piece_text (Hole n)))"
      by (cases p) auto
    have "strstr (piece_text p @ layout_text ps @ b) (piece_text (Hole n)) =
        map_option ((+) (length (piece_text p))) (strstr (layout_text ps @ b) (piece_text (Hole n)))"
    proof (cases p)
      case (Lit s)
      then show ?thesis using Cons.prems(1) [of p] strstr_skip_plain [of s _ "n @ ''}}''"] by simp
    next
      case (Hole k)
      then have "plain_piece (Hole k)" "k \<noteq> n" using Cons.prems(1) [of p] Cons.prems(2) by auto
      then show ?thesis unfolding Hole by (intro strstr_skip_hole assms(1))
    qed
    with IH show ?case by (simp add: layout_text_def option.map_comp comp_def add.assoc)
  qed
  show "strstr (layout_text ps) (piece_text (Hole n)) = None" if "n \<notin> set (layout_holes ps)"
    using skip [OF that, of "[]"] by simp
  have "strstr (piece_text (Hole n) @ layout_text qs) (piece_text (Hole n)) = Some 0"
    using strstr_appendI [of "[]" "piece_text (Hole n)" "layout_text qs"] by (simp del: piece_text.simps)
  then show "strstr (layout_text (ps @ Hole n # qs)) (piece_text (Hole n)) = Some (length (layout_text ps))"
    if "n \<notin> set (layout_holes ps)"
    using skip [OF that, of "piece_text (Hole n) @ layout_text qs"] by (simp add: layout_text_def)
qed

text \<open>Without allocation failures the state does not matter for the replacement.\<close>

lemma template_alloc_Nil [simp]: "tc_allocs s = [] \<Longrightarrow> template_alloc s = (True, s)"
  by (simp add: template_alloc_def)

lemma layout_holes_append [simp]: "layout_holes (ps @ qs) = layout_holes ps @ layout_holes qs"
  by (induction ps rule: layout_holes.induct) auto

lemma layout_text_append [simp]: "layout_text (ps @ qs) = layout_text ps @ layout_text qs"
  by (simp add: layout_text_def)

lemma fill_absent: "n \<notin> set (layout_holes ps) \<Longrightarrow> map (fill_piece [n \<mapsto> v]) ps = ps"
  by (induction ps rule: layout_holes.induct) auto

lemma replace_single_layout:
  assumes "plain_piece (Hole n)" "\<And>p. p \<in> set ps \<Longrightarrow> plain_piece p" "distinct (layout_holes ps)" "tc_allocs s = []"
  shows "replace_single (layout_text ps) (piece_text (Hole n)) v s = (Some (layout_text (map (fill_piece [n \<mapsto> v]) ps)), s)"
proof (cases "n \<in> set (layout_holes ps)")
  case False
  then show ?thesis
    using strstr_layout(1) [OF assms(1,2) False] assms(4)
    by (simp add: replace_single_def fill_absent del: piece_text.simps)
next
  case True
  then have "Hole n \<in> set ps" by (induction ps rule: layout_holes.induct) auto
  then obtain xs ys where ps: "ps = xs @ Hole n # ys" by (auto simp: in_set_conv_decomp)
  have n: "n \<notin> set (layout_holes xs)" "n \<notin> set (layout_holes ys)" using assms(3) ps by auto
  have "strstr (layout_text ps) (piece_text (Hole n)) = Some (length (layout_text xs))"
    using strstr_layout(2) [OF assms(1) _ n(1)] assms(2) ps by auto
  moreover have "layout_text ps = layout_text xs @ piece_text (Hole n) @ layout_text ys"
    by (simp add: ps layout_text_def)
  ultimately show ?thesis
    using assms(4) n by (simp add: replace_single_def ps fill_absent del: piece_text.simps)
      (simp add: layout_text_def)
qed

lemma fill_keeps_plain:
  "plain_piece p \<Longrightarrow> plain_text v \<Longrightarrow> plain_piece (fill_piece [n \<mapsto> v] p)"
  by (cases p) auto

lemma layout_holes_fill: "layout_holes (map (fill_piece [n \<mapsto> v]) ps) = filter (\<lambda>m. m \<noteq> n) (layout_holes ps)"
  by (induction ps rule: layout_holes.induct) auto

lemma fill_fill: "n \<notin> dom f \<Longrightarrow> fill_piece f (fill_piece [n \<mapsto> v] p) = fill_piece (f(n \<mapsto> v)) p"
  by (cases p) (auto split: option.splits)

lemma replace_pairs_layout:
  assumes "\<And>n v. (n, v) \<in> set vs \<Longrightarrow> plain_piece (Hole n) \<and> plain_text v" "distinct (map fst vs)"
    and "\<And>p. p \<in> set ps \<Longrightarrow> plain_piece p" "distinct (layout_holes ps)" "tc_allocs s = []"
  shows "replace_pairs (layout_text ps) (map (\<lambda>(n, v). (piece_text (Hole n), Some v)) vs) s =
    (Some (layout_text (map (fill_piece (map_of vs)) ps)), s)"
  using assms
proof (induction vs arbitrary: ps)
  case Nil
  have "fill_piece (map_of []) p = p" for p by (cases p) auto
  then show ?case by simp
next
  case (Cons nv vs)
  obtain n v where nv: "nv = (n, v)" by fastforce
  let ?ps = "map (fill_piece [n \<mapsto> v]) ps"
  have n: "plain_piece (Hole n)" "plain_text v" using Cons.prems(1) [of n v] nv by auto
  have dom: "n \<notin> dom (map_of vs)" using Cons.prems(2) nv by (simp add: dom_map_of_conv_image_fst)
  have "replace_pairs (layout_text ?ps) (map (\<lambda>(n, v). (piece_text (Hole n), Some v)) vs) s =
      (Some (layout_text (map (fill_piece (map_of vs)) ?ps)), s)"
  proof (rule Cons.IH)
    show "plain_piece p" if "p \<in> set ?ps" for p
      using that Cons.prems(3) n by (auto intro: fill_keeps_plain)
    show "distinct (layout_holes ?ps)" using Cons.prems(4) by (simp add: layout_holes_fill)
  qed (use Cons.prems in auto)
  moreover have "map (fill_piece (map_of vs)) ?ps = map (fill_piece (map_of (nv # vs))) ps"
    using fill_fill [OF dom] by (simp add: nv)
  moreover have "replace_single (layout_text ps) (piece_text (Hole n)) v s = (Some (layout_text ?ps), s)"
    by (rule replace_single_layout [OF n(1) Cons.prems(3-5)])
  ultimately show ?case by (simp only: nv list.map prod.case replace_pairs.simps option.case)
qed

text \<open>Filling the four placeholders of the engine, as one simultaneous substitution.\<close>

definition layout_values :: "string \<Rightarrow> string \<Rightarrow> string \<Rightarrow> string \<Rightarrow> (string \<times> string) list" where
  "layout_values title page head js =
     [(''title'', title), (''page_content'', page), (''extra_head'', head), (''extra_js'', js)]"

lemma replace_all_layout:
  assumes "\<forall>p \<in> set ps. plain_piece p" "distinct (layout_holes ps)" "tc_allocs s = []"
    and "plain_text title" "plain_text page" "plain_text head" "plain_text js"
  shows "replace_all (layout_text ps) (Some title) (Some page) (Some head) (Some js) s =
    (Some (layout_text (map (fill_piece (map_of (layout_values title page head js))) ps)), s)"
proof -
  have "replace_pairs (layout_text ps)
      (map (\<lambda>(n, v). (piece_text (Hole n), Some v)) (layout_values title page head js)) s =
      (Some (layout_text (map (fill_piece (map_of (layout_values title page head js))) ps)), s)"
    using assms by (intro replace_pairs_layout) (auto simp: layout_values_def)
  then show ?thesis using assms(3) by (simp add: replace_all_def replace_placeholders_def layout_values_def)
qed

section \<open>The cache as a snapshot of the directory\<close>

text \<open>The template files of a directory, and what one of them contains.\<close>

definition template_file :: "world \<Rightarrow> string \<Rightarrow> string \<Rightarrow> bool" where
  "template_file w dir n \<longleftrightarrow> n \<noteq> ''.'' \<and> n \<noteq> ''..'' \<and>
     (case wd_stat w (dir @ ''/'' @ n) of None \<Rightarrow> False | Some st \<Rightarrow> st_isreg st)"

definition template_names :: "world \<Rightarrow> string \<Rightarrow> string list" where
  "template_names w dir =
     filter (template_file w dir)
       (case wd_readdir w dir of None \<Rightarrow> [] | Some names \<Rightarrow> names)"

definition stream_bytes :: "file_stream \<Rightarrow> bytes" where
  "stream_bytes f = take (nat (fl_tell f)) (fl_data f)"

definition template_text :: "world \<Rightarrow> string \<Rightarrow> string \<Rightarrow> string option" where
  "template_text w dir name =
     (if name \<in> set (template_names w dir)
      then map_option (\<lambda>f. c_str (stream_bytes f)) (wd_fopen w (dir @ ''/'' @ name)) else None)"

text \<open>A page as the files of one moment define it.\<close>

definition render_spec :: "world \<Rightarrow> string \<Rightarrow> template_data \<Rightarrow> string option" where
  "render_spec w dir data =
     (case (td_title data, td_page_content data) of
        (Some title, Some page) \<Rightarrow>
          (case (template_text w dir ''base.html'', template_text w dir page) of
             (Some base, Some body) \<Rightarrow>
               fst (compose_layout title base body (Option.bind (td_extra_head_file data) (template_text w dir))
                  (Option.bind (td_extra_js_file data) (template_text w dir)) template_initial)
           | _ \<Rightarrow> None)
      | _ \<Rightarrow> None)"

definition snapshot_of :: "world \<Rightarrow> string \<Rightarrow> template_entry list \<Rightarrow> bool" where
  "snapshot_of w dir es \<longleftrightarrow>
     (\<forall>name. map_option (\<lambda>e. c_str (te_content e)) (find (\<lambda>e. te_filename e = name) es) = template_text w dir name)"

lemma add_template_Nil:
  assumes "add_template_to_cache w name path mtime s = (ok, s')" "tc_allocs s = []"
  shows "tc_allocs s' = []" "tc_last_refresh s' = tc_last_refresh s"
    "ok \<Longrightarrow> \<exists>f len. wd_fopen w path = Some f \<and> tc_cache s' = tc_cache s @
       [\<lparr>te_filename = name, te_content = stream_bytes f, te_len = len, te_mtime = mtime\<rparr>]"
  using assms
  by (auto simp: add_template_to_cache_def read_file_content_def stream_bytes_def min_def
      split: option.splits if_splits)

text \<open>What the loop adds: an entry for each regular file, read in the given world.\<close>

definition loaded_from :: "world \<Rightarrow> string \<Rightarrow> string list \<Rightarrow> template_entry list \<Rightarrow> bool" where
  "loaded_from w dir names es \<longleftrightarrow> map te_filename es = filter (template_file w dir) names \<and>
     (\<forall>e \<in> set es. \<exists>f. wd_fopen w (dir @ ''/'' @ te_filename e) = Some f \<and> te_content e = stream_bytes f)"

lemma loaded_from_skip: "\<not> template_file w dir n \<Longrightarrow> loaded_from w dir (n # names) es \<longleftrightarrow> loaded_from w dir names es"
  by (simp add: loaded_from_def)

lemma loaded_from_Cons:
  "template_file w dir n \<Longrightarrow> wd_fopen w (dir @ ''/'' @ n) = Some f \<Longrightarrow> te_filename e = n \<Longrightarrow> te_content e = stream_bytes f \<Longrightarrow>
    loaded_from w dir names es \<Longrightarrow> loaded_from w dir (n # names) (e # es)"
  by (simp add: loaded_from_def)

definition reload_post ::
  "world \<Rightarrow> string \<Rightarrow> string list \<Rightarrow> template_state \<Rightarrow> bool option \<Rightarrow> template_state \<Rightarrow> bool" where
  "reload_post w dir names s r s' \<longleftrightarrow> tc_allocs s' = [] \<and> tc_last_refresh s' = tc_last_refresh s \<and>
     (case r of None \<Rightarrow> tc_cache s' = []
      | Some l \<Rightarrow> \<exists>es. tc_cache s' = tc_cache s @ es \<and> loaded_from w dir names es)"

lemma reload_post_skip:
  "\<not> template_file w dir n \<Longrightarrow> reload_post w dir names s r s' \<Longrightarrow> reload_post w dir (n # names) s r s'"
  by (simp add: reload_post_def loaded_from_skip cong: option.case_cong)

lemma reload_entries_post:
  "reload_entries w dir names loaded s = (r, s') \<Longrightarrow> tc_allocs s = [] \<Longrightarrow> reload_post w dir names s r s'"
proof (induction w dir names loaded s arbitrary: r s' rule: reload_entries.induct)
  case (1 w dir loaded s)
  then show ?case by (auto simp: reload_post_def loaded_from_def)
next
  case (2 w dir name names loaded s)
  let ?p = "dir @ ''/'' @ name"
  consider (skip) "\<not> template_file w dir name" "reload_entries w dir names loaded s = (r, s')"
    "reload_post w dir names s r s'"
    | (fail) "r = None" "s' = template_cache_cleanup_locked s"
    | (reg) st where "template_file w dir name" "wd_stat w ?p = Some st" "PATH_MAX > length ?p" "st_isreg st"
    using "2.IH"(1-3) "2.prems"
    by (auto simp: template_file_def not_le split: if_splits option.splits)
  then show ?case
  proof cases
    case skip
    then show ?thesis by (auto intro: reload_post_skip)
  next
    case fail
    then show ?thesis using "2.prems"(2) by (simp add: reload_post_def template_cache_cleanup_locked_def)
  next
    case (reg st)
    have dots: "\<not> (name = ''.'' \<or> name = ''..'')" using reg(1) by (simp add: template_file_def)
    obtain ok s1 where add: "add_template_to_cache w name ?p (st_mtime st) s = (ok, s1)" by fastforce
    note A = add_template_Nil [OF add "2.prems"(2)]
    show ?thesis
    proof (cases ok)
      case False
      then have "r = None" "s' = template_cache_cleanup_locked s1"
        using "2.prems"(1) dots reg add by (auto simp: not_le split: if_splits)
      then show ?thesis using A by (simp add: reload_post_def template_cache_cleanup_locked_def)
    next
      case True
      then have "reload_entries w dir names True s1 = (r, s')"
        using "2.prems"(1) dots reg add by (auto simp: not_le split: if_splits)
      then have post: "reload_post w dir names s1 r s'"
        using "2.IH"(4) [OF dots _ reg(2)] reg add True A(1) by (auto simp: not_le)
      obtain f len where "wd_fopen w ?p = Some f" "tc_cache s1 = tc_cache s @
          [\<lparr>te_filename = name, te_content = stream_bytes f, te_len = len, te_mtime = st_mtime st\<rparr>]"
        using A(3) True by blast
      then show ?thesis
        using post A(2) loaded_from_Cons [OF reg(1)] by (fastforce simp: reload_post_def split: option.splits)
    qed
  qed
qed

lemma find_loaded:
  assumes "loaded_from w dir names es"
  shows "map_option (\<lambda>e. c_str (te_content e)) (find (\<lambda>e. te_filename e = name) es) =
    (if name \<in> set (filter (template_file w dir) names)
     then map_option (\<lambda>f. c_str (stream_bytes f)) (wd_fopen w (dir @ ''/'' @ name)) else None)"
proof -
  have names: "te_filename ` set es = set (filter (template_file w dir) names)"
    using assms by (metis list.set_map loaded_from_def)
  show ?thesis
  proof (cases "find (\<lambda>e. te_filename e = name) es")
    case None
    then have "name \<notin> te_filename ` set es" by (auto simp: find_None_iff)
    then show ?thesis using None names by auto
  next
    case (Some e)
    then have e: "e \<in> set es" "te_filename e = name" by (auto simp: find_Some_iff)
    then have "name \<in> set (filter (template_file w dir) names)" using names by blast
    then show ?thesis using assms e Some by (auto simp: loaded_from_def)
  qed
qed

lemma reload_snapshot:
  assumes "template_cache_reload_locked w dir s = (ok, s')" "tc_allocs s = []"
  shows "tc_allocs s' = []" "tc_cache s' = [] \<or> snapshot_of w dir (tc_cache s') \<and> tc_last_refresh s' = wd_time w"
    "ok \<Longrightarrow> snapshot_of w dir (tc_cache s') \<and> tc_last_refresh s' = wd_time w"
proof -
  have "tc_allocs s' = [] \<and> (if ok then snapshot_of w dir (tc_cache s') \<and> tc_last_refresh s' = wd_time w
      else tc_cache s' = [] \<or> snapshot_of w dir (tc_cache s') \<and> tc_last_refresh s' = wd_time w)"
  proof (cases "wd_readdir w dir")
    case None
    then show ?thesis using assms by (auto simp: template_cache_reload_locked_def template_cache_cleanup_locked_def)
  next
    case (Some names)
    obtain r s1 where r: "reload_entries w dir names False (template_cache_cleanup_locked s) = (r, s1)" by fastforce
    have post: "reload_post w dir names (template_cache_cleanup_locked s) r s1"
      using reload_entries_post [OF r] assms(2) by (simp add: template_cache_cleanup_locked_def)
    show ?thesis
    proof (cases r)
      case None
      then show ?thesis using post assms Some r
        by (auto simp: template_cache_reload_locked_def reload_post_def)
    next
      case (Some l)
      then have ld: "loaded_from w dir names (tc_cache s1)"
        using post by (auto simp: reload_post_def template_cache_cleanup_locked_def)
      have "snapshot_of w dir (tc_cache s1)"
        using find_loaded [OF ld] \<open>wd_readdir w dir = Some names\<close>
        by (simp add: snapshot_of_def template_text_def template_names_def template_file_def cong: conj_cong)
      then show ?thesis using assms post Some r \<open>wd_readdir w dir = Some names\<close>
        by (auto simp: template_cache_reload_locked_def reload_post_def)
    qed
  qed
  then show "tc_allocs s' = []" "tc_cache s' = [] \<or> snapshot_of w dir (tc_cache s') \<and> tc_last_refresh s' = wd_time w"
    "ok \<Longrightarrow> snapshot_of w dir (tc_cache s') \<and> tc_last_refresh s' = wd_time w"
    by (auto split: if_splits)
qed

text \<open>The cache is empty or the snapshot of a past moment, at which it was refreshed.\<close>

definition cache_from :: "string \<Rightarrow> world set \<Rightarrow> template_state \<Rightarrow> bool" where
  "cache_from dir W s \<longleftrightarrow> tc_allocs s = [] \<and>
     (tc_cache s = [] \<or> (\<exists>u \<in> W. snapshot_of u dir (tc_cache s) \<and> tc_last_refresh s = wd_time u))"

lemma cache_from_mono: "cache_from dir W s \<Longrightarrow> W \<subseteq> V \<Longrightarrow> cache_from dir V s"
  by (auto simp: cache_from_def)

lemma cache_from_reload:
  "cache_from dir W s \<Longrightarrow> template_cache_reload_locked w dir s = (ok, s') \<Longrightarrow> cache_from dir (insert w W) s'"
  using reload_snapshot [of w dir s ok s'] by (auto simp: cache_from_def)

lemma cache_from_refresh:
  "cache_from dir W s \<Longrightarrow> template_cache_refresh_locked w dir s = (ok, s') \<Longrightarrow> cache_from dir (insert w W) s'"
  using cache_from_reload [of dir W s w ok s'] cache_from_mono [of dir W s "insert w W"]
  by (auto simp: template_cache_refresh_locked_def split: if_splits)

text \<open>A second refresh at the same moment changes nothing.\<close>

lemma refresh_True:
  assumes "cache_from dir W s" "template_cache_refresh_locked w dir s = (True, s')" "wd_time w \<noteq> 0"
  shows "tc_allocs s' = []" "template_cache_refresh_locked w dir s' = (True, s')"
    "tc_cache s' = [] \<or> (\<exists>u \<in> insert w W. wd_time w - wd_time u < TEMPLATE_CACHE_TTL_SEC \<and> snapshot_of u dir (tc_cache s'))"
proof -
  have al: "tc_allocs s = []" using assms(1) by (simp add: cache_from_def)
  show "tc_allocs s' = []" using cache_from_refresh [OF assms(1,2)] by (simp add: cache_from_def)
  have "template_cache_reload_locked w dir s = (True, s') \<or>
      s' = s \<and> tc_last_refresh s \<noteq> 0 \<and> wd_time w - tc_last_refresh s < TEMPLATE_CACHE_TTL_SEC"
    using assms(2) by (auto simp: template_cache_refresh_locked_def split: if_splits)
  then show "template_cache_refresh_locked w dir s' = (True, s')"
    "tc_cache s' = [] \<or> (\<exists>u \<in> insert w W. wd_time w - wd_time u < TEMPLATE_CACHE_TTL_SEC \<and> snapshot_of u dir (tc_cache s'))"
    using reload_snapshot(3) [of w dir s True s'] al assms
    by (auto simp: template_cache_refresh_locked_def TEMPLATE_CACHE_TTL_SEC_def cache_from_def)
qed

lemma read_template_settled:
  assumes "template_cache_refresh_locked w dir s = (True, s)" "tc_allocs s = []" "snapshot_of u dir (tc_cache s)"
  shows "read_template_file w dir f s = (template_text u dir f, s)"
proof -
  have "map_option (\<lambda>e. c_str (te_content e)) (find (\<lambda>e. te_filename e = f) (tc_cache s)) = template_text u dir f"
    using assms(3) by (simp add: snapshot_of_def)
  then show ?thesis using assms(1,2) by (auto simp: read_template_file_def split: option.splits)
qed

lemma load_component_settled:
  assumes "template_cache_refresh_locked w dir s = (True, s)" "tc_allocs s = []" "snapshot_of u dir (tc_cache s)"
  shows "\<exists>b. load_template_component w dir f s = ((b, Option.bind f (template_text u dir)), s)"
  using read_template_settled [OF assms] by (cases f) (auto simp: load_template_component_def split: option.splits)

lemma read_template_first:
  assumes "read_template_file w dir f s = (Some c, s1)" "cache_from dir W s" "wd_time w \<noteq> 0"
  shows "template_cache_refresh_locked w dir s1 = (True, s1) \<and> tc_allocs s1 = [] \<and>
    (\<exists>u \<in> insert w W. wd_time w - wd_time u < TEMPLATE_CACHE_TTL_SEC \<and> snapshot_of u dir (tc_cache s1) \<and>
       template_text u dir f = Some c)"
proof -
  obtain ok s' where ref: "template_cache_refresh_locked w dir s = (ok, s')" by fastforce
  have ok: "ok" using assms(1) ref by (auto simp: read_template_file_def split: if_splits)
  note R = refresh_True [OF assms(2) ref [unfolded ok [THEN eqTrueI]] assms(3)]
  obtain e where e: "find (\<lambda>e. te_filename e = f) (tc_cache s') = Some e" "c = c_str (te_content e)" "s1 = s'"
    using assms(1) ref ok R(1) by (auto simp: read_template_file_def split: option.splits)
  then obtain u where u: "u \<in> insert w W" "wd_time w - wd_time u < TEMPLATE_CACHE_TTL_SEC" "snapshot_of u dir (tc_cache s')"
    using R(3) by fastforce
  moreover have "template_text u dir f = Some c" using u(3) e unfolding snapshot_of_def by (metis option.simps(9))
  ultimately show ?thesis using R(1,2) e(3) by blast
qed

lemma replace_single_pure:
  "tc_allocs s = [] \<Longrightarrow> \<exists>r. \<forall>t. tc_allocs t = [] \<longrightarrow> replace_single a n v t = (Some r, t)"
  by (cases "strstr a n") (auto simp: replace_single_def)

lemma replace_pairs_pure:
  "tc_allocs s = [] \<Longrightarrow> replace_pairs a ps s = (fst (replace_pairs a ps template_initial), s)"
proof (induction a ps s rule: replace_pairs.induct)
  case (2 a n v ps s)
  let ?v = "case v of Some v \<Rightarrow> v | None \<Rightarrow> []"
  obtain r where r: "\<And>t. tc_allocs t = [] \<Longrightarrow> replace_single a n ?v t = (Some r, t)"
    using replace_single_pure [OF "2.prems"] by blast
  have init: "tc_allocs template_initial = []" by (simp add: template_initial_def)
  have "replace_pairs r ps s = (fst (replace_pairs r ps template_initial), s)"
    using "2.IH" [OF r [OF "2.prems", symmetric] refl "2.prems"] .
  then show ?case by (simp add: r [OF "2.prems"] r [OF init])
qed simp

lemma compose_layout_pure:
  "tc_allocs s = [] \<Longrightarrow> compose_layout t b p h j s = (fst (compose_layout t b p h j template_initial), s)"
  using replace_pairs_pure [of s]
  by (simp add: compose_layout_def replace_all_def replace_placeholders_def del: replace_pairs.simps)
    (simp add: template_initial_def)

lemma render_from:
  assumes "cache_from dir W s" "wd_time w \<noteq> 0" "fst (template_render_with_data w dir data s) = Some html"
  shows "\<exists>u \<in> insert w W. wd_time w - wd_time u < TEMPLATE_CACHE_TTL_SEC \<and> render_spec u dir data = Some html"
proof -
  obtain title page where d: "td_title data = Some title" "td_page_content data = Some page"
    using assms(3) by (auto simp: template_render_with_data_def split: option.splits)
  obtain base s1 where base: "read_template_file w dir ''base.html'' s = (Some base, s1)"
    using assms(3) d by (auto simp: template_render_with_data_def load_layout_fragments_def split: option.splits prod.splits)
  obtain u where u: "u \<in> insert w W" "wd_time w - wd_time u < TEMPLATE_CACHE_TTL_SEC"
    "template_text u dir ''base.html'' = Some base"
    and st: "template_cache_refresh_locked w dir s1 = (True, s1)" "tc_allocs s1 = []" "snapshot_of u dir (tc_cache s1)"
    using read_template_first [OF base assms(1,2)] by blast
  note settled = read_template_settled [OF st] load_component_settled [OF st]
  obtain body where body: "template_text u dir page = Some body"
    using assms(3) d base settled(1)
    by (auto simp: template_render_with_data_def load_layout_fragments_def split: option.splits prod.splits)
  obtain b1 b2 where "load_template_component w dir (td_extra_head_file data) s1 =
      ((b1, Option.bind (td_extra_head_file data) (template_text u dir)), s1)"
    "load_template_component w dir (td_extra_js_file data) s1 =
      ((b2, Option.bind (td_extra_js_file data) (template_text u dir)), s1)"
    using settled(2) by blast
  then have "render_spec u dir data = Some html"
    using assms(3) d base settled(1) body u(3) compose_layout_pure [OF st(2)]
    by (simp add: template_render_with_data_def load_layout_fragments_def render_spec_def)
  then show ?thesis using u by blast
qed

subsection \<open>Histories\<close>

datatype template_call = Init_call world | Render_call world template_data | Cleanup_call

fun template_step :: "string \<Rightarrow> template_state \<Rightarrow> template_call \<Rightarrow> template_state" where
  "template_step dir s (Init_call w) = snd (template_cache_init w dir s)"
| "template_step dir s (Render_call w data) = snd (template_render_with_data w dir data s)"
| "template_step dir s Cleanup_call = template_cache_cleanup s"

fun call_world :: "template_call \<Rightarrow> world option" where
  "call_world (Init_call w) = Some w"
| "call_world (Render_call w data) = Some w"
| "call_world Cleanup_call = None"

lemma cache_from_read:
  "cache_from dir W s \<Longrightarrow> cache_from dir (insert w W) (snd (read_template_file w dir f s))"
proof -
  assume s: "cache_from dir W s"
  obtain ok s' where "template_cache_refresh_locked w dir s = (ok, s')" by fastforce
  then show ?thesis using cache_from_refresh [OF s]
    by (auto simp: read_template_file_def cache_from_def split: option.splits)
qed

lemma cache_from_component:
  "cache_from dir W s \<Longrightarrow> cache_from dir (insert w W) (snd (load_template_component w dir f s))"
  using cache_from_read [of dir W s w] cache_from_mono [of dir W s "insert w W"]
  by (auto simp: load_template_component_def split: option.splits prod.splits) (metis snd_conv)+

lemma cache_from_fragments:
  assumes "cache_from dir W s"
  shows "cache_from dir (insert w W) (snd (load_layout_fragments w dir page data s))"
proof -
  note twice = insert_absorb2
  show ?thesis
    using cache_from_read [OF assms, of w "''base.html''"]
      cache_from_read [of dir "insert w W" _ w page, unfolded twice]
      cache_from_component [of dir "insert w W" _ w, unfolded twice]
    by (auto simp: load_layout_fragments_def split: option.splits prod.splits) (metis snd_conv)+
qed

lemma cache_from_render:
  assumes "cache_from dir W s"
  shows "cache_from dir (insert w W) (snd (template_render_with_data w dir data s))"
proof (cases "td_title data = None \<or> td_page_content data = None")
  case True
  then show ?thesis using cache_from_mono [OF assms]
    by (auto simp: template_render_with_data_def split: option.splits)
next
  case False
  then obtain title page where d: "td_title data = Some title" "td_page_content data = Some page" by auto
  obtain r s1 where r: "load_layout_fragments w dir page data s = (r, s1)" by fastforce
  have s1: "cache_from dir (insert w W) s1" using cache_from_fragments [OF assms, of w page data] r by simp
  then have "tc_allocs s1 = []" by (simp add: cache_from_def)
  then show ?thesis using d r s1 compose_layout_pure [of s1]
    by (auto simp: template_render_with_data_def split: option.splits)
qed

lemma cache_from_run:
  "cache_from dir W s \<Longrightarrow>
    cache_from dir (W \<union> {w. Some w \<in> call_world ` set calls}) (foldl (template_step dir) s calls)"
proof (induction calls arbitrary: W s)
  case Nil
  then show ?case by simp
next
  case (Cons c calls)
  let ?W = "W \<union> {w. Some w = call_world c}"
  have "cache_from dir ?W (template_step dir s c)"
  proof (cases c)
    case (Init_call w)
    obtain ok s' where "template_cache_reload_locked w dir s = (ok, s')" by fastforce
    then show ?thesis using Init_call cache_from_reload [OF Cons.prems] by (simp add: template_cache_init_def Un_commute)
  next
    case (Render_call w data)
    then show ?thesis using cache_from_render [OF Cons.prems, of w data] by (simp add: Un_commute)
  next
    case Cleanup_call
    then show ?thesis using Cons.prems by (simp add: cache_from_def template_cache_cleanup_def)
  qed
  then have "cache_from dir (?W \<union> {w. Some w \<in> call_world ` set calls}) (foldl (template_step dir) s (c # calls))"
    using Cons.IH by simp
  moreover have "?W \<union> {w. Some w \<in> call_world ` set calls} = W \<union> {w. Some w \<in> call_world ` set (c # calls)}"
    by auto
  ultimately show ?case by simp
qed

subsection \<open>A sample directory\<close>

text \<open>
  Two templates, whose page says what time it is; the layout has two of the placeholders.
\<close>

definition sample_stream :: "bytes \<Rightarrow> file_stream" where
  "sample_stream bs =
     \<lparr>fl_seek_end_ok = True, fl_tell = int (length bs), fl_seek_set_ok = True, fl_data = bs, fl_error = False\<rparr>"

definition sample_world :: "nat \<Rightarrow> world" where
  "sample_world t =
     \<lparr>wd_time = int t,
      wd_readdir = (\<lambda>d. if d = ''t'' then Some [''.'', ''base.html'', ''p''] else None),
      wd_stat = (\<lambda>_. Some \<lparr>st_size = 0, st_mtime = 7, st_isdir = False, st_isreg = True\<rparr>),
      wd_fopen = (\<lambda>p. if p = ''t/base.html'' then Some (sample_stream ''<b>{{title}}</b>{{page_content}}'')
                       else if p = ''t/p'' then Some (sample_stream (if t < 130 then ''old'' else ''new'')) else None)\<rparr>"

definition sample_page :: template_data where
  "sample_page = \<lparr>td_title = Some ''T'', td_page_content = Some ''p'', td_extra_head_file = None, td_extra_js_file = None\<rparr>"

lemma sample_render:
  "fst (template_render_with_data (sample_world 130) ''t'' sample_page
     (foldl (template_step ''t'') template_initial [Init_call (sample_world 100)])) = Some ''<b>T</b>old''"
  by code_simp

section \<open>Properties\<close>



text \<open>
  \<open>replace_all\<close> fills a layout: when the layout is text with holes, every placeholder at most
  once, and neither the text nor the values can start a placeholder, then the four sequential
  replacements are the simultaneous substitution of the four values, and everything else is kept.
\<close>

theorem replace_all_fills:
  assumes "\<forall>p \<in> set ps. plain_piece p" "distinct (layout_holes ps)" "tc_allocs s = []"
    and "plain_text title" "plain_text page" "plain_text head" "plain_text js"
  shows "fst (replace_all (layout_text ps) (Some title) (Some page) (Some head) (Some js) s) =
    Some (layout_text (map (fill_piece [''title'' \<mapsto> title, ''page_content'' \<mapsto> page, ''extra_head'' \<mapsto> head,
      ''extra_js'' \<mapsto> js]) ps))"
proof -
  have "map_of (layout_values title page head js) =
      [''title'' \<mapsto> title, ''page_content'' \<mapsto> page, ''extra_head'' \<mapsto> head, ''extra_js'' \<mapsto> js]"
    by (rule ext) (simp add: layout_values_def)
  then show ?thesis using replace_all_layout [OF assms] by simp
qed

theorem replace_all_fills_witness:
  "fst (replace_all (layout_text [Lit ''<a>{}'', Hole ''title'', Hole ''extra_js'', Lit ''b'', Hole ''page_content''])
      (Some ''T'') (Some ''P { }'') (Some ''H'') (Some ''J'') template_initial) =
    Some (layout_text (map (fill_piece [''title'' \<mapsto> ''T'', ''page_content'' \<mapsto> ''P { }'', ''extra_head'' \<mapsto> ''H'',
      ''extra_js'' \<mapsto> ''J'']) [Lit ''<a>{}'', Hole ''title'', Hole ''extra_js'', Lit ''b'', Hole ''page_content'']))"
  by (rule replace_all_fills)
    (auto simp: plain_text_def template_initial_def sublist_Cons_right)

end
