(* ===== verification/Static_Files.thy ===== *)
theory Static_Files
  imports Http_Response Http_Utils File_Cache
begin

text \<open>
  Serving files: \<^verbatim>\<open>src/http/response_file.c\<close> and the static, favicon and directory-index handlers
  of \<^verbatim>\<open>src/router/route_table.c\<close>.

  The file system is a parameter (\<open>site_env\<close>): what \<^verbatim>\<open>open\<close>, \<^verbatim>\<open>fstat\<close>, \<^verbatim>\<open>stat\<close>, \<^verbatim>\<open>access\<close>, \<^verbatim>\<open>opendir\<close>
  and \<^verbatim>\<open>readdir\<close> answer, with one list of outcomes for the \<^verbatim>\<open>read\<close> calls on an opened file. A result
  \<open>None\<close> means that a list of outcomes ended while the code was still reading or writing. The
  state is the HTTP context with the shards of the file cache; a handler also returns the
  \<^verbatim>\<open>keep_alive\<close> flag of the request, which streaming clears.
\<close>

section \<open>Model\<close>

text \<open>
  \<open>Read_ready k\<close>: the call delivers up to \<open>k\<close> bytes of what is left, at most as many as asked for,
  and 0 at the end of the file.
\<close>

datatype read_outcome = Read_ready nat | Read_EINTR | Read_error

record open_file =
  of_stat :: "file_stat option"
  of_content :: bytes
  of_reads :: "read_outcome list"
  of_lookup_alloc :: bool
  of_body_alloc :: bool
  of_store_alloc :: bool

record site_env =
  sn_world :: world
  sn_open :: "string \<Rightarrow> open_file option"
  sn_access :: "string \<Rightarrow> bool"
  sn_allocs :: "bool list"

record site_ctx =
  sx_http :: http_ctx
  sx_shards :: "file_cache_shard_t list"

type_synonym site_result = "(int \<times> bool \<times> site_ctx) option"

definition site_error :: "http_request_t \<Rightarrow> int \<Rightarrow> string \<Rightarrow> site_ctx \<Rightarrow> site_result" where
  "site_error req code msg cx =
     map_option (\<lambda>(rc, hc). (rc, req_keep_alive req, cx\<lparr>sx_http := hc\<rparr>)) (http_send_error req code (Some msg) (sx_http cx))"

definition site_send :: "http_request_t \<Rightarrow> http_response_t \<Rightarrow> site_ctx \<Rightarrow> site_result" where
  "site_send req resp cx =
     map_option (\<lambda>(rc, hc). (rc, req_keep_alive req, cx\<lparr>sx_http := hc\<rparr>)) (send_and_free req resp (sx_http cx))"

definition site_create :: "site_ctx \<Rightarrow> http_response_t option \<times> site_ctx" where
  "site_create cx =
     (let hc = sx_http cx; (r, pools) = http_response_create (hc_tid hc) (hc_calloc_ok hc) (hc_pools hc)
      in (r, cx\<lparr>sx_http := hc\<lparr>hc_pools := pools\<rparr>\<rparr>))"

definition site_free :: "http_response_t \<Rightarrow> site_ctx \<Rightarrow> site_ctx" where
  "site_free resp cx =
     cx\<lparr>sx_http := (sx_http cx)\<lparr>hc_pools := http_response_free (Some resp) (hc_pools (sx_http cx))\<rparr>\<rparr>"

text \<open>The loop of \<^verbatim>\<open>read_entire_file\<close>: the bytes read so far, and what is left of the file.\<close>

fun read_entire_loop :: "nat \<Rightarrow> bytes \<Rightarrow> bytes \<Rightarrow> read_outcome list \<Rightarrow> bytes option" where
  "read_entire_loop len buf content [] = (if length buf < len then None else Some buf)"
| "read_entire_loop len buf content (r # rs) =
     (if length buf < len
      then (case r of
              Read_EINTR \<Rightarrow> read_entire_loop len buf content rs
            | Read_error \<Rightarrow> Some buf
            | Read_ready k \<Rightarrow>
                (let n = min k (min (len - length buf) (length content)) in
                 if n = 0 then Some buf
                 else read_entire_loop len (buf @ take n content) (drop n content) rs))
      else Some buf)"

definition read_entire_file :: "nat \<Rightarrow> bytes \<Rightarrow> read_outcome list \<Rightarrow> (int \<times> bytes) option" where
  "read_entire_file len content rs =
     map_option (\<lambda>buf. (if 0 < length buf then int (length buf) else -1, buf)) (read_entire_loop len [] content rs)"

text \<open>The streaming loop: any result of \<^verbatim>\<open>read\<close> that is not positive ends it with success.\<close>

fun stream_loop :: "bytes \<Rightarrow> read_outcome list \<Rightarrow> http_ctx \<Rightarrow> (int \<times> http_ctx) option" where
  "stream_loop content [] hc = None"
| "stream_loop content (Read_EINTR # rs) hc = Some (0, hc)"
| "stream_loop content (Read_error # rs) hc = Some (0, hc)"
| "stream_loop content (Read_ready k # rs) hc =
     (let n = min k (min 65536 (length content)) in
      if n = 0 then Some (0, hc)
      else
        (case http_response_write_all (take n content) (hc_ws hc) (hc_ps hc) of
           None \<Rightarrow> None
         | Some (rc, out, ws, ps) \<Rightarrow>
             (let hc1 = hc\<lparr>hc_ws := ws, hc_ps := ps, hc_out := hc_out hc @ out\<rparr>
              in if rc < 0 then Some (-1, hc1) else stream_loop (drop n content) rs hc1)))"

text \<open>The response object of a file: its type, and \<^verbatim>\<open>Content-Disposition\<close> for plain text.\<close>

definition file_response :: "string \<Rightarrow> http_response_t \<Rightarrow> http_response_t" where
  "file_response mime resp =
     (let resp1 = resp\<lparr>rs_content_type := mime\<rparr>
      in if prefix ''text/plain'' mime then http_response_add_header resp1 ''Content-Disposition'' ''inline'' else resp1)"

definition send_small_file ::
  "int \<Rightarrow> http_request_t \<Rightarrow> string \<Rightarrow> file_stat \<Rightarrow> open_file \<Rightarrow> http_response_t \<Rightarrow> site_ctx \<Rightarrow> site_result" where
  "send_small_file now req path st f resp cx =
     (if \<not> of_body_alloc f then Some (-1, req_keep_alive req, site_free resp cx)
      else
        (case read_entire_file (nat (st_size st)) (of_content f) (of_reads f) of
           None \<Rightarrow> None
         | Some (rc, body) \<Rightarrow>
             if rc < 0 then site_error req 500 ''Read error'' (site_free resp cx)
             else
               (case site_send req (http_response_set_body resp (Some body) (nat rc) True) cx of
                  None \<Rightarrow> None
                | Some (rc, keep, cx1) \<Rightarrow>
                    Some (rc, keep,
                      if rc = 0
                      then cx1\<lparr>sx_shards := http_file_cache_store (sx_shards cx1) now (of_store_alloc f) path st body (nat rc)\<rparr>
                      else cx1))))"

definition send_streamed_file ::
  "http_request_t \<Rightarrow> file_stat \<Rightarrow> open_file \<Rightarrow> http_response_t \<Rightarrow> site_ctx \<Rightarrow> site_result" where
  "send_streamed_file req st f resp cx =
     (case site_send (req\<lparr>req_keep_alive := False\<rparr>)
             (http_response_set_body resp None (nat (st_size st mod 2 ^ 64)) False) cx of
        None \<Rightarrow> None
      | Some (rc, keep, cx1) \<Rightarrow>
          if rc < 0 then Some (-1, keep, cx1)
          else map_option (\<lambda>(rc, hc). (rc, keep, cx1\<lparr>sx_http := hc\<rparr>))
                 (stream_loop (of_content f) (of_reads f) (sx_http cx1)))"

definition http_send_file :: "site_env \<Rightarrow> http_request_t \<Rightarrow> string \<Rightarrow> string \<Rightarrow> site_ctx \<Rightarrow> site_result" where
  "http_send_file env req path mime cx =
     (case sn_open env path of
        None \<Rightarrow> site_error req 404 ''File not found'' cx
      | Some f \<Rightarrow>
          (case of_stat f of
             None \<Rightarrow> site_error req 500 ''Cannot stat file'' cx
           | Some st \<Rightarrow>
               (case site_create cx of
                  (None, cx1) \<Rightarrow> Some (-1, req_keep_alive req, cx1)
                | (Some resp0, cx1) \<Rightarrow>
                    (let resp = file_response mime resp0;
                         now = wd_time (sn_world env);
                         (hit, shards) = http_file_cache_lookup (sx_shards cx1) now (of_lookup_alloc f) path st;
                         cx2 = cx1\<lparr>sx_shards := shards\<rparr>
                     in case hit of
                          Some cached \<Rightarrow>
                            site_send req (http_response_set_body resp (Some cached) (length cached) True) cx2
                        | None \<Rightarrow>
                            if 0 < st_size st \<and> st_size st \<le> int (FILE_CACHE_MAX_BYTES * 4)
                            then send_small_file now req path st f resp cx2
                            else send_streamed_file req st f resp cx2))))"

subsection \<open>Directory index\<close>

text \<open>A growing buffer: its text and its capacity. The capacity is doubled until the text fits.\<close>

function grow_cap :: "nat \<Rightarrow> nat \<Rightarrow> nat" where
  "grow_cap need ncap = (if ncap = 0 \<or> need \<le> ncap then ncap else grow_cap need (ncap * 2))"
  by pat_completeness auto

termination
  by (relation "measure (\<lambda>(need, ncap). need - ncap)") auto

declare grow_cap.simps [simp del]

type_synonym growbuf = "string \<times> nat"

definition append_str :: "growbuf \<Rightarrow> string \<Rightarrow> bool list \<Rightarrow> (int \<times> growbuf) \<times> bool list" where
  "append_str b s al =
     (let (text, cap) = b; need = length text + length s + 1 in
      if cap < need
      then (let (ok, al') = next_alloc al
            in if ok then ((0, (text @ s, grow_cap need cap)), al') else ((-1, b), al'))
      else ((0, (text @ s, cap)), al))"

fun append_strs :: "growbuf \<Rightarrow> string list \<Rightarrow> bool list \<Rightarrow> (int \<times> growbuf) \<times> bool list" where
  "append_strs b [] al = ((0, b), al)"
| "append_strs b (s # ss) al =
     (case append_str b s al of
        ((rc, b'), al') \<Rightarrow> if rc \<noteq> 0 then ((rc, b'), al') else append_strs b' ss al')"

definition autoindex_head1 :: string where
  "autoindex_head1 =
     ''<!DOCTYPE html><html><head><meta charset='' @ [QUOTE] @ ''UTF-8'' @ [QUOTE] @ ''>'' @
     ''<meta name='' @ [QUOTE] @ ''viewport'' @ [QUOTE] @ '' content='' @ [QUOTE] @
       ''width=device-width,initial-scale=1'' @ [QUOTE] @ ''>'' @
     ''<title>Index of ''"

definition autoindex_head2 :: string where
  "autoindex_head2 =
     ''</title><link rel='' @ [QUOTE] @ ''stylesheet'' @ [QUOTE] @ '' href='' @ [QUOTE] @ ''/static/css/custom.css'' @ [QUOTE] @ ''>'' @
     ''</head><body><div class='' @ [QUOTE] @ ''container'' @ [QUOTE] @ ''><h1>Index of ''"

definition autoindex_item :: "string \<Rightarrow> bool \<Rightarrow> string" where
  "autoindex_item escaped is_dir =
     snprintf_out 1024 (''<li><a href='' @ [QUOTE] @ escaped @ (if is_dir then ''/'' else []) @ [QUOTE] @ ''>'' @
       escaped @ (if is_dir then ''/'' else []) @ ''</a></li>'')"

fun autoindex_entries ::
  "world \<Rightarrow> string \<Rightarrow> string list \<Rightarrow> growbuf \<Rightarrow> bool list \<Rightarrow> (int \<times> growbuf) \<times> bool list" where
  "autoindex_entries w fullpath [] b al = ((0, b), al)"
| "autoindex_entries w fullpath (name # names) b al =
     (if name = ''.'' \<or> name = ''..'' then autoindex_entries w fullpath names b al
      else
        (let is_dir = (case wd_stat w (snprintf_out 1024 (fullpath @ ''/'' @ name)) of
                         None \<Rightarrow> False | Some st \<Rightarrow> st_isdir st);
             (ok, al1) = next_alloc al
         in if \<not> ok then autoindex_entries w fullpath names b al1
            else
              (case append_str b (autoindex_item (html_escape (Some name)) is_dir) al1 of
                 ((rc, b'), al2) \<Rightarrow>
                   if rc \<noteq> 0 then ((rc, b'), al2) else autoindex_entries w fullpath names b' al2)))"

text \<open>The page; \<^const>\<open>None\<close> when an allocation failed.\<close>

definition autoindex_html :: "world \<Rightarrow> string \<Rightarrow> string \<Rightarrow> string list \<Rightarrow> bool list \<Rightarrow> growbuf option" where
  "autoindex_html w req_path fullpath names al =
     (let (malloc_ok, al0) = next_alloc al; (escape_ok, al1) = next_alloc al0; escaped = html_escape (Some req_path)
      in if \<not> malloc_ok \<or> \<not> escape_ok then None
         else
           (case append_strs ([], 4096) [autoindex_head1, escaped, autoindex_head2, escaped, ''</h1><ul>''] al1 of
              ((rc1, b1), al2) \<Rightarrow>
                if rc1 \<noteq> 0 then None
                else
                  (case (if req_path \<noteq> ''/static/''
                         then append_str b1 (''<li><a href='' @ [QUOTE] @ ''../'' @ [QUOTE] @ ''>../</a></li>'') al2
                         else ((0, b1), al2)) of
                     ((rc2, b2), al3) \<Rightarrow>
                       if rc2 \<noteq> 0 then None
                       else
                         (case autoindex_entries w fullpath names b2 al3 of
                            ((rc3, b3), al4) \<Rightarrow>
                              if rc3 \<noteq> 0 then None
                              else
                                (case append_str b3 ''</ul></div></body></html>'' al4 of
                                   ((rc4, b4), al5) \<Rightarrow> if rc4 \<noteq> 0 then None else Some b4)))))"

definition send_autoindex :: "site_env \<Rightarrow> http_request_t \<Rightarrow> string \<Rightarrow> string \<Rightarrow> site_ctx \<Rightarrow> site_result" where
  "send_autoindex env req req_path fullpath cx =
     (case wd_readdir (sn_world env) fullpath of
        None \<Rightarrow> site_error req 403 ''Directory listing disabled'' cx
      | Some names \<Rightarrow>
          (case autoindex_html (sn_world env) req_path fullpath names (sn_allocs env) of
             None \<Rightarrow> site_error req 500 ''Out of memory'' cx
           | Some (html, cap) \<Rightarrow>
               (case site_create cx of
                  (None, cx1) \<Rightarrow> Some (-1, req_keep_alive req, cx1)
                | (Some resp, cx1) \<Rightarrow>
                    site_send req
                      (http_response_set_body (resp\<lparr>rs_content_type := ''text/html; charset=utf-8''\<rparr>)
                         (Some html) (length html) True) cx1)))"

definition send_redirect :: "http_request_t \<Rightarrow> int \<Rightarrow> string \<Rightarrow> site_ctx \<Rightarrow> site_result" where
  "send_redirect req status_code location cx =
     (case site_create cx of
        (None, cx1) \<Rightarrow> Some (-1, req_keep_alive req, cx1)
      | (Some resp, cx1) \<Rightarrow>
          site_send req
            (http_response_set_body
               (http_response_add_header
                  ((http_response_set_status resp status_code)\<lparr>rs_content_type := ''text/plain; charset=utf-8''\<rparr>)
                  ''Location'' location) (Some []) 0 False) cx1)"

definition favicon_handler :: "miniweb_conf_t \<Rightarrow> site_env \<Rightarrow> http_request_t \<Rightarrow> site_ctx \<Rightarrow> site_result" where
  "favicon_handler config env req cx =
     http_send_file env req (snprintf_out 512 (cf_static_dir config @ ''/assets/favicon.svg'')) ''image/svg+xml'' cx"

text \<open>The path below the static directory that a URL asks for.\<close>

definition static_relpath :: "string \<Rightarrow> string" where
  "static_relpath req_path =
     (let r = drop 7 req_path; r1 = (case r of c # cs \<Rightarrow> if c = CHR ''/'' then cs else r | [] \<Rightarrow> r)
      in if r1 = [] then ''.'' else r1)"

definition static_directory ::
  "miniweb_conf_t \<Rightarrow> site_env \<Rightarrow> http_request_t \<Rightarrow> string \<Rightarrow> string \<Rightarrow> site_ctx \<Rightarrow> site_result" where
  "static_directory config env req req_path fullpath cx =
     (if cf_autoindex config = 0 then site_error req 403 ''Directory listing disabled'' cx
      else if last req_path \<noteq> CHR ''/''
      then (if 512 \<le> length (req_path @ ''/'') then site_error req 414 ''URI Too Long'' cx
            else send_redirect req 301 (req_path @ ''/'') cx)
      else
        (let index_html = fullpath @ ''/index.html''; index_htm = fullpath @ ''/index.htm'' in
         if length index_html < 512 \<and> sn_access env index_html
         then http_send_file env req index_html (mime_type_for_path (Some ''index.html'')) cx
         else if length index_htm < 512 \<and> sn_access env index_htm
         then http_send_file env req index_htm (mime_type_for_path (Some ''index.htm'')) cx
         else send_autoindex env req req_path fullpath cx))"

definition static_handler :: "miniweb_conf_t \<Rightarrow> site_env \<Rightarrow> http_request_t \<Rightarrow> site_ctx \<Rightarrow> site_result" where
  "static_handler config env req cx =
     (let url = req_url req; req_path_len = strcspn url {CHR ''?'', CHR ''#''}; req_path = take req_path_len url in
      if req_path_len = 0 \<or> 512 \<le> req_path_len then site_error req 400 ''Bad Request'' cx
      else if \<not> prefix ''/static'' req_path then site_error req 404 ''Not Found'' cx
      else
        (let relpath = static_relpath req_path in
         if strstr relpath ''..'' \<noteq> None \<or> strstr relpath ''//'' \<noteq> None then site_error req 403 ''Forbidden'' cx
         else
           (let fullpath = cf_static_dir config @ ''/'' @ relpath in
            if 512 \<le> length fullpath then site_error req 414 ''URI Too Long'' cx
            else
              (case wd_stat (sn_world env) fullpath of
                 None \<Rightarrow> site_error req 404 ''File not found'' cx
               | Some st \<Rightarrow>
                   if st_isdir st then static_directory config env req req_path fullpath cx
                   else http_send_file env req fullpath (mime_type_for_path (Some relpath)) cx))))"

section \<open>Reading a file\<close>

text \<open>Reads that deliver: no error, and at least one byte while there is one.\<close>

definition delivers :: "read_outcome list \<Rightarrow> bool" where
  "delivers rs \<longleftrightarrow> Read_error \<notin> set rs \<and> Read_ready 0 \<notin> set rs"

lemma read_entire_loop_delivers:
  "delivers rs \<Longrightarrow> len = length (buf @ content) \<Longrightarrow> read_entire_loop len buf content rs = Some body \<Longrightarrow> body = buf @ content"
proof (induction len buf content rs rule: read_entire_loop.induct)
  case (2 len buf content r rs)
  have d: "delivers rs" using "2.prems"(1) by (simp add: delivers_def)
  show ?case
  proof (cases "content = []")
    case False
    then have l: "length buf < len" using "2.prems"(2) by simp
    show ?thesis
    proof (cases r)
      case (Read_ready k)
      let ?n = "min k (min (len - length buf) (length content))"
      have n: "?n \<noteq> 0" using Read_ready "2.prems"(1) l False by (auto simp: delivers_def)
      have "read_entire_loop len (buf @ take ?n content) (drop ?n content) rs = Some body"
        using "2.prems"(3) l n Read_ready by (simp add: Let_def)
      then show ?thesis using "2.IH"(1) [OF l Read_ready refl n d] "2.prems"(2) by simp
    qed (use 2 l d in \<open>auto simp: delivers_def\<close>)
  qed (use "2.prems" in auto)
qed (auto split: if_splits)

text \<open>The loop never reads past the size that \<^verbatim>\<open>fstat\<close> gave: the buffer is not overrun.\<close>

lemma read_entire_loop_bound:
  "read_entire_loop len buf content rs = Some body \<Longrightarrow> length buf \<le> len \<Longrightarrow> length body \<le> len"
  by (induction len buf content rs rule: read_entire_loop.induct)
    (auto simp: Let_def split: if_splits read_outcome.splits)

section \<open>The context around a file\<close>

lemma site_error_shards: "site_error req code msg cx = Some (rc, keep, cx') \<Longrightarrow> sx_shards cx' = sx_shards cx"
  by (auto simp: site_error_def)

lemma site_send_shards: "site_send req resp cx = Some (rc, keep, cx') \<Longrightarrow> sx_shards cx' = sx_shards cx"
  by (auto simp: site_send_def)

lemma site_create_shards: "site_create cx = (r, cx') \<Longrightarrow> sx_shards cx' = sx_shards cx"
  by (auto simp: site_create_def Let_def split: prod.splits)

lemma site_free_shards [simp]: "sx_shards (site_free resp cx) = sx_shards cx"
  by (simp add: site_free_def)

lemmas site_shards = site_error_shards site_send_shards site_create_shards

lemma store_empty [simp]: "http_file_cache_store shards now m path st data 0 = shards"
  by (simp add: http_file_cache_store_def)

lemma send_small_file_shards:
  "send_small_file now req path st f resp cx = Some (rc, keep, cx') \<Longrightarrow> sx_shards cx' = sx_shards cx"
  by (auto simp: send_small_file_def split: if_splits option.splits dest!: site_shards)

lemma send_streamed_file_shards:
  "send_streamed_file req st f resp cx = Some (rc, keep, cx') \<Longrightarrow> sx_shards cx' = sx_shards cx"
  by (auto simp: send_streamed_file_def split: if_splits option.splits dest!: site_shards)

lemma http_send_file_shards:
  assumes "http_send_file env req path mime cx = Some (rc, keep, cx')"
  shows "sx_shards cx' = sx_shards cx \<or>
    (\<exists>m st. sx_shards cx' = snd (http_file_cache_lookup (sx_shards cx) (wd_time (sn_world env)) m path st))"
  using assms
  by (auto simp: http_send_file_def Let_def split: option.splits prod.splits if_splits
      dest!: site_shards send_small_file_shards send_streamed_file_shards) (metis snd_conv)+

text \<open>A file already read is sent as one message.\<close>

definition file_extra :: "string \<Rightarrow> string list" where
  "file_extra mime = (if prefix ''text/plain'' mime then [''Content-Disposition: inline''] else [])"

definition site_delivered :: "http_request_t \<Rightarrow> site_ctx \<Rightarrow> bytes \<Rightarrow> site_result" where
  "site_delivered req cx msg =
     map_option (\<lambda>(rc, hc). (rc, req_keep_alive req, cx\<lparr>sx_http := hc\<rparr>)) (delivered (sx_http cx) msg)"

lemma site_send_file:
  assumes "can_create (sx_http cx)" "site_create cx = (r, cx1)" "length mime \<le> 1000" "length body < 10 ^ 19"
  obtains resp where "r = Some resp"
    "\<And>sh. site_send req (http_response_set_body (file_response mime resp) (Some body) (length body) b) (cx1\<lparr>sx_shards := sh\<rparr>) =
       site_delivered req (cx\<lparr>sx_shards := sh\<rparr>) (http_message (req_keep_alive req) 200 mime (file_extra mime) body)"
proof -
  let ?hc = "sx_http cx"
  obtain resp pools where c: "http_response_create (hc_tid ?hc) (hc_calloc_ok ?hc) (hc_pools ?hc) = (Some resp, pools)"
    "rs_status_code resp = 200" "rs_headers resp = []"
    "\<And>r. rs_addr r = rs_addr resp \<Longrightarrow> rs_pool_shard_idx r = rs_pool_shard_idx resp \<Longrightarrow>
       http_response_free (Some r) pools = pools_ready ?hc"
    by (rule http_response_create_free [OF assms(1)]) blast
  have r: "r = Some resp" "cx1 = cx\<lparr>sx_http := ?hc\<lparr>hc_pools := pools\<rparr>\<rparr>"
    using assms(2) c(1) by (auto simp: site_create_def)
  let ?r = "http_response_set_body (file_response mime resp) (Some body) (length body) b"
  have fields: "rs_headers ?r = join_crlf (file_extra mime)" "rs_status_code ?r = 200" "rs_content_type ?r = mime"
    "rs_body ?r = Some body" "rs_body_len ?r = length body"
    "rs_addr ?r = rs_addr resp" "rs_pool_shard_idx ?r = rs_pool_shard_idx resp"
    using c(2,3) by (simp_all add: http_response_set_body_def file_response_def file_extra_def Let_def
        http_response_add_header_def HEADERS_SIZE_def snprintf_out_def)
  have extra: "length (join_crlf (file_extra mime)) \<le> 100" by (simp add: file_extra_def)
  have "length (join_crlf (message_lines (req_keep_alive req) 200 mime (file_extra mime) (length body))) + 2 < 4096"
    using length_message_lines [of 200 "length body" "req_keep_alive req" mime "file_extra mime"] assms(3,4) extra
    by linarith
  then have "http_response_send req ?r (hc_ws ?hc) (hc_ps ?hc) =
      http_response_write_all (http_message (req_keep_alive req) 200 mime (file_extra mime) body) (hc_ws ?hc) (hc_ps ?hc)"
    using http_response_send_message [where resp = ?r and body = body and buf = body and extra = "file_extra mime" and req = req]
      fields by simp
  then have "send_and_free req ?r (?hc\<lparr>hc_pools := pools\<rparr>) =
      delivered ?hc (http_message (req_keep_alive req) 200 mime (file_extra mime) body)"
    using send_and_free_delivered c(4) [OF fields(6,7)] by blast
  then show thesis
    using r by (intro that [of resp]) (simp_all add: site_send_def site_delivered_def)
qed

section \<open>Growing buffers\<close>

text \<open>The text and its NUL fit the capacity.\<close>

definition buf_fits :: "growbuf \<Rightarrow> bool" where
  "buf_fits b \<longleftrightarrow> length (fst b) < snd b"

lemma grow_cap_enough: "0 < ncap \<Longrightarrow> need \<le> grow_cap need ncap"
proof (induction need ncap rule: grow_cap.induct)
  case (1 need ncap)
  then show ?case by (subst grow_cap.simps) auto
qed

lemma append_str_fits:
  "append_str b s al = ((rc, b'), al') \<Longrightarrow> buf_fits b \<Longrightarrow>
    buf_fits b' \<and> (rc = 0 \<longrightarrow> fst b' = fst b @ s) \<and> (rc \<noteq> 0 \<longrightarrow> b' = b)"
  using grow_cap_enough [of "snd b" "length (fst b) + length s + 1"]
  by (auto simp: append_str_def buf_fits_def Let_def split: prod.splits if_splits)

lemma append_strs_fits:
  "append_strs b ss al = ((rc, b'), al') \<Longrightarrow> buf_fits b \<Longrightarrow>
    buf_fits b' \<and> (rc = 0 \<longrightarrow> fst b' = fst b @ concat ss)"
proof (induction b ss al rule: append_strs.induct)
  case (2 b s ss al)
  obtain rc1 b1 al1 where a: "append_str b s al = ((rc1, b1), al1)" by (metis prod.exhaust)
  show ?case using append_str_fits [OF a "2.prems"(2)] "2.IH" [OF a [symmetric] refl] "2.prems"(1) a
    by (cases "rc1 = 0") auto
qed auto

lemma autoindex_entries_fits:
  "autoindex_entries w d names b al = ((rc, b'), al') \<Longrightarrow> buf_fits b \<Longrightarrow> buf_fits b' \<and> prefix (fst b) (fst b')"
proof (induction w d names b al rule: autoindex_entries.induct)
  case (2 w d name names b al)
  show ?case
  proof (cases "name = ''.'' \<or> name = ''..''")
    case True
    then show ?thesis using 2 by auto
  next
    case False
    obtain ok al1 where n: "next_alloc al = (ok, al1)" by fastforce
    let ?d = "case wd_stat w (snprintf_out 1024 (d @ ''/'' @ name)) of None \<Rightarrow> False | Some st \<Rightarrow> st_isdir st"
    obtain rc1 b1 al2 where a: "append_str b (autoindex_item (html_escape (Some name)) ?d) al1 = ((rc1, b1), al2)"
      by (metis prod.exhaust)
    note A = append_str_fits [OF a "2.prems"(2)]
    show ?thesis
    proof (cases "ok \<and> rc1 = 0")
      case True
      then have "autoindex_entries w d names b1 al2 = ((rc, b'), al')"
        using "2.prems"(1) False n a by (simp add: Let_def)
      then have "buf_fits b' \<and> prefix (fst b1) (fst b')"
        using "2.IH"(3) [OF False refl n [symmetric] refl _ a [symmetric] refl] True A by auto
      then show ?thesis using A True by (metis append_prefixD)
    next
      case nope: False
      then show ?thesis
        using "2.prems" False n a A "2.IH"(2) [OF False refl n [symmetric] refl] by (cases ok) (auto simp: Let_def)
    qed
  qed
qed auto

section \<open>Confinement\<close>

text \<open>
  A path below a directory: the directory, a slash and a relative path none of whose components
  is \<^verbatim>\<open>..\<close>.
\<close>

definition below_dir :: "string \<Rightarrow> string \<Rightarrow> bool" where
  "below_dir dir p \<longleftrightarrow> (\<exists>rel. p = dir @ ''/'' @ rel \<and> ''..'' \<notin> set (split_on (CHR ''/'') rel))"

text \<open>Two file systems that answer alike for everything below a directory.\<close>

definition same_below :: "string \<Rightarrow> site_env \<Rightarrow> site_env \<Rightarrow> bool" where
  "same_below dir e e' \<longleftrightarrow> wd_time (sn_world e) = wd_time (sn_world e') \<and> sn_allocs e = sn_allocs e' \<and>
     (\<forall>p. below_dir dir p \<longrightarrow> sn_open e p = sn_open e' p \<and> sn_access e p = sn_access e' p \<and>
        wd_stat (sn_world e) p = wd_stat (sn_world e') p \<and> wd_readdir (sn_world e) p = wd_readdir (sn_world e') p)"

text \<open>What \<^verbatim>\<open>readdir\<close> promises of a name: no slash, at most 255 bytes.\<close>

definition readdir_names_ok :: "site_env \<Rightarrow> bool" where
  "readdir_names_ok e \<longleftrightarrow> (\<forall>d ns n. wd_readdir (sn_world e) d = Some ns \<longrightarrow> n \<in> set ns \<longrightarrow> CHR ''/'' \<notin> set n \<and> length n \<le> 255)"

lemma split_on_component: "w \<in> set (split_on d s) \<Longrightarrow> sublist w s"
proof (induction s arbitrary: w)
  case (Cons c cs)
  obtain v vs where v: "split_on d cs = v # vs" by (cases "split_on d cs") auto
  have "prefix v cs" if "split_on d cs = v # vs" for v vs
    using that
  proof (induction cs arbitrary: v vs)
    case (Cons a as)
    then show ?case by (cases "split_on d as") (auto split: if_splits)
  qed simp
  then have "prefix v cs" using v by blast
  moreover have "\<And>u. u \<in> set (v # vs) \<Longrightarrow> sublist u cs" using Cons.IH v by simp
  ultimately show ?case using Cons.prems v
    by (auto simp: sublist_Cons_right split: if_splits)
qed simp

lemma below_dirI: "\<not> sublist ''..'' rel \<Longrightarrow> below_dir dir (dir @ ''/'' @ rel)"
  using split_on_component by (auto simp: below_dir_def)

lemma below_dir_child:
  assumes "below_dir dir p" "CHR ''/'' \<notin> set n" "n \<noteq> ''..''"
  shows "below_dir dir (p @ ''/'' @ n)"
proof -
  obtain rel where "p = dir @ ''/'' @ rel" "''..'' \<notin> set (split_on (CHR ''/'') rel)"
    using assms(1) by (auto simp: below_dir_def)
  then show ?thesis
    using split_on_append [of "CHR ''/''" rel n] split_on_fresh [OF assms(2)] assms(3)
    by (auto simp: below_dir_def intro: exI [of _ "rel @ ''/'' @ n"])
qed

lemma http_send_file_cong:
  assumes "same_below dir e e'" "below_dir dir p"
  shows "http_send_file e req p mime cx = http_send_file e' req p mime cx"
proof -
  have eqs: "sn_open e p = sn_open e' p" "wd_time (sn_world e) = wd_time (sn_world e')"
    using assms by (simp_all add: same_below_def)
  show ?thesis unfolding http_send_file_def eqs ..
qed

lemma autoindex_entries_cong:
  assumes "\<And>n. n \<in> set names \<Longrightarrow> n \<noteq> ''.'' \<Longrightarrow> n \<noteq> ''..'' \<Longrightarrow>
    wd_stat w (snprintf_out 1024 (d @ ''/'' @ n)) = wd_stat w' (snprintf_out 1024 (d @ ''/'' @ n))"
  shows "autoindex_entries w d names b al = autoindex_entries w' d names b al"
  using assms
proof (induction names arbitrary: b al)
  case (Cons n names)
  then have IH: "autoindex_entries w d names b al = autoindex_entries w' d names b al" for b al by simp
  show ?case using Cons.prems [of n] by (auto simp: IH Let_def split: prod.splits)
qed simp

lemma autoindex_html_cong:
  assumes "\<And>n. n \<in> set names \<Longrightarrow> n \<noteq> ''.'' \<Longrightarrow> n \<noteq> ''..'' \<Longrightarrow>
    wd_stat w (snprintf_out 1024 (d @ ''/'' @ n)) = wd_stat w' (snprintf_out 1024 (d @ ''/'' @ n))"
  shows "autoindex_html w rp d names al = autoindex_html w' rp d names al"
proof -
  have eq: "autoindex_entries w d names = autoindex_entries w' d names"
    using autoindex_entries_cong [of names w d w'] assms by (intro ext) auto
  show ?thesis unfolding autoindex_html_def eq ..
qed

lemma send_autoindex_cong:
  assumes same: "same_below dir e e'" and names: "readdir_names_ok e" and p: "below_dir dir p" "length p < 512"
  shows "send_autoindex e req rp p cx = send_autoindex e' req rp p cx"
proof (cases "wd_readdir (sn_world e) p")
  case None
  then show ?thesis using same p by (simp add: send_autoindex_def same_below_def)
next
  case (Some ns)
  have "wd_stat (sn_world e) (snprintf_out 1024 (p @ ''/'' @ n)) = wd_stat (sn_world e') (snprintf_out 1024 (p @ ''/'' @ n))"
    if "n \<in> set ns" "n \<noteq> ''..''" for n
  proof -
    have n: "CHR ''/'' \<notin> set n" "length n \<le> 255" using names Some that by (auto simp: readdir_names_ok_def)
    then have "snprintf_out 1024 (p @ ''/'' @ n) = p @ ''/'' @ n" using p(2) by (simp add: snprintf_out_short)
    then show ?thesis using below_dir_child [OF p(1) n(1) that(2)] same by (simp add: same_below_def)
  qed
  then have "autoindex_html (sn_world e) rp p ns al = autoindex_html (sn_world e') rp p ns al" for al
    by (intro autoindex_html_cong) auto
  then show ?thesis using same p Some by (simp add: send_autoindex_def same_below_def)
qed

lemma static_directory_cong:
  assumes "same_below dir e e'" "readdir_names_ok e" "below_dir dir p" "length p < 512"
  shows "static_directory config e req rp p cx = static_directory config e' req rp p cx"
proof -
  have b: "below_dir dir (p @ ''/index.html'')" "below_dir dir (p @ ''/index.htm'')"
    using below_dir_child [OF assms(3), of "''index.html''"] below_dir_child [OF assms(3), of "''index.htm''"] by auto
  then have acc: "sn_access e (p @ ''/index.html'') = sn_access e' (p @ ''/index.html'')"
      "sn_access e (p @ ''/index.htm'') = sn_access e' (p @ ''/index.htm'')"
    using assms(1) by (simp_all add: same_below_def)
  show ?thesis
    unfolding static_directory_def Let_def acc http_send_file_cong [OF assms(1) b(1)]
      http_send_file_cong [OF assms(1) b(2)] send_autoindex_cong [OF assms] ..
qed

text \<open>From the cache or from the disk, the same message is written.\<close>

lemma http_send_file_delivered:
  assumes "sn_open env path = Some f" "of_stat f = Some st" "st_size st = int (length (of_content f))"
    and "0 < length (of_content f)" "length (of_content f) \<le> 1048576" "delivers (of_reads f)" "of_body_alloc f"
    and "can_create (sx_http cx)" "length mime \<le> 1000" "length (sx_shards cx) = FILE_CACHE_SHARDS"
    and "\<forall>d. ((path, st_mtime st), d) \<in> cache_facts (sx_shards cx) \<longrightarrow> d = of_content f"
  shows "(read_entire_file (length (of_content f)) (of_content f) (of_reads f) = None \<and> http_send_file env req path mime cx = None) \<or>
    map_option (\<lambda>(rc, keep, cx'). (rc, keep, sx_http cx')) (http_send_file env req path mime cx) =
    map_option (\<lambda>(rc, hc). (rc, req_keep_alive req, hc))
      (delivered (sx_http cx) (http_message (req_keep_alive req) 200 mime (file_extra mime) (of_content f)))"
proof -
  let ?body = "of_content f"
  let ?msg = "http_message (req_keep_alive req) 200 mime (file_extra mime) ?body"
  let ?now = "wd_time (sn_world env)"
  obtain r cx1 where cr: "site_create cx = (r, cx1)" by fastforce
  obtain resp where resp: "r = Some resp" and
    send: "\<And>sh. site_send req (http_response_set_body (file_response mime resp) (Some ?body) (length ?body) True)
        (cx1\<lparr>sx_shards := sh\<rparr>) = site_delivered req (cx\<lparr>sx_shards := sh\<rparr>) ?msg"
    using site_send_file [OF assms(8) cr assms(9), of ?body req True] assms(5) by auto
  have cx1: "sx_shards cx1 = sx_shards cx" using site_create_shards [OF cr] .
  obtain hit shards where look: "http_file_cache_lookup (sx_shards cx1) ?now (of_lookup_alloc f) path st = (hit, shards)" by fastforce
  have hit: "hit = None \<or> hit = Some ?body"
    using lookup_facts(2) [OF assms(10), of ?now "of_lookup_alloc f" path st] look cx1 assms(11) by (cases hit) auto
  have read: "read_entire_file (length ?body) ?body (of_reads f) = None \<or>
      read_entire_file (length ?body) ?body (of_reads f) = Some (int (length ?body), ?body)"
    using read_entire_loop_delivers [OF assms(6), of "length ?body" "[]" ?body] assms(4)
    by (cases "read_entire_loop (length ?body) [] ?body (of_reads f)") (auto simp: read_entire_file_def)
  have small: "(0 < st_size st \<and> st_size st \<le> int (FILE_CACHE_MAX_BYTES * 4)) = True" "nat (st_size st) = length ?body"
    using assms(3-5) by (simp_all add: FILE_CACHE_MAX_BYTES_def)
  obtain d where d: "delivered (sx_http cx) ?msg = d" by simp
  then have sd: "site_delivered req (cx\<lparr>sx_shards := sh\<rparr>) ?msg =
      map_option (\<lambda>(rc, hc). (rc, req_keep_alive req, cx\<lparr>sx_shards := sh, sx_http := hc\<rparr>)) d" for sh
    by (simp add: site_delivered_def)
  have miss: "send_small_file ?now req path st f (file_response mime resp) (cx1\<lparr>sx_shards := shards\<rparr>) =
      (if read_entire_file (length ?body) ?body (of_reads f) = None then None
       else site_delivered req (cx\<lparr>sx_shards := shards\<rparr>) ?msg)"
  proof (cases "read_entire_file (length ?body) ?body (of_reads f) = None")
    case False
    then have "read_entire_file (length ?body) ?body (of_reads f) = Some (int (length ?body), ?body)" using read by (auto simp del: not_None_eq)
    then show ?thesis
      by (simp add: send_small_file_def assms(7) small(2) send sd split: option.splits)
  qed (simp add: send_small_file_def assms(7) small(2))
  have "http_send_file env req path mime cx =
      (if hit = None \<and> read_entire_file (length ?body) ?body (of_reads f) = None then None
       else site_delivered req (cx\<lparr>sx_shards := shards\<rparr>) ?msg)"
    using hit unfolding http_send_file_def Let_def assms(1,2) option.case cr resp prod.case look small(1) if_True miss
    by (auto simp: send)
  then show ?thesis unfolding d sd by (cases d) auto
qed

section \<open>A sample site\<close>

definition site_sample_file :: open_file where
  "site_sample_file = \<lparr>of_stat = Some \<lparr>st_size = 5, st_mtime = 9, st_isdir = False, st_isreg = True\<rparr>, of_content = ''hello'',
     of_reads = [Read_ready 2, Read_EINTR, Read_ready 100], of_lookup_alloc = True, of_body_alloc = True, of_store_alloc = True\<rparr>"

text \<open>A site with one file; \<open>secret\<close> is what lies outside the static directory.\<close>

definition site_sample :: "open_file option \<Rightarrow> site_env" where
  "site_sample secret =
     \<lparr>sn_world = \<lparr>wd_time = 100, wd_readdir = (\<lambda>_. None),
        wd_stat = (\<lambda>p. if p = ''static/a.css'' then of_stat site_sample_file else None), wd_fopen = (\<lambda>_. None)\<rparr>,
      sn_open = (\<lambda>p. if p = ''static/a.css'' then Some site_sample_file else if p = ''secret'' then secret else None),
      sn_access = (\<lambda>_. False), sn_allocs = []\<rparr>"

definition site_sample_ctx :: site_ctx where
  "site_sample_ctx =
     \<lparr>sx_http = \<lparr>hc_tid = 7, hc_calloc_ok = False, hc_pools = response_pools0,
        hc_registry = \<lparr>routes = [], prefix_routes = []\<rparr>, hc_ws = [Accepts 100, Accepts 1000], hc_ps = [], hc_out = []\<rparr>,
      sx_shards = file_cache_init_shards\<rparr>"

definition site_sample_req :: "string \<Rightarrow> http_request_t" where
  "site_sample_req url = \<lparr>req_fd = 5, req_method = ''GET'', req_url = url, req_version = ''HTTP/1.1'',
     req_keep_alive = True, req_buffer = [], req_buffer_len = 0, req_client_addr = None\<rparr>"

lemma init_shards_empty: "length file_cache_init_shards = FILE_CACHE_SHARDS" "cache_facts file_cache_init_shards = {}"
  by (auto simp: file_cache_init_shards_def cache_facts_def entry_facts_def zero_entry_def)

lemma site_sample_can: "can_create (sx_http site_sample_ctx)"
proof -
  have "\<not> rp_initialized (response_pools0 ! response_pool_shard_index 7)"
    using response_pool_shard_index_less [of 7] by (simp add: response_pools0_def)
  then show ?thesis
    using response_pool_inv_fresh by (simp add: can_create_def response_pools0_def site_sample_ctx_def)
qed

lemma site_sample_sends:
  "\<exists>cx'. http_send_file (site_sample None) (site_sample_req u) ''static/a.css'' ''text/css'' site_sample_ctx = Some (0, True, cx')"
proof -
  let ?msg = "http_message True 200 ''text/css'' (file_extra ''text/css'') ''hello''"
  obtain m where m: "?msg = m" by simp
  have len: "100 < length m" "length m < 1000"
    by (simp_all add: m [symmetric] http_message_def message_lines_def show_int_def http_response_status_text_def
        show_nat.simps file_extra_def)
  have "delivered (sx_http site_sample_ctx) m \<noteq> None \<and> fst (the (delivered (sx_http site_sample_ctx) m)) = 0"
    using len by (simp add: delivered_def http_response_write_all_def after_sent_def Let_def site_sample_ctx_def)
  moreover have "read_entire_file (Suc (Suc (Suc (Suc (Suc 0))))) ''hello'' [Read_ready 2, Read_EINTR, Read_ready 100] \<noteq> None"
    by (simp add: read_entire_file_def site_sample_file_def Let_def)
  ultimately have "map_option (\<lambda>(rc, keep, cx'). (rc, keep, sx_http cx'))
      (http_send_file (site_sample None) (site_sample_req u) ''static/a.css'' ''text/css'' site_sample_ctx) =
      Some (0, True, snd (the (delivered (sx_http site_sample_ctx) m)))"
    using http_send_file_delivered [OF _ _ _ _ _ _ _ site_sample_can, of "site_sample None" "''static/a.css''" site_sample_file
        "\<lparr>st_size = 5, st_mtime = 9, st_isdir = False, st_isreg = True\<rparr>" "''text/css''" "site_sample_req u"] init_shards_empty
    by (auto simp: site_sample_def site_sample_file_def site_sample_ctx_def site_sample_req_def delivers_def m)
  then show ?thesis by auto
qed

section \<open>Properties\<close>

text \<open>
  C12. The static handler cannot leave the static directory: whatever the request, two file
  systems that agree on the paths below the configured directory, none of whose components is
  \<^verbatim>\<open>..\<close>, get the same bytes, the same result and the same state. So no answer tells anything of a
  file outside that directory, be it a status, a redirect, a listing or a file.
\<close>

theorem static_handler_confined:
  assumes "same_below (cf_static_dir config) e e'" "readdir_names_ok e"
  shows "static_handler config e req cx = static_handler config e' req cx"
proof -
  let ?rp = "take (strcspn (req_url req) {CHR ''?'', CHR ''#''}) (req_url req)"
  obtain r p where r: "static_relpath ?rp = r" and p: "cf_static_dir config @ ''/'' @ r = p" by simp
  show ?thesis
  proof (cases "strstr r ''..'' = None \<and> length p < 512")
    case True
    then have b: "below_dir (cf_static_dir config) p"
      using below_dirI [of r "cf_static_dir config"] p by (auto simp: strstr_None_iff)
    have stat: "wd_stat (sn_world e) p = wd_stat (sn_world e') p"
      using assms(1) b by (simp add: same_below_def)
    show ?thesis
      unfolding static_handler_def Let_def r p stat http_send_file_cong [OF assms(1) b]
        static_directory_cong [OF assms b True [THEN conjunct2]] ..
  next
    case False
    then have bad: "strstr r ''..'' \<noteq> None \<or> 512 \<le> length p" by auto
    show ?thesis unfolding static_handler_def Let_def r p using bad by auto
  qed
qed

theorem static_handler_confined_witness:
  "static_handler (conf_defaults 4) (site_sample (Some site_sample_file)) (site_sample_req ''/static/a.css'') site_sample_ctx =
   static_handler (conf_defaults 4) (site_sample None) (site_sample_req ''/static/a.css'') site_sample_ctx"
  by (rule static_handler_confined) (auto simp: same_below_def below_dir_def site_sample_def readdir_names_ok_def conf_defaults_def)

text \<open>
  C24. A file arrives whole: when the file cache holds nothing else for this path and modification
  time, the file has the size that \<^verbatim>\<open>fstat\<close> reports, between 1 byte and 1 MiB, and no read fails,
  the client receives one 200 message whose body is the content of the file, byte for byte,
  whether it came from the cache or from the disk; if writing fails, it receives a proper prefix.
\<close>

theorem http_send_file_wire:
  assumes "sn_open env path = Some f" "of_stat f = Some st" "st_size st = int (length (of_content f))"
    and "0 < length (of_content f)" "length (of_content f) \<le> 1048576" "delivers (of_reads f)" "of_body_alloc f"
    and "can_create (sx_http cx)" "length mime \<le> 1000" "length (sx_shards cx) = FILE_CACHE_SHARDS"
    and "\<forall>d. ((path, st_mtime st), d) \<in> cache_facts (sx_shards cx) \<longrightarrow> d = of_content f"
    and "http_send_file env req path mime cx = Some (rc, keep, cx')"
  shows "\<exists>out. hc_out (sx_http cx') = hc_out (sx_http cx) @ out \<and> keep = req_keep_alive req \<and>
    (if rc = 0 then out = http_message (req_keep_alive req) 200 mime (file_extra mime) (of_content f)
     else strict_prefix out (http_message (req_keep_alive req) 200 mime (file_extra mime) (of_content f)))"
proof -
  let ?msg = "http_message (req_keep_alive req) 200 mime (file_extra mime) (of_content f)"
  have "map_option (\<lambda>(rc, hc). (rc, req_keep_alive req, hc)) (delivered (sx_http cx) ?msg) = Some (rc, keep, sx_http cx')"
    using http_send_file_delivered [OF assms(1-11), of req] assms(12) by auto
  then have keep: "keep = req_keep_alive req" and del: "delivered (sx_http cx) ?msg = Some (rc, sx_http cx')"
    by (cases "delivered (sx_http cx) ?msg"; force)+
  from del obtain out ws ps where w: "http_response_write_all ?msg (hc_ws (sx_http cx)) (hc_ps (sx_http cx)) = Some (rc, out, ws, ps)"
    and out: "sx_http cx' = (sx_http cx)\<lparr>hc_pools := pools_ready (sx_http cx), hc_ws := ws, hc_ps := ps, hc_out := hc_out (sx_http cx) @ out\<rparr>"
    unfolding delivered_def map_option_eq_Some by (auto simp only: split_beta prod.inject prod.collapse) (metis prod.collapse)
  have "(rc = 0 \<and> out = ?msg) \<or> (rc = -1 \<and> strict_prefix out ?msg)"
    using write_all_loop_sent w by (auto simp: http_response_write_all_def)
  then show ?thesis using out keep by (intro exI [of _ out]) auto
qed

theorem http_send_file_wire_witness:
  "\<exists>cx'. http_send_file (site_sample None) (site_sample_req ''/static/a.css'') ''static/a.css'' ''text/css'' site_sample_ctx =
      Some (0, True, cx') \<and>
    hc_out (sx_http cx') = http_message True 200 ''text/css'' [] ''hello''"
proof -
  obtain cx' where cx': "http_send_file (site_sample None) (site_sample_req ''/static/a.css'') ''static/a.css'' ''text/css''
      site_sample_ctx = Some (0, True, cx')"
    using site_sample_sends by blast
  have "sn_open (site_sample None) ''static/a.css'' = Some site_sample_file" by (simp add: site_sample_def)
  from http_send_file_wire [OF this _ _ _ _ _ _ site_sample_can _ _ _ cx'] have
    "hc_out (sx_http cx') = http_message True 200 ''text/css'' [] ''hello''"
    using init_shards_empty
    by (auto simp: site_sample_file_def site_sample_ctx_def site_sample_req_def delivers_def file_extra_def)
  then show ?thesis using cx' by blast
qed

text \<open>A sequence of file requests.\<close>

fun serve_files :: "(site_env \<times> http_request_t \<times> string \<times> string) list \<Rightarrow> site_ctx \<Rightarrow> site_ctx option" where
  "serve_files [] cx = Some cx"
| "serve_files ((env, req, path, mime) # rs) cx =
     Option.bind (http_send_file env req path mime cx) (\<lambda>(rc, keep, cx'). serve_files rs cx')"

text \<open>
  The file cache stays empty in use: starting with an empty cache, no sequence of file
  requests, whatever the files and the outcomes of their reads and writes, ever puts an entry into
  it, because the call that stores a served file passes the result of sending, 0, as its length.
\<close>

theorem file_cache_never_filled:
  assumes "sx_shards cx = file_cache_init_shards" "serve_files rs cx = Some cx'"
  shows "cache_facts (sx_shards cx') = {}"
proof -
  have "length (sx_shards cx) = FILE_CACHE_SHARDS \<and> cache_facts (sx_shards cx) = {}"
    using assms(1) init_shards_empty by simp
  with assms(2) show ?thesis
  proof (induction rs arbitrary: cx)
    case (Cons a rs)
    obtain env req path mime rc keep cx1 where a: "a = (env, req, path, mime)"
      "http_send_file env req path mime cx = Some (rc, keep, cx1)" "serve_files rs cx1 = Some cx'"
      using Cons.prems(1) by (cases a) (auto simp: bind_eq_Some_conv)
    have "length (sx_shards cx1) = FILE_CACHE_SHARDS \<and> cache_facts (sx_shards cx1) = {}"
      using http_send_file_shards [OF a(2)] Cons.prems(2) lookup_facts(1) [of "sx_shards cx"] fc_length(2) by fastforce
    then show ?case using Cons.IH a(3) by blast
  qed simp
qed

theorem file_cache_never_filled_witness:
  "\<exists>cx'. serve_files [(site_sample None, site_sample_req ''/static/a.css'', ''static/a.css'', ''text/css'')] site_sample_ctx = Some cx' \<and>
     cache_facts (sx_shards cx') = {}"
proof -
  obtain cx' where "serve_files [(site_sample None, site_sample_req ''/static/a.css'', ''static/a.css'', ''text/css'')] site_sample_ctx = Some cx'"
    using site_sample_sends [of "''/static/a.css''"] by auto
  moreover from this have "cache_facts (sx_shards cx') = {}"
    by (rule file_cache_never_filled [rotated]) (simp add: site_sample_ctx_def)
  ultimately show ?thesis by blast
qed

text \<open>
  A directory index is built within its buffer: whatever the requested path, the names in the
  directory and the outcomes of the allocations, the finished page and its NUL fit the capacity
  the buffer was grown to, and the page starts with the heading, in which the requested path is
  escaped.
\<close>

theorem autoindex_html_in_bounds:
  assumes "autoindex_html w req_path fullpath names al = Some (html, cap)"
  shows "length html < cap \<and>
    prefix (autoindex_head1 @ html_escape (Some req_path) @ autoindex_head2 @ html_escape (Some req_path) @ ''</h1><ul>'') html"
proof -
  let ?head = "[autoindex_head1, html_escape (Some req_path), autoindex_head2, html_escape (Some req_path), ''</h1><ul>'']"
  let ?up = "''<li><a href='' @ [QUOTE] @ ''../'' @ [QUOTE] @ ''>../</a></li>''"
  obtain ok1 al0 ok2 al1 where al: "next_alloc al = (ok1, al0)" "next_alloc al0 = (ok2, al1)" by fastforce
  obtain rc1 b1 al2 where h: "append_strs ([], 4096) ?head al1 = ((rc1, b1), al2)" by (metis prod.exhaust)
  obtain rc2 b2 al3 where u: "(if req_path \<noteq> ''/static/'' then append_str b1 ?up al2 else ((0, b1), al2)) = ((rc2, b2), al3)"
    by (metis prod.exhaust)
  obtain rc3 b3 al4 where e: "autoindex_entries w fullpath names b2 al3 = ((rc3, b3), al4)" by (metis prod.exhaust)
  obtain rc4 b4 al5 where t: "append_str b3 ''</ul></div></body></html>'' al4 = ((rc4, b4), al5)" by (metis prod.exhaust)
  have "(if \<not> ok1 \<or> \<not> ok2 then None else if rc1 \<noteq> 0 then None else if rc2 \<noteq> 0 then None
      else if rc3 \<noteq> 0 then None else if rc4 \<noteq> 0 then None else Some b4) = Some (html, cap)"
    using assms unfolding autoindex_html_def Let_def al prod.case h u e t .
  then have rcs: "rc1 = 0" "rc2 = 0" "rc4 = 0" "b4 = (html, cap)" by (auto split: if_splits)
  have b1: "buf_fits b1 \<and> fst b1 = concat ?head"
    using append_strs_fits [OF h] rcs(1) by (auto simp: buf_fits_def [of "([], _)"])
  then have b2: "buf_fits b2 \<and> prefix (fst b1) (fst b2)"
    using u rcs(2) append_str_fits [of b1 ?up al2 rc2 b2 al3] by (cases "req_path = ''/static/''") auto
  then have b3: "buf_fits b3 \<and> prefix (fst b2) (fst b3)" using autoindex_entries_fits [OF e] by blast
  then have b4: "buf_fits b4 \<and> prefix (fst b3) (fst b4)" using append_str_fits [OF t] rcs(3) by simp
  have "prefix (fst b1) (fst b4)"
    using b2 b3 b4 by (meson prefix_order.trans)
  then show ?thesis using b1 b4 rcs(4) by (simp add: buf_fits_def)
qed

theorem autoindex_html_in_bounds_witness:
  "\<exists>html cap. autoindex_html (sn_world (site_sample None)) ''/static/<x>/'' ''static/<x>'' [''.'', ''a'', ''b''] [True, True, False] = Some (html, cap) \<and>
     length html < cap"
proof -
  have "autoindex_html (sn_world (site_sample None)) ''/static/<x>/'' ''static/<x>'' [''.'', ''a'', ''b''] [True, True, False] \<noteq> None"
    by code_simp
  then obtain html cap where "autoindex_html (sn_world (site_sample None)) ''/static/<x>/'' ''static/<x>'' [''.'', ''a'', ''b''] [True, True, False] =
      Some (html, cap)" by auto
  then show ?thesis using autoindex_html_in_bounds by blast
qed

end
