(* ===== verification/Views.thy ===== *)
theory Views
  imports Http_Response Template
begin

text \<open>
  The HTML views: \<^verbatim>\<open>view_template_handler\<close> with its ten-second cache of rendered pages
  (\<^verbatim>\<open>src/router/route_table.c\<close>) and \<^verbatim>\<open>http_render_template\<close> (\<^verbatim>\<open>src/http/response_helpers.c\<close>).

  The handler is split where the code stops computing the page and starts to send it: \<open>view_page\<close>
  finds the page in the cache or renders it, \<open>view_template_handler\<close> sends it. The mutex of the cache
  covers each access, so one request reads and writes it atomically.
\<close>

section \<open>Model\<close>

definition HOT_VIEW_CACHE_TTL_SEC :: int where "HOT_VIEW_CACHE_TTL_SEC = 10"

record hot_view_cache_entry_t =
  hv_path :: string
  hv_body :: "string option"
  hv_created_at :: int

definition hot_view_entry :: "string \<Rightarrow> hot_view_cache_entry_t" where
  "hot_view_entry path = \<lparr>hv_path = path, hv_body = None, hv_created_at = 0\<rparr>"

definition g_hot_view_cache :: "hot_view_cache_entry_t list" where
  "g_hot_view_cache =
     [hot_view_entry ''/'', hot_view_entry ''/docs'', hot_view_entry ''/networking'',
      hot_view_entry ''/packages'', hot_view_entry ''/apiroot'']"

record view_ctx =
  vx_http :: http_ctx
  vx_templates :: template_state
  vx_cache :: "hot_view_cache_entry_t list"

text \<open>The moment of a request, and the outcomes of the two \<^verbatim>\<open>strdup\<close> calls of the handler.\<close>

record view_env =
  ve_world :: world
  ve_hit_strdup :: bool
  ve_copy_strdup :: bool

fun find_hot_from :: "hot_view_cache_entry_t list \<Rightarrow> nat \<Rightarrow> string \<Rightarrow> nat option" where
  "find_hot_from [] i path = None"
| "find_hot_from (e # es) i path = (if hv_path e = path then Some i else find_hot_from es (i + 1) path)"

definition find_hot_view_cache_entry :: "hot_view_cache_entry_t list \<Rightarrow> string \<Rightarrow> nat option" where
  "find_hot_view_cache_entry cache path = find_hot_from cache 0 path"

text \<open>\<^verbatim>\<open>cache_entry\<close> of the handler: set when the URL has no query.\<close>

definition view_cache_entry :: "hot_view_cache_entry_t list \<Rightarrow> string \<Rightarrow> nat option" where
  "view_cache_entry cache url = (if strchr url (CHR ''?'') = None then find_hot_view_cache_entry cache url else None)"

definition hot_view_hit :: "hot_view_cache_entry_t list \<Rightarrow> nat option \<Rightarrow> int \<Rightarrow> string option" where
  "hot_view_hit cache entry now =
     (case entry of
        None \<Rightarrow> None
      | Some i \<Rightarrow>
          (case hv_body (cache ! i) of
             None \<Rightarrow> None
           | Some body \<Rightarrow> if now - hv_created_at (cache ! i) \<le> HOT_VIEW_CACHE_TTL_SEC then Some body else None))"

definition hot_view_store ::
  "hot_view_cache_entry_t list \<Rightarrow> nat option \<Rightarrow> int \<Rightarrow> bool \<Rightarrow> string \<Rightarrow> hot_view_cache_entry_t list" where
  "hot_view_store cache entry now strdup_ok output =
     (case entry of
        None \<Rightarrow> cache
      | Some i \<Rightarrow>
          if strdup_ok then cache[i := (cache ! i)\<lparr>hv_body := Some output, hv_created_at := now\<rparr>] else cache)"

definition view_data :: "view_route \<Rightarrow> template_data" where
  "view_data view = \<lparr>td_title = Some (vr_title view), td_page_content = Some (vr_page view),
     td_extra_head_file = Some (vr_extra_head view), td_extra_js_file = Some (vr_extra_js view)\<rparr>"

text \<open>
  \<^verbatim>\<open>template_render_with_data\<close>, and on failure \<^verbatim>\<open>template_render\<close> of the page alone. For a missing
  page name the code goes on with a null output.
\<close>

definition render_or_fallback ::
  "world \<Rightarrow> string \<Rightarrow> template_data \<Rightarrow> template_state \<Rightarrow> string option \<times> template_state" where
  "render_or_fallback w dir data s =
     (case template_render_with_data w dir data s of
        (Some output, s1) \<Rightarrow> (Some output, s1)
      | (None, s1) \<Rightarrow>
          (case td_page_content data of None \<Rightarrow> (None, s1) | Some page \<Rightarrow> template_render w dir page s1))"

datatype view_outcome = Page_cached string | Page_rendered string | Page_error int string

definition view_page :: "string \<Rightarrow> view_env \<Rightarrow> http_request_t \<Rightarrow> view_ctx \<Rightarrow> view_outcome \<times> view_ctx" where
  "view_page dir env req cx =
     (let now = wd_time (ve_world env); entry = view_cache_entry (vx_cache cx) (req_url req) in
      case hot_view_hit (vx_cache cx) entry now of
        Some body \<Rightarrow> (if ve_hit_strdup env then Page_cached body else Page_error 500 ''Out of memory'', cx)
      | None \<Rightarrow>
          (case find_view_route (req_method req) (req_url req) of
             None \<Rightarrow> (Page_error 404 ''Not Found'', cx)
           | Some view \<Rightarrow>
               (case render_or_fallback (ve_world env) dir (view_data view) (vx_templates cx) of
                  (None, ts) \<Rightarrow> (Page_error 500 ''Template rendering failed'', cx\<lparr>vx_templates := ts\<rparr>)
                | (Some output, ts) \<Rightarrow>
                    (Page_rendered output,
                     cx\<lparr>vx_templates := ts,
                        vx_cache := hot_view_store (vx_cache cx) entry now (ve_copy_strdup env) output\<rparr>))))"

definition send_owned_html :: "http_request_t \<Rightarrow> string \<Rightarrow> http_ctx \<Rightarrow> (int \<times> http_ctx) option" where
  "send_owned_html req output hc =
     (let (r, pools) = http_response_create (hc_tid hc) (hc_calloc_ok hc) (hc_pools hc);
          hc1 = hc\<lparr>hc_pools := pools\<rparr>
      in case r of
           None \<Rightarrow> Some (-1, hc1)
         | Some resp \<Rightarrow>
             send_and_free req (http_response_set_body resp (Some output) (length output) True) hc1)"

definition view_template_handler ::
  "string \<Rightarrow> view_env \<Rightarrow> http_request_t \<Rightarrow> view_ctx \<Rightarrow> (int \<times> view_ctx) option" where
  "view_template_handler dir env req cx =
     (let (page, cx1) = view_page dir env req cx;
          sent = (case page of
                    Page_cached cached \<Rightarrow> http_send_html req cached (vx_http cx1)
                  | Page_rendered output \<Rightarrow> send_owned_html req output (vx_http cx1)
                  | Page_error code msg \<Rightarrow> http_send_error req code (Some msg) (vx_http cx1))
      in map_option (\<lambda>(rc, hc). (rc, cx1\<lparr>vx_http := hc\<rparr>)) sent)"

text \<open>
  \<^verbatim>\<open>http_render_template\<close> does not check the output of a request without a page: the process then
  reads through a null pointer and there is no result.
\<close>

definition http_render_template ::
  "string \<Rightarrow> world \<Rightarrow> http_request_t \<Rightarrow> template_data \<Rightarrow> string option \<Rightarrow> view_ctx \<Rightarrow> (int \<times> view_ctx) option" where
  "http_render_template dir w req data fallback cx =
     (let (output, ts) = render_or_fallback w dir data (vx_templates cx);
          cx1 = cx\<lparr>vx_templates := ts\<rparr>
      in map_option (\<lambda>(rc, hc). (rc, cx1\<lparr>vx_http := hc\<rparr>))
           (case output of
              Some text \<Rightarrow> send_owned_html req text (vx_http cx1)
            | None \<Rightarrow>
                if td_page_content data = None then None
                else http_send_error req 500
                       (Some (case fallback of Some m \<Rightarrow> m | None \<Rightarrow> ''Template rendering failed'')) (vx_http cx1)))"

section \<open>The age of a page\<close>

definition page_data :: "string \<Rightarrow> template_data" where
  "page_data page = \<lparr>td_title = Some ''MiniWeb'', td_page_content = Some page, td_extra_head_file = None, td_extra_js_file = None\<rparr>"

text \<open>The page of a URL as the template files of one moment define it.\<close>

definition view_at :: "world \<Rightarrow> string \<Rightarrow> string \<Rightarrow> string \<Rightarrow> bool" where
  "view_at u dir url html \<longleftrightarrow> (\<exists>v \<in> set view_routes. vr_path v = url \<and>
     (render_spec u dir (view_data v) = Some html \<or> render_spec u dir (page_data (vr_page v)) = Some html))"

text \<open>
  Every cached body was stored by a request, and is the page at a moment less than a template
  refresh before it.
\<close>

definition hot_inv :: "string \<Rightarrow> world set \<Rightarrow> hot_view_cache_entry_t list \<Rightarrow> bool" where
  "hot_inv dir W cache \<longleftrightarrow> (\<forall>e \<in> set cache. \<forall>b. hv_body e = Some b \<longrightarrow>
     (\<exists>u \<in> W. hv_created_at e - wd_time u < TEMPLATE_CACHE_TTL_SEC \<and> view_at u dir (hv_path e) b))"

lemma find_hot_from_Some:
  "find_hot_from es i path = Some j \<Longrightarrow> i \<le> j \<and> j - i < length es \<and> hv_path (es ! (j - i)) = path"
proof (induction es arbitrary: i)
  case (Cons e es)
  show ?case
  proof (cases "hv_path e = path")
    case False
    then have "i + 1 \<le> j \<and> j - (i + 1) < length es \<and> hv_path (es ! (j - (i + 1))) = path"
      using Cons by simp
    then show ?thesis by (simp add: nth_Cons split: nat.splits) (metis Suc_diff_Suc Suc_le_eq diff_Suc_Suc nat.inject)
  qed (use Cons.prems in simp)
qed simp

lemma view_cache_entry_Some:
  "view_cache_entry cache url = Some i \<Longrightarrow> i < length cache \<and> hv_path (cache ! i) = url"
  using find_hot_from_Some [of cache 0 url i]
  by (auto simp: view_cache_entry_def find_hot_view_cache_entry_def split: if_splits)

lemma hot_inv_mono: "hot_inv dir W cache \<Longrightarrow> W \<subseteq> V \<Longrightarrow> hot_inv dir V cache"
  by (fastforce simp: hot_inv_def)

lemma hot_inv_store:
  assumes "hot_inv dir W cache" "entry = view_cache_entry cache url"
    and "u \<in> W" "now - wd_time u < TEMPLATE_CACHE_TTL_SEC" "view_at u dir url output"
  shows "hot_inv dir W (hot_view_store cache entry now ok output)"
proof (cases entry)
  case (Some i)
  then have i: "i < length cache" "hv_path (cache ! i) = url" using view_cache_entry_Some assms(2) by auto
  have "e = (cache ! i)\<lparr>hv_body := Some output, hv_created_at := now\<rparr> \<or> e \<in> set cache"
    if "e \<in> set (hot_view_store cache entry now ok output)" for e
    using that Some set_list_update_subset [of cache i] by (auto simp: hot_view_store_def split: if_splits)
  then show ?thesis using assms i unfolding hot_inv_def by fastforce
qed (use assms in \<open>simp add: hot_view_store_def\<close>)

lemma render_or_fallback_from:
  assumes "cache_from dir W s" "wd_time w \<noteq> 0" "render_or_fallback w dir data s = (r, s')"
  shows "cache_from dir (insert w W) s'"
    "r = Some html \<Longrightarrow> \<exists>u \<in> insert w W. wd_time w - wd_time u < TEMPLATE_CACHE_TTL_SEC \<and>
       (render_spec u dir data = Some html \<or> (\<exists>p. td_page_content data = Some p \<and> render_spec u dir (page_data p) = Some html))"
proof -
  obtain r1 s1 where r1: "template_render_with_data w dir data s = (r1, s1)" by fastforce
  have s1: "cache_from dir (insert w W) s1" using cache_from_render [OF assms(1), of w data] r1 by simp
  have r1_spec: "r1 = Some h \<Longrightarrow> \<exists>u \<in> insert w W. wd_time w - wd_time u < TEMPLATE_CACHE_TTL_SEC \<and> render_spec u dir data = Some h" for h
    using render_from [OF assms(1,2), of data h] r1 by simp
  have fb: "cache_from dir (insert w W) (snd (template_render w dir p s1))"
    "fst (template_render w dir p s1) = Some h \<Longrightarrow>
      \<exists>u \<in> insert w W. wd_time w - wd_time u < TEMPLATE_CACHE_TTL_SEC \<and> render_spec u dir (page_data p) = Some h" for p h
    using cache_from_render [OF s1, of w "page_data p"] render_from [OF s1 assms(2), of "page_data p" h]
    by (simp_all add: template_render_def page_data_def insert_absorb2)
  show "cache_from dir (insert w W) s'"
    using assms(3) r1 s1 fb(1) by (auto simp: render_or_fallback_def split: option.splits) (metis snd_conv)
  show "\<exists>u \<in> insert w W. wd_time w - wd_time u < TEMPLATE_CACHE_TTL_SEC \<and>
       (render_spec u dir data = Some html \<or> (\<exists>p. td_page_content data = Some p \<and> render_spec u dir (page_data p) = Some html))"
    if "r = Some html"
    using assms(3) r1 r1_spec fb(2) that
    by (auto simp: render_or_fallback_def split: option.splits) (metis fst_conv insert_iff)+
qed

definition view_inv :: "string \<Rightarrow> world set \<Rightarrow> view_ctx \<Rightarrow> bool" where
  "view_inv dir W cx \<longleftrightarrow> cache_from dir W (vx_templates cx) \<and> hot_inv dir W (vx_cache cx)"

definition page_text :: "view_outcome \<Rightarrow> string option" where
  "page_text p = (case p of Page_cached h \<Rightarrow> Some h | Page_rendered h \<Rightarrow> Some h | Page_error c m \<Rightarrow> None)"

lemma view_inv_mono: "view_inv dir W cx \<Longrightarrow> W \<subseteq> W' \<Longrightarrow> view_inv dir W' cx"
  using cache_from_mono hot_inv_mono by (auto simp: view_inv_def)

lemma hot_view_hit_recent:
  assumes "view_inv dir W cx" "hot_view_hit (vx_cache cx) (view_cache_entry (vx_cache cx) url) now = Some body"
  obtains u where "u \<in> W" "now - wd_time u < 70" "view_at u dir url body"
proof -
  obtain i where i: "view_cache_entry (vx_cache cx) url = Some i" "hv_body (vx_cache cx ! i) = Some body"
    "now - hv_created_at (vx_cache cx ! i) \<le> 10"
    using assms(2) by (auto simp: hot_view_hit_def HOT_VIEW_CACHE_TTL_SEC_def split: option.splits if_splits)
  note j = view_cache_entry_Some [OF i(1)]
  then obtain u where "u \<in> W" "hv_created_at (vx_cache cx ! i) - wd_time u < 60" "view_at u dir url body"
    using assms(1) i(2) nth_mem [of i "vx_cache cx"] by (fastforce simp: view_inv_def hot_inv_def TEMPLATE_CACHE_TTL_SEC_def)
  then show thesis using that i(3) by auto
qed

lemma view_page_render:
  assumes "view_inv dir W cx" "wd_time (ve_world env) \<noteq> 0" "view_page dir env req cx = (page, cx')"
    and miss: "hot_view_hit (vx_cache cx) (view_cache_entry (vx_cache cx) (req_url req)) (wd_time (ve_world env)) = None"
    and route: "find_view_route (req_method req) (req_url req) = Some view"
  shows "view_inv dir (insert (ve_world env) W) cx' \<and> (page_text page = Some html \<longrightarrow>
    (\<exists>u \<in> insert (ve_world env) W. wd_time (ve_world env) - wd_time u < 70 \<and> view_at u dir (req_url req) html))"
proof -
  let ?w = "ve_world env"
  have view: "view \<in> set view_routes" "vr_path view = req_url req"
    using route by (auto simp: find_view_route_def find_Some_iff)
  have mono: "view_inv dir (insert ?w W) cx" using assms(1) by (rule view_inv_mono) blast
  obtain r ts where r: "render_or_fallback ?w dir (view_data view) (vx_templates cx) = (r, ts)" by fastforce
  have cf: "cache_from dir W (vx_templates cx)" using assms(1) by (simp add: view_inv_def)
  note R = render_or_fallback_from [OF cf assms(2) r]
  show ?thesis
  proof (cases r)
    case None
    then show ?thesis using assms(3) miss route r R(1) mono by (auto simp: view_page_def page_text_def view_inv_def)
  next
    case (Some html0)
    obtain u where u: "u \<in> insert ?w W" "wd_time ?w - wd_time u < TEMPLATE_CACHE_TTL_SEC" "view_at u dir (req_url req) html0"
      using R(2) [OF Some] view unfolding view_at_def view_data_def template_data.simps by blast
    have cx': "page = Page_rendered html0" "cx' = cx\<lparr>vx_templates := ts, vx_cache := hot_view_store (vx_cache cx)
        (view_cache_entry (vx_cache cx) (req_url req)) (wd_time ?w) (ve_copy_strdup env) html0\<rparr>"
      using assms(3) miss route r Some by (auto simp: view_page_def Let_def)
    then have "view_inv dir (insert ?w W) cx'" using hot_inv_store [OF _ refl u] mono R(1) by (simp add: view_inv_def)
    moreover have "wd_time ?w - wd_time u < 70" using u(2) by (simp add: TEMPLATE_CACHE_TTL_SEC_def)
    ultimately show ?thesis using u cx'(1) by (auto simp: page_text_def)
  qed
qed

lemma view_page_step:
  assumes "view_inv dir W cx" "wd_time (ve_world env) \<noteq> 0" "view_page dir env req cx = (page, cx')"
  shows "view_inv dir (insert (ve_world env) W) cx'"
    "page_text page = Some html \<Longrightarrow> \<exists>u \<in> insert (ve_world env) W. wd_time (ve_world env) - wd_time u < 70 \<and> view_at u dir (req_url req) html"
proof -
  let ?w = "ve_world env"
  have mono: "view_inv dir (insert ?w W) cx" using assms(1) by (rule view_inv_mono) blast
  have "view_inv dir (insert ?w W) cx' \<and> (page_text page = Some html \<longrightarrow>
      (\<exists>u \<in> insert ?w W. wd_time ?w - wd_time u < 70 \<and> view_at u dir (req_url req) html))"
  proof (cases "hot_view_hit (vx_cache cx) (view_cache_entry (vx_cache cx) (req_url req)) (wd_time ?w)")
    case (Some body)
    obtain u where "u \<in> W" "wd_time ?w - wd_time u < 70" "view_at u dir (req_url req) body"
      by (rule hot_view_hit_recent [OF assms(1) Some])
    then show ?thesis using assms(3) Some mono by (auto simp: view_page_def page_text_def split: if_splits)
  next
    case miss: None
    show ?thesis
    proof (cases "find_view_route (req_method req) (req_url req)")
      case None
      then show ?thesis using assms(3) miss mono by (auto simp: view_page_def page_text_def)
    qed (rule view_page_render [OF assms miss])
  qed
  then show "view_inv dir (insert ?w W) cx'" "page_text page = Some html \<Longrightarrow>
      \<exists>u \<in> insert ?w W. wd_time ?w - wd_time u < 70 \<and> view_at u dir (req_url req) html"
    by auto
qed

section \<open>Sending\<close>

lemma send_owned_html_delivered:
  assumes "can_create hc" "length html < 10 ^ 19"
  shows "send_owned_html req html hc =
    delivered hc (http_message (req_keep_alive req) 200 ''text/html; charset=utf-8'' [] html)"
proof -
  obtain resp pools where r: "http_response_create (hc_tid hc) (hc_calloc_ok hc) (hc_pools hc) = (Some resp, pools)"
    "rs_status_code resp = 200" "rs_content_type resp = ''text/html; charset=utf-8''" "rs_headers resp = []"
    "\<And>r. rs_addr r = rs_addr resp \<Longrightarrow> rs_pool_shard_idx r = rs_pool_shard_idx resp \<Longrightarrow>
       http_response_free (Some r) pools = pools_ready hc"
    by (rule http_response_create_free [OF assms(1)]) blast
  let ?r = "http_response_set_body resp (Some html) (length html) True"
  have "http_response_send req ?r (hc_ws hc) (hc_ps hc) =
      http_response_write_all (http_message (req_keep_alive req) 200 ''text/html; charset=utf-8'' [] html)
        (hc_ws hc) (hc_ps hc)"
    using http_response_send_message [where resp = ?r and body = html and buf = html and extra = "[]" and req = req]
      length_message_lines [of 200 "length html" "req_keep_alive req" "''text/html; charset=utf-8''" "[]"] r assms(2)
    by (simp add: http_response_set_body_def)
  then show ?thesis
    using send_and_free_delivered r by (simp add: send_owned_html_def Let_def http_response_set_body_def)
qed

lemma view_page_http: "vx_http (snd (view_page dir env req cx)) = vx_http cx"
  by (auto simp: view_page_def Let_def split: option.splits prod.splits)

lemma view_template_handler_sends:
  assumes "can_create (vx_http cx)" "page_text (fst (view_page dir env req cx)) = Some html" "length html < 10 ^ 19"
  shows "map_option (\<lambda>(rc, cx'). (rc, vx_http cx')) (view_template_handler dir env req cx) =
    delivered (vx_http cx) (http_message (req_keep_alive req) 200 ''text/html; charset=utf-8'' [] html)"
proof -
  obtain page cx1 where p: "view_page dir env req cx = (page, cx1)" by fastforce
  then have "vx_http cx1 = vx_http cx" using view_page_http [of dir env req cx] by simp
  moreover have "page = Page_cached html \<or> page = Page_rendered html"
    using assms(2) p by (auto simp: page_text_def split: view_outcome.splits)
  ultimately show ?thesis
    using p http_send_html_delivered [OF assms(1,3)] send_owned_html_delivered [OF assms(1,3)]
    by (auto simp: view_template_handler_def option.map_comp comp_def split_beta option.map_ident)
qed

lemma view_template_handler_inv:
  assumes "view_inv dir W cx" "wd_time (ve_world env) \<noteq> 0" "view_template_handler dir env req cx = Some (rc, cx')"
  shows "view_inv dir (insert (ve_world env) W) cx'"
proof -
  obtain page cx1 where p: "view_page dir env req cx = (page, cx1)" by fastforce
  then have "vx_templates cx' = vx_templates cx1 \<and> vx_cache cx' = vx_cache cx1"
    using assms(3) by (auto simp: view_template_handler_def)
  then show ?thesis using view_page_step(1) [OF assms(1,2) p] by (simp add: view_inv_def)
qed

subsection \<open>Histories of requests\<close>

fun views_run :: "string \<Rightarrow> (view_env \<times> http_request_t) list \<Rightarrow> view_ctx \<Rightarrow> view_ctx option" where
  "views_run dir [] cx = Some cx"
| "views_run dir ((env, req) # rs) cx =
     Option.bind (view_template_handler dir env req cx) (\<lambda>(rc, cx'). views_run dir rs cx')"

definition view_start :: "http_ctx \<Rightarrow> view_ctx" where
  "view_start hc = \<lparr>vx_http = hc, vx_templates = template_initial, vx_cache = g_hot_view_cache\<rparr>"

definition run_worlds :: "(view_env \<times> http_request_t) list \<Rightarrow> world set" where
  "run_worlds rs = (ve_world \<circ> fst) ` set rs"

lemma view_inv_start: "view_inv dir {} (view_start hc)"
  by (auto simp: view_inv_def view_start_def cache_from_def template_initial_def hot_inv_def
      g_hot_view_cache_def hot_view_entry_def)

lemma view_inv_run:
  "views_run dir rs cx = Some cx' \<Longrightarrow> view_inv dir W cx \<Longrightarrow> \<forall>w \<in> run_worlds rs. wd_time w \<noteq> 0 \<Longrightarrow>
    view_inv dir (W \<union> run_worlds rs) cx'"
proof (induction rs arbitrary: cx W)
  case (Cons a rs)
  obtain env req rc cx1 where a: "a = (env, req)" "view_template_handler dir env req cx = Some (rc, cx1)"
    "views_run dir rs cx1 = Some cx'"
    using Cons.prems(1) by (cases a) (auto simp: bind_eq_Some_conv)
  have "view_inv dir (insert (ve_world env) W) cx1"
    using view_template_handler_inv [OF Cons.prems(2) _ a(2)] Cons.prems(3) a(1) by (simp add: run_worlds_def)
  moreover have "\<forall>w \<in> run_worlds rs. wd_time w \<noteq> 0" using Cons.prems(3) by (simp add: run_worlds_def)
  ultimately have "view_inv dir (insert (ve_world env) W \<union> run_worlds rs) cx'"
    using Cons.IH [OF a(3)] by blast
  moreover have "insert (ve_world env) W \<union> run_worlds rs = W \<union> run_worlds (a # rs)"
    using a(1) by (auto simp: run_worlds_def)
  ultimately show ?case by simp
qed (simp add: run_worlds_def)

subsection \<open>A sample request\<close>

definition view_sample_world :: world where
  "view_sample_world =
     \<lparr>wd_time = 100,
      wd_readdir = (\<lambda>d. if d = ''t'' then Some [''.'', ''base.html'', ''docs.html''] else None),
      wd_stat = (\<lambda>_. Some \<lparr>st_size = 0, st_mtime = 7, st_isdir = False, st_isreg = True\<rparr>),
      wd_fopen = (\<lambda>p. if p = ''t/base.html'' then Some (sample_stream ''<b>{{title}}</b>{{page_content}}{{extra_js}}'')
                       else if p = ''t/docs.html'' then Some (sample_stream ''docs'') else None)\<rparr>"

definition view_sample_env :: view_env where
  "view_sample_env = \<lparr>ve_world = view_sample_world, ve_hit_strdup = True, ve_copy_strdup = True\<rparr>"

definition view_sample_ctx :: http_ctx where
  "view_sample_ctx = \<lparr>hc_tid = 7, hc_calloc_ok = False, hc_pools = response_pools0,
     hc_registry = \<lparr>routes = [], prefix_routes = []\<rparr>, hc_ws = [Accepts 1000], hc_ps = [], hc_out = []\<rparr>"

definition view_sample_req :: http_request_t where
  "view_sample_req = \<lparr>req_fd = 5, req_method = ''GET'', req_url = ''/docs'', req_version = ''HTTP/1.1'',
     req_keep_alive = True, req_buffer = [], req_buffer_len = 0, req_client_addr = None\<rparr>"

lemma view_sample_can: "can_create view_sample_ctx"
proof -
  have "\<not> rp_initialized (response_pools0 ! response_pool_shard_index 7)"
    using response_pool_shard_index_less [of 7] by (simp add: response_pools0_def)
  then show ?thesis
    using response_pool_inv_fresh by (simp add: can_create_def response_pools0_def view_sample_ctx_def)
qed

lemma view_sample_page:
  "page_text (fst (view_page ''t'' view_sample_env view_sample_req (view_start hc))) = Some ''<b>MiniWeb - Documentation</b>docs''"
proof -
  have r: "find_view_route ''GET'' ''/docs'' = Some \<lparr>vr_method = ''GET'', vr_path = ''/docs'',
      vr_title = ''MiniWeb - Documentation'', vr_page = ''docs.html'',
      vr_extra_head = ''docs_extra_head.html'', vr_extra_js = ''docs_extra_js.html''\<rparr>"
    by (simp add: find_view_route_def view_routes_def)
  have "fst (render_or_fallback view_sample_world ''t'' (view_data \<lparr>vr_method = ''GET'', vr_path = ''/docs'',
      vr_title = ''MiniWeb - Documentation'', vr_page = ''docs.html'',
      vr_extra_head = ''docs_extra_head.html'', vr_extra_js = ''docs_extra_js.html''\<rparr>) template_initial) =
      Some ''<b>MiniWeb - Documentation</b>docs''"
    by code_simp
  then show ?thesis using r
    by (auto simp: view_page_def Let_def view_start_def view_sample_req_def view_sample_env_def g_hot_view_cache_def
        hot_view_entry_def hot_view_hit_def view_cache_entry_def find_hot_view_cache_entry_def page_text_def
        split: option.splits prod.splits)
qed

section \<open>Properties\<close>



end
