(* ===== verification/Heartbeat.thy ===== *)
theory Heartbeat
  imports Interfaces
begin

text \<open>
  The heartbeat scheduler (\<^verbatim>\<open>src/core/heartbeat.c\<close>, \<^verbatim>\<open>heartbeat_schedule.c\<close>, \<^verbatim>\<open>heartbeat_dispatch.c\<close>):
  up to 32 periodic tasks run by one thread.

  The globals are one record; \<^verbatim>\<open>g_hb_lock\<close> makes each operation and each section of the thread one
  atomic step. Callbacks and their contexts are opaque numbers, \<^const>\<open>None\<close> for a null pointer; the
  callbacks run without the lock, so other threads may change the table between two sections: the
  thread is a program counter and the system an interleaving of its sections with the calls of the
  other threads. Times are unbounded integers, the statistics are 64-bit words.
\<close>

section \<open>Model\<close>

definition HB_MAX_TASKS :: nat where "HB_MAX_TASKS = 32"
definition HB_IDLE_WAIT_SEC :: int where "HB_IDLE_WAIT_SEC = 3600"

record hb_task =
  ht_name :: "string option"
  ht_period_sec :: "32 word"
  ht_initial_delay_sec :: "32 word"
  ht_cb :: "nat option"
  ht_ctx :: nat

record hb_task_stats =
  hs_runs :: "64 word"
  hs_overruns :: "64 word"
  hs_last_run :: int
  hs_last_error :: int

record hb_slot_t =
  hl_task :: hb_task
  hl_next_run :: int
  hl_stats :: hb_task_stats
  hl_active :: bool

record hb_globals =
  g_hb_slots :: "hb_slot_t list"
  g_hb_initialized :: bool
  g_hb_running :: bool
  g_hb_stop_requested :: bool
  g_hb_drain_on_stop :: bool

definition zero_hb_stats :: hb_task_stats where
  "zero_hb_stats = \<lparr>hs_runs = 0, hs_overruns = 0, hs_last_run = 0, hs_last_error = 0\<rparr>"

definition zero_hb_slot :: hb_slot_t where
  "zero_hb_slot = \<lparr>hl_task = \<lparr>ht_name = None, ht_period_sec = 0, ht_initial_delay_sec = 0, ht_cb = None, ht_ctx = 0\<rparr>,
     hl_next_run = 0, hl_stats = zero_hb_stats, hl_active = False\<rparr>"

definition hb_globals0 :: hb_globals where
  "hb_globals0 = \<lparr>g_hb_slots = replicate HB_MAX_TASKS zero_hb_slot, g_hb_initialized = False,
     g_hb_running = False, g_hb_stop_requested = False, g_hb_drain_on_stop = False\<rparr>"

datatype hb_register_result = HB_REGISTER_ERROR | HB_REGISTER_DUPLICATE | HB_REGISTER_INSERTED

definition heartbeat_init :: "hb_globals \<Rightarrow> hb_globals" where
  "heartbeat_init g =
     (if g_hb_initialized g then g
      else g\<lparr>g_hb_slots := replicate HB_MAX_TASKS zero_hb_slot, g_hb_initialized := True\<rparr>)"

text \<open>The first slot at or after \<open>i\<close> with a property; the search loops of the operations.\<close>

fun hb_find :: "(hb_slot_t \<Rightarrow> bool) \<Rightarrow> nat \<Rightarrow> hb_slot_t list \<Rightarrow> nat option" where
  "hb_find P i [] = None"
| "hb_find P i (s # ss) = (if P s then Some i else hb_find P (i + 1) ss)"

definition hb_named :: "string \<Rightarrow> hb_slot_t \<Rightarrow> bool" where
  "hb_named name s \<longleftrightarrow> hl_active s \<and> ht_name (hl_task s) = Some name"

definition heartbeat_register :: "hb_task option \<Rightarrow> int \<Rightarrow> hb_globals \<Rightarrow> hb_register_result \<times> hb_globals" where
  "heartbeat_register task now g =
     (case task of
        None \<Rightarrow> (HB_REGISTER_ERROR, g)
      | Some t \<Rightarrow>
          (case ht_name t of
             None \<Rightarrow> (HB_REGISTER_ERROR, g)
           | Some name \<Rightarrow>
               if ht_cb t = None \<or> ht_period_sec t = 0 then (HB_REGISTER_ERROR, g)
               else
                 (let g1 = heartbeat_init g; slots = g_hb_slots g1 in
                  case hb_find (hb_named name) 0 slots of
                    Some i \<Rightarrow> (HB_REGISTER_DUPLICATE, g1)
                  | None \<Rightarrow>
                      (case hb_find (\<lambda>s. \<not> hl_active s) 0 slots of
                         None \<Rightarrow> (HB_REGISTER_ERROR, g1)
                       | Some i \<Rightarrow>
                           (HB_REGISTER_INSERTED,
                            g1\<lparr>g_hb_slots := slots[i := \<lparr>hl_task = t,
                                hl_next_run = now + uint (ht_initial_delay_sec t),
                                hl_stats = zero_hb_stats, hl_active = True\<rparr>]\<rparr>)))))"

definition heartbeat_unregister :: "string option \<Rightarrow> hb_globals \<Rightarrow> int \<times> hb_globals" where
  "heartbeat_unregister name g =
     (case name of
        None \<Rightarrow> (-1, g)
      | Some n \<Rightarrow>
          (let g1 = heartbeat_init g in
           case hb_find (hb_named n) 0 (g_hb_slots g1) of
             None \<Rightarrow> (-1, g1)
           | Some i \<Rightarrow> (0, g1\<lparr>g_hb_slots := (g_hb_slots g1)[i := zero_hb_slot]\<rparr>)))"

definition heartbeat_update ::
  "string option \<Rightarrow> 32 word \<Rightarrow> 32 word \<Rightarrow> nat \<Rightarrow> int \<Rightarrow> hb_globals \<Rightarrow> int \<times> hb_globals" where
  "heartbeat_update name period_sec initial_delay_sec ctx now g =
     (case name of
        None \<Rightarrow> (-1, g)
      | Some n \<Rightarrow>
          if period_sec = 0 then (-1, g)
          else
            (let g1 = heartbeat_init g in
             case hb_find (hb_named n) 0 (g_hb_slots g1) of
               None \<Rightarrow> (-1, g1)
             | Some i \<Rightarrow>
                 (let s = g_hb_slots g1 ! i;
                      t = (hl_task s)\<lparr>ht_period_sec := period_sec, ht_initial_delay_sec := initial_delay_sec, ht_ctx := ctx\<rparr>
                  in (0, g1\<lparr>g_hb_slots := (g_hb_slots g1)[i := s\<lparr>hl_task := t,
                         hl_next_run := now + uint initial_delay_sec\<rparr>]\<rparr>))))"

definition heartbeat_get_stats :: "string option \<Rightarrow> hb_globals \<Rightarrow> hb_task_stats option \<times> hb_globals" where
  "heartbeat_get_stats name g =
     (case name of
        None \<Rightarrow> (None, g)
      | Some n \<Rightarrow>
          (let g1 = heartbeat_init g
           in (map_option (\<lambda>i. hl_stats (g_hb_slots g1 ! i)) (hb_find (hb_named n) 0 (g_hb_slots g1)), g1)))"

definition heartbeat_start :: "bool \<Rightarrow> hb_globals \<Rightarrow> int \<times> hb_globals" where
  "heartbeat_start create_ok g =
     (let g1 = heartbeat_init g in
      if g_hb_running g1 then (0, g1)
      else
        (let g2 = g1\<lparr>g_hb_stop_requested := False, g_hb_drain_on_stop := False\<rparr>
         in if create_ok then (0, g2\<lparr>g_hb_running := True\<rparr>) else (-1, g2)))"

text \<open>The request of \<^verbatim>\<open>heartbeat_shutdown\<close>; the flag says whether the caller goes on to join.\<close>

definition heartbeat_shutdown :: "bool \<Rightarrow> hb_globals \<Rightarrow> bool \<times> hb_globals" where
  "heartbeat_shutdown drain g =
     (let g1 = heartbeat_init g
      in if g_hb_running g1 then (True, g1\<lparr>g_hb_stop_requested := True, g_hb_drain_on_stop := drain\<rparr>) else (False, g1))"

definition heartbeat_stop :: "hb_globals \<Rightarrow> bool \<times> hb_globals" where
  "heartbeat_stop g = heartbeat_shutdown False g"

definition hb_batch_reset :: "hb_task list" where
  "hb_batch_reset = []"

text \<open>Running a batch: its callbacks, in order, after those that ran before.\<close>

definition hb_batch_run :: "hb_task list \<Rightarrow> hb_task list \<Rightarrow> hb_task list" where
  "hb_batch_run batch calls = calls @ batch"

definition hb_batch_push :: "hb_task list \<Rightarrow> hb_task \<Rightarrow> hb_task list" where
  "hb_batch_push batch task = (if HB_MAX_TASKS \<le> length batch then batch else batch @ [task])"

text \<open>What the collection does to one active slot that is due.\<close>

definition hb_missed :: "int \<Rightarrow> hb_slot_t \<Rightarrow> int" where
  "hb_missed now s =
     (let period = uint (ht_period_sec (hl_task s)); elapsed = now - hl_next_run s
      in if 0 < period \<and> 0 < elapsed then elapsed div period else 0)"

definition hb_fire :: "int \<Rightarrow> hb_slot_t \<Rightarrow> hb_slot_t" where
  "hb_fire now s =
     (let missed = hb_missed now s; st = hl_stats s
      in s\<lparr>hl_stats := \<lparr>hs_runs = hs_runs st + 1, hs_overruns = hs_overruns st + word_of_int missed,
                        hs_last_run = now, hs_last_error = 0\<rparr>,
           hl_next_run := hl_next_run s + (missed + 1) * uint (ht_period_sec (hl_task s))\<rparr>)"

fun hb_collect_due_tasks ::
  "int \<Rightarrow> int \<Rightarrow> hb_task list \<Rightarrow> hb_slot_t list \<Rightarrow> int \<times> hb_task list \<times> hb_slot_t list" where
  "hb_collect_due_tasks now wake_at todo [] = (wake_at, todo, [])"
| "hb_collect_due_tasks now wake_at todo (s # ss) =
     (if \<not> hl_active s
      then (let (wk, td, ss') = hb_collect_due_tasks now wake_at todo ss in (wk, td, s # ss'))
      else
        (let wake = (if wake_at = 0 \<or> hl_next_run s < wake_at then hl_next_run s else wake_at) in
         if now < hl_next_run s
         then (let (wk, td, ss') = hb_collect_due_tasks now wake todo ss in (wk, td, s # ss'))
         else (let (wk, td, ss') = hb_collect_due_tasks now wake (hb_batch_push todo (hl_task s)) ss
               in (wk, td, hb_fire now s # ss'))))"

fun hb_collect_all_active :: "int \<Rightarrow> hb_task list \<Rightarrow> hb_slot_t list \<Rightarrow> hb_task list \<times> hb_slot_t list" where
  "hb_collect_all_active now todo [] = (todo, [])"
| "hb_collect_all_active now todo (s # ss) =
     (if \<not> hl_active s then (let (td, ss') = hb_collect_all_active now todo ss in (td, s # ss'))
      else
        (let st = hl_stats s;
             s' = s\<lparr>hl_stats := st\<lparr>hs_runs := hs_runs st + 1, hs_last_run := now, hs_last_error := 0\<rparr>\<rparr>;
             (td, ss') = hb_collect_all_active now (hb_batch_push todo (hl_task s)) ss
         in (td, s' # ss')))"

definition hb_mark_stopped :: "hb_globals \<Rightarrow> hb_globals" where
  "hb_mark_stopped g = g\<lparr>g_hb_running := False, g_hb_stop_requested := False, g_hb_drain_on_stop := False\<rparr>"

text \<open>The second at which the timed wait ends, on the monotonic clock.\<close>

definition hb_wait_for_next_tick :: "int \<Rightarrow> int \<Rightarrow> int \<Rightarrow> int" where
  "hb_wait_for_next_tick mono_sec now wake_at =
     (if wake_at \<noteq> 0 \<and> now < wake_at then mono_sec + (wake_at - now)
      else if wake_at = 0 then mono_sec + HB_IDLE_WAIT_SEC
      else mono_sec)"

text \<open>
  The thread: where it stands between its locked sections. \<open>Hb_head\<close> is the top of the loop (also
  while it waits), \<open>Hb_run\<close> holds a batch it is about to run, \<open>Hb_drain\<close> is the collection of the
  final batch, \<open>Hb_last\<close> holds that batch, \<open>Hb_mark\<close> is the final section.
\<close>

datatype hb_pc = Hb_off | Hb_head | Hb_run "hb_task list" bool bool | Hb_drain | Hb_last "hb_task list" | Hb_mark

text \<open>\<open>hy_calls\<close> is the record of the callbacks that ran, in order.\<close>

record hb_sys =
  hy_g :: hb_globals
  hy_pc :: hb_pc
  hy_calls :: "hb_task list"

fun heartbeat_thread :: "int \<Rightarrow> hb_sys \<Rightarrow> hb_sys" where
  "heartbeat_thread now y =
     (case hy_pc y of
        Hb_off \<Rightarrow> y
      | Hb_head \<Rightarrow>
          (let (wake_at, todo, slots) = hb_collect_due_tasks now 0 hb_batch_reset (g_hb_slots (hy_g y));
               g = (hy_g y)\<lparr>g_hb_slots := slots\<rparr>;
               should_stop = g_hb_stop_requested g; drain = g_hb_drain_on_stop g
           in if todo = [] \<and> \<not> should_stop then y\<lparr>hy_g := g\<rparr>
              else y\<lparr>hy_g := g, hy_pc := Hb_run todo should_stop drain\<rparr>)
      | Hb_run todo should_stop drain \<Rightarrow>
          y\<lparr>hy_calls := hb_batch_run todo (hy_calls y),
            hy_pc := if should_stop then (if drain then Hb_drain else Hb_mark) else Hb_head\<rparr>
      | Hb_drain \<Rightarrow>
          (let (final_tasks, slots) = hb_collect_all_active now hb_batch_reset (g_hb_slots (hy_g y))
           in y\<lparr>hy_g := (hy_g y)\<lparr>g_hb_slots := slots\<rparr>, hy_pc := Hb_last final_tasks\<rparr>)
      | Hb_last final_tasks \<Rightarrow> y\<lparr>hy_calls := hb_batch_run final_tasks (hy_calls y), hy_pc := Hb_mark\<rparr>
      | Hb_mark \<Rightarrow> y\<lparr>hy_g := hb_mark_stopped (hy_g y), hy_pc := Hb_off\<rparr>)"

declare heartbeat_thread.simps [simp del]

declare hb_batch_reset_def [simp] hb_batch_run_def [simp]

text \<open>The system: one step of the thread, or one call of another thread.\<close>

inductive hb_step :: "hb_sys \<Rightarrow> hb_sys \<Rightarrow> bool" where
  hb_thread: "hb_step y (heartbeat_thread now y)"
| hb_register: "hb_step y (y\<lparr>hy_g := snd (heartbeat_register task now (hy_g y))\<rparr>)"
| hb_unregister: "hb_step y (y\<lparr>hy_g := snd (heartbeat_unregister name (hy_g y))\<rparr>)"
| hb_update: "hb_step y (y\<lparr>hy_g := snd (heartbeat_update name period delay ctx now (hy_g y))\<rparr>)"
| hb_get_stats: "hb_step y (y\<lparr>hy_g := snd (heartbeat_get_stats name (hy_g y))\<rparr>)"
| hb_start: "hb_step y (y\<lparr>hy_g := snd (heartbeat_start ok (hy_g y)),
      hy_pc := if \<not> g_hb_running (hy_g y) \<and> ok then Hb_head else hy_pc y\<rparr>)"
| hb_shutdown: "hb_step y (y\<lparr>hy_g := snd (heartbeat_shutdown drain (hy_g y))\<rparr>)"

definition hb_initial :: "hb_sys \<Rightarrow> bool" where
  "hb_initial y \<longleftrightarrow> y = \<lparr>hy_g = hb_globals0, hy_pc = Hb_off, hy_calls = []\<rparr>"

inductive_cases hb_stepE: "hb_step y z"

section \<open>The table\<close>

text \<open>A task that may be called: named, with a callback and a period.\<close>

definition hb_task_ok :: "hb_task \<Rightarrow> bool" where
  "hb_task_ok t \<longleftrightarrow> ht_name t \<noteq> None \<and> ht_cb t \<noteq> None \<and> ht_period_sec t \<noteq> 0"

definition hb_active :: "hb_slot_t list \<Rightarrow> hb_task list" where
  "hb_active ss = map hl_task (filter hl_active ss)"

definition hb_slots_ok :: "hb_slot_t list \<Rightarrow> bool" where
  "hb_slots_ok ss \<longleftrightarrow> length ss = HB_MAX_TASKS \<and> (\<forall>t \<in> set (hb_active ss). hb_task_ok t) \<and>
     distinct (map ht_name (hb_active ss))"

lemma hb_find_SomeD: "hb_find P i ss = Some j \<Longrightarrow> i \<le> j \<and> j - i < length ss \<and> P (ss ! (j - i))"
proof (induction ss arbitrary: i)
  case (Cons s ss)
  show ?case
  proof (cases "P s")
    case False
    then have "i + 1 \<le> j \<and> j - (i + 1) < length ss \<and> P (ss ! (j - (i + 1)))" using Cons by simp
    then show ?thesis by (simp add: nth_Cons split: nat.splits) (metis Suc_diff_Suc Suc_le_eq diff_Suc_Suc nat.inject)
  qed (use Cons.prems in simp)
qed simp

lemma hb_find_None: "hb_find P i ss = None \<Longrightarrow> s \<in> set ss \<Longrightarrow> \<not> P s"
  by (induction ss arbitrary: i) (auto split: if_splits)

lemma hb_active_simps [simp]:
  "hb_active [] = []" "hb_active (s # ss) = (if hl_active s then [hl_task s] else []) @ hb_active ss"
  "hb_active (xs @ ys) = hb_active xs @ hb_active ys"
  by (simp_all add: hb_active_def)

lemma hb_active_update:
  assumes "i < length ss"
  shows "\<exists>xs ys. hb_active ss = xs @ (if hl_active (ss ! i) then [hl_task (ss ! i)] else []) @ ys \<and>
    hb_active (ss[i := s]) = xs @ (if hl_active s then [hl_task s] else []) @ ys"
proof -
  have "hb_active ss = hb_active (take i ss @ ss ! i # drop (Suc i) ss)"
    using id_take_nth_drop [OF assms] by simp
  moreover have "hb_active (ss[i := s]) = hb_active (take i ss @ s # drop (Suc i) ss)"
    using upd_conv_take_nth_drop [OF assms] by simp
  ultimately show ?thesis unfolding hb_active_simps by blast
qed

lemma replicate_ok: "hb_slots_ok (replicate HB_MAX_TASKS zero_hb_slot)"
  by (simp add: hb_slots_ok_def hb_active_def zero_hb_slot_def)

definition hb_globals_ok :: "hb_globals \<Rightarrow> bool" where
  "hb_globals_ok g \<longleftrightarrow> hb_slots_ok (g_hb_slots g)"

lemma heartbeat_init_ok: "hb_globals_ok g \<Longrightarrow> hb_globals_ok (heartbeat_init g)"
  using replicate_ok by (simp add: heartbeat_init_def hb_globals_ok_def)

lemma hb_init_flags [simp]:
  "g_hb_running (heartbeat_init g) = g_hb_running g" "g_hb_stop_requested (heartbeat_init g) = g_hb_stop_requested g"
  by (simp_all add: heartbeat_init_def)

lemma hb_slots_ok_insert:
  assumes "hb_slots_ok ss" "i < length ss" "\<not> hl_active (ss ! i)" "hb_task_ok t" "ht_name t \<notin> ht_name ` set (hb_active ss)"
  shows "hb_slots_ok (ss[i := \<lparr>hl_task = t, hl_next_run = n, hl_stats = st, hl_active = True\<rparr>])"
  using hb_active_update [OF assms(2), of "\<lparr>hl_task = t, hl_next_run = n, hl_stats = st, hl_active = True\<rparr>"] assms
  by (auto simp: hb_slots_ok_def)

lemma hb_slots_ok_clear:
  assumes "hb_slots_ok ss" "i < length ss"
  shows "hb_slots_ok (ss[i := zero_hb_slot])"
  using hb_active_update [OF assms(2), of zero_hb_slot] assms
  by (auto simp: hb_slots_ok_def zero_hb_slot_def split: if_splits)

lemma hb_slots_ok_replace:
  assumes "hb_slots_ok ss" "i < length ss" "hl_active (ss ! i)" "hl_active s" "hb_task_ok (hl_task s)"
    and "ht_name (hl_task s) = ht_name (hl_task (ss ! i))"
  shows "hb_slots_ok (ss[i := s])"
  using hb_active_update [OF assms(2), of s] assms by (auto simp: hb_slots_ok_def)

lemma hb_named_active: "hb_named n s \<Longrightarrow> s \<in> set ss \<Longrightarrow> hl_task s \<in> set (hb_active ss)"
  by (auto simp: hb_named_def hb_active_def)

lemma register_ok: "hb_globals_ok g \<Longrightarrow> hb_globals_ok (snd (heartbeat_register task now g))"
proof -
  assume ok: "hb_globals_ok g"
  let ?g = "heartbeat_init g"
  have ok1: "hb_slots_ok (g_hb_slots ?g)" using heartbeat_init_ok [OF ok] by (simp add: hb_globals_ok_def)
  have "hb_slots_ok ((g_hb_slots ?g)[i := \<lparr>hl_task = t, hl_next_run = n, hl_stats = zero_hb_stats, hl_active = True\<rparr>])"
    if "ht_name t = Some name" "ht_cb t \<noteq> None" "ht_period_sec t \<noteq> 0" "hb_find (hb_named name) 0 (g_hb_slots ?g) = None"
      "hb_find (\<lambda>s. \<not> hl_active s) 0 (g_hb_slots ?g) = Some i" for t name i n
  proof (rule hb_slots_ok_insert [OF ok1])
    show "i < length (g_hb_slots ?g)" "\<not> hl_active (g_hb_slots ?g ! i)" using hb_find_SomeD [OF that(5)] by auto
    show "hb_task_ok t" using that by (simp add: hb_task_ok_def)
    show "ht_name t \<notin> ht_name ` set (hb_active (g_hb_slots ?g))"
      using hb_find_None [OF that(4)] that(1) by (force simp: hb_active_def hb_named_def)
  qed
  then show ?thesis
    using ok ok1 by (auto simp: heartbeat_register_def Let_def hb_globals_ok_def split: option.splits)
qed

lemma unregister_ok: "hb_globals_ok g \<Longrightarrow> hb_globals_ok (snd (heartbeat_unregister name g))"
proof -
  assume ok: "hb_globals_ok g"
  have ok1: "hb_slots_ok (g_hb_slots (heartbeat_init g))" using heartbeat_init_ok [OF ok] by (simp add: hb_globals_ok_def)
  have "hb_slots_ok ((g_hb_slots (heartbeat_init g))[i := zero_hb_slot])"
    if "hb_find (hb_named n) 0 (g_hb_slots (heartbeat_init g)) = Some i" for n i
    using hb_slots_ok_clear [OF ok1, of i] hb_find_SomeD [OF that] by simp
  then show ?thesis
    using ok ok1 by (auto simp: heartbeat_unregister_def Let_def hb_globals_ok_def split: option.splits)
qed

lemma update_ok: "hb_globals_ok g \<Longrightarrow> hb_globals_ok (snd (heartbeat_update name p d c now g))"
proof -
  assume ok: "hb_globals_ok g"
  let ?ss = "g_hb_slots (heartbeat_init g)"
  have ok1: "hb_slots_ok ?ss" using heartbeat_init_ok [OF ok] by (simp add: hb_globals_ok_def)
  have "hb_slots_ok (?ss[i := (?ss ! i)\<lparr>hl_task := (hl_task (?ss ! i))\<lparr>ht_period_sec := p, ht_initial_delay_sec := d, ht_ctx := c\<rparr>,
      hl_next_run := now + uint d\<rparr>])"
    if "hb_find (hb_named n) 0 ?ss = Some i" "p \<noteq> 0" for n i
  proof (rule hb_slots_ok_replace [OF ok1])
    have i: "i < length ?ss" "hb_named n (?ss ! i)" using hb_find_SomeD [OF that(1)] by auto
    then show "i < length ?ss" "hl_active (?ss ! i)" by (auto simp: hb_named_def)
    have "hb_task_ok (hl_task (?ss ! i))"
      using ok1 hb_named_active [OF i(2), of ?ss] i(1) by (simp add: hb_slots_ok_def)
    then show "hb_task_ok (hl_task ((?ss ! i)\<lparr>hl_task := (hl_task (?ss ! i))\<lparr>ht_period_sec := p, ht_initial_delay_sec := d, ht_ctx := c\<rparr>,
      hl_next_run := now + uint d\<rparr>))" using that(2) by (simp add: hb_task_ok_def)
  qed (use hb_find_SomeD [OF that(1)] in \<open>auto simp: hb_named_def\<close>)
  then show ?thesis
    using ok ok1 by (auto simp: heartbeat_update_def Let_def hb_globals_ok_def split: option.splits)
qed

section \<open>Collecting\<close>

definition hb_due :: "int \<Rightarrow> hb_slot_t \<Rightarrow> bool" where
  "hb_due now s \<longleftrightarrow> hl_active s \<and> hl_next_run s \<le> now"

lemma hb_batch_push_room [simp]: "length batch < HB_MAX_TASKS \<Longrightarrow> hb_batch_push batch t = batch @ [t]"
  by (simp add: hb_batch_push_def)

lemma hb_collect_due_eq:
  "length todo + length ss \<le> HB_MAX_TASKS \<Longrightarrow>
    snd (hb_collect_due_tasks now wk todo ss) =
      (todo @ map hl_task (filter (hb_due now) ss), map (\<lambda>s. if hb_due now s then hb_fire now s else s) ss)"
proof (induction ss arbitrary: wk todo)
  case (Cons s ss)
  have IH: "snd (hb_collect_due_tasks now wk todo ss) =
      (todo @ map hl_task (filter (hb_due now) ss), map (\<lambda>s. if hb_due now s then hb_fire now s else s) ss)"
    if "length todo + length ss \<le> HB_MAX_TASKS" for wk todo
    using Cons.IH [OF that] .
  have "hb_batch_push todo (hl_task s) = todo @ [hl_task s]" using Cons.prems by simp
  then show ?case
    using IH [of todo] IH [of "todo @ [hl_task s]"] Cons.prems
    by (auto simp: hb_due_def [of now s] Let_def split_beta prod_eq_iff)
qed simp

lemma hb_collect_all_eq:
  "length todo + length ss \<le> HB_MAX_TASKS \<Longrightarrow>
    fst (hb_collect_all_active now todo ss) = todo @ hb_active ss \<and>
    hb_active (snd (hb_collect_all_active now todo ss)) = hb_active ss \<and>
    length (snd (hb_collect_all_active now todo ss)) = length ss"
proof (induction ss arbitrary: todo)
  case (Cons s ss)
  have "hb_batch_push todo (hl_task s) = todo @ [hl_task s]" using Cons.prems by simp
  then show ?case
    using Cons.IH [of todo] Cons.IH [of "todo @ [hl_task s]"] Cons.prems by (auto simp: Let_def split_beta)
qed simp

lemma hb_fire_task [simp]: "hl_task (hb_fire now s) = hl_task s" "hl_active (hb_fire now s) = hl_active s"
  by (simp_all add: hb_fire_def Let_def)

lemma hb_active_fired: "hb_active (map (\<lambda>s. if hb_due now s then hb_fire now s else s) ss) = hb_active ss"
  by (induction ss) auto

lemma hb_due_active: "set (map hl_task (filter (hb_due now) ss)) \<subseteq> set (hb_active ss)"
  by (auto simp: hb_active_def hb_due_def)

lemma hb_due_distinct:
  assumes "distinct (map ht_name (hb_active ss))"
  shows "distinct (map ht_name (map hl_task (filter (hb_due now) ss)))"
proof -
  have "filter (hb_due now) ss = filter (hb_due now) (filter hl_active ss)"
    by (induction ss) (auto simp: hb_due_def)
  then show ?thesis using assms distinct_map_filter [of "ht_name \<circ> hl_task" "filter hl_active ss" "hb_due now"]
    by (simp add: hb_active_def)
qed

text \<open>The slot of a due task after the collection: one run later, on its own grid, in the future.\<close>

lemma hb_fire_schedule:
  assumes "hl_next_run s \<le> now" "ht_period_sec (hl_task s) \<noteq> 0"
  shows "now < hl_next_run (hb_fire now s) \<and> hl_next_run (hb_fire now s) \<le> now + uint (ht_period_sec (hl_task s)) \<and>
    hl_next_run (hb_fire now s) = hl_next_run s + (1 + hb_missed now s) * uint (ht_period_sec (hl_task s)) \<and>
    0 \<le> hb_missed now s"
proof -
  let ?p = "uint (ht_period_sec (hl_task s))"
  let ?e = "now - hl_next_run s"
  have p: "0 < ?p" using assms(2) by (metis order_le_less uint_0_iff uint_ge_0)
  have e: "0 \<le> ?e" using assms(1) by simp
  have m: "hb_missed now s = ?e div ?p" using p e by (auto simp: hb_missed_def Let_def)
  have "?e = ?e div ?p * ?p + ?e mod ?p" "0 \<le> ?e mod ?p" "?e mod ?p < ?p" using p by simp_all
  moreover have next_run: "hl_next_run (hb_fire now s) = hl_next_run s + (1 + hb_missed now s) * ?p"
    by (simp add: hb_fire_def Let_def add.commute)
  moreover have "(1 + hb_missed now s) * ?p = ?p + ?e div ?p * ?p" using m by (simp add: distrib_right)
  moreover have "0 \<le> hb_missed now s" using m p e by (simp add: pos_imp_zdiv_nonneg_iff)
  ultimately show ?thesis by linarith
qed

text \<open>The earliest next run, for tasks whose next run is not the epoch.\<close>

lemma hb_collect_wake:
  assumes "\<forall>s \<in> set ss. hl_active s \<longrightarrow> hl_next_run s \<noteq> 0"
  shows "let w = fst (hb_collect_due_tasks now wk todo ss) in
    (wk \<noteq> 0 \<longrightarrow> w \<le> wk \<and> w \<noteq> 0) \<and> (\<forall>s \<in> set ss. hl_active s \<longrightarrow> w \<le> hl_next_run s \<and> w \<noteq> 0) \<and>
    (w = wk \<or> (\<exists>s \<in> set ss. hl_active s \<and> w = hl_next_run s))"
  using assms
proof (induction ss arbitrary: wk todo)
  case (Cons s ss)
  have IH: "let w = fst (hb_collect_due_tasks now wk todo ss) in
    (wk \<noteq> 0 \<longrightarrow> w \<le> wk \<and> w \<noteq> 0) \<and> (\<forall>s \<in> set ss. hl_active s \<longrightarrow> w \<le> hl_next_run s \<and> w \<noteq> 0) \<and>
    (w = wk \<or> (\<exists>s \<in> set ss. hl_active s \<and> w = hl_next_run s))" for wk todo
    using Cons by simp
  let ?wk = "if wk = 0 \<or> hl_next_run s < wk then hl_next_run s else wk"
  have "\<exists>td. fst (hb_collect_due_tasks now wk todo (s # ss)) =
      fst (hb_collect_due_tasks now (if hl_active s then ?wk else wk) td ss)"
    by (cases "hl_active s"; cases "now < hl_next_run s") (simp add: Let_def split_beta; blast)+
  then obtain td where "fst (hb_collect_due_tasks now wk todo (s # ss)) =
      fst (hb_collect_due_tasks now (if hl_active s then ?wk else wk) td ss)" ..
  then show ?case
    using IH [of "if hl_active s then ?wk else wk" td] Cons.prems by (auto simp: Let_def split: if_splits)
qed simp

section \<open>The invariant of the scheduler\<close>

definition hb_batch_ok :: "hb_task list \<Rightarrow> bool" where
  "hb_batch_ok b \<longleftrightarrow> length b \<le> HB_MAX_TASKS \<and> (\<forall>t \<in> set b. hb_task_ok t) \<and> distinct (map ht_name b)"

fun hb_pc_ok :: "hb_pc \<Rightarrow> bool" where
  "hb_pc_ok (Hb_run todo stop drain) = hb_batch_ok todo"
| "hb_pc_ok (Hb_last tasks) = hb_batch_ok tasks"
| "hb_pc_ok pc = True"

definition hb_inv :: "hb_sys \<Rightarrow> bool" where
  "hb_inv y \<longleftrightarrow> hb_globals_ok (hy_g y) \<and> (g_hb_running (hy_g y) \<longleftrightarrow> hy_pc y \<noteq> Hb_off) \<and>
     (g_hb_stop_requested (hy_g y) \<longrightarrow> g_hb_running (hy_g y)) \<and> hb_pc_ok (hy_pc y) \<and> (\<forall>t \<in> set (hy_calls y). hb_task_ok t)"

lemma hb_active_length: "length (hb_active ss) \<le> length ss"
  by (simp add: hb_active_def)

lemma hb_collect_due_batch:
  assumes "hb_slots_ok ss" "hb_collect_due_tasks now 0 [] ss = (wk, todo, ss')"
  shows "todo = map hl_task (filter (hb_due now) ss)" "ss' = map (\<lambda>s. if hb_due now s then hb_fire now s else s) ss"
    "hb_slots_ok ss'" "hb_batch_ok todo"
proof -
  have len: "length ss = HB_MAX_TASKS" using assms(1) by (simp add: hb_slots_ok_def)
  show eqs: "todo = map hl_task (filter (hb_due now) ss)" "ss' = map (\<lambda>s. if hb_due now s then hb_fire now s else s) ss"
    using hb_collect_due_eq [of "[]" ss now 0] assms(2) len by simp_all
  show "hb_slots_ok ss'" using assms(1) hb_active_fired [of now ss] eqs(2) by (simp add: hb_slots_ok_def)
  show "hb_batch_ok todo"
    using assms(1) hb_due_active [of now ss] hb_due_distinct [of ss now] len length_filter_le [of "hb_due now" ss] eqs(1)
    by (auto simp: hb_batch_ok_def hb_slots_ok_def)
qed

lemma hb_collect_all_batch:
  assumes "hb_slots_ok ss" "hb_collect_all_active now [] ss = (todo, ss')"
  shows "todo = hb_active ss" "hb_slots_ok ss'" "hb_batch_ok todo"
  using assms hb_collect_all_eq [of "[]" ss now] hb_active_length [of ss]
  by (auto simp: hb_slots_ok_def hb_batch_ok_def)

lemma heartbeat_thread_inv:
  assumes "hb_inv y"
  shows "hb_inv (heartbeat_thread now y)"
proof (cases "hy_pc y")
  case Hb_head
  obtain wk todo ss where c: "hb_collect_due_tasks now 0 [] (g_hb_slots (hy_g y)) = (wk, todo, ss)" by (metis prod.exhaust)
  have "hb_slots_ok (g_hb_slots (hy_g y))" using assms by (simp add: hb_inv_def hb_globals_ok_def)
  note C = hb_collect_due_batch(3,4) [OF this c]
  show ?thesis using assms Hb_head c C
    by (auto simp: heartbeat_thread.simps hb_inv_def hb_globals_ok_def Let_def)
next
  case Hb_drain
  obtain todo ss where c: "hb_collect_all_active now [] (g_hb_slots (hy_g y)) = (todo, ss)" by fastforce
  have "hb_slots_ok (g_hb_slots (hy_g y))" using assms by (simp add: hb_inv_def hb_globals_ok_def)
  note C = hb_collect_all_batch(2,3) [OF this c]
  show ?thesis using assms Hb_drain c C
    by (auto simp: heartbeat_thread.simps hb_inv_def hb_globals_ok_def)
qed (use assms in \<open>auto simp: heartbeat_thread.simps hb_inv_def hb_batch_ok_def hb_mark_stopped_def hb_globals_ok_def\<close>)

lemma hb_ops_flags:
  "g_hb_running (snd (heartbeat_register t now g)) = g_hb_running g"
  "g_hb_stop_requested (snd (heartbeat_register t now g)) = g_hb_stop_requested g"
  "g_hb_running (snd (heartbeat_unregister n g)) = g_hb_running g"
  "g_hb_stop_requested (snd (heartbeat_unregister n g)) = g_hb_stop_requested g"
  "g_hb_running (snd (heartbeat_update n p d c now g)) = g_hb_running g"
  "g_hb_stop_requested (snd (heartbeat_update n p d c now g)) = g_hb_stop_requested g"
  "g_hb_running (snd (heartbeat_get_stats n g)) = g_hb_running g"
  "g_hb_stop_requested (snd (heartbeat_get_stats n g)) = g_hb_stop_requested g"
  "g_hb_running (snd (heartbeat_start ok g)) \<longleftrightarrow> g_hb_running g \<or> ok"
  "g_hb_stop_requested (snd (heartbeat_start ok g)) \<longleftrightarrow> g_hb_running g \<and> g_hb_stop_requested g"
  "g_hb_running (snd (heartbeat_shutdown drain g)) = g_hb_running g"
  "g_hb_stop_requested (snd (heartbeat_shutdown drain g)) \<longleftrightarrow> g_hb_running g \<or> g_hb_stop_requested g"
  by (auto simp: heartbeat_register_def heartbeat_unregister_def heartbeat_update_def heartbeat_get_stats_def
      heartbeat_start_def heartbeat_shutdown_def Let_def split: option.splits)

lemma hb_flag_ops_ok:
  "hb_globals_ok g \<Longrightarrow> hb_globals_ok (snd (heartbeat_get_stats n g))"
  "hb_globals_ok g \<Longrightarrow> hb_globals_ok (snd (heartbeat_start ok g))"
  "hb_globals_ok g \<Longrightarrow> hb_globals_ok (snd (heartbeat_shutdown drain g))"
  using heartbeat_init_ok [of g]
  by (auto simp: heartbeat_get_stats_def heartbeat_start_def heartbeat_shutdown_def hb_globals_ok_def Let_def split: option.splits)

lemma hb_step_inv: "hb_inv y \<Longrightarrow> hb_step y z \<Longrightarrow> hb_inv z"
proof (erule hb_stepE)
  fix now assume "hb_inv y" "z = heartbeat_thread now y"
  then show "hb_inv z" using heartbeat_thread_inv by simp
qed (auto simp: hb_inv_def register_ok unregister_ok update_ok hb_flag_ops_ok hb_ops_flags)

interpretation hb: invariant_system hb_initial hb_step hb_inv
proof unfold_locales
  show "hb_inv s" if "hb_initial s" for s
    using that replicate_ok by (simp add: hb_initial_def hb_inv_def hb_globals_ok_def hb_globals0_def)
  show "hb_inv t" if "hb_inv s" "hb_step s t" for s t
    using hb_step_inv that by blast
qed

section \<open>Ticks\<close>

definition hb_tick :: "hb_slot_t list \<Rightarrow> int \<Rightarrow> hb_slot_t list" where
  "hb_tick ss now = snd (snd (hb_collect_due_tasks now 0 [] ss))"

lemma hb_tick_eq: "hb_slots_ok ss \<Longrightarrow> hb_tick ss now = map (\<lambda>s. if hb_due now s then hb_fire now s else s) ss"
  using hb_collect_due_eq [of "[]" ss now 0] by (simp add: hb_tick_def hb_slots_ok_def)

lemma hb_tick_ok: "hb_slots_ok ss \<Longrightarrow> hb_slots_ok (hb_tick ss now)"
  using hb_active_fired [of now ss] by (simp add: hb_tick_eq hb_slots_ok_def)

lemma hb_slot_task_ok: "hb_slots_ok ss \<Longrightarrow> i < length ss \<Longrightarrow> hl_active (ss ! i) \<Longrightarrow> hb_task_ok (hl_task (ss ! i))"
  by (auto simp: hb_slots_ok_def hb_active_def)

definition hb_count :: "hb_slot_t \<Rightarrow> 64 word" where
  "hb_count s = hs_runs (hl_stats s) + hs_overruns (hl_stats s)"

text \<open>One slot over any number of ticks: as many periods as runs and overruns were counted.\<close>

lemma hb_ticks_slot:
  assumes "hb_slots_ok ss" "i < length ss" "hl_active (ss ! i)"
  shows "\<exists>k. let s = ss ! i; s' = foldl hb_tick ss nows ! i in
    hl_task s' = hl_task s \<and> hl_active s' \<and>
    hl_next_run s' = hl_next_run s + int k * uint (ht_period_sec (hl_task s)) \<and> hb_count s' = hb_count s + of_nat k"
  using assms
proof (induction nows arbitrary: ss)
  case (Cons now nows)
  let ?s = "ss ! i" and ?t = "hb_tick ss now ! i"
  have step: "?t = (if hb_due now ?s then hb_fire now ?s else ?s)"
    using hb_tick_eq [OF Cons.prems(1)] Cons.prems(2) by simp
  have len: "length (hb_tick ss now) = length ss" using hb_tick_eq [OF Cons.prems(1)] by simp
  obtain j where j: "hl_task ?t = hl_task ?s" "hl_active ?t" "hb_count ?t = hb_count ?s + of_nat j"
      "hl_next_run ?t = hl_next_run ?s + int j * uint (ht_period_sec (hl_task ?s))"
  proof (cases "hb_due now ?s")
    case True
    have "hl_next_run ?s \<le> now" "ht_period_sec (hl_task ?s) \<noteq> 0"
      using True hb_slot_task_ok [OF Cons.prems] by (auto simp: hb_due_def hb_task_ok_def)
    note F = hb_fire_schedule [OF this]
    have m0: "0 \<le> hb_missed now ?s" and m: "int (nat (hb_missed now ?s)) = hb_missed now ?s" using F by simp_all
    have "hb_count (hb_fire now ?s) = hb_count ?s + of_nat (Suc (nat (hb_missed now ?s)))"
      using m0 by (simp add: hb_count_def hb_fire_def Let_def)
    then show ?thesis using True step F m m0 Cons.prems(3)
      by (intro that [of "Suc (nat (hb_missed now ?s))"]) (simp_all add: add.commute)
  next
    case False
    then show ?thesis using step Cons.prems(3) by (intro that [of 0]) simp_all
  qed
  obtain k where "let s = ?t; s' = foldl hb_tick (hb_tick ss now) nows ! i in
    hl_task s' = hl_task s \<and> hl_active s' \<and>
    hl_next_run s' = hl_next_run s + int k * uint (ht_period_sec (hl_task s)) \<and> hb_count s' = hb_count s + of_nat k"
    using Cons.IH [OF hb_tick_ok [OF Cons.prems(1), of now] _ j(2)] len Cons.prems(2) by metis
  then show ?case using j by (intro exI [of _ "j + k"]) (simp add: Let_def algebra_simps)
qed (auto intro: exI [of _ 0])

section \<open>Properties\<close>

text \<open>
  C15. The scheduler is safe under every interleaving of its thread with registrations,
  removals, updates, starts and shutdowns: at most 32 tasks are active and no two have the same
  name; the thread is alive exactly while the running flag is set, so it is never started twice;
  a batch never overflows and holds a task at most once; and every callback that runs is a named
  task with a function to call.
\<close>

theorem heartbeat_safe:
  assumes "reach hb_initial hb_step y"
  shows "length (hb_active (g_hb_slots (hy_g y))) \<le> HB_MAX_TASKS \<and>
    distinct (map ht_name (hb_active (g_hb_slots (hy_g y)))) \<and>
    (g_hb_running (hy_g y) \<longleftrightarrow> hy_pc y \<noteq> Hb_off) \<and> hb_pc_ok (hy_pc y) \<and>
    (\<forall>t \<in> set (hy_calls y). ht_name t \<noteq> None \<and> ht_cb t \<noteq> None)"
proof -
  have "hb_inv y" using hb.reach_invar [OF assms] .
  then show ?thesis using hb_active_length [of "g_hb_slots (hy_g y)"]
    by (auto simp: hb_inv_def hb_globals_ok_def hb_slots_ok_def hb_task_ok_def)
qed

definition hb_sample_task :: hb_task where
  "hb_sample_task = \<lparr>ht_name = Some ''ring'', ht_period_sec = 10, ht_initial_delay_sec = 0, ht_cb = Some 1, ht_ctx = 0\<rparr>"

definition hb_sample_sys :: hb_sys where
  "hb_sample_sys = \<lparr>hy_g = snd (heartbeat_register (Some hb_sample_task) 100 hb_globals0), hy_pc = Hb_off, hy_calls = []\<rparr>"

lemma hb_sample_reach: "reach hb_initial hb_step hb_sample_sys"
proof -
  have "reach hb_initial hb_step \<lparr>hy_g = hb_globals0, hy_pc = Hb_off, hy_calls = []\<rparr>"
    by (rule reach_init) (simp add: hb_initial_def)
  from reach_step [OF this hb_register [of _ "Some hb_sample_task" 100]] show ?thesis
    by (simp add: hb_sample_sys_def)
qed

lemma hb_sample_slots:
  "g_hb_slots (hy_g hb_sample_sys) = \<lparr>hl_task = hb_sample_task, hl_next_run = 100, hl_stats = zero_hb_stats, hl_active = True\<rparr> #
     replicate 31 zero_hb_slot"
proof -
  have "replicate 32 zero_hb_slot = zero_hb_slot # replicate 31 zero_hb_slot" by (simp add: eval_nat_numeral)
  moreover have "hb_find (hb_named n) i (replicate k zero_hb_slot) = None" for n i k
    by (induction k arbitrary: i) (auto simp: hb_named_def zero_hb_slot_def)
  ultimately show ?thesis
    by (simp add: hb_sample_sys_def heartbeat_register_def hb_sample_task_def heartbeat_init_def hb_globals0_def HB_MAX_TASKS_def
        hb_named_def Let_def) (simp add: zero_hb_slot_def)
qed

theorem heartbeat_safe_witness:
  "distinct (map ht_name (hb_active (g_hb_slots (hy_g hb_sample_sys)))) \<and>
   hb_active (g_hb_slots (hy_g hb_sample_sys)) = [hb_sample_task]"
  using heartbeat_safe [OF hb_sample_reach] by (simp add: hb_sample_slots) (simp add: hb_active_def zero_hb_slot_def)

text \<open>
  A tick runs what is due and nothing else: the batch is the due tasks in slot order; a due
  task gets its next run on its own grid, after now and at most one period away; all other slots
  stay as they are; and when nothing is due the thread sleeps exactly until the earliest next run.
\<close>

theorem heartbeat_tick_exact:
  assumes "hb_slots_ok ss" "hb_collect_due_tasks now 0 [] ss = (wake_at, todo, ss')"
    and "\<forall>s \<in> set ss. hl_active s \<longrightarrow> hl_next_run s \<noteq> 0"
  shows "todo = map hl_task (filter (hb_due now) ss) \<and>
    (\<forall>i < length ss. if hb_due now (ss ! i)
       then now < hl_next_run (ss' ! i) \<and> hl_next_run (ss' ! i) \<le> now + uint (ht_period_sec (hl_task (ss ! i))) \<and>
            uint (ht_period_sec (hl_task (ss ! i))) dvd hl_next_run (ss' ! i) - hl_next_run (ss ! i)
       else ss' ! i = ss ! i) \<and>
    (todo = [] \<longrightarrow> hb_active ss \<noteq> [] \<longrightarrow>
       (\<exists>s \<in> set ss. hl_active s \<and> hb_wait_for_next_tick mono_sec now wake_at = mono_sec + (hl_next_run s - now) \<and>
          (\<forall>s' \<in> set ss. hl_active s' \<longrightarrow> hl_next_run s \<le> hl_next_run s')))"
proof (intro conjI allI impI)
  note C = hb_collect_due_batch [OF assms(1,2)]
  show todo: "todo = map hl_task (filter (hb_due now) ss)" by (rule C(1))
  show "if hb_due now (ss ! i)
       then now < hl_next_run (ss' ! i) \<and> hl_next_run (ss' ! i) \<le> now + uint (ht_period_sec (hl_task (ss ! i))) \<and>
            uint (ht_period_sec (hl_task (ss ! i))) dvd hl_next_run (ss' ! i) - hl_next_run (ss ! i)
       else ss' ! i = ss ! i" if i: "i < length ss" for i
  proof (cases "hb_due now (ss ! i)")
    case True
    then have "hl_next_run (ss ! i) \<le> now" "ht_period_sec (hl_task (ss ! i)) \<noteq> 0"
      using hb_slot_task_ok [OF assms(1) i] by (auto simp: hb_due_def hb_task_ok_def)
    from hb_fire_schedule [OF this] show ?thesis using True C(2) i by simp
  qed (use C(2) i in simp)
  assume none: "todo = []" "hb_active ss \<noteq> []"
  have W: "(\<forall>s \<in> set ss. hl_active s \<longrightarrow> wake_at \<le> hl_next_run s \<and> wake_at \<noteq> 0) \<and>
      (wake_at = 0 \<or> (\<exists>s \<in> set ss. hl_active s \<and> wake_at = hl_next_run s))"
    using hb_collect_wake [OF assms(3), of now 0 "[]"] assms(2) by (simp add: Let_def)
  obtain a where a: "a \<in> set ss" "hl_active a" using none(2) by (auto simp: hb_active_def filter_empty_conv)
  then obtain s where s: "s \<in> set ss" "hl_active s" "wake_at = hl_next_run s" "wake_at \<noteq> 0" using W by auto
  have "\<not> hb_due now s" using none(1) todo s(1) by (auto simp: filter_empty_conv)
  then have "now < wake_at" using s by (simp add: hb_due_def)
  then show "\<exists>s \<in> set ss. hl_active s \<and> hb_wait_for_next_tick mono_sec now wake_at = mono_sec + (hl_next_run s - now) \<and>
          (\<forall>s' \<in> set ss. hl_active s' \<longrightarrow> hl_next_run s \<le> hl_next_run s')"
    using s W by (intro bexI [of _ s]) (auto simp: hb_wait_for_next_tick_def)
qed

theorem heartbeat_tick_exact_witness:
  "\<exists>wake_at todo ss'. hb_collect_due_tasks 125 0 [] (g_hb_slots (hy_g hb_sample_sys)) = (wake_at, todo, ss') \<and>
     todo = [hb_sample_task] \<and> 125 < hl_next_run (ss' ! 0) \<and> hl_next_run (ss' ! 0) \<le> 135"
proof -
  let ?ss = "g_hb_slots (hy_g hb_sample_sys)"
  obtain wk todo ss' where c: "hb_collect_due_tasks 125 0 [] ?ss = (wk, todo, ss')" by (metis prod.exhaust)
  have ok: "hb_slots_ok ?ss"
    by (auto simp: hb_sample_slots hb_slots_ok_def HB_MAX_TASKS_def hb_active_def zero_hb_slot_def hb_task_ok_def hb_sample_task_def)
  have "\<forall>s \<in> set ?ss. hl_active s \<longrightarrow> hl_next_run s \<noteq> 0" by (auto simp: hb_sample_slots zero_hb_slot_def)
  note T = heartbeat_tick_exact [OF ok c this]
  have due: "hb_due 125 (?ss ! 0)" by (simp add: hb_sample_slots hb_due_def)
  have p: "uint (ht_period_sec (hl_task (?ss ! 0))) = 10" by (simp add: hb_sample_slots hb_sample_task_def)
  have "todo = [hb_sample_task]" using T by (simp add: hb_sample_slots hb_due_def zero_hb_slot_def)
  moreover have "125 < hl_next_run (ss' ! 0) \<and> hl_next_run (ss' ! 0) \<le> 135"
    using T [THEN conjunct2, THEN conjunct1, rule_format, of 0] due p by (simp add: hb_sample_slots)
  ultimately show ?thesis using c by blast
qed

text \<open>
  The schedule does not drift: over any sequence of ticks, late ones included, a task's next
  run moves by a whole number of periods, and that number is what its counters of runs and
  overruns advanced by, so no period is lost or counted twice.
\<close>

theorem heartbeat_no_drift:
  assumes "hb_slots_ok ss" "i < length ss" "hl_active (ss ! i)"
  shows "\<exists>k. hl_next_run (foldl hb_tick ss nows ! i) =
      hl_next_run (ss ! i) + int k * uint (ht_period_sec (hl_task (ss ! i))) \<and>
    hs_runs (hl_stats (foldl hb_tick ss nows ! i)) + hs_overruns (hl_stats (foldl hb_tick ss nows ! i)) =
      hs_runs (hl_stats (ss ! i)) + hs_overruns (hl_stats (ss ! i)) + of_nat k"
  using hb_ticks_slot [OF assms, of nows] by (auto simp: Let_def hb_count_def)

theorem heartbeat_no_drift_witness:
  "\<exists>k. hl_next_run (foldl hb_tick (g_hb_slots (hy_g hb_sample_sys)) [101, 139, 140] ! 0) = 100 + int k * 10"
proof -
  have ok: "hb_slots_ok (g_hb_slots (hy_g hb_sample_sys))"
    by (auto simp: hb_sample_slots hb_slots_ok_def HB_MAX_TASKS_def hb_active_def zero_hb_slot_def hb_task_ok_def hb_sample_task_def)
  then show ?thesis using heartbeat_no_drift [OF ok, of 0 "[101, 139, 140]"]
    by (auto simp: hb_sample_slots hb_sample_task_def)
qed

text \<open>
  A shutdown ends the thread: once a stop was requested, the sections of the thread from the
  top of its loop run the due tasks, then with draining every active task once more, and leave the
  thread dead with its flags cleared, at the latest after five sections.
\<close>

theorem heartbeat_shutdown_drains:
  assumes "hb_slots_ok (g_hb_slots (hy_g y))" "hy_pc y = Hb_head"
    and "g_hb_stop_requested (hy_g y)" "g_hb_drain_on_stop (hy_g y) = drain"
  shows "let due = map hl_task (filter (hb_due t) (g_hb_slots (hy_g y)));
      z = (if drain then foldl (\<lambda>y now. heartbeat_thread now y) y [t, t2, t3, t4, t5] else foldl (\<lambda>y now. heartbeat_thread now y) y [t, t2, t3])
    in hy_pc z = Hb_off \<and> \<not> g_hb_running (hy_g z) \<and> \<not> g_hb_stop_requested (hy_g z) \<and>
       hy_calls z = hy_calls y @ due @ (if drain then hb_active (g_hb_slots (hy_g y)) else [])"
proof -
  let ?ss = "g_hb_slots (hy_g y)"
  obtain wk todo ss where c: "hb_collect_due_tasks t 0 [] ?ss = (wk, todo, ss)" by (metis prod.exhaust)
  note C = hb_collect_due_batch [OF assms(1) c]
  obtain fin ss' where f: "hb_collect_all_active t3 [] ss = (fin, ss')" by fastforce
  have fin: "fin = hb_active ?ss" using hb_collect_all_batch(1) [OF C(3) f] hb_active_fired [of t ?ss] C(2) by simp
  show ?thesis
    using assms(2-4) c C(1) f fin by (cases drain) (simp_all add: heartbeat_thread.simps hb_mark_stopped_def)
qed

theorem heartbeat_shutdown_drains_witness:
  "hy_calls (foldl (\<lambda>y now. heartbeat_thread now y)
      (hb_sample_sys\<lparr>hy_pc := Hb_head, hy_g := (hy_g hb_sample_sys)\<lparr>g_hb_running := True, g_hb_stop_requested := True, g_hb_drain_on_stop := True\<rparr>\<rparr>)
      [90, 91, 92, 93, 94]) = [hb_sample_task]"
proof -
  let ?y = "hb_sample_sys\<lparr>hy_pc := Hb_head, hy_g := (hy_g hb_sample_sys)\<lparr>g_hb_running := True, g_hb_stop_requested := True, g_hb_drain_on_stop := True\<rparr>\<rparr>"
  have ok: "hb_slots_ok (g_hb_slots (hy_g ?y))"
    by (auto simp: hb_sample_slots hb_slots_ok_def HB_MAX_TASKS_def hb_active_def zero_hb_slot_def hb_task_ok_def hb_sample_task_def)
  show ?thesis
    using heartbeat_shutdown_drains [OF ok, of True 90 91 92 93 94]
    by (simp add: hb_sample_slots hb_due_def zero_hb_slot_def Let_def) (simp add: hb_sample_sys_def hb_active_def)
qed

end
