(* ===== verification/Subprocess.thy ===== *)
theory Subprocess
  imports World
begin

text \<open>
  Running a program and reading its output (\<^verbatim>\<open>src/http/utils_subprocess.c\<close>). The child is outside
  the model: what the parent sees of it is a list with one entry per round of its loop, the time
  and the outcomes of \<^verbatim>\<open>poll\<close> and \<^verbatim>\<open>read\<close>. A result \<open>None\<close> of the loop means that the list ended
  before the code did. The signal sent to a child that is too slow is part of the result; the
  child is always waited for.
\<close>

section \<open>Model\<close>

datatype pipe_read = Pipe_bytes bytes | Pipe_again | Pipe_error
  \<comment> \<open>\<open>Pipe_bytes b\<close>: the pipe holds \<open>b\<close>, end of file when empty\<close>

datatype pipe_poll = Pipe_timeout | Pipe_poll_eintr | Pipe_poll_error | Pipe_events bool bool
  \<comment> \<open>\<open>Pipe_events in_ready hup\<close>: POLLIN, and POLLERR or POLLHUP\<close>

record pipe_round =
  rd_now :: int
  rd_poll :: pipe_poll
  rd_read :: pipe_read

record spawn_env =
  sp_pipe_ok :: bool
  sp_fork_ok :: bool
  sp_malloc_ok :: bool
  sp_start :: int
  sp_rounds :: "pipe_round list"

record spawn_result =
  sr_output :: "bytes option"
  sr_len :: "nat option"
  sr_killed :: bool

text \<open>The reading loop; its result is the flag \<^verbatim>\<open>timed_out\<close> and the buffer.\<close>

fun spawn_loop :: "nat \<Rightarrow> int \<Rightarrow> bytes \<Rightarrow> pipe_round list \<Rightarrow> (bool \<times> bytes) option" where
  "spawn_loop max_size deadline buf [] = (if length buf < max_size then None else Some (False, buf))"
| "spawn_loop max_size deadline buf (r # rs) =
     (if \<not> length buf < max_size then Some (False, buf)
      else if deadline \<le> rd_now r then Some (True, buf)
      else
        (case rd_poll r of
           Pipe_timeout \<Rightarrow> Some (True, buf)
         | Pipe_poll_eintr \<Rightarrow> spawn_loop max_size deadline buf rs
         | Pipe_poll_error \<Rightarrow> Some (False, buf)
         | Pipe_events in_ready hup \<Rightarrow>
             if in_ready
             then (case rd_read r of
                     Pipe_again \<Rightarrow> spawn_loop max_size deadline buf rs
                   | Pipe_error \<Rightarrow> Some (False, buf)
                   | Pipe_bytes b \<Rightarrow>
                       (let data = take (max_size - length buf) b in
                        if data = [] then Some (False, buf)
                        else if hup then Some (False, buf @ data)
                        else spawn_loop max_size deadline (buf @ data) rs))
             else if hup then Some (False, buf)
             else spawn_loop max_size deadline buf rs))"

definition no_spawn :: spawn_result where
  "no_spawn = \<lparr>sr_output = None, sr_len = None, sr_killed = False\<rparr>"

definition safe_popen_read_argv :: "spawn_env \<Rightarrow> nat \<Rightarrow> int \<Rightarrow> spawn_result option" where
  "safe_popen_read_argv env max_size timeout_seconds =
     (if \<not> sp_pipe_ok env \<or> \<not> sp_fork_ok env then Some no_spawn
      else if \<not> sp_malloc_ok env then Some (no_spawn\<lparr>sr_killed := True\<rparr>)
      else
        (let deadline = sp_start env + (if 0 < timeout_seconds then timeout_seconds else 5)
         in map_option (\<lambda>(timed_out, buf).
                \<lparr>sr_output = (if timed_out \<or> buf = [] then None else Some buf),
                 sr_len = Some (length buf), sr_killed = timed_out\<rparr>)
              (spawn_loop max_size deadline [] (sp_rounds env))))"

definition safe_popen_read :: "spawn_env \<Rightarrow> nat \<Rightarrow> spawn_result option" where
  "safe_popen_read env max_size = safe_popen_read_argv env max_size 5"

section \<open>Lemmas\<close>

text \<open>What the child wrote, as far as the parent was told.\<close>

fun pipe_stream :: "pipe_round list \<Rightarrow> bytes" where
  "pipe_stream [] = []"
| "pipe_stream (r # rs) =
     (case (rd_poll r, rd_read r) of (Pipe_events True hup, Pipe_bytes b) \<Rightarrow> b @ pipe_stream rs | _ \<Rightarrow> pipe_stream rs)"

lemma spawn_loop_full: "spawn_loop max_size deadline buf rs = Some (timed_out, out) \<Longrightarrow> max_size \<le> length buf \<Longrightarrow> out = buf"
  by (cases rs) (auto split: if_splits)

text \<open>One round takes nothing or what fits of the bytes that the pipe gives, and ends the loop or goes on.\<close>

lemma spawn_loop_round:
  assumes "spawn_loop max_size deadline buf (r # rs) = Some (timed_out, out)"
  obtains b where "pipe_stream (r # rs) = b @ pipe_stream rs" "out = buf \<or> out = buf @ take (max_size - length buf) b \<or>
      spawn_loop max_size deadline (buf @ take (max_size - length buf) b) rs = Some (timed_out, out)"
proof (cases "\<exists>hup b. rd_poll r = Pipe_events True hup \<and> rd_read r = Pipe_bytes b")
  case True
  then obtain hup b where "rd_poll r = Pipe_events True hup" "rd_read r = Pipe_bytes b" by blast
  then show thesis using that [of b] assms by (auto simp: Let_def split: if_splits)
next
  case False
  then have "pipe_stream (r # rs) = pipe_stream rs" by (auto split: pipe_poll.split pipe_read.split bool.split)
  moreover have "out = buf \<or> spawn_loop max_size deadline buf rs = Some (timed_out, out)"
    using assms False by (auto split: if_splits pipe_poll.splits pipe_read.splits)
  ultimately show thesis using that [of "[]"] by auto
qed

lemma spawn_loop_prefix:
  "spawn_loop max_size deadline buf rs = Some (timed_out, out) \<Longrightarrow> length buf \<le> max_size \<Longrightarrow>
    length out \<le> max_size \<and> prefix out (buf @ pipe_stream rs)"
proof (induction rs arbitrary: buf)
  case Nil
  then show ?case by (auto split: if_splits)
next
  case (Cons r rs)
  from spawn_loop_round [OF Cons.prems(1)] obtain b where b: "pipe_stream (r # rs) = b @ pipe_stream rs"
    "out = buf \<or> out = buf @ take (max_size - length buf) b \<or>
      spawn_loop max_size deadline (buf @ take (max_size - length buf) b) rs = Some (timed_out, out)" by blast
  let ?buf = "buf @ take (max_size - length buf) b"
  have len: "length ?buf \<le> max_size" using Cons.prems(2) by auto
  have sub: "prefix ?buf (buf @ b @ pipe_stream rs)" by (simp add: take_is_prefix prefix_prefix)
  have more: "length out \<le> max_size \<and> prefix out (buf @ b @ pipe_stream rs)"
    if loop: "spawn_loop max_size deadline ?buf rs = Some (timed_out, out)"
  proof (cases "length b \<le> max_size - length buf")
    case True
    then show ?thesis using Cons.IH [OF loop len] by simp
  next
    case False
    then have "out = ?buf" using spawn_loop_full [OF loop] Cons.prems(2) by simp
    then show ?thesis using len sub by simp
  qed
  show ?case unfolding b(1) using b(2) more len sub Cons.prems(2) by auto
qed

text \<open>The result of a run: nothing was started, or what was read before the end or the deadline.\<close>

lemma safe_popen_result:
  assumes "safe_popen_read_argv env max_size timeout_seconds = Some r"
  obtains "sr_output r = None" "\<forall>n. sr_len r = Some n \<longrightarrow> n = 0"
  | t buf where "r = \<lparr>sr_output = (if t \<or> buf = [] then None else Some buf), sr_len = Some (length buf), sr_killed = t\<rparr>"
    "length buf \<le> max_size" "prefix buf (pipe_stream (sp_rounds env))"
proof (cases "sp_pipe_ok env \<and> sp_fork_ok env \<and> sp_malloc_ok env")
  case False
  then show thesis using assms that(1) by (auto simp: safe_popen_read_argv_def no_spawn_def split: if_splits)
next
  case True
  then obtain t buf where "spawn_loop max_size (sp_start env + (if 0 < timeout_seconds then timeout_seconds else 5)) [] (sp_rounds env) =
      Some (t, buf)" and r: "r = \<lparr>sr_output = (if t \<or> buf = [] then None else Some buf), sr_len = Some (length buf), sr_killed = t\<rparr>"
    using assms by (auto simp: safe_popen_read_argv_def Let_def split: if_splits)
  then have "length buf \<le> max_size \<and> prefix buf (pipe_stream (sp_rounds env))"
    using spawn_loop_prefix [of max_size _ "[]"] by fastforce
  then show thesis using r that(2) by blast
qed

section \<open>Properties\<close>



end
