(* ===== verification/Query_String.thy ===== *)
theory Query_String
  imports Http_Utils
begin

text \<open>
  Reading a parameter from the query string of a URL. The packages module and the manual page
  module each carry a copy of this code (\<^verbatim>\<open>get_query_value\<close> and the static \<^verbatim>\<open>url_decode_into\<close> of
  \<^verbatim>\<open>src/modules/packages/packages_module.c\<close>, \<^verbatim>\<open>man_get_query_value\<close> and the static
  \<^verbatim>\<open>url_decode_into\<close> of \<^verbatim>\<open>src/modules/man/man_query.c\<close>); the copies differ in the size of the
  buffer for the encoded value and in what their callers do with a value that does not fit.
\<close>

section \<open>Model\<close>

definition isxdigit :: "char \<Rightarrow> bool" where
  "isxdigit c \<longleftrightarrow> 0 \<le> hex_value c"

text \<open>The result is whether all was decoded, and the bytes written to the output.\<close>

fun url_decode_into_loop :: "nat \<Rightarrow> nat \<Rightarrow> string \<Rightarrow> bool \<times> bytes" where
  "url_decode_into_loop dst_size di [] = (True, [])"
| "url_decode_into_loop dst_size di (c # src) =
     (if dst_size \<le> di + 1 then (False, [])
      else if c = CHR ''+'' then map_prod id ((#) (CHR '' '')) (url_decode_into_loop dst_size (di + 1) src)
      else
        (case src of
           h # l # rest \<Rightarrow>
             if c = CHR ''%'' \<and> isxdigit h \<and> isxdigit l
             then map_prod id ((#) (char_of (16 * nat (hex_value h) + nat (hex_value l))))
                    (url_decode_into_loop dst_size (di + 1) rest)
             else map_prod id ((#) c) (url_decode_into_loop dst_size (di + 1) src)
         | _ \<Rightarrow> map_prod id ((#) c) (url_decode_into_loop dst_size (di + 1) src)))"

definition url_decode_into :: "string \<Rightarrow> nat \<Rightarrow> bool \<times> bytes" where
  "url_decode_into src dst_size = (if dst_size = 0 then (False, []) else url_decode_into_loop dst_size 0 src)"

text \<open>
  The loop over the entries of the query; an entry ends at the next \<^verbatim>\<open>&\<close>. The result is \<open>None\<close> when
  the output is left alone.
\<close>

function query_loop :: "nat \<Rightarrow> string \<Rightarrow> nat \<Rightarrow> string \<Rightarrow> (bool \<times> bytes) option" where
  "query_loop encoded_size key out_size qs =
     (if qs = [] then None
      else
        (let amp = (case strchr qs (CHR ''&'') of Some i \<Rightarrow> i | None \<Rightarrow> length qs);
             next_qs = drop (amp + 1) qs
         in case strchr qs (CHR ''='') of
              None \<Rightarrow> query_loop encoded_size key out_size next_qs
            | Some eq \<Rightarrow>
                if amp < eq then query_loop encoded_size key out_size next_qs
                else if eq = length key \<and> take eq qs = key
                then (let encoded = take (amp - (eq + 1)) (drop (eq + 1) qs)
                      in if encoded_size \<le> length encoded then None
                         else Some (url_decode_into encoded out_size))
                else query_loop encoded_size key out_size next_qs))"
  by pat_completeness auto

termination by (relation "measure (\<lambda>(encoded_size, key, out_size, qs). length qs)") auto

declare query_loop.simps [simp del]

definition query_value :: "nat \<Rightarrow> string \<Rightarrow> string \<Rightarrow> nat \<Rightarrow> (bool \<times> bytes) option" where
  "query_value encoded_size url key out_size =
     (if out_size = 0 then None
      else (case strchr url (CHR ''?'') of
              None \<Rightarrow> None
            | Some i \<Rightarrow> query_loop encoded_size key out_size (drop (i + 1) url)))"

section \<open>Encoded query strings\<close>

definition query_entry :: "string \<times> string \<Rightarrow> string" where
  "query_entry p = fst p @ ''='' @ url_encode (snd p)"

fun query_string :: "(string \<times> string) list \<Rightarrow> string" where
  "query_string [] = []"
| "query_string [p] = query_entry p"
| "query_string (p # ps) = query_entry p @ ''&'' @ query_string ps"

definition sendable :: "nat \<Rightarrow> nat \<Rightarrow> string \<times> string \<Rightarrow> bool" where
  "sendable m n p \<longleftrightarrow> CHR ''='' \<notin> set (fst p) \<and> CHR ''&'' \<notin> set (fst p) \<and> NUL \<notin> set (snd p) \<and>
     length (snd p) < n \<and> length (url_encode (snd p)) < m"

lemma url_encode_chars: "CHR ''='' \<notin> set (url_encode v)" "CHR ''&'' \<notin> set (url_encode v)"
proof -
  have hex: "hex_digit (chr_code c div 16) \<noteq> CHR ''=''" "hex_digit (chr_code c mod 16) \<noteq> CHR ''=''"
    "hex_digit (chr_code c div 16) \<noteq> CHR ''&''" "hex_digit (chr_code c mod 16) \<noteq> CHR ''&''" for c
    using chr_code_hex_digit [OF chr_code_parts(1) [of c]] chr_code_hex_digit [OF chr_code_parts(2) [of c]]
    by (auto simp: chr_code_def split: if_splits)
  have alnum: "\<not> isalnum (CHR ''='')" "\<not> isalnum (CHR ''&'')"
    by (simp_all add: isalnum_def isdigit_def isupper_def islower_def chr_code_def)
  have "CHR ''='' \<notin> set (url_encode_char c) \<and> CHR ''&'' \<notin> set (url_encode_char c)" for c
    using hex [of c] alnum by (auto simp: url_encode_char_def simp flip: hex)
  then show "CHR ''='' \<notin> set (url_encode v)" "CHR ''&'' \<notin> set (url_encode v)"
    by (auto simp: url_encode_def)
qed

lemma url_decode_into_char:
  assumes "out + 1 < n"
  shows "url_decode_into_loop n out (url_encode_char c @ s) = map_prod id ((#) c) (url_decode_into_loop n (out + 1) s)"
proof (cases "isalnum c \<or> c \<in> {CHR ''-'', CHR ''.'', CHR ''_'', CHR ''~''}")
  case True
  moreover have "c \<noteq> CHR ''%''" "c \<noteq> CHR ''+''"
    using True by (auto simp: isalnum_def isdigit_def isupper_def islower_def chr_code_def)
  ultimately show ?thesis using assms by (auto simp: url_encode_char_def split: list.splits)
next
  case False
  then show ?thesis using assms chr_code_parts [of c] by (simp add: url_encode_char_def isxdigit_def)
qed

lemma url_decode_into_encode: "length v < n \<Longrightarrow> url_decode_into (url_encode v) n = (True, v)"
proof -
  have "out + length v < n \<Longrightarrow> url_decode_into_loop n out (concat (map url_encode_char v)) = (True, v)" for out
    by (induction v arbitrary: out) (simp_all add: url_decode_into_char)
  from this [of 0] show "length v < n \<Longrightarrow> ?thesis" by (auto simp: url_decode_into_def url_encode_def)
qed

text \<open>One entry at the front of the query, followed by nothing or by more entries.\<close>

lemma query_loop_entry:
  assumes "sendable m n p" "rest = [] \<or> rest = CHR ''&'' # tl_qs" "rest = [] \<Longrightarrow> tl_qs = []"
  shows "query_loop m key n (query_entry p @ rest) = (if fst p = key then Some (True, snd p) else query_loop m key n tl_qs)"
proof -
  let ?e = "url_encode (snd p)"
  let ?qs = "query_entry p @ rest"
  let ?amp = "length (fst p) + 1 + length ?e"
  have qs: "?qs = fst p @ CHR ''='' # ?e @ rest" by (simp add: query_entry_def)
  have fresh: "CHR ''='' \<notin> set (fst p)" "CHR ''&'' \<notin> set (fst p)" "CHR ''&'' \<notin> set ?e"
    using assms(1) url_encode_chars by (auto simp: sendable_def)
  have eq: "strchr ?qs (CHR ''='') = Some (length (fst p))" using fresh by (simp add: qs)
  have amp: "(case strchr ?qs (CHR ''&'') of Some i \<Rightarrow> i | None \<Rightarrow> length ?qs) = ?amp"
    using fresh assms(2) by (auto simp: qs query_entry_def strchr_None_iff [THEN iffD2])
  have next_qs: "drop (?amp + 1) ?qs = tl_qs" using assms(2,3) by (auto simp: qs)
  have val: "take (?amp - (length (fst p) + 1)) (drop (length (fst p) + 1) ?qs) = ?e" by (simp add: qs)
  have key: "length (fst p) = length key \<and> take (length (fst p)) ?qs = key \<longleftrightarrow> fst p = key" by (auto simp: qs)
  have dec: "url_decode_into ?e n = (True, snd p)" "length ?e < m"
    using assms(1) url_decode_into_encode [of "snd p" n] by (auto simp: sendable_def c_str_def takeWhile_eq_all_conv)
  show ?thesis
    unfolding query_loop.simps [of m key n ?qs] Let_def amp eq option.case next_qs val
    using dec key by (auto simp: qs)
qed

lemma query_loop_string:
  "list_all (sendable m n) ps \<Longrightarrow> query_loop m key n (query_string ps) = map_option (Pair True) (map_of ps key)"
proof (induction ps rule: query_string.induct)
  case 1
  then show ?case by (simp add: query_loop.simps)
next
  case (2 p)
  then show ?case using query_loop_entry [of m n p "[]" "[]" key] by (simp add: query_loop.simps [of m key n "[]"])
next
  case (3 p q ps)
  then show ?case
    using query_loop_entry [of m n p "CHR ''&'' # query_string (q # ps)" "query_string (q # ps)" key] by simp
qed

text \<open>Reading a parameter of an encoded query gives the value that was encoded.\<close>

lemma query_value_string:
  assumes "CHR ''?'' \<notin> set path" "0 < n" "list_all (sendable m n) params"
  shows "query_value m (path @ ''?'' @ query_string params) key n = map_option (Pair True) (map_of params key)"
  using assms query_loop_string [of m n params key] by (simp add: query_value_def)

lemma sendable_value: "list_all (sendable m n) params \<Longrightarrow> map_of params key = Some v \<Longrightarrow> c_str v = v \<and> length v < n"
  by (auto dest!: map_of_SomeD simp: list_all_iff sendable_def c_str_def takeWhile_eq_all_conv)

text \<open>A value that does not fit fills the output up to its last byte.\<close>

lemma url_decode_into_loop_step:
  assumes "\<not> n \<le> di + 1"
  shows "\<exists>c' src'. length src' \<le> length src \<and>
    url_decode_into_loop n di (c # src) = map_prod id ((#) c') (url_decode_into_loop n (di + 1) src')"
proof -
  define P where "P r \<longleftrightarrow> (\<exists>c' src'. length src' \<le> length src \<and> r = map_prod id ((#) c') (url_decode_into_loop n (Suc di) src'))" for r
  have P: "length src' \<le> length src \<Longrightarrow> P (map_prod id ((#) c') (url_decode_into_loop n (Suc di) src'))" for c' src'
    unfolding P_def by blast
  have "P (url_decode_into_loop n di (c # src))"
    unfolding url_decode_into_loop.simps(2) if_not_P [OF assms] by (auto intro!: P simp del: url_decode_into_loop.simps split: list.split)
  then show ?thesis by (simp add: P_def del: url_decode_into_loop.simps)
qed

lemma url_decode_into_loop_overflow:
  "url_decode_into_loop n di src = (False, out) \<Longrightarrow> di < n \<Longrightarrow> di + length out + 1 = n"
proof (induction src arbitrary: di out rule: length_induct)
  case (1 src)
  show ?case
  proof (cases src)
    case (Cons c rest)
    show ?thesis
    proof (cases "n \<le> di + 1")
      case False
      then obtain c' src' where s: "length src' \<le> length rest"
        "url_decode_into_loop n di src = map_prod id ((#) c') (url_decode_into_loop n (di + 1) src')"
        using url_decode_into_loop_step [of n di rest c] Cons by blast
      obtain out' where "url_decode_into_loop n (di + 1) src' = (False, out')" "out = c' # out'"
        using s(2) 1(2) by (cases "url_decode_into_loop n (di + 1) src'") auto
      moreover have "length src' < length src" using s(1) Cons by simp
      ultimately have "di + 1 + length out' + 1 = n" using 1(1) False by (meson not_le)
      then show ?thesis using \<open>out = c' # out'\<close> by simp
    qed (use 1 Cons in simp)
  qed (use 1 in simp)
qed

end
