(* ===== verification/Packages.thy ===== *)
theory Packages
  imports Http_Response Query_String Subprocess Interfaces
begin

text \<open>
  The packages module (\<^verbatim>\<open>src/modules/packages/packages_module.c\<close>): queries to \<^verbatim>\<open>pkg_info\<close>, their
  JSON answers, and the ring in which the answers are kept for thirty seconds.

  What a request sees of the outside is in \<open>pkg_env\<close>: the clock, the child processes (started through
  \<open>safe_popen_read_argv\<close>), the shell that \<^verbatim>\<open>popen\<close> starts, and the outcomes of the allocations. The
  commands a request starts are recorded in \<open>pk_trace\<close>. The pointer \<^verbatim>\<open>output\<close> of the search, which the
  code frees and goes on using, is modelled with its three states.
\<close>

section \<open>Model\<close>

definition PKG_JSON_MAX :: nat where "PKG_JSON_MAX = 1024 * 1024"
definition PKG_CMD_MAX_OUTPUT :: nat where "PKG_CMD_MAX_OUTPUT = 8 * 1024 * 1024"
definition PKG_WHICH_TIMEOUT :: int where "PKG_WHICH_TIMEOUT = 60"
definition PKG_CACHE_TTL_SEC :: int where "PKG_CACHE_TTL_SEC = 30"

text \<open>\<^verbatim>\<open>PKG_RING_BYTES / sizeof(PkgSample)\<close>, the structure being 304 bytes with its padding.\<close>

definition PKG_RING_CAPACITY :: nat where "PKG_RING_CAPACITY = 2097152 div 304"

record PkgSample =
  ps_ts :: int
  ps_endpoint :: string
  ps_key :: string
  ps_json :: "string option"
  ps_json_len :: nat
  ps_hits :: "32 word"

record PkgRing =
  pr_buf :: "PkgSample list option"
  pr_head :: nat
  pr_count :: nat
  pr_total_hits :: "32 word"
  pr_total_misses :: "32 word"
  pr_last_stats :: int

definition zero_sample :: PkgSample where
  "zero_sample = \<lparr>ps_ts = 0, ps_endpoint = [], ps_key = [], ps_json = None, ps_json_len = 0, ps_hits = 0\<rparr>"

subsection \<open>The ring of answers\<close>

definition pkg_ring_init :: "bool \<Rightarrow> int \<Rightarrow> PkgRing \<Rightarrow> int \<times> PkgRing" where
  "pkg_ring_init calloc_ok now r =
     (if \<not> calloc_ok then (-1, r\<lparr>pr_buf := None\<rparr>)
      else (0, \<lparr>pr_buf = Some (replicate PKG_RING_CAPACITY zero_sample), pr_head = 0, pr_count = 0,
                pr_total_hits = 0, pr_total_misses = 0, pr_last_stats = now\<rparr>))"

definition stored_sample :: "int \<Rightarrow> bool \<Rightarrow> string \<Rightarrow> string \<Rightarrow> string \<Rightarrow> PkgSample \<Rightarrow> PkgSample" where
  "stored_sample now malloc_ok endpoint key json old =
     (let s = old\<lparr>ps_ts := now, ps_endpoint := strlcpy 16 endpoint, ps_key := strlcpy 256 key, ps_json := None\<rparr>
      in if malloc_ok then s\<lparr>ps_json := Some json, ps_json_len := length json, ps_hits := 1\<rparr> else s)"

definition pkg_ring_push :: "PkgRing \<Rightarrow> int \<Rightarrow> bool \<Rightarrow> string \<Rightarrow> string \<Rightarrow> string \<Rightarrow> PkgRing" where
  "pkg_ring_push r now malloc_ok endpoint key json =
     (case pr_buf r of
        None \<Rightarrow> r
      | Some buf \<Rightarrow>
          if json = [] then r
          else r\<lparr>pr_buf := Some (buf[pr_head r := stored_sample now malloc_ok endpoint key json (buf ! pr_head r)]),
                 pr_head := (pr_head r + 1) mod PKG_RING_CAPACITY,
                 pr_count := (if pr_count r < PKG_RING_CAPACITY then pr_count r + 1 else pr_count r)\<rparr>)"

definition sample_matches :: "int \<Rightarrow> string \<Rightarrow> string \<Rightarrow> int \<Rightarrow> PkgSample \<Rightarrow> bool" where
  "sample_matches now endpoint key max_age_sec s \<longleftrightarrow>
     ps_json s \<noteq> None \<and> ps_endpoint s = endpoint \<and> ps_key s = key \<and> now - ps_ts s \<le> max_age_sec"

text \<open>The loop from the newest sample to the oldest; its state is \<^verbatim>\<open>found_idx\<close> and \<^verbatim>\<open>newest_ts\<close>.\<close>

fun find_samples ::
  "PkgSample list \<Rightarrow> (PkgSample \<Rightarrow> bool) \<Rightarrow> nat option \<Rightarrow> int \<Rightarrow> nat list \<Rightarrow> nat option" where
  "find_samples buf m found newest_ts [] = found"
| "find_samples buf m found newest_ts (idx # idxs) =
     (if m (buf ! idx) \<and> newest_ts < ps_ts (buf ! idx)
      then find_samples buf m (Some idx) (ps_ts (buf ! idx)) idxs
      else find_samples buf m found newest_ts idxs)"

definition ring_indices :: "PkgRing \<Rightarrow> nat list" where
  "ring_indices r =
     (let start = (pr_head r + PKG_RING_CAPACITY - 1) mod PKG_RING_CAPACITY
      in map (\<lambda>i. (start + PKG_RING_CAPACITY - i) mod PKG_RING_CAPACITY) [0..<pr_count r])"

definition pkg_ring_lookup :: "PkgRing \<Rightarrow> int \<Rightarrow> string \<Rightarrow> string \<Rightarrow> int \<Rightarrow> nat option" where
  "pkg_ring_lookup r now endpoint key max_age_sec =
     (case pr_buf r of
        None \<Rightarrow> None
      | Some buf \<Rightarrow> find_samples buf (sample_matches now endpoint key max_age_sec) None 0 (ring_indices r))"

definition log_stats :: "int \<Rightarrow> PkgRing \<Rightarrow> PkgRing" where
  "log_stats now r =
     (if (pr_total_hits r + pr_total_misses r) mod 1000 = 0 \<and> 5 < now - pr_last_stats r
      then r\<lparr>pr_last_stats := now\<rparr> else r)"

definition pkg_ring_find ::
  "PkgRing \<Rightarrow> int \<Rightarrow> bool \<Rightarrow> string \<Rightarrow> string \<Rightarrow> int \<Rightarrow> string option \<times> PkgRing" where
  "pkg_ring_find r now malloc_ok endpoint key max_age_sec =
     (case pr_buf r of
        None \<Rightarrow> (None, r)
      | Some buf \<Rightarrow>
          if pr_count r = 0 then (None, r)
          else
            (case pkg_ring_lookup r now endpoint key max_age_sec of
               Some i \<Rightarrow>
                 if malloc_ok
                 then (Some (take (ps_json_len (buf ! i)) (the (ps_json (buf ! i)))),
                       log_stats now (r\<lparr>pr_buf := Some (buf[i := (buf ! i)\<lparr>ps_hits := ps_hits (buf ! i) + 1\<rparr>]),
                                        pr_total_hits := pr_total_hits r + 1\<rparr>))
                 else (None, log_stats now (r\<lparr>pr_total_misses := pr_total_misses r + 1\<rparr>))
             | None \<Rightarrow> (None, log_stats now (r\<lparr>pr_total_misses := pr_total_misses r + 1\<rparr>))))"

definition pkg_ring_free :: "PkgRing \<Rightarrow> PkgRing" where
  "pkg_ring_free r =
     (case pr_buf r of None \<Rightarrow> r | Some buf \<Rightarrow> r\<lparr>pr_buf := None, pr_count := 0, pr_head := 0\<rparr>)"

subsection \<open>Checking and decoding the arguments\<close>

definition is_safe_pkg_name :: "string \<Rightarrow> bool" where
  "is_safe_pkg_name name \<longleftrightarrow> name \<noteq> [] \<and>
     list_all (\<lambda>c. isalnum c \<or> c = CHR ''.'' \<or> c = CHR ''_'' \<or> c = CHR ''-'' \<or> c = CHR ''+'') name"

definition get_query_value :: "string \<Rightarrow> string \<Rightarrow> nat \<Rightarrow> string option" where
  "get_query_value url key out_size =
     (case query_value 1024 url key out_size of Some (True, out) \<Rightarrow> Some (c_str out) | _ \<Rightarrow> None)"

definition path_matches_endpoint :: "string \<Rightarrow> string \<Rightarrow> bool" where
  "path_matches_endpoint path pre \<longleftrightarrow>
     prefix pre path \<and> (drop (length pre) path = [] \<or> hd (drop (length pre) path) = CHR ''?'')"

definition shell_special :: "char set" where
  "shell_special = {CHR '';'', CHR ''|'', CHR ''&'', CHR 0x60, CHR ''$'', CHR ''>'', CHR ''<'', BACKSLASH, QUOTE, CHR 0x27}"

definition is_safe_path :: "string \<Rightarrow> bool" where
  "is_safe_path path \<longleftrightarrow> path \<noteq> [] \<and> hd path = CHR ''/'' \<and>
     list_all (\<lambda>c. 32 \<le> chr_code c \<and> chr_code c \<noteq> 127 \<and> c \<notin> shell_special) path"

definition is_blank_char :: "char \<Rightarrow> bool" where
  "is_blank_char c \<longleftrightarrow> c = CHR '' '' \<or> c = CHR 0x09"

definition rstrip :: "(char \<Rightarrow> bool) \<Rightarrow> string \<Rightarrow> string" where
  "rstrip P s = rev (dropWhile P (rev s))"

definition trim_ascii_whitespace :: "string \<Rightarrow> string" where
  "trim_ascii_whitespace s = rstrip is_blank_char (dropWhile is_blank_char s)"

subsection \<open>Building the JSON text\<close>

text \<open>\<^verbatim>\<open>offset += snprintf(json + offset, PKG_JSON_MAX - offset, ...)\<close>\<close>

definition json_put :: "string \<Rightarrow> out_buf \<Rightarrow> fault + out_buf" where
  "json_put text w = buf_put PKG_JSON_MAX text w"

text \<open>The loop over the lines; \<open>keep\<close> is the test of the particular query, with its trimming.\<close>

fun json_lines :: "(string \<Rightarrow> string option) \<Rightarrow> bool \<Rightarrow> out_buf \<Rightarrow> string list \<Rightarrow> fault + out_buf" where
  "json_lines keep fst_item w [] = Inr w"
| "json_lines keep fst_item w (l # ls) =
     (if \<not> snd w < PKG_JSON_MAX - 256 then Inr w
      else
        (case keep l of
           None \<Rightarrow> json_lines keep fst_item w ls
         | Some item \<Rightarrow>
             bindR (json_put ((if fst_item then [] else '','') @ [QUOTE] @ json_escape_string (Some item) @ [QUOTE]) w)
               (\<lambda>w'. json_lines keep False w' ls)))"

definition no_cr :: "string \<Rightarrow> string" where
  "no_cr l = take (strcspn l {CHR 0x0D}) l"

definition search_keep :: "string \<Rightarrow> string option" where
  "search_keep l = (let t = trim_ascii_whitespace (no_cr l) in if 1 < length t then Some t else None)"

definition files_keep :: "string \<Rightarrow> string option" where
  "files_keep l = (case no_cr l of [] \<Rightarrow> None | c # cs \<Rightarrow> if c = CHR ''/'' then Some (c # cs) else None)"

definition list_keep :: "string \<Rightarrow> string option" where
  "list_keep l = (if no_cr l = [] then None else Some (no_cr l))"

definition pkg_json_build :: "string \<Rightarrow> (string \<Rightarrow> string option) \<Rightarrow> string list \<Rightarrow> fault + string" where
  "pkg_json_build head keep ls =
     bindR (json_put head ([], 0)) (\<lambda>w0.
     bindR (json_lines keep True w0 ls) (\<lambda>w1.
     bindR (json_put '']}'' w1) (\<lambda>w2. Inr (fst w2))))"

definition json_key :: "string \<Rightarrow> string" where
  "json_key k = [QUOTE] @ k @ [QUOTE] @ '':''"

definition search_head :: "string \<Rightarrow> string" where
  "search_head query = ''{'' @ json_key ''query'' @ [QUOTE] @ json_escape_string (Some query) @ [QUOTE] @ '','' @ json_key ''packages'' @ ''[''"

definition files_head :: "string \<Rightarrow> string" where
  "files_head name = ''{'' @ json_key ''package'' @ [QUOTE] @ json_escape_string (Some name) @ [QUOTE] @ '','' @ json_key ''files'' @ ''[''"

definition list_head :: string where
  "list_head = ''{'' @ json_key ''packages'' @ ''[''"

definition empty_search :: string where
  "empty_search = ''{'' @ json_key ''query'' @ [QUOTE, QUOTE] @ '','' @ json_key ''packages'' @ ''[]}''"

definition make_raw_json :: "bool \<Rightarrow> bool \<Rightarrow> bool \<Rightarrow> bytes option \<Rightarrow> string option" where
  "make_raw_json strdup_ok copy_ok malloc_ok out =
     (let text = (case out of None \<Rightarrow> [] | Some b \<Rightarrow> c_str b) in
      if text = []
      then (if strdup_ok then Some (''{'' @ json_key ''raw'' @ [QUOTE, QUOTE] @ '','' @ json_key ''found'' @ ''false}'') else None)
      else if \<not> copy_ok \<or> \<not> malloc_ok then None
      else
        (let copy = rstrip (\<lambda>c. c = CHR 0x0A \<or> c = CHR 0x0D \<or> c = CHR '' '' \<or> c = CHR 0x09) text;
             esc = json_escape_string (Some copy)
         in Some (snprintf_out (length esc + 32)
                    (''{'' @ json_key ''raw'' @ [QUOTE] @ esc @ [QUOTE] @ '','' @ json_key ''found'' @ ''true}''))))"

subsection \<open>Running the commands\<close>

datatype pkg_cmd = Exec "string list" | Shell string
  \<comment> \<open>\<open>Exec argv\<close>: \<^verbatim>\<open>/usr/sbin/pkg_info\<close> executed with \<open>argv\<close>; \<open>Shell cmd\<close>: \<^verbatim>\<open>popen(cmd, "r")\<close>\<close>

record pkg_env =
  pe_time :: int
  pe_spawn :: "string list \<Rightarrow> spawn_env"
  pe_popen :: "string \<Rightarrow> bytes option"
  pe_calloc :: bool
  pe_grep_malloc :: bool
  pe_popen_malloc :: bool
  pe_json_malloc :: bool
  pe_copy_strdup :: bool
  pe_hit_malloc :: bool
  pe_store_malloc :: bool
  pe_strdup :: bool

record pkg_state =
  pk_ring :: PkgRing
  pk_once :: bool
  pk_ready :: bool
  pk_trace :: "pkg_cmd list"

definition packages_cache_bootstrap :: "pkg_env \<Rightarrow> pkg_state \<Rightarrow> pkg_state" where
  "packages_cache_bootstrap env st =
     (let (rc, ring) = pkg_ring_init (pe_calloc env) (pe_time env) (pk_ring st);
          st1 = st\<lparr>pk_ring := ring\<rparr>
      in if rc \<noteq> 0 then st1 else st1\<lparr>pk_ready := True\<rparr>)"

text \<open>\<^verbatim>\<open>pthread_once\<close> and the look into the ring, with which every query begins.\<close>

definition packages_once :: "pkg_env \<Rightarrow> pkg_state \<Rightarrow> pkg_state" where
  "packages_once env st = (if pk_once st then st else packages_cache_bootstrap env (st\<lparr>pk_once := True\<rparr>))"

definition ring_try :: "pkg_env \<Rightarrow> string \<Rightarrow> string \<Rightarrow> pkg_state \<Rightarrow> string option \<times> pkg_state" where
  "ring_try env endpoint key st =
     (let st1 = packages_once env st in
      if pk_ready st1
      then (let (json, ring) = pkg_ring_find (pk_ring st1) (pe_time env) (pe_hit_malloc env) endpoint key PKG_CACHE_TTL_SEC
            in (json, st1\<lparr>pk_ring := ring\<rparr>))
      else (None, st1))"

definition ring_keep :: "pkg_env \<Rightarrow> string \<Rightarrow> string \<Rightarrow> string \<Rightarrow> pkg_state \<Rightarrow> pkg_state" where
  "ring_keep env endpoint key json st =
     (if pk_ready st
      then st\<lparr>pk_ring := pkg_ring_push (pk_ring st) (pe_time env) (pe_store_malloc env) endpoint key json\<rparr>
      else st)"

definition run_pkg_info :: "pkg_env \<Rightarrow> string list \<Rightarrow> int \<Rightarrow> pkg_state \<Rightarrow> fault + bytes option \<times> pkg_state" where
  "run_pkg_info env args timeout st =
     (let argv = ''pkg_info'' # args in
      case safe_popen_read_argv (pe_spawn env argv) PKG_CMD_MAX_OUTPUT timeout of
        None \<Rightarrow> Inl Blocked
      | Some r \<Rightarrow> Inr (sr_output r, st\<lparr>pk_trace := pk_trace st @ [Exec argv]\<rparr>))"

definition strdup_opt :: "pkg_env \<Rightarrow> string \<Rightarrow> string option" where
  "strdup_opt env s = (if pe_strdup env then Some s else None)"

subsection \<open>The queries\<close>

text \<open>The pointer \<^verbatim>\<open>output\<close> of the search.\<close>

datatype c_ptr = Null | Block string | Freed

fun ptr_blank :: "c_ptr \<Rightarrow> fault + bool" where
  \<comment> \<open>\<^verbatim>\<open>!output || output[0] == '\0'\<close>\<close>
  "ptr_blank Null = Inr True"
| "ptr_blank (Block s) = Inr (c_str s = [])"
| "ptr_blank Freed = Inl Use_after_free"

fun ptr_free :: "c_ptr \<Rightarrow> fault + c_ptr" where
  "ptr_free Null = Inr Null"
| "ptr_free (Block s) = Inr Freed"
| "ptr_free Freed = Inl Double_free"

definition strlcat :: "nat \<Rightarrow> string \<Rightarrow> string \<Rightarrow> string" where
  "strlcat n dst src = dst @ take (n - 1 - length dst) src"

fun grep_loop :: "string \<Rightarrow> string \<Rightarrow> nat \<Rightarrow> string list \<Rightarrow> string" where
  "grep_loop query out tot [] = out"
| "grep_loop query out tot (line # ls) =
     (if strstr line query \<noteq> None \<and> tot + length line + 2 < PKG_CMD_MAX_OUTPUT
      then (let (out1, tot1) = (if 0 < tot then (strlcat PKG_CMD_MAX_OUTPUT out [CHR 0x0A], tot + 1) else (out, tot))
            in grep_loop query (strlcat PKG_CMD_MAX_OUTPUT out1 line) (tot1 + length line) ls)
      else grep_loop query out tot ls)"

fun popen_loop :: "string \<Rightarrow> nat \<Rightarrow> bytes list \<Rightarrow> string" where
  "popen_loop out tot [] = out"
| "popen_loop out tot (chunk # chunks) =
     (if \<not> tot < PKG_CMD_MAX_OUTPUT - 1 then out
      else
        (let buf = c_str chunk in
         if tot + length buf < PKG_CMD_MAX_OUTPUT - 1
         then popen_loop (strlcat PKG_CMD_MAX_OUTPUT out buf) (tot + length buf) chunks
         else popen_loop out tot chunks))"

definition search_direct :: "pkg_env \<Rightarrow> string \<Rightarrow> pkg_state \<Rightarrow> fault + c_ptr \<times> pkg_state" where
  "search_direct env query st =
     (if is_safe_pkg_name query
      then bindR (run_pkg_info env [''-Q'', query] 5 st) (\<lambda>(out, st').
             Inr (case out of None \<Rightarrow> Null | Some b \<Rightarrow> Block b, st'))
      else Inr (Null, st))"

definition search_grep :: "pkg_env \<Rightarrow> string \<Rightarrow> c_ptr \<times> pkg_state \<Rightarrow> fault + c_ptr \<times> pkg_state" where
  "search_grep env query = (\<lambda>(out, st).
     bindR (ptr_blank out) (\<lambda>blank.
       if \<not> blank then Inr (out, st)
       else
         bindR (ptr_free out) (\<lambda>out1.
         bindR (run_pkg_info env [''-q''] 5 st) (\<lambda>(list_output, st1).
           case list_output of
             None \<Rightarrow> Inr (out1, st1)
           | Some b \<Rightarrow>
               Inr (if pe_grep_malloc env then Block (grep_loop query [] 0 (strtok_all (CHR 0x0A) (c_str b))) else Null,
                    st1)))))"

definition search_cmd :: "string \<Rightarrow> string" where
  "search_cmd query = snprintf_out 256 (''pkg_info -Q '' @ query @ '' 2>&1'')"

definition search_popen :: "pkg_env \<Rightarrow> string \<Rightarrow> c_ptr \<times> pkg_state \<Rightarrow> fault + c_ptr \<times> pkg_state" where
  "search_popen env query = (\<lambda>(out, st).
     bindR (ptr_blank out) (\<lambda>blank.
       if \<not> blank then Inr (out, st)
       else
         bindR (ptr_free out) (\<lambda>out1.
           let cmd = search_cmd query; st1 = st\<lparr>pk_trace := pk_trace st @ [Shell cmd]\<rparr> in
           case pe_popen env cmd of
             None \<Rightarrow> Inr (out1, st1)
           | Some b \<Rightarrow> Inr (if pe_popen_malloc env then Block (popen_loop [] 0 (fgets_lines 1024 b)) else Null, st1))))"

definition search_finish :: "pkg_env \<Rightarrow> string \<Rightarrow> c_ptr \<times> pkg_state \<Rightarrow> fault + string option \<times> pkg_state" where
  "search_finish env query = (\<lambda>(out, st).
     bindR (ptr_blank out) (\<lambda>blank.
       if blank \<or> \<not> pe_json_malloc env
       then bindR (ptr_free out) (\<lambda>out1. Inr (strdup_opt env empty_search, st))
       else
         (case out of
            Block b \<Rightarrow>
              bindR (pkg_json_build (search_head query) search_keep (strtok_all (CHR 0x0A) (c_str b))) (\<lambda>json.
                Inr (Some json, ring_keep env ''search'' query json st))
          | _ \<Rightarrow> Inl Null_deref)))"

definition pkg_search_json :: "pkg_env \<Rightarrow> string \<Rightarrow> pkg_state \<Rightarrow> fault + string option \<times> pkg_state" where
  "pkg_search_json env query st =
     (if query = [] then Inr (strdup_opt env empty_search, st)
      else
        (case ring_try env ''search'' query st of
           (Some json, st1) \<Rightarrow> Inr (Some json, st1)
         | (None, st1) \<Rightarrow>
             bindR (search_direct env query st1) (\<lambda>s2.
             bindR (search_grep env query s2) (\<lambda>s3.
             bindR (search_popen env query s3) (search_finish env query)))))"

definition invalid_name :: string where
  "invalid_name = ''{'' @ json_key ''found'' @ ''false,'' @ json_key ''raw'' @ [QUOTE] @ ''invalid package name'' @ [QUOTE] @ ''}''"

definition not_found :: string where
  "not_found = ''{'' @ json_key ''found'' @ ''false,'' @ json_key ''raw'' @ [QUOTE, QUOTE] @ ''}''"

text \<open>The end of \<^verbatim>\<open>pkg_info_json\<close> and of \<^verbatim>\<open>pkg_which_json\<close>.\<close>

definition raw_answer :: "pkg_env \<Rightarrow> string \<Rightarrow> string \<Rightarrow> bytes option \<Rightarrow> pkg_state \<Rightarrow> string option \<times> pkg_state" where
  "raw_answer env endpoint key out st =
     (case make_raw_json (pe_strdup env) (pe_copy_strdup env) (pe_json_malloc env) out of
        Some json \<Rightarrow> (Some json, ring_keep env endpoint key json st)
      | None \<Rightarrow> (strdup_opt env not_found, st))"

definition pkg_info_json :: "pkg_env \<Rightarrow> string \<Rightarrow> pkg_state \<Rightarrow> fault + string option \<times> pkg_state" where
  "pkg_info_json env package_name st =
     (if \<not> is_safe_pkg_name package_name then Inr (strdup_opt env invalid_name, st)
      else
        (case ring_try env ''info'' package_name st of
           (Some json, st1) \<Rightarrow> Inr (Some json, st1)
         | (None, st1) \<Rightarrow>
             bindR (run_pkg_info env [package_name] 5 st1) (\<lambda>(out, st2).
               Inr (raw_answer env ''info'' package_name out st2))))"

definition pkg_files_json :: "pkg_env \<Rightarrow> string \<Rightarrow> pkg_state \<Rightarrow> fault + string option \<times> pkg_state" where
  "pkg_files_json env package_name st =
     (if \<not> is_safe_pkg_name package_name
      then Inr (strdup_opt env (''{'' @ json_key ''error'' @ [QUOTE] @ ''invalid package name'' @ [QUOTE] @ ''}''), st)
      else
        (case ring_try env ''files'' package_name st of
           (Some json, st1) \<Rightarrow> Inr (Some json, st1)
         | (None, st1) \<Rightarrow>
             bindR (run_pkg_info env [''-L'', package_name] 5 st1) (\<lambda>(out, st2).
               if \<not> pe_json_malloc env then Inr (None, st2)
               else
                 (case out of
                    None \<Rightarrow>
                      Inr (Some (snprintf_out (length (json_escape_string (Some package_name)) + 80)
                                   (files_head package_name @ '']}'')), st2)
                  | Some b \<Rightarrow>
                      bindR (pkg_json_build (files_head package_name) files_keep (strtok_all (CHR 0x0A) (c_str b))) (\<lambda>json.
                        Inr (Some json, ring_keep env ''files'' package_name json st2))))))"

definition pkg_list_json :: "pkg_env \<Rightarrow> pkg_state \<Rightarrow> fault + string option \<times> pkg_state" where
  "pkg_list_json env st =
     (case ring_try env ''list'' ''all'' st of
        (Some json, st1) \<Rightarrow> Inr (Some json, st1)
      | (None, st1) \<Rightarrow>
          bindR (run_pkg_info env [''-qmz''] 5 st1) (\<lambda>(out, st2).
            if \<not> pe_json_malloc env then Inr (strdup_opt env (list_head @ '']}''), st2)
            else
              bindR (pkg_json_build list_head list_keep
                       (case out of None \<Rightarrow> [] | Some b \<Rightarrow> strtok_all (CHR 0x0A) (c_str b))) (\<lambda>json.
                Inr (Some json, ring_keep env ''list'' ''all'' json st2))))"

definition invalid_path :: string where
  "invalid_path = ''{'' @ json_key ''found'' @ ''false,'' @ json_key ''raw'' @ [QUOTE] @
     ''path must be absolute and contain no shell metacharacters'' @ [QUOTE] @ ''}''"

definition pkg_which_json :: "pkg_env \<Rightarrow> string \<Rightarrow> pkg_state \<Rightarrow> fault + string option \<times> pkg_state" where
  "pkg_which_json env file_path st =
     (if \<not> is_safe_path file_path then Inr (strdup_opt env invalid_path, st)
      else
        (case ring_try env ''which'' file_path st of
           (Some json, st1) \<Rightarrow> Inr (Some json, st1)
         | (None, st1) \<Rightarrow>
             bindR (run_pkg_info env [''-W'', file_path] PKG_WHICH_TIMEOUT st1) (\<lambda>(out, st2).
               if (case out of None \<Rightarrow> True | Some b \<Rightarrow> c_str b = [])
               then bindR (run_pkg_info env [''-E'', file_path] PKG_WHICH_TIMEOUT st2) (\<lambda>(out2, st3).
                      Inr (raw_answer env ''which'' file_path out2 st3))
               else Inr (raw_answer env ''which'' file_path out st2))))"

subsection \<open>The handler\<close>

datatype pkg_answer = Answer_error int string | Answer_json "string option"

definition with_value ::
  "http_request_t \<Rightarrow> string \<Rightarrow> (string \<Rightarrow> pkg_state \<Rightarrow> fault + string option \<times> pkg_state) \<Rightarrow> pkg_state \<Rightarrow>
    fault + pkg_answer \<times> pkg_state" where
  "with_value req name query st =
     (case get_query_value (req_url req) name 1024 of
        None \<Rightarrow> Inr (Answer_error 400 (''Missing '' @ name @ '' parameter''), st)
      | Some v \<Rightarrow> bindR (query v st) (\<lambda>(json, st'). Inr (Answer_json json, st')))"

text \<open>The first half of \<^verbatim>\<open>pkg_api_handler\<close>: what to answer.\<close>

definition pkg_query :: "pkg_env \<Rightarrow> http_request_t \<Rightarrow> pkg_state \<Rightarrow> fault + pkg_answer \<times> pkg_state" where
  "pkg_query env req st =
     (if \<not> prefix ''/api/packages'' (req_url req) then Inr (Answer_error 400 ''Bad Request'', st)
      else
        (let path = drop (length ''/api/packages'') (req_url req) in
         if path_matches_endpoint path ''/search'' then with_value req ''q'' (pkg_search_json env) st
         else if path_matches_endpoint path ''/info'' then with_value req ''name'' (pkg_info_json env) st
         else if path_matches_endpoint path ''/which'' then with_value req ''path'' (pkg_which_json env) st
         else if path_matches_endpoint path ''/files'' then with_value req ''name'' (pkg_files_json env) st
         else if path_matches_endpoint path ''/list''
         then bindR (pkg_list_json env st) (\<lambda>(json, st'). Inr (Answer_json json, st'))
         else Inr (Answer_error 404 ''Unknown packages endpoint'', st)))"

text \<open>The second half: sending it. The new response is not checked for null.\<close>

definition send_pkg_json :: "http_request_t \<Rightarrow> string \<Rightarrow> http_ctx \<Rightarrow> fault + int \<times> http_ctx" where
  "send_pkg_json req json hc =
     (let (r, pools) = http_response_create (hc_tid hc) (hc_calloc_ok hc) (hc_pools hc) in
      case r of
        None \<Rightarrow> Inl Null_deref
      | Some resp \<Rightarrow>
          (let resp1 = http_response_add_header
                         (resp\<lparr>rs_status_code := 200, rs_content_type := ''application/json''\<rparr>)
                         ''Access-Control-Allow-Origin'' ''*''
           in case send_and_free req (http_response_set_body resp1 (Some json) (length json) True) (hc\<lparr>hc_pools := pools\<rparr>) of
                None \<Rightarrow> Inl Blocked
              | Some r \<Rightarrow> Inr r))"

definition pkg_api_handler ::
  "pkg_env \<Rightarrow> http_request_t \<Rightarrow> pkg_state \<times> http_ctx \<Rightarrow> fault + int \<times> pkg_state \<times> http_ctx" where
  "pkg_api_handler env req = (\<lambda>(st, hc).
     bindR (pkg_query env req st) (\<lambda>(answer, st').
       let error = (\<lambda>code msg. case http_send_error req code (Some msg) hc of
                                  None \<Rightarrow> Inl Blocked | Some (rc, hc') \<Rightarrow> Inr (rc, st', hc'))
       in case answer of
            Answer_error code msg \<Rightarrow> error code msg
          | Answer_json None \<Rightarrow> error 500 ''Unable to query package manager''
          | Answer_json (Some json) \<Rightarrow> bindR (send_pkg_json req json hc) (\<lambda>(rc, hc'). Inr (rc, st', hc'))))"

definition packages_cache_cleanup :: "pkg_state \<Rightarrow> pkg_state" where
  "packages_cache_cleanup st = st\<lparr>pk_ring := pkg_ring_free (pk_ring st)\<rparr>"

section \<open>The ring of answers as a cache\<close>

lemma PKG_RING_CAPACITY_pos [simp]: "0 < PKG_RING_CAPACITY"
  by (simp add: PKG_RING_CAPACITY_def)

definition pkg_ring_inv :: "PkgRing \<Rightarrow> bool" where
  "pkg_ring_inv r \<longleftrightarrow> pr_head r < PKG_RING_CAPACITY \<and> pr_count r \<le> PKG_RING_CAPACITY \<and>
     (\<forall>buf. pr_buf r = Some buf \<longrightarrow> length buf = PKG_RING_CAPACITY \<and>
        (\<forall>s \<in> set buf. \<forall>j. ps_json s = Some j \<longrightarrow> ps_json_len s = length j))"

text \<open>The answers in the ring, each with its stored key and its time.\<close>

definition pkg_ring_holds :: "PkgRing \<Rightarrow> ((string \<times> string) \<times> (int \<times> string)) set" where
  "pkg_ring_holds r = {((ps_endpoint s, ps_key s), (ps_ts s, j)) | s j buf.
     pr_buf r = Some buf \<and> s \<in> set buf \<and> ps_json s = Some j}"

definition short_key :: "string \<times> string \<Rightarrow> string \<times> string" where
  "short_key k = (strlcpy 16 (fst k), strlcpy 256 (snd k))"

text \<open>The ring as the operations of a cache; a call gets the time, the allocation and the age limit.\<close>

definition pkg_store :: "PkgRing \<Rightarrow> int \<times> bool \<times> int \<Rightarrow> string \<times> string \<Rightarrow> int \<times> string \<Rightarrow> PkgRing" where
  "pkg_store r e k v = pkg_ring_push r (fst v) (fst (snd e)) (fst k) (snd k) (snd v)"

definition pkg_lookup :: "PkgRing \<Rightarrow> int \<times> bool \<times> int \<Rightarrow> string \<times> string \<Rightarrow> (int \<times> string) option \<times> PkgRing" where
  "pkg_lookup r e k =
     (let (json, r') = pkg_ring_find r (fst e) (fst (snd e)) (fst k) (snd k) (snd (snd e))
      in (map_option (\<lambda>j. (ps_ts (the (pr_buf r) ! the (pkg_ring_lookup r (fst e) (fst k) (snd k) (snd (snd e)))), j)) json, r'))"

lemma find_samples_Some:
  "find_samples buf m found ts idxs = Some i \<Longrightarrow> found = Some i \<or> i \<in> set idxs \<and> m (buf ! i)"
  by (induction buf m found ts idxs rule: find_samples.induct) (auto split: if_splits)

lemma find_samples_keep:
  "(\<And>i. i \<in> set idxs \<Longrightarrow> ps_ts (buf ! i) \<le> ts) \<Longrightarrow> find_samples buf m found ts idxs = found"
  by (induction buf m found ts idxs rule: find_samples.induct) (auto simp: not_less [symmetric])

lemma ring_indices_less: "i \<in> set (ring_indices r) \<Longrightarrow> i < PKG_RING_CAPACITY"
  by (auto simp: ring_indices_def Let_def)

lemma pkg_ring_lookup_Some:
  assumes "pkg_ring_lookup r now endpoint key age = Some i" "pr_buf r = Some buf"
  shows "i < PKG_RING_CAPACITY" "sample_matches now endpoint key age (buf ! i)"
  using assms find_samples_Some [of buf _ None 0 "ring_indices r" i] ring_indices_less [of i r]
  by (auto simp: pkg_ring_lookup_def)

lemma pkg_lookup_find:
  "fst (pkg_lookup r e k) =
    map_option (\<lambda>j. (ps_ts (the (pr_buf r) ! the (pkg_ring_lookup r (fst e) (fst k) (snd k) (snd (snd e)))), j))
      (fst (pkg_ring_find r (fst e) (fst (snd e)) (fst k) (snd k) (snd (snd e))))"
  by (simp add: pkg_lookup_def split: prod.splits)

lemma pkg_ring_find_cases:
  obtains (miss) r' where "pkg_ring_find r now ok endpoint key age = (None, r')"
      "pr_buf r' = pr_buf r" "pr_head r' = pr_head r" "pr_count r' = pr_count r"
  | (hit) buf i r' where "pr_buf r = Some buf" "pkg_ring_lookup r now endpoint key age = Some i"
      "pkg_ring_find r now ok endpoint key age = (Some (take (ps_json_len (buf ! i)) (the (ps_json (buf ! i)))), r')"
      "pr_buf r' = Some (buf[i := (buf ! i)\<lparr>ps_hits := ps_hits (buf ! i) + 1\<rparr>])"
      "pr_head r' = pr_head r" "pr_count r' = pr_count r"
  by (cases "pr_buf r"; cases "pkg_ring_lookup r now endpoint key age"; cases ok; cases "pr_count r = 0")
    (auto simp: pkg_ring_find_def log_stats_def split: if_splits)

lemma stored_sample_json:
  "ps_json (stored_sample now ok endpoint key json old) = Some j \<Longrightarrow>
    j = json \<and> ps_json_len (stored_sample now ok endpoint key json old) = length json"
  by (auto simp: stored_sample_def Let_def split: if_splits)

lemma stored_sample_fields [simp]:
  "ps_ts (stored_sample now ok endpoint key json old) = now"
  "ps_endpoint (stored_sample now ok endpoint key json old) = strlcpy 16 endpoint"
  "ps_key (stored_sample now ok endpoint key json old) = strlcpy 256 key"
  by (simp_all add: stored_sample_def Let_def)

lemma pkg_ring_push_inv:
  assumes "pkg_ring_inv r"
  shows "pkg_ring_inv (pkg_ring_push r now ok endpoint key json)"
    "pkg_ring_holds (pkg_ring_push r now ok endpoint key json) \<subseteq>
       insert (short_key (endpoint, key), (now, json)) (pkg_ring_holds r)"
proof -
  let ?r = "pkg_ring_push r now ok endpoint key json"
  have sub: "s \<in> set buf \<or> s = stored_sample now ok endpoint key json (buf ! pr_head r)"
    if "pr_buf r = Some buf" "pr_buf ?r = Some buf'" "s \<in> set buf'" for s buf buf'
    using that set_list_update_subset [of buf "pr_head r"]
    by (auto simp: pkg_ring_push_def split: if_splits)
  have none: "pr_buf ?r = None \<longleftrightarrow> pr_buf r = None" and
    len: "pr_buf r = Some buf \<Longrightarrow> pr_buf ?r = Some buf' \<Longrightarrow> length buf' = length buf" for buf buf'
    by (auto simp: pkg_ring_push_def split: option.splits if_splits)
  have idx: "pr_head ?r < PKG_RING_CAPACITY" "pr_count ?r \<le> PKG_RING_CAPACITY"
    using assms by (auto simp: pkg_ring_push_def pkg_ring_inv_def split: option.splits)
  show "pkg_ring_inv ?r"
    unfolding pkg_ring_inv_def
  proof (intro conjI allI impI ballI idx)
    fix buf' assume b': "pr_buf ?r = Some buf'"
    then obtain buf where b: "pr_buf r = Some buf" using none by (cases "pr_buf r") auto
    show "length buf' = PKG_RING_CAPACITY" using assms b len [OF b b'] by (simp add: pkg_ring_inv_def)
    fix s j assume "s \<in> set buf'" "ps_json s = Some j"
    then show "ps_json_len s = length j"
      using sub [OF b b'] assms b by (auto simp: pkg_ring_inv_def dest: stored_sample_json)
  qed
  show "pkg_ring_holds ?r \<subseteq> insert (short_key (endpoint, key), (now, json)) (pkg_ring_holds r)"
  proof
    fix x assume "x \<in> pkg_ring_holds ?r"
    then obtain s j buf' where x: "x = ((ps_endpoint s, ps_key s), (ps_ts s, j))"
      and b': "pr_buf ?r = Some buf'" and s: "s \<in> set buf'" "ps_json s = Some j"
      by (auto simp: pkg_ring_holds_def)
    then obtain buf where b: "pr_buf r = Some buf" using none by (cases "pr_buf r") auto
    show "x \<in> insert (short_key (endpoint, key), (now, json)) (pkg_ring_holds r)"
      using sub [OF b b' s(1)] s x b by (auto simp: pkg_ring_holds_def short_key_def dest: stored_sample_json)
  qed
qed

lemma pkg_ring_find_inv:
  assumes "pkg_ring_inv r" "pkg_ring_find r now ok endpoint key age = (json, r')"
  shows "pkg_ring_inv r'" "pkg_ring_holds r' \<subseteq> pkg_ring_holds r"
proof -
  have "pkg_ring_inv r' \<and> pkg_ring_holds r' \<subseteq> pkg_ring_holds r"
  proof (cases rule: pkg_ring_find_cases [of r now ok endpoint key age])
    case (miss r'')
    then show ?thesis using assms by (auto simp: pkg_ring_inv_def pkg_ring_holds_def)
  next
    case (hit buf i r'')
    have i: "i < length buf" using pkg_ring_lookup_Some [OF hit(2,1)] assms(1) hit(1) by (simp add: pkg_ring_inv_def)
    have s: "s \<in> set buf \<or> s = (buf ! i)\<lparr>ps_hits := ps_hits (buf ! i) + 1\<rparr>" if "pr_buf r' = Some b" "s \<in> set b" for b s
      using that hit assms(2) set_list_update_subset [of buf i] by auto
    have old: "buf ! i \<in> set buf" using i by simp
    have inv: "pkg_ring_inv r'"
      using assms hit s old unfolding pkg_ring_inv_def by fastforce
    have "pkg_ring_holds r' \<subseteq> pkg_ring_holds r"
      using hit(1) old by (auto simp: pkg_ring_holds_def dest!: s)
    then show ?thesis using inv by blast
  qed
  then show "pkg_ring_inv r'" "pkg_ring_holds r' \<subseteq> pkg_ring_holds r" by auto
qed

lemma pkg_lookup_Some:
  assumes "pkg_ring_inv r" "fst (pkg_lookup r (now, ok, age) (endpoint, key)) = Some (t, json)"
  shows "((endpoint, key), (t, json)) \<in> pkg_ring_holds r" "now - t \<le> age"
    "fst (pkg_ring_find r now ok endpoint key age) = Some json"
proof -
  have "((endpoint, key), (t, json)) \<in> pkg_ring_holds r \<and> now - t \<le> age \<and>
      fst (pkg_ring_find r now ok endpoint key age) = Some json"
  proof (cases rule: pkg_ring_find_cases [of r now ok endpoint key age])
    case (miss r')
    then show ?thesis using assms(2) by (simp add: pkg_lookup_def)
  next
    case (hit buf i r')
    note i = pkg_ring_lookup_Some [OF hit(2,1)]
    have b: "buf ! i \<in> set buf" using i(1) assms(1) hit(1) by (auto simp: pkg_ring_inv_def)
    obtain j where j: "ps_json (buf ! i) = Some j" using i(2) by (auto simp: sample_matches_def)
    have "ps_json_len (buf ! i) = length j" using assms(1) hit(1) b j by (auto simp: pkg_ring_inv_def)
    then have "t = ps_ts (buf ! i)" "json = j" using assms(2) hit j by (auto simp: pkg_lookup_def)
    then show ?thesis using i(2) b j hit \<open>ps_json_len (buf ! i) = length j\<close>
      by (auto simp: pkg_ring_holds_def sample_matches_def)
  qed
  then show "((endpoint, key), (t, json)) \<in> pkg_ring_holds r" "now - t \<le> age"
    "fst (pkg_ring_find r now ok endpoint key age) = Some json" by auto
qed

interpretation pkg_cache: normalising_cache pkg_store pkg_lookup pkg_ring_holds pkg_ring_inv short_key
proof unfold_locales
  fix r e k v
  assume inv: "pkg_ring_inv r"
  show "pkg_ring_inv (pkg_store r e k v) \<and> pkg_ring_holds (pkg_store r e k v) \<subseteq> insert (short_key k, v) (pkg_ring_holds r)"
    using pkg_ring_push_inv [OF inv, of "fst v" "fst (snd e)" "fst k" "snd k" "snd v"] by (simp add: pkg_store_def)
  show "pkg_ring_inv (snd (pkg_lookup r e k)) \<and> pkg_ring_holds (snd (pkg_lookup r e k)) \<subseteq> pkg_ring_holds r"
    using pkg_ring_find_inv [OF inv, of "fst e" "fst (snd e)" "fst k" "snd k" "snd (snd e)"]
    by (simp add: pkg_lookup_def split: prod.splits)
  show "(k, v) \<in> pkg_ring_holds r" if "fst (pkg_lookup r e k) = Some v"
    using pkg_lookup_Some(1) [OF inv, of "fst e" "fst (snd e)" "snd (snd e)" "fst k" "snd k" "fst v" "snd v"] that by simp
qed

lemma pkg_ring_init_holds:
  "pkg_ring_inv (snd (pkg_ring_init True t r))" "pkg_ring_holds (snd (pkg_ring_init True t r)) = {}"
  by (auto simp: pkg_ring_init_def pkg_ring_inv_def pkg_ring_holds_def zero_sample_def)

lemma ring_indices_pushed:
  assumes "pkg_ring_inv r" "pr_buf r = Some buf" "json \<noteq> []"
  shows "\<exists>idxs. ring_indices (pkg_ring_push r now ok endpoint key json) = pr_head r # idxs"
proof -
  let ?r = "pkg_ring_push r now ok endpoint key json"
  let ?c = PKG_RING_CAPACITY
  have h: "pr_head r < ?c" using assms by (simp add: pkg_ring_inv_def)
  have hd: "pr_head ?r = (pr_head r + 1) mod ?c" and n: "0 < pr_count ?r"
    using assms PKG_RING_CAPACITY_pos by (auto simp: pkg_ring_push_def simp del: PKG_RING_CAPACITY_pos)
  have "(pr_head ?r + ?c - 1) mod ?c = pr_head r"
  proof (cases "pr_head r + 1 = ?c")
    case True
    then show ?thesis using hd by simp
  next
    case False
    then have "pr_head ?r = pr_head r + 1" using h hd by simp
    then show ?thesis using h by simp
  qed
  moreover have "[0..<pr_count ?r] = 0 # [1..<pr_count ?r]" using n by (simp add: upt_rec)
  ultimately show ?thesis using h by (simp add: ring_indices_def Let_def)
qed

text \<open>What is put under a key is found there while it is the newest and not too old.\<close>

lemma pkg_ring_find_pushed:
  assumes "pkg_ring_inv r" "pr_buf r = Some buf" "json \<noteq> []" "length endpoint < 16" "length key < 256"
    and "0 < t" "now - t \<le> age" "\<And>s. s \<in> set buf \<Longrightarrow> ps_ts s \<le> t"
  shows "fst (pkg_ring_find (pkg_ring_push r t True endpoint key json) now True endpoint key age) = Some json"
proof -
  let ?r = "pkg_ring_push r t True endpoint key json" and ?h = "pr_head r"
  let ?s = "stored_sample t True endpoint key json (buf ! ?h)"
  let ?buf = "buf[?h := ?s]"
  have h: "?h < length buf" using assms(1,2) by (simp add: pkg_ring_inv_def)
  have buf: "pr_buf ?r = Some ?buf" and n: "0 < pr_count ?r"
    using assms(1-3) PKG_RING_CAPACITY_pos by (auto simp: pkg_ring_push_def simp del: PKG_RING_CAPACITY_pos)
  obtain idxs where idxs: "ring_indices ?r = ?h # idxs" using ring_indices_pushed assms(1-3) by blast
  have s: "?buf ! ?h = ?s" using h by simp
  have m: "sample_matches now endpoint key age ?s"
    using assms(4-7) by (simp add: sample_matches_def strlcpy_short) (simp add: stored_sample_def Let_def)
  have le: "ps_ts (?buf ! i) \<le> t" if "i \<in> set idxs" for i
  proof -
    have "i < length ?buf" using ring_indices_less [of i ?r] idxs that assms(1,2) by (simp add: pkg_ring_inv_def)
    then have "?buf ! i \<in> insert ?s (set buf)"
      by (meson nth_mem set_list_update_subset subsetD)
    then show ?thesis
    proof (rule insertE)
      assume "?buf ! i = ?s"
      then show ?thesis by (metis order_refl stored_sample_fields(1))
    qed (rule assms(8))
  qed
  have keep: "find_samples ?buf M (Some ?h) t idxs = Some ?h" for M
    by (rule find_samples_keep) (rule le)
  have found: "find_samples ?buf (sample_matches now endpoint key age) None 0 (?h # idxs) = Some ?h"
    unfolding find_samples.simps s stored_sample_fields using m assms(6) keep by simp
  then have look: "pkg_ring_lookup ?r now endpoint key age = Some ?h"
    unfolding pkg_ring_lookup_def buf idxs by simp
  have "fst (pkg_ring_find ?r now True endpoint key age) = Some (take (ps_json_len ?s) (the (ps_json ?s)))"
    unfolding pkg_ring_find_def buf look option.case s using n by simp
  then show ?thesis by (simp add: stored_sample_def Let_def)
qed

section \<open>The JSON text\<close>

text \<open>The members of the array, with the commas between them.\<close>

fun json_items :: "bool \<Rightarrow> string list \<Rightarrow> string" where
  "json_items fst_item [] = []"
| "json_items fst_item (x # xs) =
     (if fst_item then [] else '','') @ [QUOTE] @ json_escape_string (Some x) @ [QUOTE] @ json_items False xs"

lemma json_put_fits:
  "length b = n \<Longrightarrow> n + length text < PKG_JSON_MAX \<Longrightarrow> json_put text (b, n) = Inr (b @ text, n + length text)"
  by (simp add: json_put_def buf_put_fits)

lemma json_lines_bounded:
  assumes "length b < PKG_JSON_MAX - 3"
    and "\<And>l item. l \<in> set ls \<Longrightarrow> keep l = Some item \<Longrightarrow> length (json_escape_string (Some item)) \<le> 250"
  shows "\<exists>n. json_lines keep f (b, length b) ls =
      Inr (b @ json_items f (take n (List.map_filter keep ls)), length b + length (json_items f (take n (List.map_filter keep ls)))) \<and>
    length b + length (json_items f (take n (List.map_filter keep ls))) < PKG_JSON_MAX - 3 \<and>
    (n < length (List.map_filter keep ls) \<longrightarrow>
      PKG_JSON_MAX - 256 \<le> length b + length (json_items f (take n (List.map_filter keep ls))))"
  using assms
proof (induction ls arbitrary: b f)
  case Nil
  then show ?case by (simp add: map_filter_simps)
next
  case (Cons l ls)
  show ?case
  proof (cases "length b < PKG_JSON_MAX - 256")
    case False
    then show ?thesis using Cons.prems(1) by (intro exI [of _ 0]) simp
  next
    case True
    show ?thesis
    proof (cases "keep l")
      case None
      have "json_lines keep f (b, length b) (l # ls) = json_lines keep f (b, length b) ls" using None True by simp
      moreover have "List.map_filter keep (l # ls) = List.map_filter keep ls" using None by (simp add: map_filter_simps)
      ultimately show ?thesis using Cons.IH [of b f] Cons.prems by (metis list.set_intros(2))
    next
      case (Some item)
      define t where "t = (if f then [] else '','') @ [QUOTE] @ json_escape_string (Some item) @ [QUOTE]"
      have len: "length t \<le> 253" using Cons.prems(2) [of l item] Some by (simp add: t_def)
      have big: "PKG_JSON_MAX = 1048576" by (simp add: PKG_JSON_MAX_def)
      have put: "json_put t (b, length b) = Inr (b @ t, length (b @ t))"
        using json_put_fits [of b "length b" t] True len big by simp
      have small: "length (b @ t) < PKG_JSON_MAX - 3" using True len big by simp
      obtain n where n: "json_lines keep False (b @ t, length (b @ t)) ls =
          Inr ((b @ t) @ json_items False (take n (List.map_filter keep ls)),
               length (b @ t) + length (json_items False (take n (List.map_filter keep ls))))"
        "length (b @ t) + length (json_items False (take n (List.map_filter keep ls))) < PKG_JSON_MAX - 3"
        "n < length (List.map_filter keep ls) \<longrightarrow>
          PKG_JSON_MAX - 256 \<le> length (b @ t) + length (json_items False (take n (List.map_filter keep ls)))"
        using Cons.IH [OF small, of False] Cons.prems(2) by auto
      have step: "json_lines keep f (b, length b) (l # ls) = json_lines keep False (b @ t, length (b @ t)) ls"
        using True Some put by (cases f) (auto simp: t_def)
      have kept: "List.map_filter keep (l # ls) = item # List.map_filter keep ls" using Some by (simp add: map_filter_simps)
      have items: "json_items f (take (Suc n) (item # List.map_filter keep ls)) = t @ json_items False (take n (List.map_filter keep ls))"
        by (simp add: t_def)
      show ?thesis
        by (rule exI [of _ "Suc n"]) (use n in \<open>simp add: step kept items Some add.assoc del: json_items.simps take_Suc_Cons json_lines.simps\<close>)
    qed
  qed
qed

lemma json_escape_char_length: "length (json_escape_char c) \<le> 6"
  by (simp add: json_escape_char_def)

text \<open>A plain text longer than the buffer is escaped to itself.\<close>

lemma json_escape_loop_plain: "d + n + 7 < m - 1 \<Longrightarrow> json_escape_loop m d (replicate n (CHR ''a'')) = replicate n (CHR ''a'')"
  by (induction n arbitrary: d) (simp_all add: json_escape_char_def chr_code_def)

section \<open>The commands that are run\<close>

definition harmless :: "string \<Rightarrow> bool" where
  "harmless s \<longleftrightarrow> list_all (\<lambda>c. 32 \<le> chr_code c \<and> chr_code c \<noteq> 127 \<and> c \<notin> shell_special) s"

fun direct_cmd :: "pkg_cmd \<Rightarrow> bool" where
  "direct_cmd (Exec argv) \<longleftrightarrow> argv \<noteq> [] \<and> hd argv = ''pkg_info'' \<and> list_all harmless argv"
| "direct_cmd (Shell cmd) \<longleftrightarrow> False"

lemma isalnum_harmless: "isalnum c \<Longrightarrow> 32 \<le> chr_code c \<and> chr_code c \<noteq> 127 \<and> c \<notin> shell_special"
  by (auto simp: isalnum_def isdigit_def isupper_def islower_def shell_special_def chr_code_def)

lemma name_char_harmless:
  assumes "isalnum c \<or> c = CHR ''.'' \<or> c = CHR ''_'' \<or> c = CHR ''-'' \<or> c = CHR ''+''"
  shows "32 \<le> chr_code c \<and> chr_code c \<noteq> 127 \<and> c \<notin> shell_special"
proof (cases "isalnum c")
  case False
  then have "c = CHR ''.'' \<or> c = CHR ''_'' \<or> c = CHR ''-'' \<or> c = CHR ''+''" using assms by simp
  then show ?thesis by (elim disjE) (simp_all add: shell_special_def chr_code_def)
qed (rule isalnum_harmless)

lemma harmless_name: "is_safe_pkg_name n \<Longrightarrow> harmless n"
  unfolding is_safe_pkg_name_def harmless_def
  by (erule conjE, erule list.pred_mono_strong) (rule name_char_harmless)

lemma harmless_path: "is_safe_path p \<Longrightarrow> harmless p"
  by (simp add: is_safe_path_def harmless_def)

lemma harmless_const [simp]:
  "harmless ''pkg_info''" "harmless ''-Q''" "harmless ''-q''" "harmless ''-L''" "harmless ''-qmz''" "harmless ''-W''" "harmless ''-E''"
  by (simp_all add: harmless_def shell_special_def chr_code_def)

lemma trace_simps [simp]:
  "pk_trace (packages_once env st) = pk_trace st" "pk_trace (snd (ring_try env e k st)) = pk_trace st"
  "pk_trace (ring_keep env e k j st) = pk_trace st" "pk_trace (snd (raw_answer env e k out st)) = pk_trace st"
proof -
  show once: "pk_trace (packages_once env st) = pk_trace st"
    by (simp add: packages_once_def packages_cache_bootstrap_def Let_def split: prod.splits)
  show "pk_trace (snd (ring_try env e k st)) = pk_trace st"
    using once by (simp add: ring_try_def Let_def split: prod.splits)
  show "pk_trace (ring_keep env e k j st) = pk_trace st" for st j by (simp add: ring_keep_def)
  then show "pk_trace (snd (raw_answer env e k out st)) = pk_trace st"
    by (simp add: raw_answer_def split: option.splits)
qed

text \<open>\<open>ran P st st'\<close>: between the two states only commands with \<open>P\<close> were started, at most three.\<close>

definition ran :: "(pkg_cmd \<Rightarrow> bool) \<Rightarrow> nat \<Rightarrow> pkg_state \<Rightarrow> pkg_state \<Rightarrow> bool" where
  "ran P n st st' \<longleftrightarrow> (\<exists>cs. pk_trace st' = pk_trace st @ cs \<and> list_all P cs \<and> length cs \<le> n)"

lemma ran_refl: "pk_trace st' = pk_trace st \<Longrightarrow> ran P n st st'"
  by (auto simp: ran_def)

lemma ran_trans: "ran P n st st' \<Longrightarrow> ran P m st' st'' \<Longrightarrow> ran P (n + m) st st''"
  by (fastforce simp: ran_def)

lemma ran_mono: "ran P n st st' \<Longrightarrow> (\<And>c. P c \<Longrightarrow> Q c) \<Longrightarrow> n \<le> m \<Longrightarrow> ran Q m st st'"
  by (fastforce simp: ran_def list_all_iff)

lemma ran_pkg_info:
  "run_pkg_info env args t st = Inr (out, st') \<Longrightarrow> list_all harmless args \<Longrightarrow> ran direct_cmd 1 st st'"
  by (auto simp: run_pkg_info_def Let_def ran_def split: option.splits)

lemma ran_upto: "ran P n st st' \<Longrightarrow> pk_trace st'' = pk_trace st' \<Longrightarrow> pk_trace st0 = pk_trace st \<Longrightarrow> ran P n st0 st''"
  by (simp add: ran_def)

lemma ring_try_trace: "ring_try env e k st = (r, st') \<Longrightarrow> pk_trace st' = pk_trace st"
  using trace_simps(2) [of env e k st] by simp

lemma raw_answer_trace: "raw_answer env e k out st = (r, st') \<Longrightarrow> pk_trace st' = pk_trace st"
  using trace_simps(4) [of env e k out st] by simp

lemma ran_search:
  assumes "pkg_search_json env query st = Inr (r, st')"
  shows "ran (\<lambda>c. direct_cmd c \<or> c = Shell (search_cmd query)) 3 st st'"
proof -
  let ?P = "\<lambda>c. direct_cmd c \<or> c = Shell (search_cmd query)"
  obtain hit st1 where found: "ring_try env ''search'' query st = (hit, st1)" by fastforce
  note t1 = ring_try_trace [OF found]
  show ?thesis
  proof (cases "query = [] \<or> hit \<noteq> None")
    case True
    then show ?thesis using assms found t1 by (auto simp: pkg_search_json_def intro!: ran_refl split: if_splits)
  next
    case False
    then obtain out2 st2 out3 st3 out4 st4 where
      d: "search_direct env query st1 = Inr (out2, st2)" and
      g: "search_grep env query (out2, st2) = Inr (out3, st3)" and
      p: "search_popen env query (out3, st3) = Inr (out4, st4)" and
      f: "search_finish env query (out4, st4) = Inr (r, st')"
      using assms found by (auto simp: pkg_search_json_def bindR_Inr_iff)
    have "ran ?P 1 st1 st2"
      using d by (auto simp: search_direct_def bindR_Inr_iff ran_refl harmless_name dest!: ran_pkg_info
          elim: ran_mono split: if_splits)
    moreover have "ran ?P 1 st2 st3"
    proof -
      have "st3 = st2 \<or> (\<exists>b. run_pkg_info env [''-q''] 5 st2 = Inr (b, st3))"
        using g unfolding search_grep_def by (auto simp: bindR_Inr_iff split: if_split_asm option.split_asm)
      then show ?thesis by (auto simp: ran_refl dest!: ran_pkg_info elim: ran_mono)
    qed
    moreover have "ran ?P 1 st3 st4"
      using p by (auto simp: search_popen_def bindR_Inr_iff ran_def Let_def split: if_splits option.splits)
    moreover have "pk_trace st' = pk_trace st4"
      using f by (auto simp: search_finish_def bindR_Inr_iff split: if_splits c_ptr.splits)
    ultimately have "ran ?P (1 + 1 + 1) st1 st4" by (blast intro: ran_trans)
    then show ?thesis using t1 \<open>pk_trace st' = pk_trace st4\<close> by (simp add: ran_def numeral_3_eq_3)
  qed
qed

lemma ran_info: "pkg_info_json env name st = Inr (r, st') \<Longrightarrow> ran direct_cmd 3 st st'"
  by (auto simp: pkg_info_json_def bindR_Inr_iff harmless_name ran_def
      dest!: ring_try_trace raw_answer_trace ran_pkg_info
      split: if_splits prod.splits option.splits)

lemma ran_files: "pkg_files_json env name st = Inr (r, st') \<Longrightarrow> ran direct_cmd 3 st st'"
  by (auto simp: pkg_files_json_def bindR_Inr_iff harmless_name ran_def
      dest!: ring_try_trace ran_pkg_info
      split: if_splits prod.splits option.splits)

lemma ran_list: "pkg_list_json env st = Inr (r, st') \<Longrightarrow> ran direct_cmd 3 st st'"
  by (auto simp: pkg_list_json_def bindR_Inr_iff ran_def
      dest!: ring_try_trace ran_pkg_info
      split: if_splits prod.splits option.splits)

lemma ran_which: "pkg_which_json env path st = Inr (r, st') \<Longrightarrow> ran direct_cmd 3 st st'"
proof -
  assume w: "pkg_which_json env path st = Inr (r, st')"
  obtain hit st1 where found: "ring_try env ''which'' path st = (hit, st1)" by fastforce
  note t1 = ring_try_trace [OF found]
  show ?thesis
  proof (cases "is_safe_path path \<and> hit = None")
    case True
    then obtain out st2 where run: "run_pkg_info env [''-W'', path] PKG_WHICH_TIMEOUT st1 = Inr (out, st2)"
      and k: "(\<exists>out2 st3. run_pkg_info env [''-E'', path] PKG_WHICH_TIMEOUT st2 = Inr (out2, st3) \<and>
            raw_answer env ''which'' path out2 st3 = (r, st')) \<or> raw_answer env ''which'' path out st2 = (r, st')"
      using w found by (auto simp: pkg_which_json_def bindR_Inr_iff split: if_splits)
    have h: "harmless path" using True harmless_path by simp
    have one: "ran direct_cmd 1 st st2" using ran_pkg_info [OF run] h t1 by (auto simp: ran_def)
    show ?thesis
    proof (cases "raw_answer env ''which'' path out st2 = (r, st')")
      case True
      then show ?thesis using one raw_answer_trace [OF True] by (auto simp: ran_def)
    next
      case False
      then obtain out2 st3 where run2: "run_pkg_info env [''-E'', path] PKG_WHICH_TIMEOUT st2 = Inr (out2, st3)"
        and a: "raw_answer env ''which'' path out2 st3 = (r, st')" using k by blast
      have "ran direct_cmd 1 st2 st3" using ran_pkg_info [OF run2] h by simp
      then have "ran direct_cmd (1 + 1) st st3" using one ran_trans by blast
      then show ?thesis using raw_answer_trace [OF a] by (auto simp: ran_def)
    qed
  next
    case False
    then show ?thesis using w found t1 by (auto simp: pkg_which_json_def intro!: ran_refl split: if_splits)
  qed
qed

section \<open>The answer on the wire\<close>

lemma send_pkg_json_delivered:
  assumes "can_create hc" "length json < 10 ^ 19"
  shows "send_pkg_json req json hc =
    (case delivered hc (http_message (req_keep_alive req) 200 ''application/json'' [''Access-Control-Allow-Origin: *''] json) of
       None \<Rightarrow> Inl Blocked | Some r \<Rightarrow> Inr r)"
  by (rule created_response_delivered [OF assms, of 200 "''application/json''" "[''Access-Control-Allow-Origin: *'']" req])
    (simp_all add: send_pkg_json_def http_response_set_body_def http_response_add_header_def snprintf_out_def HEADERS_SIZE_def)

section \<open>Properties\<close>

lemma with_value_ran:
  assumes "with_value req name f st = Inr (a, st')" "\<And>v r st'. f v st = Inr (r, st') \<Longrightarrow> ran (P v) n st st'"
  shows "\<exists>v. ran (P v) n st st'"
  using assms by (auto simp: with_value_def bindR_Inr_iff intro: ran_refl split: option.splits)

lemma pkg_query_ran:
  assumes "pkg_query env req st = Inr (answer, st')"
  shows "(\<exists>q. path_matches_endpoint (drop (length ''/api/packages'') (req_url req)) ''/search'' \<and>
      ran (\<lambda>c. direct_cmd c \<or> c = Shell (search_cmd q)) 3 st st') \<or> ran direct_cmd 3 st st'"
proof -
  let ?path = "drop (length ''/api/packages'') (req_url req)"
  have direct: "ran direct_cmd 3 st st'" if "with_value req name f st = Inr (answer, st')"
    "\<And>v r st'. f v st = Inr (r, st') \<Longrightarrow> ran direct_cmd 3 st st'" for name f
    using with_value_ran [of req name f st answer st' "\<lambda>v. direct_cmd" 3] that by blast
  have search: "\<exists>q. ran (\<lambda>c. direct_cmd c \<or> c = Shell (search_cmd q)) 3 st st'"
    if "with_value req ''q'' (pkg_search_json env) st = Inr (answer, st')"
    by (rule with_value_ran [OF that]) (rule ran_search)
  consider "\<not> prefix ''/api/packages'' (req_url req)"
    | "prefix ''/api/packages'' (req_url req)" "path_matches_endpoint ?path ''/search''"
    | "prefix ''/api/packages'' (req_url req)" "\<not> path_matches_endpoint ?path ''/search''" by blast
  then show ?thesis
  proof cases
    case 1
    then show ?thesis using assms by (simp add: pkg_query_def ran_refl)
  next
    case 2
    then show ?thesis using assms search by (simp add: pkg_query_def Let_def)
  next
    case 3
    then show ?thesis
      using assms direct [where f = "pkg_info_json env", OF _ ran_info] direct [where f = "pkg_which_json env", OF _ ran_which]
        direct [where f = "pkg_files_json env", OF _ ran_files]
      unfolding pkg_query_def Let_def
      by (auto simp: bindR_Inr_iff ran_refl intro: ran_list split: if_split_asm)
  qed
qed

lemma pkg_api_handler_query:
  assumes "pkg_api_handler env req (st, hc) = Inr (rc, st', hc')"
  obtains answer where "pkg_query env req st = Inr (answer, st')"
proof -
  obtain answer st1 where q: "pkg_query env req st = Inr (answer, st1)"
    using assms by (auto simp: pkg_api_handler_def bindR_Inr_iff)
  have "st1 = st'"
  proof (cases answer)
    case (Answer_error code msg)
    then show ?thesis using assms q by (auto simp: pkg_api_handler_def split: option.split_asm)
  next
    case (Answer_json json)
    then show ?thesis using assms q by (auto simp: pkg_api_handler_def bindR_Inr_iff split: option.split_asm)
  qed
  then show thesis using q that by simp
qed

text \<open>
  What a package request may run: at most three commands, each of them \<^verbatim>\<open>pkg_info\<close> executed
  directly with arguments free of control characters and of every shell metacharacter. The one
  exception is the search endpoint, whose last resort hands a command line to the shell.
\<close>

theorem pkg_commands_confined:
  assumes "pkg_api_handler env req (st, hc) = Inr (rc, st', hc')"
  shows "\<exists>cs. pk_trace st' = pk_trace st @ cs \<and> length cs \<le> 3 \<and>
    (\<forall>c \<in> set cs. direct_cmd c \<or>
       path_matches_endpoint (drop (length ''/api/packages'') (req_url req)) ''/search'' \<and> (\<exists>q. c = Shell (search_cmd q)))"
proof -
  obtain answer where "pkg_query env req st = Inr (answer, st')" using pkg_api_handler_query [OF assms] .
  from pkg_query_ran [OF this] show ?thesis by (auto simp: ran_def list_all_iff)
qed

text \<open>
  The ring of answers is a sound cache: whatever was pushed and looked up before, an answer it
  gives was pushed under that endpoint and key (shortened to fifteen and 255 bytes), at most
  \<open>age\<close> seconds ago, and is returned unchanged.
\<close>

theorem pkg_ring_sound:
  assumes "fst (pkg_lookup (cache_run pkg_store pkg_lookup (snd (pkg_ring_init True t0 r0)) ops)
      (now, ok, age) (endpoint, key)) = Some (t, json)"
  shows "(\<exists>endpoint' key'. strlcpy 16 endpoint' = endpoint \<and> strlcpy 256 key' = key \<and>
      ((endpoint', key'), (t, json)) \<in> stored ops) \<and> now - t \<le> age"
proof -
  let ?r = "cache_run pkg_store pkg_lookup (snd (pkg_ring_init True t0 r0)) ops"
  have "pkg_ring_inv ?r" using pkg_cache.norm_holds_run pkg_ring_init_holds by blast
  then have "now - t \<le> age" using pkg_lookup_Some(2) assms by blast
  moreover have "\<exists>k'. short_key k' = (endpoint, key) \<and> (k', (t, json)) \<in> stored ops"
    using pkg_cache.norm_lookup_was_stored [OF pkg_ring_init_holds assms] .
  ultimately show ?thesis by (auto simp: short_key_def)
qed

text \<open>
  Storing and finding in the ring is a round trip: in any ring reached by pushes and lookups,
  an answer pushed under an endpoint and a key that fit their fields is what the next lookup of
  that key returns, as long as it is not older than the age limit and no entry is newer.
\<close>

theorem pkg_ring_roundtrip:
  assumes "r = cache_run pkg_store pkg_lookup (snd (pkg_ring_init True t0 r0)) ops" "pr_buf r = Some buf"
    and "json \<noteq> []" "length endpoint < 16" "length key < 256"
    and "0 < t" "now - t \<le> age" "list_all (\<lambda>s. ps_ts s \<le> t) buf"
  shows "fst (pkg_ring_find (pkg_ring_push r t True endpoint key json) now True endpoint key age) = Some json"
proof -
  have "pkg_ring_inv r" using pkg_cache.norm_holds_run pkg_ring_init_holds assms(1) by blast
  then show ?thesis using pkg_ring_find_pushed assms by (simp add: list_all_iff)
qed

theorem pkg_ring_roundtrip_witness:
  "fst (pkg_ring_find (pkg_ring_push (snd (pkg_ring_init True 100 undefined)) 110 True ''info'' ''curl'' ''{}'') 130 True ''info'' ''curl''
     PKG_CACHE_TTL_SEC) = Some ''{}''"
proof -
  let ?r = "snd (pkg_ring_init True 100 undefined)"
  have "pr_buf ?r = Some (replicate PKG_RING_CAPACITY zero_sample)" by (simp add: pkg_ring_init_def)
  moreover have "list_all (\<lambda>s. ps_ts s \<le> 110) (replicate PKG_RING_CAPACITY zero_sample)"
    by (simp add: list_all_iff zero_sample_def)
  ultimately show ?thesis
    using pkg_ring_roundtrip [of ?r 100 undefined "[]" "replicate PKG_RING_CAPACITY zero_sample" "''{}''" "''info''" "''curl''" 110 130]
    by (simp add: PKG_CACHE_TTL_SEC_def)
qed

theorem pkg_ring_sound_witness:
  "\<exists>t. 130 - t \<le> PKG_CACHE_TTL_SEC \<and> ((''info'', ''curl''), (t, ''{}'')) \<in>
     stored [Store_op (0, True, 0) (''info'', ''curl'') (110, ''{}'')]"
proof -
  let ?r = "snd (pkg_ring_init True 100 undefined)"
  let ?p = "pkg_ring_push ?r 110 True ''info'' ''curl'' ''{}''"
  have "\<And>s. s \<in> set (replicate PKG_RING_CAPACITY zero_sample) \<Longrightarrow> ps_ts s \<le> 110" by (simp add: zero_sample_def)
  then have "fst (pkg_ring_find ?p 130 True ''info'' ''curl'' PKG_CACHE_TTL_SEC) = Some ''{}''"
    using pkg_ring_find_pushed [OF pkg_ring_init_holds(1), of 100 undefined "replicate PKG_RING_CAPACITY zero_sample" "''{}''" "''info''" "''curl''" 110 130]
    by (simp add: pkg_ring_init_def PKG_CACHE_TTL_SEC_def)
  then obtain t where "fst (pkg_lookup ?p (130, True, PKG_CACHE_TTL_SEC) (''info'', ''curl'')) = Some (t, ''{}'')"
    by (simp add: pkg_lookup_find)
  then have "fst (pkg_lookup (cache_run pkg_store pkg_lookup ?r [Store_op (0, True, 0) (''info'', ''curl'') (110, ''{}'')])
      (130, True, PKG_CACHE_TTL_SEC) (''info'', ''curl'')) = Some (t, ''{}'')"
    by (simp add: pkg_store_def)
  from pkg_ring_sound [OF this] show ?thesis by auto
qed

text \<open>A request for the information on one package, in a process without memory for the ring.\<close>

definition pkg_sample_env :: pkg_env where
  "pkg_sample_env = \<lparr>pe_time = 100,
     pe_spawn = (\<lambda>argv. \<lparr>sp_pipe_ok = True, sp_fork_ok = False, sp_malloc_ok = True, sp_start = 100, sp_rounds = []\<rparr>),
     pe_popen = (\<lambda>cmd. None), pe_calloc = False, pe_grep_malloc = True, pe_popen_malloc = True, pe_json_malloc = True,
     pe_copy_strdup = True, pe_hit_malloc = True, pe_store_malloc = True, pe_strdup = True\<rparr>"

definition pkg_sample_state :: pkg_state where
  "pkg_sample_state = \<lparr>pk_ring = \<lparr>pr_buf = None, pr_head = 0, pr_count = 0, pr_total_hits = 0, pr_total_misses = 0, pr_last_stats = 0\<rparr>,
     pk_once = False, pk_ready = False, pk_trace = []\<rparr>"

definition pkg_sample_req :: "string \<Rightarrow> http_request_t" where
  "pkg_sample_req url = \<lparr>req_fd = 5, req_method = ''GET'', req_url = url, req_version = ''HTTP/1.1'',
     req_keep_alive = True, req_buffer = [], req_buffer_len = 0, req_client_addr = None\<rparr>"

definition pkg_sample_http :: http_ctx where
  "pkg_sample_http = \<lparr>hc_tid = 7, hc_calloc_ok = True, hc_pools = response_pools0,
     hc_registry = \<lparr>routes = [], prefix_routes = []\<rparr>, hc_ws = [Write_error], hc_ps = [], hc_out = []\<rparr>"

lemmas pkg_sample_defs = pkg_sample_env_def pkg_sample_state_def pkg_sample_req_def

lemma pkg_sample_can_create: "can_create pkg_sample_http"
proof -
  have fresh: "\<not> rp_initialized (response_pools0 ! response_pool_shard_index 7)"
    using response_pool_shard_index_less [of 7] by (simp add: response_pools0_def)
  show ?thesis
    using response_pool_inv_fresh(1) [OF fresh] by (simp add: can_create_def response_pools0_def pkg_sample_http_def)
qed

lemma pkg_sample_query:
  "\<exists>json. length json < 100 \<and> pkg_query pkg_sample_env (pkg_sample_req ''/api/packages/info?name=curl'') pkg_sample_state =
     Inr (Answer_json (Some json), pkg_sample_state\<lparr>pk_once := True, pk_trace := [Exec [''pkg_info'', ''curl'']]\<rparr>)"
proof -
  have v: "get_query_value ''/api/packages/info?name=curl'' ''name'' 1024 = Some ''curl''" by code_simp
  have safe: "is_safe_pkg_name ''curl''" by code_simp
  have e: "path_matches_endpoint ''/info?name=curl'' ''/search'' = False" "path_matches_endpoint ''/info?name=curl'' ''/info''"
    by (code_simp, code_simp)
  show ?thesis
    by (simp add: pkg_query_def pkg_sample_defs with_value_def v e pkg_info_json_def safe ring_try_def packages_once_def
        packages_cache_bootstrap_def pkg_ring_init_def run_pkg_info_def safe_popen_read_argv_def no_spawn_def raw_answer_def
        make_raw_json_def ring_keep_def json_key_def)
qed

theorem pkg_commands_confined_witness:
  "\<exists>st' hc'. pkg_api_handler pkg_sample_env (pkg_sample_req ''/api/packages/info?name=curl'') (pkg_sample_state, pkg_sample_http) =
      Inr (-1, st', hc') \<and> (\<exists>cs. pk_trace st' = cs \<and> cs \<noteq> [] \<and> (\<forall>c \<in> set cs. direct_cmd c))"
proof -
  let ?req = "pkg_sample_req ''/api/packages/info?name=curl''"
  obtain json where json: "length json < 100" and q: "pkg_query pkg_sample_env ?req pkg_sample_state =
     Inr (Answer_json (Some json), pkg_sample_state\<lparr>pk_once := True, pk_trace := [Exec [''pkg_info'', ''curl'']]\<rparr>)"
    using pkg_sample_query by blast
  have nonempty: "http_message k c t e b \<noteq> []" for k c t e b by (simp add: http_message_def)
  have "length json < 10 ^ 19" using json by simp
  note d = send_pkg_json_delivered [OF pkg_sample_can_create this, of ?req]
  have "\<exists>hc'. send_pkg_json ?req json pkg_sample_http = Inr (-1, hc')"
    using nonempty unfolding d by (simp add: delivered_def http_response_write_all_def pkg_sample_http_def)
  then obtain hc' where h: "pkg_api_handler pkg_sample_env ?req (pkg_sample_state, pkg_sample_http) =
      Inr (-1, pkg_sample_state\<lparr>pk_once := True, pk_trace := [Exec [''pkg_info'', ''curl'']]\<rparr>, hc')"
    using q by (auto simp: pkg_api_handler_def)
  have "path_matches_endpoint (drop (length ''/api/packages'') (req_url ?req)) ''/search'' = False"
    by (simp add: pkg_sample_req_def path_matches_endpoint_def)
  then show ?thesis using pkg_commands_confined [OF h] h by (auto simp: pkg_sample_state_def)
qed

text \<open>
  The value of a query parameter is what the client encoded: for any list of parameters whose
  names and values fit, looking a name up in the URL gives the first value of that name, decoded,
  and nothing when there is none.
\<close>

theorem get_query_value_lookup:
  assumes "CHR ''?'' \<notin> set path" "0 < n" "list_all (sendable 1024 n) params"
  shows "get_query_value (path @ ''?'' @ query_string params) key n = map_of params key"
  using query_value_string [OF assms, of key] sendable_value [OF assms(3), of key]
  by (simp add: get_query_value_def split: option.split)

theorem get_query_value_lookup_witness:
  "get_query_value (''/api/packages/info?'' @ query_string [(''v'', ''1''), (''name'', ''gtk+3 (x)'')]) ''name'' 1024 = Some ''gtk+3 (x)''"
proof -
  have "list_all (sendable 1024 1024) [(''v'', ''1''), (''name'', ''gtk+3 (x)'')]" by code_simp
  then show ?thesis
    using get_query_value_lookup [of "''/api/packages/info''" 1024 "[(''v'', ''1''), (''name'', ''gtk+3 (x)'')]" "''name''"] by simp
qed

text \<open>
  The JSON of a package list is complete or cut at an item: when the heading is short and no
  escaped item is longer than 250 bytes, building stays inside the buffer and gives the heading,
  the escaped items from the first on, and the closing brackets; items are left out only when the
  buffer is full to within 256 bytes.
\<close>

theorem pkg_json_build_exact:
  assumes "length head < PKG_JSON_MAX - 3"
    and "list_all (\<lambda>item. length (json_escape_string (Some item)) \<le> 250) (List.map_filter keep ls)"
  shows "\<exists>n json. pkg_json_build head keep ls = Inr json \<and> length json < PKG_JSON_MAX \<and>
    json = head @ json_items True (take n (List.map_filter keep ls)) @ '']}'' \<and>
    (n < length (List.map_filter keep ls) \<longrightarrow> PKG_JSON_MAX - 256 \<le> length json)"
proof -
  have big: "PKG_JSON_MAX = 1048576" by (simp add: PKG_JSON_MAX_def)
  have put: "json_put head ([], 0) = Inr (head, length head)"
    using json_put_fits [of "[]" 0 head] assms(1) by simp
  obtain n where n: "json_lines keep True (head, length head) ls =
      Inr (head @ json_items True (take n (List.map_filter keep ls)), length head + length (json_items True (take n (List.map_filter keep ls))))"
    "length head + length (json_items True (take n (List.map_filter keep ls))) < PKG_JSON_MAX - 3"
    "n < length (List.map_filter keep ls) \<longrightarrow>
      PKG_JSON_MAX - 256 \<le> length head + length (json_items True (take n (List.map_filter keep ls)))"
    using json_lines_bounded [OF assms(1), of ls keep True] assms(2) by (force simp: list_all_iff List.map_filter_def)
  let ?t = "head @ json_items True (take n (List.map_filter keep ls))"
  have fin: "json_put '']}'' (?t, length ?t) = Inr (?t @ '']}'', length ?t + 2)"
    using json_put_fits [of ?t "length ?t" "'']}''"] n(2) big by simp
  have "pkg_json_build head keep ls = Inr (?t @ '']}'')"
    unfolding pkg_json_build_def put bindR_simps n(1) using fin by simp
  then show ?thesis using n big by (intro exI [of _ n] exI [of _ "?t @ '']}''"]) auto
qed

theorem pkg_json_build_exact_witness:
  "\<exists>n json. pkg_json_build list_head list_keep [''curl-8.1'', ''zsh-5.9''] = Inr json \<and>
     json = list_head @ json_items True (take n [''curl-8.1'', ''zsh-5.9'']) @ '']}''"
proof -
  have keep: "List.map_filter list_keep [''curl-8.1'', ''zsh-5.9''] = [''curl-8.1'', ''zsh-5.9'']" by code_simp
  have len: "list_all (\<lambda>item. length (json_escape_string (Some item)) \<le> 250) [''curl-8.1'', ''zsh-5.9'']" by code_simp
  have "length list_head < PKG_JSON_MAX - 3" by (simp add: list_head_def json_key_def PKG_JSON_MAX_def)
  then show ?thesis
    using pkg_json_build_exact [of list_head list_keep "[''curl-8.1'', ''zsh-5.9'']"] len unfolding keep by fastforce
qed

subsection \<open>Where the code goes wrong\<close>

text \<open>
  One line of output as long as the JSON buffer makes the closing brackets land behind the buffer.
\<close>

theorem pkg_json_build_overruns:
  "pkg_json_build list_head list_keep [replicate PKG_JSON_MAX (CHR ''a'')] = Inl Out_of_bounds"
proof -
  let ?l = "replicate PKG_JSON_MAX (CHR ''a'')"
  have big: "PKG_JSON_MAX = 1048576" by (simp add: PKG_JSON_MAX_def)
  have head: "length list_head = 13" by (simp add: list_head_def json_key_def)
  have cr: "no_cr ?l = ?l" by (simp add: no_cr_def strcspn_def takeWhile_replicate)
  have esc: "json_escape_string (Some ?l) = ?l"
    using json_escape_loop_plain [of 0 PKG_JSON_MAX "PKG_JSON_MAX * 6 + 1"] big by (simp add: json_escape_string_def)
  have put: "json_put list_head ([], 0) = Inr (list_head, 13)"
    using json_put_fits [of "[]" 0 list_head] head big by simp
  have keep: "list_keep ?l = Some ?l" unfolding list_keep_def cr by (simp add: big)
  have "\<exists>b. json_lines list_keep True (list_head, 13) [?l] = Inr (b, 13 + (PKG_JSON_MAX + 2))"
    unfolding json_lines.simps keep option.case esc by (simp add: json_put_def buf_put_def big)
  then obtain b where b: "json_lines list_keep True (list_head, 13) [?l] = Inr (b, 13 + (PKG_JSON_MAX + 2))" by blast
  show ?thesis unfolding pkg_json_build_def put bindR_simps b by (simp add: json_put_def buf_put_def)
qed

text \<open>
  A search that finds nothing in the list of packages frees its buffer; when the shell then cannot
  be started, the freed buffer is read.
\<close>

theorem pkg_search_uses_freed_output:
  assumes "query \<noteq> []" "\<not> is_safe_pkg_name query" "fst (ring_try env ''search'' query st) = None"
    and "safe_popen_read_argv (pe_spawn env [''pkg_info'', ''-q'']) PKG_CMD_MAX_OUTPUT 5 = Some r" "sr_output r = Some b"
    and "\<And>l. l \<in> set (strtok_all (CHR 0x0A) (c_str b)) \<Longrightarrow> strstr l query = None"
    and "pe_grep_malloc env" "pe_popen env (search_cmd query) = None"
  shows "pkg_search_json env query st = Inl Use_after_free"
proof -
  have none: "grep_loop query out n ls = out" if "\<And>l. l \<in> set ls \<Longrightarrow> strstr l query = None" for out n ls
    using that by (induction ls) auto
  have "grep_loop query [] 0 (strtok_all (CHR 0x0A) (c_str b)) = []" using none assms(6) by blast
  then show ?thesis
    using assms by (cases "ring_try env ''search'' query st")
      (simp add: pkg_search_json_def search_direct_def search_grep_def search_popen_def search_finish_def run_pkg_info_def
        Let_def c_str_def)
qed

text \<open>The query of a search reaches the shell as it was sent.\<close>

theorem pkg_search_shell_injection:
  "\<exists>st'. pkg_search_json (pkg_sample_env\<lparr>pe_popen := (\<lambda>cmd. Some ''ok'')\<rparr>) ''x; reboot'' pkg_sample_state = Inr st' \<and>
     Shell ''pkg_info -Q x; reboot 2>&1'' \<in> set (pk_trace (snd st'))"
proof -
  have unsafe: "is_safe_pkg_name ''x; reboot'' = False" by code_simp
  have cmd: "search_cmd ''x; reboot'' = ''pkg_info -Q x; reboot 2>&1''" by code_simp
  have "fgets_lines 1024 ''ok'' = [''ok'']" by (simp add: fgets_lines.simps fgets_chunk_def)
  then have out: "popen_loop [] 0 (fgets_lines 1024 ''ok'') = ''ok''"
    by (simp add: PKG_CMD_MAX_OUTPUT_def strlcat_def c_str_def)
  have json: "\<exists>json. pkg_json_build (search_head ''x; reboot'') search_keep (strtok_all (CHR 0x0A) (c_str ''ok'')) = Inr json"
  proof -
    have len: "length (search_head ''x; reboot'') < 100" by code_simp
    have items: "list_all (\<lambda>item. length (json_escape_string (Some item)) \<le> 250)
        (List.map_filter search_keep (strtok_all (CHR 0x0A) (c_str ''ok'')))" by code_simp
    obtain w where "json_lines search_keep True (search_head ''x; reboot'', length (search_head ''x; reboot''))
        (strtok_all (CHR 0x0A) (c_str ''ok'')) = Inr w" "snd w < PKG_JSON_MAX - 3"
      using json_lines_bounded [of "search_head ''x; reboot''" "strtok_all (CHR 0x0A) (c_str ''ok'')" search_keep True] len items
      by (force simp: PKG_JSON_MAX_def list_all_iff List.map_filter_def)
    then show ?thesis
      using json_put_fits [of "[]" 0 "search_head ''x; reboot''"] len
      by (auto simp: pkg_json_build_def PKG_JSON_MAX_def) (simp add: json_put_def buf_put_def PKG_JSON_MAX_def)
  qed
  then show ?thesis
    by (auto simp: pkg_search_json_def pkg_sample_defs ring_try_def packages_once_def packages_cache_bootstrap_def
        pkg_ring_init_def search_direct_def unsafe search_grep_def run_pkg_info_def safe_popen_read_argv_def no_spawn_def
        search_popen_def cmd out search_finish_def c_str_def ring_keep_def)
qed

text \<open>
  A name that starts with a dash passes the check and is read as an option: \<open>-a\<close> lists every package.
\<close>

theorem pkg_name_may_be_option: "is_safe_pkg_name ''-a''"
  by code_simp

text \<open>
  The key is cut to 255 bytes when it is stored and compared in full when it is looked up: a query
  of 255 bytes is answered with what was stored for a longer one.
\<close>

theorem pkg_ring_key_collision:
  assumes "length key = 255"
  shows "fst (pkg_ring_find (pkg_ring_push (snd (pkg_ring_init True 100 r0)) 110 True ''search'' (key @ extra) ''{}'')
    120 True ''search'' key 30) = Some ''{}''"
proof -
  have "strlcpy 256 (key @ extra) = strlcpy 256 key" using assms by (simp add: strlcpy_def)
  then have "stored_sample 110 True ''search'' (key @ extra) ''{}'' s = stored_sample 110 True ''search'' key ''{}'' s" for s
    by (simp add: stored_sample_def)
  then have "pkg_ring_push r 110 True ''search'' (key @ extra) ''{}'' = pkg_ring_push r 110 True ''search'' key ''{}''" for r
    by (cases "pr_buf r") (simp_all add: pkg_ring_push_def)
  then show ?thesis
    using pkg_ring_find_pushed [OF pkg_ring_init_holds(1), of 100 r0 "replicate PKG_RING_CAPACITY zero_sample" "''{}''"
        "''search''" key 110 120 30] assms
    by (auto simp: pkg_ring_init_def zero_sample_def)
qed

end
