(* ===== verification/Metrics_System.thy ===== *)
theory Metrics_System
  imports World Http_Response Complex_Main "HOL-Library.Signed_Division" "HOL-Library.Multiset"
begin

text \<open>
  What the metrics module reads from the system: the collectors of
  \<^verbatim>\<open>src/modules/metrics/metrics_collectors.c\<close> and the process tables of \<^verbatim>\<open>metrics_process.c\<close>, in their
  OpenBSD form. The answers of \<^verbatim>\<open>sysctl\<close>, \<^verbatim>\<open>swapctl\<close>, \<^verbatim>\<open>getmntinfo\<close> and their relatives are records with
  the fields the code reads; \<open>None\<close> is a call that fails. Percentages in \<^verbatim>\<open>float\<close> are exact rationals
  (for \<^verbatim>\<open>cpu_percent\<close> the float is exact) and \<^verbatim>\<open>"%.1f"\<close> is a parameter. \<^verbatim>\<open>qsort\<close> is a parameter too: the
  C library promises a sorted permutation and no more.
\<close>

section \<open>Model: collectors\<close>

definition MB :: int where "MB = 1024 * 1024"

definition u64 :: "int \<Rightarrow> int" where
  \<comment> \<open>a value converted to \<^verbatim>\<open>unsigned long\<close>\<close>
  "u64 x = x mod 2 ^ 64"

record CpuStats =
  cs_user :: int
  cs_nice :: int
  cs_system :: int
  cs_interrupt :: int
  cs_idle :: int

definition zero_cpu :: CpuStats where
  "zero_cpu = \<lparr>cs_user = 0, cs_nice = 0, cs_system = 0, cs_interrupt = 0, cs_idle = 0\<rparr>"

text \<open>The states of \<^verbatim>\<open>kern.cp_time\<close>, in the order of \<^verbatim>\<open>sys/sched.h\<close>.\<close>

record cp_time =
  cp_user :: int
  cp_nice :: int
  cp_sys :: int
  cp_spin :: int
  cp_intr :: int
  cp_idle :: int

definition cp_list :: "cp_time \<Rightarrow> int list" where
  "cp_list c = [cp_user c, cp_nice c, cp_sys c, cp_spin c, cp_intr c, cp_idle c]"

definition metrics_get_cpu_stats :: "cp_time option \<Rightarrow> int \<times> CpuStats" where
  "metrics_get_cpu_stats sys =
     (case sys of
        None \<Rightarrow> (-1, zero_cpu)
      | Some c \<Rightarrow>
          (let total = sum_list (cp_list c) in
           if total = 0 then (-1, zero_cpu)
           else (0, \<lparr>cs_user = (cp_user c * 100) sdiv total, cs_nice = (cp_nice c * 100) sdiv total,
                     cs_system = (cp_sys c * 100) sdiv total, cs_interrupt = (cp_intr c * 100) sdiv total,
                     cs_idle = (cp_idle c * 100) sdiv total\<rparr>)))"

text \<open>\<^verbatim>\<open>metrics_read_cpu_ticks\<close> of \<^verbatim>\<open>metrics_snapshot.c\<close>: total and idle ticks.\<close>

definition metrics_read_cpu_ticks :: "cp_time option \<Rightarrow> (int \<times> int) option" where
  "metrics_read_cpu_ticks sys =
     (case sys of
        None \<Rightarrow> None
      | Some c \<Rightarrow>
          if \<not> list_all (\<lambda>x. 0 \<le> x) (cp_list c) then None
          else (let total = u64 (sum_list (cp_list c)) in if total = 0 then None else Some (total, cp_idle c)))"

record MemoryStats =
  ms_total_mb :: int
  ms_free_mb :: int
  ms_active_mb :: int
  ms_inactive_mb :: int
  ms_wired_mb :: int
  ms_cache_mb :: int
  ms_swap_total_mb :: int
  ms_swap_used_mb :: int

record uvmexp =
  uv_pagesize :: int
  uv_npages :: int
  uv_free :: int
  uv_active :: int
  uv_inactive :: int
  uv_wired :: int

record mem_sys =
  my_uvm :: "uvmexp option"
  my_nswap :: int
  my_calloc :: bool
  my_swap :: "(int \<times> int) list option"
    \<comment> \<open>\<^verbatim>\<open>se_nblks\<close> and \<^verbatim>\<open>se_inuse\<close> of every device\<close>

text \<open>
  \<^verbatim>\<open>metrics_get_memory_stats\<close>; \<open>st0\<close> is what the caller's structure held before, which shows through
  when the swap devices cannot be read.
\<close>

definition metrics_get_memory_stats :: "mem_sys \<Rightarrow> MemoryStats \<Rightarrow> int \<times> MemoryStats" where
  "metrics_get_memory_stats sys st0 =
     (case my_uvm sys of
        None \<Rightarrow> (-1, st0)
      | Some uvm \<Rightarrow>
          (let pg = uv_pagesize uvm;
               st1 = st0\<lparr>ms_total_mb := u64 (uv_npages uvm * pg) div MB, ms_free_mb := u64 (uv_free uvm * pg) div MB,
                         ms_active_mb := u64 (uv_active uvm * pg) div MB, ms_inactive_mb := u64 (uv_inactive uvm * pg) div MB,
                         ms_wired_mb := u64 (uv_wired uvm * pg) div MB, ms_cache_mb := 0\<rparr>
           in if my_nswap sys \<le> 0 then (0, st1\<lparr>ms_swap_total_mb := 0, ms_swap_used_mb := 0\<rparr>)
              else if \<not> my_calloc sys then (0, st1)
              else
                (case my_swap sys of
                   None \<Rightarrow> (0, st1)
                 | Some devs \<Rightarrow>
                     (let swap_total = u64 (sum_list (map fst devs)); swap_used = u64 (sum_list (map snd devs))
                      in (0, st1\<lparr>ms_swap_total_mb := u64 (swap_total * 512) div MB,
                                 ms_swap_used_mb := u64 (swap_used * 512) div MB\<rparr>)))))"

definition show2 :: "int \<Rightarrow> string" where
  \<comment> \<open>\<^verbatim>\<open>"%02ld"\<close>\<close>
  "show2 n = (let s = show_int n in if length s < 2 then CHR ''0'' # s else s)"

definition metrics_get_uptime :: "int option \<Rightarrow> int \<Rightarrow> nat \<Rightarrow> int \<times> string" where
  "metrics_get_uptime boottime now buf_size =
     (case boottime of
        None \<Rightarrow> (-1, strlcpy buf_size ''unknown'')
      | Some boot \<Rightarrow>
          (let uptime_seconds = now - boot;
               days = uptime_seconds sdiv (60 * 60 * 24);
               hours = (uptime_seconds smod (60 * 60 * 24)) sdiv (60 * 60);
               minutes = (uptime_seconds smod (60 * 60)) sdiv 60;
               seconds = uptime_seconds smod 60;
               clock = show_int hours @ '':'' @ show2 minutes @ '':'' @ show2 seconds
           in (0, snprintf_out buf_size (if 0 < days then show_int days @ '' days, '' @ clock else clock))))"

record statfs =
  f_fstypename :: string
  f_mntfromname :: string
  f_mntonname :: string
  f_blocks :: int
  f_bavail :: int
  f_bsize :: int

record DiskInfo =
  di_device :: string
  di_mount_point :: string
  di_total_mb :: int
  di_used_mb :: int
  di_percent_used :: int

definition skip_fs :: "statfs \<Rightarrow> bool" where
  "skip_fs fs \<longleftrightarrow> f_fstypename fs \<in> {''tmpfs'', ''procfs'', ''devfs'', ''fdescfs''} \<or> f_blocks fs = 0"

definition disk_info :: "statfs \<Rightarrow> DiskInfo" where
  "disk_info fs =
     (let total = u64 (f_blocks fs * f_bsize fs); available = u64 (f_bavail fs * f_bsize fs);
          total_mb = total div MB; used_mb = u64 (total - available) div MB
      in \<lparr>di_device = strlcpy 64 (f_mntfromname fs), di_mount_point = strlcpy 256 (f_mntonname fs),
          di_total_mb = total_mb, di_used_mb = used_mb,
          di_percent_used = (if 0 < total_mb then (used_mb * 100) div total_mb else 0)\<rparr>)"

fun disk_loop :: "nat \<Rightarrow> DiskInfo list \<Rightarrow> statfs list \<Rightarrow> DiskInfo list" where
  "disk_loop max_disks disks [] = disks"
| "disk_loop max_disks disks (fs # rest) =
     (if \<not> length disks < max_disks then disks
      else if skip_fs fs then disk_loop max_disks disks rest
      else disk_loop max_disks (disks @ [disk_info fs]) rest)"

definition metrics_get_disk_usage :: "statfs list \<Rightarrow> nat \<Rightarrow> DiskInfo list" where
  "metrics_get_disk_usage mnt max_disks = disk_loop max_disks [] mnt"

text \<open>\<^verbatim>\<open>metrics_init_cpu_freq\<close> and \<^verbatim>\<open>metrics_get_cpu_freq_mhz\<close> over the cached \<^verbatim>\<open>g_cpu_freq_mhz\<close>.\<close>

definition metrics_init_cpu_freq :: "int option \<Rightarrow> int \<Rightarrow> int" where
  "metrics_init_cpu_freq sys g_cpu_freq_mhz = (case sys of None \<Rightarrow> g_cpu_freq_mhz | Some mhz \<Rightarrow> mhz)"

definition metrics_get_os_info :: "(string \<times> string \<times> string) option \<Rightarrow> nat \<Rightarrow> (string \<times> string \<times> string) option" where
  "metrics_get_os_info uts n = map_option (\<lambda>(t, r, m). (strlcpy n t, strlcpy n r, strlcpy n m)) uts"

record LoadAverage =
  la_load_1min :: rat
  la_load_5min :: rat
  la_load_15min :: rat

text \<open>The argument is what \<^verbatim>\<open>getloadavg\<close> reports.\<close>

definition metrics_get_load_average :: "(rat \<times> rat \<times> rat) option \<Rightarrow> LoadAverage option" where
  "metrics_get_load_average loadavg =
     map_option (\<lambda>(a, b, c). \<lparr>la_load_1min = a, la_load_5min = b, la_load_15min = c\<rparr>) loadavg"

text \<open>\<^verbatim>\<open>gethostname\<close> with a buffer of \<open>len\<close> bytes.\<close>

definition metrics_get_hostname :: "string option \<Rightarrow> nat \<Rightarrow> string option" where
  "metrics_get_hostname hostname len = map_option (strlcpy len) hostname"

text \<open>Two collectors that report nothing yet; a result is the part of the array that is filled.\<close>

record PortInfo =
  po_port :: int
  po_protocol :: string
  po_connection_count :: int
  po_state :: string

definition metrics_get_top_ports :: "nat \<Rightarrow> PortInfo list" where
  "metrics_get_top_ports max_ports = []"

record NetworkInterface =
  ni_name :: string
  ni_ip_address :: string
  ni_status :: string

definition metrics_get_network_interfaces :: "nat \<Rightarrow> NetworkInterface list" where
  "metrics_get_network_interfaces max_interfaces = []"

section \<open>Model: processes\<close>

datatype proc_stat = SIDL | SRUN | SSLEEP | SSTOP | SZOMB | SDEAD | SONPROC

record kinfo_proc =
  p_pid :: int
  p_uid :: nat
  p_stat :: proc_stat
  p_pctcpu :: int
  p_vm_rssize :: int
  p_comm :: string

record ProcessInfo =
  pi_user :: string
  pi_pid :: int
  pi_cpu_percent :: rat
  pi_memory_percent :: rat
  pi_memory_mb :: int
  pi_command :: string

definition zero_process :: ProcessInfo where
  "zero_process = \<lparr>pi_user = [], pi_pid = 0, pi_cpu_percent = 0, pi_memory_percent = 0, pi_memory_mb = 0, pi_command = []\<rparr>"

definition FSCALE :: rat where "FSCALE = 2048"

definition compare_memory_desc :: "kinfo_proc \<Rightarrow> kinfo_proc \<Rightarrow> int" where
  "compare_memory_desc pa pb =
     (if p_vm_rssize pa < p_vm_rssize pb then 1 else if p_vm_rssize pb < p_vm_rssize pa then -1 else 0)"

text \<open>What the process functions ask the system for; \<open>pe_attempts\<close> are the rounds of the snapshot.\<close>

datatype proc_data = Procs "kinfo_proc list" | Procs_enomem | Procs_error

record proc_attempt =
  pa_size :: "nat option"
  pa_malloc :: bool
  pa_data :: "nat \<Rightarrow> proc_data"

record proc_env =
  pv_elem_size :: nat
  pv_attempts :: "nat \<Rightarrow> proc_attempt"
  pv_getpwuid :: "nat \<Rightarrow> string option"
  pv_mem :: mem_sys
  pv_mem0 :: MemoryStats
  pv_page_size :: int
  pv_calloc :: bool
  pv_qsort :: "(kinfo_proc \<Rightarrow> kinfo_proc \<Rightarrow> int) \<Rightarrow> kinfo_proc list \<Rightarrow> kinfo_proc list"
  pv_fmt1 :: "rat \<Rightarrow> string"

definition metrics_resolve_username :: "proc_env \<Rightarrow> nat \<Rightarrow> nat \<Rightarrow> string" where
  "metrics_resolve_username env uid n =
     (case pv_getpwuid env uid of Some name \<Rightarrow> strlcpy n name | None \<Rightarrow> snprintf_out n (show_nat uid))"

text \<open>At most four rounds, each asking for more room than the one before.\<close>

function snapshot_loop :: "proc_env \<Rightarrow> nat \<Rightarrow> kinfo_proc list option" where
  "snapshot_loop env retry =
     (if 4 \<le> retry then None
      else
        (let a = pv_attempts env retry in
         case pa_size a of
           None \<Rightarrow> None
         | Some sz \<Rightarrow>
             (let nelem = (sz div pv_elem_size env) * (5 + retry) div 4 in
              if \<not> pa_malloc a then None
              else (case pa_data a nelem of
                      Procs kp \<Rightarrow> Some kp
                    | Procs_error \<Rightarrow> None
                    | Procs_enomem \<Rightarrow> snapshot_loop env (retry + 1)))))"
  by pat_completeness auto

termination by (relation "measure (\<lambda>(env, retry). 4 - retry)") auto

declare snapshot_loop.simps [simp del]

definition metrics_get_procs_snapshot :: "proc_env \<Rightarrow> kinfo_proc list option" where
  "metrics_get_procs_snapshot env = snapshot_loop env 0"

definition cpu_info :: "proc_env \<Rightarrow> kinfo_proc \<Rightarrow> ProcessInfo" where
  "cpu_info env kp =
     zero_process\<lparr>pi_pid := p_pid kp, pi_cpu_percent := 100 * of_int (p_pctcpu kp) / FSCALE,
                  pi_command := strlcpy 256 (p_comm kp), pi_user := metrics_resolve_username env (p_uid kp) 32\<rparr>"

text \<open>The two loops of the bubble sort, largest first; the inner one compares \<open>j\<close> and \<open>j + 1\<close> for \<open>j < n\<close>.\<close>

function bubble_inner :: "nat \<Rightarrow> nat \<Rightarrow> ProcessInfo list \<Rightarrow> ProcessInfo list" where
  "bubble_inner j n ps =
     (if j < n
      then bubble_inner (j + 1) n
             (if pi_cpu_percent (ps ! j) < pi_cpu_percent (ps ! (j + 1))
              then ps[j := ps ! (j + 1), j + 1 := ps ! j] else ps)
      else ps)"
  by pat_completeness auto

termination by (relation "measure (\<lambda>(j, n, ps). n - j)") auto

function bubble_outer :: "nat \<Rightarrow> nat \<Rightarrow> ProcessInfo list \<Rightarrow> ProcessInfo list" where
  "bubble_outer i cnt ps =
     (if i + 1 < cnt then bubble_outer (i + 1) cnt (bubble_inner 0 (cnt - i - 1) ps) else ps)"
  by pat_completeness auto

termination by (relation "measure (\<lambda>(i, cnt, ps). cnt - i)") auto

declare bubble_inner.simps [simp del] bubble_outer.simps [simp del]

definition bubble_sort :: "ProcessInfo list \<Rightarrow> ProcessInfo list" where
  "bubble_sort ps = bubble_outer 0 (length ps) ps"

definition metrics_get_top_cpu_processes :: "proc_env \<Rightarrow> nat \<Rightarrow> ProcessInfo list" where
  "metrics_get_top_cpu_processes env max_processes =
     (case metrics_get_procs_snapshot env of
        None \<Rightarrow> []
      | Some kp \<Rightarrow>
          if \<not> pv_calloc env then []
          else
            (let temp = bubble_sort (map (cpu_info env) (filter (\<lambda>p. p_stat p \<noteq> SZOMB) kp));
                 cnt = (if length temp < max_processes then length temp else max_processes)
             in take cnt temp))"

text \<open>The memory figures of one process; \<^verbatim>\<open>mem_kb\<close> and \<^verbatim>\<open>memory_mb\<close> are integer divisions.\<close>

definition mem_info :: "proc_env \<Rightarrow> int \<Rightarrow> kinfo_proc \<Rightarrow> ProcessInfo" where
  "mem_info env total_memory_kb kp =
     zero_process\<lparr>pi_pid := p_pid kp, pi_memory_mb := (p_vm_rssize kp * pv_page_size env) sdiv (1024 * 1024),
       pi_memory_percent :=
         (if 0 < total_memory_kb
          then 100 * of_int ((p_vm_rssize kp * pv_page_size env) sdiv 1024) / of_int total_memory_kb else 0),
       pi_command := strlcpy 256 (p_comm kp), pi_user := metrics_resolve_username env (p_uid kp) 32\<rparr>"

definition total_memory_kb :: "proc_env \<Rightarrow> int" where
  "total_memory_kb env =
     (let (rc, st) = metrics_get_memory_stats (pv_mem env) (pv_mem0 env) in if rc = 0 then ms_total_mb st * 1024 else 0)"

fun top_memory_loop :: "proc_env \<Rightarrow> int \<Rightarrow> nat \<Rightarrow> ProcessInfo list \<Rightarrow> kinfo_proc list \<Rightarrow> ProcessInfo list" where
  "top_memory_loop env total_kb max_processes acc [] = acc"
| "top_memory_loop env total_kb max_processes acc (kp # kps) =
     (if \<not> length acc < max_processes then acc
      else if p_stat kp = SZOMB then top_memory_loop env total_kb max_processes acc kps
      else top_memory_loop env total_kb max_processes (acc @ [mem_info env total_kb kp]) kps)"

definition metrics_get_top_memory_processes :: "proc_env \<Rightarrow> nat \<Rightarrow> ProcessInfo list" where
  "metrics_get_top_memory_processes env max_processes =
     (case metrics_get_procs_snapshot env of
        None \<Rightarrow> []
      | Some kp \<Rightarrow> top_memory_loop env (total_memory_kb env) max_processes [] (pv_qsort env compare_memory_desc kp))"

record proc_counts =
  pc_total :: nat
  pc_running :: nat
  pc_sleeping :: nat
  pc_zombie :: nat

definition count_process :: "kinfo_proc \<Rightarrow> proc_counts \<Rightarrow> proc_counts" where
  "count_process kp c =
     (if p_stat kp = SRUN \<or> p_stat kp = SONPROC then c\<lparr>pc_running := pc_running c + 1\<rparr>
      else if p_stat kp = SSLEEP then c\<lparr>pc_sleeping := pc_sleeping c + 1\<rparr>
      else if p_stat kp = SZOMB then c\<lparr>pc_zombie := pc_zombie c + 1\<rparr>
      else c)"

definition process_counts :: "kinfo_proc list \<Rightarrow> proc_counts" where
  "process_counts kps =
     fold count_process kps \<lparr>pc_total = length kps, pc_running = 0, pc_sleeping = 0, pc_zombie = 0\<rparr>"

definition metrics_get_process_stats :: "proc_env \<Rightarrow> proc_counts option" where
  "metrics_get_process_stats env = map_option process_counts (metrics_get_procs_snapshot env)"

subsection \<open>The JSON sections of the processes\<close>

definition jkey :: "string \<Rightarrow> string" where
  "jkey k = [QUOTE] @ k @ [QUOTE] @ '': ''"

definition jstr :: "string \<Rightarrow> string" where
  "jstr v = [QUOTE] @ v @ [QUOTE]"

definition stats_json :: "proc_counts \<Rightarrow> string" where
  "stats_json c = jkey ''process_stats'' @ ''{'' @ jkey ''total'' @ show_nat (pc_total c) @ '', '' @ jkey ''running'' @ show_nat (pc_running c) @
     '', '' @ jkey ''sleeping'' @ show_nat (pc_sleeping c) @ '', '' @ jkey ''zombie'' @ show_nat (pc_zombie c) @ ''}''"

definition cpu_entry :: "proc_env \<Rightarrow> ProcessInfo \<Rightarrow> string" where
  "cpu_entry env p = ''{'' @ jkey ''user'' @ jstr (pi_user p) @ '', '' @ jkey ''pid'' @ show_int (pi_pid p) @ '', '' @
     jkey ''cpu_percent'' @ pv_fmt1 env (pi_cpu_percent p) @ '', '' @ jkey ''command'' @ jstr (pi_command p) @ ''}''"

definition mem_entry :: "proc_env \<Rightarrow> ProcessInfo \<Rightarrow> string" where
  "mem_entry env p = ''{'' @ jkey ''user'' @ jstr (pi_user p) @ '', '' @ jkey ''pid'' @ show_int (pi_pid p) @ '', '' @
     jkey ''memory_percent'' @ pv_fmt1 env (pi_memory_percent p) @ '', '' @ jkey ''memory_mb'' @ show_int (pi_memory_mb p) @
     '', '' @ jkey ''command'' @ jstr (pi_command p) @ ''}''"

text \<open>The loop that prints a list, one separator and one entry at a time, while more than \<open>low\<close> bytes are left.\<close>

fun print_entries :: "nat \<Rightarrow> nat \<Rightarrow> bool \<Rightarrow> out_buf \<Rightarrow> string list \<Rightarrow> fault + out_buf" where
  "print_entries cap low first_item w [] = Inr w"
| "print_entries cap low first_item w (e # es) =
     (if \<not> left_over cap low w then Inr w
      else
        bindR (if first_item then Inr w else buf_put cap '', '' w) (\<lambda>w1.
        bindR (buf_put cap e w1) (\<lambda>w2. print_entries cap low False w2 es)))"

definition print_section :: "nat \<Rightarrow> nat \<Rightarrow> string \<Rightarrow> string list \<Rightarrow> fault + string" where
  "print_section cap low head es =
     bindR (buf_put cap head ([], 0)) (\<lambda>w0.
     bindR (print_entries cap low True w0 es) (\<lambda>w1.
     bindR (buf_put cap '']'' w1) (\<lambda>w2. Inr (fst w2))))"

definition metrics_process_append_json_sections ::
  "proc_env \<Rightarrow> bool \<Rightarrow> nat \<Rightarrow> nat \<Rightarrow> nat \<Rightarrow> fault + string \<times> string \<times> string" where
  "metrics_process_append_json_sections env malloc_ok top_cpu_json_size top_mem_json_size proc_stats_json_size =
     (case metrics_get_procs_snapshot env of
        None \<Rightarrow>
          Inr (snprintf_out top_cpu_json_size (jkey ''top_cpu_processes'' @ ''[]''),
               snprintf_out top_mem_json_size (jkey ''top_memory_processes'' @ ''[]''),
               snprintf_out proc_stats_json_size (jkey ''process_stats'' @ ''null''))
      | Some kp \<Rightarrow>
          (let stats = snprintf_out proc_stats_json_size (stats_json (process_counts kp));
               live = (\<lambda>p. p_stat p \<noteq> SZOMB);
               top_cpu = bubble_sort (map (cpu_info env) (take 10 (filter live kp)))
           in bindR (print_section top_cpu_json_size 100 (jkey ''top_cpu_processes'' @ ''['') (map (cpu_entry env) top_cpu)) (\<lambda>cpu.
              if \<not> malloc_ok
              then Inr (cpu, snprintf_out top_mem_json_size (jkey ''top_memory_processes'' @ ''[]''), stats)
              else
                (let kmem = pv_qsort env compare_memory_desc kp;
                     entries = map (mem_entry env) (top_memory_loop env (total_memory_kb env) 10 [] kmem)
                 in bindR (print_section top_mem_json_size 100 (jkey ''top_memory_processes'' @ ''['') entries) (\<lambda>mem.
                      Inr (cpu, mem, stats))))))"

section \<open>The bubble sort\<close>

text \<open>What every step of the sort keeps: the elements, the order of equal ones, and the tail.\<close>

definition rearranged :: "nat \<Rightarrow> ProcessInfo list \<Rightarrow> ProcessInfo list \<Rightarrow> bool" where
  "rearranged n ps qs \<longleftrightarrow> mset qs = mset ps \<and> drop n qs = drop n ps \<and>
     (\<forall>v. filter (\<lambda>p. pi_cpu_percent p = v) qs = filter (\<lambda>p. pi_cpu_percent p = v) ps)"

lemma rearranged_refl: "rearranged n ps ps"
  by (simp add: rearranged_def)

lemma rearranged_trans: "rearranged n ps qs \<Longrightarrow> rearranged n qs rs \<Longrightarrow> rearranged n ps rs"
  by (simp add: rearranged_def)

lemma rearranged_length: "rearranged n ps qs \<Longrightarrow> length qs = length ps"
  by (metis rearranged_def mset_eq_length)

lemma rearranged_swap:
  assumes "j + 1 < length ps" "j + 2 \<le> n" "pi_cpu_percent (ps ! j) < pi_cpu_percent (ps ! (j + 1))"
  shows "rearranged n ps (ps[j := ps ! (j + 1), j + 1 := ps ! j])"
proof -
  obtain xs a b ys where ps: "ps = xs @ a # b # ys" and j: "length xs = j"
    using assms(1) by (metis Cons_nth_drop_Suc Suc_eq_plus1 Suc_lessD id_take_nth_drop length_take min.absorb4)
  then have swap: "ps[j := ps ! (j + 1), j + 1 := ps ! j] = xs @ b # a # ys"
    by (auto simp: list_update_append nth_append)
  have "pi_cpu_percent a < pi_cpu_percent b" using assms(3) ps j by (auto simp: nth_append)
  moreover have "drop n (xs @ b # a # ys) = drop n (xs @ a # b # ys)"
    using assms(2) j by (auto simp: drop_Cons' not_le)
  ultimately show ?thesis unfolding swap unfolding ps rearranged_def by auto
qed

lemma bubble_inner_spec:
  assumes "n < length ps" "j \<le> n" "\<And>i. i \<le> j \<Longrightarrow> pi_cpu_percent (ps ! j) \<le> pi_cpu_percent (ps ! i)"
  shows "rearranged (n + 1) ps (bubble_inner j n ps) \<and>
    (\<forall>i \<le> n. pi_cpu_percent (bubble_inner j n ps ! n) \<le> pi_cpu_percent (bubble_inner j n ps ! i))"
  using assms
proof (induction j n ps rule: bubble_inner.induct)
  case (1 j n ps)
  show ?case
  proof (cases "j < n")
    case False
    then have "bubble_inner j n ps = ps" by (simp add: bubble_inner.simps [of j n ps])
    moreover have "j = n" using False 1(3) by simp
    ultimately show ?thesis using 1(4) rearranged_refl by simp
  next
    case True
    let ?qs = "if pi_cpu_percent (ps ! j) < pi_cpu_percent (ps ! (j + 1)) then ps[j := ps ! (j + 1), j + 1 := ps ! j] else ps"
    have step: "rearranged (n + 1) ps ?qs"
      using rearranged_swap [of j ps "n + 1"] True 1(2) by (simp add: rearranged_refl)
    have len: "length ?qs = length ps" using rearranged_length [OF step] .
    have low: "pi_cpu_percent (?qs ! (j + 1)) \<le> pi_cpu_percent (?qs ! i)" if "i \<le> j + 1" for i
      using that True 1(2) 1(4) [of i] 1(4) [of j] by (auto simp: nth_list_update le_Suc_eq not_less elim: order_trans)
    have "rearranged (n + 1) ?qs (bubble_inner (j + 1) n ?qs) \<and>
        (\<forall>i \<le> n. pi_cpu_percent (bubble_inner (j + 1) n ?qs ! n) \<le> pi_cpu_percent (bubble_inner (j + 1) n ?qs ! i))"
      by (rule 1(1) [OF True]) (use len low True 1(2) in \<open>auto simp del: One_nat_def\<close>)
    moreover have "bubble_inner j n ps = bubble_inner (j + 1) n ?qs" using True by (simp add: bubble_inner.simps [of j n ps])
    ultimately show ?thesis using rearranged_trans [OF step] by simp
  qed
qed

text \<open>The last \<open>i\<close> places are final.\<close>

definition settled :: "nat \<Rightarrow> ProcessInfo list \<Rightarrow> bool" where
  "settled i ps \<longleftrightarrow> (\<forall>a b. a < b \<longrightarrow> b < length ps \<longrightarrow> length ps - i \<le> b \<longrightarrow> pi_cpu_percent (ps ! b) \<le> pi_cpu_percent (ps ! a))"

lemma rearranged_take:
  assumes "rearranged n ps qs" "a < n" "a < length ps"
  shows "\<exists>c < n. c < length ps \<and> qs ! a = ps ! c"
proof -
  have len: "length qs = length ps" using rearranged_length [OF assms(1)] .
  have "mset (take n qs) + mset (drop n qs) = mset (take n ps) + mset (drop n ps)"
    using assms(1) by (metis append_take_drop_id mset_append rearranged_def)
  then have "mset (take n qs) = mset (take n ps)" using assms(1) by (simp add: rearranged_def)
  then have "set (take n qs) = set (take n ps)" by (metis set_mset_mset)
  moreover have "qs ! a \<in> set (take n qs)" using assms len by (auto simp: in_set_conv_nth)
  ultimately show ?thesis by (auto simp: in_set_conv_nth)
qed

lemma settled_step:
  assumes "settled i ps" "i + 1 < length ps"
  shows "settled (i + 1) (bubble_inner 0 (length ps - i - 1) ps)"
proof -
  let ?n = "length ps - i - 1" and ?qs = "bubble_inner 0 (length ps - i - 1) ps"
  have r: "rearranged (?n + 1) ps ?qs"
    and low: "\<And>a. a \<le> ?n \<Longrightarrow> pi_cpu_percent (?qs ! ?n) \<le> pi_cpu_percent (?qs ! a)"
    using bubble_inner_spec [of ?n ps 0] assms(2) by auto
  have len: "length ?qs = length ps" using rearranged_length [OF r] .
  have same: "?qs ! b = ps ! b" if "?n < b" "b < length ps" for b
  proof -
    have "drop (?n + 1) ?qs ! (b - (?n + 1)) = drop (?n + 1) ps ! (b - (?n + 1))" using r by (simp add: rearranged_def)
    then show ?thesis using that len assms(2) by simp
  qed
  have "pi_cpu_percent (?qs ! b) \<le> pi_cpu_percent (?qs ! a)" if "a < b" "b < length ps" "?n \<le> b" for a b
  proof (cases "b = ?n")
    case True
    then show ?thesis using low that by simp
  next
    case False
    then have b: "?n < b" "length ps - i \<le> b" using that by auto
    show ?thesis
    proof (cases "a \<le> ?n")
      case True
      then have "a < ?n + 1" "a < length ps" using that by auto
      then obtain c where "c < ?n + 1" "?qs ! a = ps ! c" using rearranged_take [OF r] by blast
      then show ?thesis using assms(1) b that same [of b] by (simp add: settled_def)
    next
      case False
      then show ?thesis using assms(1) b that same [of b] same [of a] by (simp add: settled_def)
    qed
  qed
  then show ?thesis unfolding settled_def len by simp
qed

lemma bubble_outer_spec:
  "settled i ps \<Longrightarrow> cnt = length ps \<Longrightarrow> settled cnt (bubble_outer i cnt ps) \<and> rearranged cnt ps (bubble_outer i cnt ps)"
proof (induction i cnt ps rule: bubble_outer.induct)
  case (1 i cnt ps)
  show ?case
  proof (cases "i + 1 < cnt")
    case True
    let ?qs = "bubble_inner 0 (cnt - i - 1) ps"
    have "rearranged (cnt - i - 1 + 1) ps ?qs"
      using bubble_inner_spec [of "cnt - i - 1" ps 0] True 1(3) by simp
    then have r: "rearranged cnt ps ?qs"
      using 1(3) rearranged_length [of "cnt - i - 1 + 1" ps ?qs] by (auto simp: rearranged_def)
    have "settled (i + 1) ?qs" using settled_step 1(2,3) True by simp
    then show ?thesis
      using 1(1) [OF True] rearranged_length [OF r] rearranged_trans [OF r] 1(3) True by (simp add: bubble_outer.simps [of i])
  next
    case False
    then have "settled cnt ps" using 1(2,3) by (fastforce simp: settled_def)
    then show ?thesis using False by (simp add: bubble_outer.simps [of i] rearranged_refl)
  qed
qed

text \<open>The bubble sort is the stable sort by falling share of the processor.\<close>

lemma bubble_sort_sorts: "bubble_sort ps = sort_key (\<lambda>p. - pi_cpu_percent p) ps"
proof (rule properties_for_sort_key [symmetric])
  have s: "settled (length ps) (bubble_sort ps)" and r: "rearranged (length ps) ps (bubble_sort ps)"
    using bubble_outer_spec [of 0 ps "length ps"] by (auto simp: bubble_sort_def settled_def)
  show "mset (bubble_sort ps) = mset ps" using r by (simp add: rearranged_def)
  show "filter (\<lambda>p. - pi_cpu_percent k = - pi_cpu_percent p) (bubble_sort ps) =
      filter (\<lambda>p. - pi_cpu_percent k = - pi_cpu_percent p) ps" for k
    using r by (simp add: rearranged_def eq_commute [of "pi_cpu_percent k"])
  show "sorted (map (\<lambda>p. - pi_cpu_percent p) (bubble_sort ps))"
    using s rearranged_length [OF r] by (auto simp: sorted_iff_nth_mono_less settled_def)
qed

section \<open>Other lemmas\<close>

text \<open>A loop that skips and stops at a limit keeps the first ones.\<close>

lemma disk_loop_eq:
  "disk_loop m ds fss = take (max m (length ds)) (ds @ map disk_info (filter (\<lambda>fs. \<not> skip_fs fs) fss))"
proof (induction m ds fss rule: disk_loop.induct)
  case (2 m ds fs fss)
  then show ?case by (auto simp: max_def not_less take_Cons')
qed simp

lemma top_memory_loop_eq:
  "top_memory_loop env t m acc kps =
    take (max m (length acc)) (acc @ map (mem_info env t) (filter (\<lambda>p. p_stat p \<noteq> SZOMB) kps))"
proof (induction env t m acc kps rule: top_memory_loop.induct)
  case (2 env t m acc kp kps)
  then show ?case by (auto simp: max_def not_less take_Cons')
qed simp

text \<open>What the C library promises of \<^verbatim>\<open>qsort\<close>.\<close>

definition qsort_ok :: "((kinfo_proc \<Rightarrow> kinfo_proc \<Rightarrow> int) \<Rightarrow> kinfo_proc list \<Rightarrow> kinfo_proc list) \<Rightarrow> bool" where
  "qsort_ok qs \<longleftrightarrow> (\<forall>kps. mset (qs compare_memory_desc kps) = mset kps \<and>
     sorted_wrt (\<lambda>a b. compare_memory_desc a b \<le> 0) (qs compare_memory_desc kps))"

lemma process_counts_eq:
  "process_counts kps = \<lparr>pc_total = length kps,
     pc_running = length (filter (\<lambda>p. p_stat p = SRUN \<or> p_stat p = SONPROC) kps),
     pc_sleeping = length (filter (\<lambda>p. p_stat p = SSLEEP) kps),
     pc_zombie = length (filter (\<lambda>p. p_stat p = SZOMB) kps)\<rparr>"
proof -
  have "fold count_process kps c = c\<lparr>
      pc_running := pc_running c + length (filter (\<lambda>p. p_stat p = SRUN \<or> p_stat p = SONPROC) kps),
      pc_sleeping := pc_sleeping c + length (filter (\<lambda>p. p_stat p = SSLEEP) kps),
      pc_zombie := pc_zombie c + length (filter (\<lambda>p. p_stat p = SZOMB) kps)\<rparr>" for c
    by (induction kps arbitrary: c) (auto simp: count_process_def)
  then show ?thesis by (simp add: process_counts_def)
qed

subsection \<open>Printing\<close>

fun join_entries :: "bool \<Rightarrow> string list \<Rightarrow> string" where
  "join_entries f [] = []"
| "join_entries f (e # es) = (if f then [] else '', '') @ e @ join_entries False es"

lemma length_join_entries:
  "list_all (\<lambda>e. length e \<le> m) es \<Longrightarrow> length (join_entries f es) \<le> length es * (m + 2)"
proof (induction es arbitrary: f)
  case (Cons e es)
  then have "length e \<le> m" "length (join_entries False es) \<le> length es * (m + 2)" by auto
  then show ?case by simp
qed simp

text \<open>As long as everything fits, the section is printed in full.\<close>

lemma print_entries_fit:
  "length b + length (join_entries f es) + low < cap \<Longrightarrow>
    print_entries cap low f (b, length b) es = Inr (b @ join_entries f es, length b + length (join_entries f es))"
proof (induction es arbitrary: b f)
  case (Cons e es)
  let ?s = "if f then [] else '', ''"
  have left: "left_over cap low (b, length b)" using Cons.prems by (simp add: left_over_def)
  have "print_entries cap low f (b, length b) (e # es) = print_entries cap low False (b @ ?s @ e, length (b @ ?s @ e)) es"
  proof (cases f)
    case True
    then show ?thesis using Cons.prems buf_put_fits [of b "length b" e cap] left by simp
  next
    case False
    then show ?thesis
      using Cons.prems buf_put_fits [of b "length b" "'', ''" cap] buf_put_fits [of "b @ '', ''" "length b + 2" e cap] left
      by simp
  qed
  also have "\<dots> = Inr ((b @ ?s @ e) @ join_entries False es, length (b @ ?s @ e) + length (join_entries False es))"
    using Cons.prems by (intro Cons.IH) simp
  finally show ?case by simp
qed (simp add: left_over_def)

lemma print_section_fit:
  assumes "length head + length (join_entries True es) + low + 1 < cap"
  shows "print_section cap low head es = Inr (head @ join_entries True es @ '']'')"
proof -
  let ?t = "head @ join_entries True es"
  have "buf_put cap head ([], 0) = Inr (head, length head)" using assms buf_put_fits [of "[]" 0 head cap] by simp
  moreover have "print_entries cap low True (head, length head) es = Inr (?t, length ?t)"
    using print_entries_fit [of head True es low cap] assms by simp
  moreover have "buf_put cap '']'' (?t, length ?t) = Inr (?t @ '']'', length ?t + 1)"
    using assms buf_put_fits [of ?t "length ?t" "'']''" cap] by simp
  ultimately show ?thesis by (simp add: print_section_def)
qed

text \<open>The limits of the kernel on what a process entry holds.\<close>

definition proc_sane :: "proc_env \<Rightarrow> kinfo_proc \<Rightarrow> bool" where
  "proc_sane env kp \<longleftrightarrow> length (p_comm kp) < 24 \<and> \<bar>p_pid kp\<bar> < 10 ^ 10 \<and>
     0 \<le> p_vm_rssize kp * pv_page_size env \<and> p_vm_rssize kp * pv_page_size env < 10 ^ 10"

lemma length_show_int: "\<bar>i\<bar> < 10 ^ 10 \<Longrightarrow> length (show_int i) \<le> 11"
proof -
  assume "\<bar>i\<bar> < 10 ^ 10"
  then have "nat \<bar>i\<bar> < 10 ^ Suc 9" by (simp add: nat_less_iff)
  then have "length (show_nat (nat \<bar>i\<bar>)) \<le> 10" using length_show_nat [of _ 9] by simp
  then show ?thesis by (auto simp: show_int_def)
qed

lemma length_username: "length (metrics_resolve_username env uid 32) < 32"
  using length_strlcpy [of 32] length_snprintf_out [of 32]
  by (auto simp: metrics_resolve_username_def split: option.splits)

lemma length_command: "length (strlcpy 256 c) \<le> length c"
  by (simp add: strlcpy_def)

lemma length_cpu_entry:
  assumes "proc_sane env kp" "\<And>x. length (pv_fmt1 env x) \<le> 12"
  shows "length (cpu_entry env (cpu_info env kp)) \<le> 150"
proof -
  have "length (show_int (p_pid kp)) \<le> 11" using assms(1) length_show_int by (simp add: proc_sane_def)
  moreover have "length (strlcpy 256 (p_comm kp)) < 24" using assms(1) length_command [of "p_comm kp"] by (simp add: proc_sane_def)
  ultimately show ?thesis
    using length_username [of env "p_uid kp"] assms(2) [of "100 * of_int (p_pctcpu kp) / FSCALE"]
    by (simp add: cpu_entry_def cpu_info_def jkey_def jstr_def zero_process_def)
qed

lemma length_mem_entry:
  assumes "proc_sane env kp" "\<And>x. length (pv_fmt1 env x) \<le> 12"
  shows "length (mem_entry env (mem_info env t kp)) \<le> 170"
proof -
  let ?rss = "p_vm_rssize kp * pv_page_size env"
  have "0 \<le> ?rss" "?rss < 10 ^ 10" using assms(1) by (auto simp: proc_sane_def)
  moreover have "r div 1048576 \<le> r \<and> 0 \<le> r div 1048576" if "0 \<le> r" for r :: int
    using that zdiv_mono2 [of r 1 1048576] by (simp add: pos_imp_zdiv_nonneg_iff)
  ultimately have "?rss div 1048576 \<le> ?rss" "0 \<le> ?rss div 1048576" by blast+
  then have "\<bar>?rss sdiv (1024 * 1024)\<bar> < 10 ^ 10" using \<open>?rss < 10 ^ 10\<close> \<open>0 \<le> ?rss\<close>
    by (auto simp: signed_divide_int_def sgn_if)
  then have "length (show_int (?rss sdiv (1024 * 1024))) \<le> 11" by (rule length_show_int)
  moreover have "length (show_int (p_pid kp)) \<le> 11" using assms(1) length_show_int by (simp add: proc_sane_def)
  moreover have "length (strlcpy 256 (p_comm kp)) < 24" using assms(1) length_command [of "p_comm kp"] by (simp add: proc_sane_def)
  ultimately show ?thesis
    using length_username [of env "p_uid kp"] assms(2) [of "pi_memory_percent (mem_info env t kp)"]
    by (simp add: mem_entry_def mem_info_def jkey_def jstr_def zero_process_def)
qed

section \<open>Properties\<close>

text \<open>
  C36. The processes by share of the processor: for any table the kernel returns, the result is the
  stable sort of the processes that are no zombies, largest share first, cut to the number asked
  for. The hand-written bubble sort agrees with the sort of the library.
\<close>

theorem metrics_get_top_cpu_processes_sorted:
  assumes "metrics_get_procs_snapshot env = Some kps" "pv_calloc env"
  shows "metrics_get_top_cpu_processes env n =
    take n (sort_key (\<lambda>p. - pi_cpu_percent p) (map (cpu_info env) (filter (\<lambda>p. p_stat p \<noteq> SZOMB) kps)))"
  using assms by (simp add: metrics_get_top_cpu_processes_def bubble_sort_sorts Let_def)

text \<open>
  The JSON sections of the processes are complete and stay inside their buffers of 2048 bytes,
  whatever processes run: each lists at most ten of them with all their fields, and closes its
  bracket. This rests on the kernel's limit of 23 characters for a command name.
\<close>

theorem metrics_process_sections_complete:
  assumes "metrics_get_procs_snapshot env = Some kps" "list_all (proc_sane env) kps"
    and "qsort_ok (pv_qsort env)" "\<And>x. length (pv_fmt1 env x) \<le> 12"
  shows "\<exists>cpu mem stats. metrics_process_append_json_sections env True 2048 2048 256 = Inr (cpu, mem, stats) \<and>
    length cpu < 2048 \<and> length mem < 2048 \<and>
    cpu = jkey ''top_cpu_processes'' @ ''['' @ join_entries True (map (cpu_entry env) (sort_key (\<lambda>p. - pi_cpu_percent p)
      (map (cpu_info env) (take 10 (filter (\<lambda>p. p_stat p \<noteq> SZOMB) kps))))) @ '']'' \<and>
    mem = jkey ''top_memory_processes'' @ ''['' @ join_entries True (map (mem_entry env \<circ> mem_info env (total_memory_kb env))
      (take 10 (filter (\<lambda>p. p_stat p \<noteq> SZOMB) (pv_qsort env compare_memory_desc kps)))) @ '']''"
proof -
  let ?live = "filter (\<lambda>p. p_stat p \<noteq> SZOMB)" and ?t = "total_memory_kb env"
  define cs where "cs = map (cpu_entry env) (sort_key (\<lambda>p. - pi_cpu_percent p) (map (cpu_info env) (take 10 (?live kps))))"
  define ms where "ms = map (mem_entry env) (top_memory_loop env ?t 10 [] (pv_qsort env compare_memory_desc kps))"
  have ms: "ms = map (mem_entry env \<circ> mem_info env ?t) (take 10 (?live (pv_qsort env compare_memory_desc kps)))"
    by (simp add: ms_def top_memory_loop_eq take_map)
  have sane: "proc_sane env p" if "p \<in> set kps" for p using assms(2) that by (simp add: list_all_iff)
  have sorted_set: "set (pv_qsort env compare_memory_desc kps) = set kps"
    using assms(3) by (metis qsort_ok_def set_mset_mset)
  have "list_all (\<lambda>e. length e \<le> 150) cs"
    using length_cpu_entry [OF sane assms(4)] by (auto simp: cs_def list_all_iff dest!: in_set_takeD)
  then have "length (join_entries True cs) \<le> length cs * 152" using length_join_entries [of 150 cs True] by simp
  moreover have "length cs \<le> 10" by (simp add: cs_def)
  ultimately have cl: "length (join_entries True cs) \<le> 1520" by linarith
  have "list_all (\<lambda>e. length e \<le> 170) ms"
    using length_mem_entry [OF sane assms(4)] sorted_set by (auto simp: ms list_all_iff dest!: in_set_takeD)
  then have "length (join_entries True ms) \<le> length ms * 172" using length_join_entries [of 170 ms True] by simp
  moreover have "length ms \<le> 10" by (simp add: ms)
  ultimately have ml: "length (join_entries True ms) \<le> 1720" by linarith
  have c: "print_section 2048 100 (jkey ''top_cpu_processes'' @ ''['') cs = Inr ((jkey ''top_cpu_processes'' @ ''['') @ join_entries True cs @ '']'')"
    by (rule print_section_fit) (use cl in \<open>simp add: jkey_def\<close>)
  have m: "print_section 2048 100 (jkey ''top_memory_processes'' @ ''['') ms = Inr ((jkey ''top_memory_processes'' @ ''['') @ join_entries True ms @ '']'')"
    by (rule print_section_fit) (use ml in \<open>simp add: jkey_def\<close>)
  have "\<exists>stats. metrics_process_append_json_sections env True 2048 2048 256 =
      Inr ((jkey ''top_cpu_processes'' @ ''['') @ join_entries True cs @ '']'', (jkey ''top_memory_processes'' @ ''['') @ join_entries True ms @ '']'', stats)"
    using assms(1) c m by (simp add: metrics_process_append_json_sections_def bubble_sort_sorts cs_def ms_def Let_def)
  then show ?thesis using cl ml unfolding cs_def ms by (auto simp: jkey_def)
qed

text \<open>Three processes, one of them a zombie, on a system whose \<^verbatim>\<open>qsort\<close> is the sort of the library.\<close>

definition sample_proc :: "int \<Rightarrow> proc_stat \<Rightarrow> int \<Rightarrow> int \<Rightarrow> kinfo_proc" where
  "sample_proc pid st cpu rss = \<lparr>p_pid = pid, p_uid = 1000, p_stat = st, p_pctcpu = cpu, p_vm_rssize = rss, p_comm = ''ksh''\<rparr>"

definition sample_procs :: "kinfo_proc list \<Rightarrow> proc_env" where
  "sample_procs kps = \<lparr>pv_elem_size = 600,
     pv_attempts = (\<lambda>retry. \<lparr>pa_size = Some 6000, pa_malloc = True, pa_data = (\<lambda>n. if retry = 0 then Procs_enomem else Procs kps)\<rparr>),
     pv_getpwuid = (\<lambda>uid. None),
     pv_mem = \<lparr>my_uvm = None, my_nswap = 0, my_calloc = True, my_swap = None\<rparr>,
     pv_mem0 = \<lparr>ms_total_mb = 0, ms_free_mb = 0, ms_active_mb = 0, ms_inactive_mb = 0, ms_wired_mb = 0, ms_cache_mb = 0,
       ms_swap_total_mb = 0, ms_swap_used_mb = 0\<rparr>,
     pv_page_size = 4096, pv_calloc = True, pv_qsort = (\<lambda>cmp. sort_key (\<lambda>p. - p_vm_rssize p)), pv_fmt1 = (\<lambda>x. ''0.0'')\<rparr>"

lemma snapshot_sample: "metrics_get_procs_snapshot (sample_procs kps) = Some kps"
  by (simp add: metrics_get_procs_snapshot_def snapshot_loop.simps [of _ 0] snapshot_loop.simps [of _ "Suc 0"] sample_procs_def)

theorem metrics_get_top_cpu_processes_sorted_witness:
  "map pi_pid (metrics_get_top_cpu_processes
      (sample_procs [sample_proc 1 SSLEEP 10 5, sample_proc 2 SZOMB 99 0, sample_proc 3 SONPROC 80 7]) 5) = [3, 1]"
proof -
  let ?env = "sample_procs [sample_proc 1 SSLEEP 10 5, sample_proc 2 SZOMB 99 0, sample_proc 3 SONPROC 80 7]"
  have "pv_calloc ?env" by (simp add: sample_procs_def)
  from metrics_get_top_cpu_processes_sorted [OF snapshot_sample this, of 5] show ?thesis
    by (simp add: sample_proc_def cpu_info_def zero_process_def FSCALE_def insort_key_def)
qed

lemma sorted_wrt_memory: "sorted_wrt (\<lambda>a b. compare_memory_desc a b \<le> 0) (sort_key (\<lambda>p. - p_vm_rssize p) kps)"
proof -
  have "sorted_wrt (\<lambda>a b. p_vm_rssize b \<le> p_vm_rssize a) (sort_key (\<lambda>p. - p_vm_rssize p) kps)"
    using sorted_sort_key [of "\<lambda>p. - p_vm_rssize p" kps] by (simp add: sorted_map)
  then show ?thesis by (rule sorted_wrt_mono_rel [rotated]) (auto simp: compare_memory_desc_def)
qed

theorem metrics_process_sections_complete_witness:
  "\<exists>cpu mem stats. metrics_process_append_json_sections (sample_procs [sample_proc 1 SSLEEP 10 5, sample_proc 3 SONPROC 80 7]) True 2048 2048 256 =
     Inr (cpu, mem, stats) \<and> length cpu < 2048 \<and> length mem < 2048"
proof -
  let ?kps = "[sample_proc 1 SSLEEP 10 5, sample_proc 3 SONPROC 80 7]"
  have "list_all (proc_sane (sample_procs ?kps)) ?kps" by (simp add: proc_sane_def sample_proc_def sample_procs_def)
  moreover have "qsort_ok (pv_qsort (sample_procs ?kps))"
    by (simp add: qsort_ok_def sample_procs_def sorted_wrt_memory)
  moreover have "length (pv_fmt1 (sample_procs ?kps) x) \<le> 12" for x by (simp add: sample_procs_def)
  ultimately show ?thesis using metrics_process_sections_complete [OF snapshot_sample] by blast
qed

text \<open>
  The section of the page takes the first ten processes of the table and sorts only those: the
  busiest process is missing from it when it stands behind them.
\<close>

theorem top_cpu_section_misses_busiest:
  assumes "length kps = 10" "list_all (\<lambda>p. p_stat p \<noteq> SZOMB) kps"
  shows "map (cpu_info env) (take 10 (filter (\<lambda>p. p_stat p \<noteq> SZOMB) (kps @ [busiest]))) = map (cpu_info env) kps"
  using assms by (simp add: list_all_iff)

text \<open>
  The shares of the processor states are percentages: for any tick counters the kernel can
  return, every figure is between 0 and 100 and together they are at most 100.
\<close>

theorem metrics_get_cpu_stats_percent:
  assumes "metrics_get_cpu_stats (Some c) = (0, s)" "list_all (\<lambda>x. 0 \<le> x) (cp_list c)"
  shows "0 \<le> cs_user s \<and> 0 \<le> cs_nice s \<and> 0 \<le> cs_system s \<and> 0 \<le> cs_interrupt s \<and> 0 \<le> cs_idle s \<and>
    cs_user s + cs_nice s + cs_system s + cs_interrupt s + cs_idle s \<le> 100"
proof -
  let ?t = "sum_list (cp_list c)"
  have pos: "0 \<le> cp_user c" "0 \<le> cp_nice c" "0 \<le> cp_sys c" "0 \<le> cp_spin c" "0 \<le> cp_intr c" "0 \<le> cp_idle c"
    using assms(2) by (auto simp: cp_list_def)
  then have t: "0 < ?t" using assms(1) by (auto simp: metrics_get_cpu_stats_def cp_list_def Let_def split: if_splits)
  have sdiv: "(x * 100) sdiv ?t = (x * 100) div ?t" if "0 \<le> x" for x
    using that t by (auto simp: signed_divide_int_def sgn_if)
  have s: "cs_user s = (cp_user c * 100) div ?t" "cs_nice s = (cp_nice c * 100) div ?t" "cs_system s = (cp_sys c * 100) div ?t"
    "cs_interrupt s = (cp_intr c * 100) div ?t" "cs_idle s = (cp_idle c * 100) div ?t"
    using assms(1) t sdiv pos by (auto simp: metrics_get_cpu_stats_def Let_def split: if_splits)
  have nonneg: "0 \<le> cs_user s" "0 \<le> cs_nice s" "0 \<le> cs_system s" "0 \<le> cs_interrupt s" "0 \<le> cs_idle s"
    using s pos t by (simp_all add: pos_imp_zdiv_nonneg_iff)
  have le: "(x div ?t) * ?t \<le> x" for x
    using div_mult_mod_eq [of x ?t] pos_mod_sign [OF t, of x] by linarith
  have "(cs_user s + cs_nice s + cs_system s + cs_interrupt s + cs_idle s) * ?t \<le>
      cp_user c * 100 + cp_nice c * 100 + cp_sys c * 100 + cp_intr c * 100 + cp_idle c * 100"
    using le [of "cp_user c * 100"] le [of "cp_nice c * 100"] le [of "cp_sys c * 100"] le [of "cp_intr c * 100"]
      le [of "cp_idle c * 100"] by (simp only: s distrib_right)
  also have "\<dots> \<le> 100 * ?t" using pos by (simp add: cp_list_def)
  finally have "cs_user s + cs_nice s + cs_system s + cs_interrupt s + cs_idle s \<le> 100"
    using t by simp
  then show ?thesis using nonneg by simp
qed

theorem metrics_get_cpu_stats_percent_witness:
  "\<exists>s. metrics_get_cpu_stats (Some \<lparr>cp_user = 10, cp_nice = 0, cp_sys = 5, cp_spin = 1, cp_intr = 2, cp_idle = 99\<rparr>) = (0, s) \<and>
     cs_user s = 8 \<and> cs_user s + cs_nice s + cs_system s + cs_interrupt s + cs_idle s \<le> 100"
proof -
  let ?c = "\<lparr>cp_user = 10, cp_nice = 0, cp_sys = 5, cp_spin = 1, cp_intr = 2, cp_idle = 99\<rparr>"
  obtain s where s: "metrics_get_cpu_stats (Some ?c) = (0, s)" "cs_user s = 8"
    by (simp add: metrics_get_cpu_stats_def cp_list_def signed_divide_int_def)
  moreover have "list_all (\<lambda>x. 0 \<le> x) (cp_list ?c)" by (simp add: cp_list_def)
  ultimately show ?thesis using metrics_get_cpu_stats_percent by blast
qed

text \<open>
  The processes by memory: whatever sorted permutation \<^verbatim>\<open>qsort\<close> returns, the result lists the
  processes that are no zombies in order of falling resident size, as many as asked for when there
  are so many, and no process left out is larger than one that is listed.
\<close>

theorem metrics_get_top_memory_processes_top:
  assumes "metrics_get_procs_snapshot env = Some kps" "qsort_ok (pv_qsort env)"
  shows "\<exists>top rest. metrics_get_top_memory_processes env n = map (mem_info env (total_memory_kb env)) top \<and>
    mset (top @ rest) = mset (filter (\<lambda>p. p_stat p \<noteq> SZOMB) kps) \<and> length top = min n (length (top @ rest)) \<and>
    sorted_wrt (\<lambda>a b. p_vm_rssize b \<le> p_vm_rssize a) (top @ rest)"
proof -
  let ?q = "pv_qsort env compare_memory_desc kps" and ?live = "\<lambda>p. p_stat p \<noteq> SZOMB"
  have m: "mset ?q = mset kps" and s: "sorted_wrt (\<lambda>a b. compare_memory_desc a b \<le> 0) ?q"
    using assms(2) by (auto simp: qsort_ok_def)
  have "sorted_wrt (\<lambda>a b. p_vm_rssize b \<le> p_vm_rssize a) ?q"
    by (rule sorted_wrt_mono_rel [OF _ s]) (auto simp: compare_memory_desc_def split: if_splits)
  then have "sorted_wrt (\<lambda>a b. p_vm_rssize b \<le> p_vm_rssize a) (filter ?live ?q)" by (rule sorted_wrt_filter)
  moreover have "mset (filter ?live ?q) = mset (filter ?live kps)" using m by (metis mset_filter)
  moreover have "metrics_get_top_memory_processes env n = map (mem_info env (total_memory_kb env)) (take n (filter ?live ?q))"
    using assms(1) by (simp add: metrics_get_top_memory_processes_def top_memory_loop_eq take_map)
  ultimately show ?thesis
    by (intro exI [of _ "take n (filter ?live ?q)"] exI [of _ "drop n (filter ?live ?q)"]) (simp add: min.commute)
qed

theorem metrics_get_top_memory_processes_top_witness:
  "\<exists>top. metrics_get_top_memory_processes (sample_procs [sample_proc 1 SSLEEP 10 5, sample_proc 3 SONPROC 80 7]) 1 =
     map (mem_info (sample_procs [sample_proc 1 SSLEEP 10 5, sample_proc 3 SONPROC 80 7]) 0) top \<and> length top = 1"
proof -
  let ?kps = "[sample_proc 1 SSLEEP 10 5, sample_proc 3 SONPROC 80 7]"
  have q: "qsort_ok (pv_qsort (sample_procs ?kps))" by (simp add: qsort_ok_def sample_procs_def sorted_wrt_memory)
  have t: "total_memory_kb (sample_procs ?kps) = 0"
    by (simp add: total_memory_kb_def metrics_get_memory_stats_def sample_procs_def)
  have live: "filter (\<lambda>p. p_stat p \<noteq> SZOMB) ?kps = ?kps" by (simp add: sample_proc_def)
  from metrics_get_top_memory_processes_top [OF snapshot_sample q, of 1]
  obtain top rest where r: "metrics_get_top_memory_processes (sample_procs ?kps) 1 = map (mem_info (sample_procs ?kps) 0) top"
    and m: "mset (top @ rest) = mset ?kps" and l: "length top = min 1 (length (top @ rest))"
    unfolding t live by (elim exE conjE)
  have e: "length (top @ rest) = Suc (Suc 0)" using mset_eq_length [OF m] by (simp only: list.size add_0_right add_Suc_right)
  have "length top = 1" using l [unfolded e] by simp
  then show ?thesis using r by (intro exI [of _ top] conjI)
qed

text \<open>
  When the swap devices cannot be read, the function reports success and leaves the two swap
  figures as they were in the caller's uninitialised structure.
\<close>

theorem memory_stats_leave_swap_unset:
  assumes "my_uvm sys = Some uvm" "0 < my_nswap sys" "my_swap sys = None"
  shows "fst (metrics_get_memory_stats sys st0) = 0 \<and> ms_swap_used_mb (snd (metrics_get_memory_stats sys st0)) = ms_swap_used_mb st0"
  using assms by (simp add: metrics_get_memory_stats_def Let_def)

end
