(* ===== verification/Metrics.thy ===== *)
theory Metrics
  imports Interfaces Http_Response Metrics_System
begin

text \<open>
  The metrics module: the ring of samples and the cached snapshot (\<^verbatim>\<open>src/modules/metrics/metrics_snapshot.c\<close>),
  the JSON text (\<^verbatim>\<open>metrics_json.c\<close>) and the handler (\<^verbatim>\<open>metrics_module.c\<close>).

  One call sees one \<open>metrics_env\<close>: the clock, the answers of the system, the outcomes of the allocations and
  of the calls to the heartbeat. \<^verbatim>\<open>"%.2f"\<close> is a parameter. The mutexes make the ring operations and the
  exchange of the snapshot atomic.
\<close>

section \<open>Model: samples and their ring\<close>

definition JSON_BUFFER_SIZE :: nat where "JSON_BUFFER_SIZE = 65536"
definition METRICS_HISTORY_WINDOW :: nat where "METRICS_HISTORY_WINDOW = 120"

text \<open>\<^verbatim>\<open>1024 * 1024 / sizeof(MetricSample)\<close>, the structure being 56 bytes with its padding.\<close>

definition RING_CAPACITY :: nat where "RING_CAPACITY = 1024 * 1024 div 56"

record MetricSample =
  sm_ts :: int
  sm_cpu :: rat
  sm_cpu_total_ticks :: int
  sm_cpu_idle_ticks :: int
  sm_mem_used :: int
  sm_mem_total :: int
  sm_swap_used :: int
  sm_net_rx :: int
  sm_net_tx :: int

record MetricRing =
  mr_buf :: "MetricSample list option"
  mr_head :: nat
  mr_count :: nat

text \<open>\<open>junk\<close> is what the fresh block of \<^verbatim>\<open>malloc\<close> holds.\<close>

definition ring_init :: "bool \<Rightarrow> (nat \<Rightarrow> MetricSample) \<Rightarrow> MetricRing \<Rightarrow> int \<times> MetricRing" where
  "ring_init malloc_ok junk r =
     (if \<not> malloc_ok then (-1, r\<lparr>mr_buf := None\<rparr>)
      else (0, \<lparr>mr_buf = Some (map junk [0..<RING_CAPACITY]), mr_head = 0, mr_count = 0\<rparr>))"

definition ring_push :: "MetricRing \<Rightarrow> MetricSample \<Rightarrow> fault + MetricRing" where
  "ring_push r s =
     (case mr_buf r of
        None \<Rightarrow> Inl Null_deref
      | Some buf \<Rightarrow>
          Inr (r\<lparr>mr_buf := Some (buf[mr_head r := s]), mr_head := (mr_head r + 1) mod RING_CAPACITY,
                 mr_count := (if mr_count r < RING_CAPACITY then mr_count r + 1 else mr_count r)\<rparr>))"

definition ring_last :: "bool \<Rightarrow> MetricRing \<Rightarrow> nat \<Rightarrow> MetricSample list" where
  "ring_last ready r n =
     (case mr_buf r of
        None \<Rightarrow> []
      | Some buf \<Rightarrow>
          if \<not> ready then []
          else
            (let m = (if mr_count r < n then mr_count r else n);
                 start = (mr_head r + RING_CAPACITY - m) mod RING_CAPACITY
             in map (\<lambda>i. buf ! ((start + i) mod RING_CAPACITY)) [0..<m]))"

definition ring_free :: "MetricRing \<Rightarrow> MetricRing" where
  "ring_free r = \<lparr>mr_buf = None, mr_head = 0, mr_count = 0\<rparr>"

record metrics_env =
  mt_time :: int
  mt_cp :: "cp_time option"
  mt_mem :: mem_sys
  mt_mem0 :: MemoryStats
  mt_timestamp :: "string option"
  mt_hostname :: "string option"
  mt_load :: "(rat \<times> rat \<times> rat) option"
  mt_uts :: "(string \<times> string \<times> string) option"
  mt_boot :: "int option"
  mt_mounts :: "statfs list"
  mt_procs :: proc_env
  mt_fmt2 :: "rat \<Rightarrow> string"
  mt_proc_malloc :: bool
  mt_json_malloc :: bool
  mt_ring_malloc :: bool
  mt_junk :: "nat \<Rightarrow> MetricSample"
  mt_hb_register :: int
  mt_hb_start :: int
  mt_strdup :: bool

definition u32 :: "int \<Rightarrow> int" where
  "u32 x = x mod 2 ^ 32"

definition clamp_percent :: "rat \<Rightarrow> rat" where
  "clamp_percent x = (if x < 0 then 0 else if 100 < x then 100 else x)"

definition sample_cpu :: "MetricSample list \<Rightarrow> int \<Rightarrow> int \<Rightarrow> rat" where
  "sample_cpu prev total_ticks idle_ticks =
     (case prev of
        [p] \<Rightarrow>
          if 0 < sm_cpu_total_ticks p \<and> sm_cpu_total_ticks p < total_ticks
          then (let total_delta = total_ticks - sm_cpu_total_ticks p;
                    idle_delta = (if sm_cpu_idle_ticks p \<le> idle_ticks then idle_ticks - sm_cpu_idle_ticks p else 0)
                in clamp_percent (100 * (1 - of_int idle_delta / of_int total_delta)))
          else 0
      | _ \<Rightarrow> 0)"

definition zero_metric :: MetricSample where
  "zero_metric = \<lparr>sm_ts = 0, sm_cpu = 0, sm_cpu_total_ticks = 0, sm_cpu_idle_ticks = 0, sm_mem_used = 0,
     sm_mem_total = 0, sm_swap_used = 0, sm_net_rx = 0, sm_net_tx = 0\<rparr>"

definition metrics_take_sample :: "metrics_env \<Rightarrow> bool \<Rightarrow> MetricRing \<Rightarrow> MetricSample" where
  "metrics_take_sample env ready ring =
     (let s0 = zero_metric\<lparr>sm_ts := mt_time env\<rparr>;
          s1 = (case metrics_read_cpu_ticks (mt_cp env) of
                  None \<Rightarrow> s0
                | Some (total_ticks, idle_ticks) \<Rightarrow>
                    s0\<lparr>sm_cpu_total_ticks := total_ticks, sm_cpu_idle_ticks := idle_ticks,
                       sm_cpu := sample_cpu (ring_last ready ring 1) total_ticks idle_ticks\<rparr>);
          (rc, mem) = metrics_get_memory_stats (mt_mem env) (mt_mem0 env)
      in if rc \<noteq> 0 then s1
         else (let used = ms_active_mb mem + ms_wired_mb mem
               in s1\<lparr>sm_mem_used := (if 0 < used then u32 used else 0),
                     sm_mem_total := (if 0 < ms_total_mb mem then u32 (ms_total_mb mem) else 0),
                     sm_swap_used := (if 0 < ms_swap_used_mb mem then u32 (ms_swap_used_mb mem) else 0)\<rparr>))"

section \<open>Model: JSON\<close>

definition history_entry :: "metrics_env \<Rightarrow> MetricSample \<Rightarrow> string" where
  "history_entry env s = ''{'' @ jkey ''ts'' @ show_int (sm_ts s) @ '', '' @ jkey ''cpu'' @ mt_fmt2 env (sm_cpu s) @ '', '' @
     jkey ''mem_used_mb'' @ show_int (sm_mem_used s) @ '', '' @ jkey ''mem_total_mb'' @ show_int (sm_mem_total s) @ '', '' @
     jkey ''swap_used_mb'' @ show_int (sm_swap_used s) @ '', '' @ jkey ''net_rx'' @ show_int (sm_net_rx s) @ '', '' @
     jkey ''net_tx'' @ show_int (sm_net_tx s) @ ''}''"

text \<open>The loop stops at the first entry that does not fit, and forgets it.\<close>

fun history_loop :: "nat \<Rightarrow> string \<Rightarrow> bool \<Rightarrow> string list \<Rightarrow> string" where
  "history_loop cap b first_item [] = b"
| "history_loop cap b first_item (e # es) =
     (let text = (if first_item then [] else '', '') @ e in
      if cap - length b \<le> length text then b else history_loop cap (b @ text) False es)"

definition metrics_json_append_history :: "metrics_env \<Rightarrow> nat \<Rightarrow> MetricSample list \<Rightarrow> string" where
  "metrics_json_append_history env cap history =
     (let head = jkey ''history'' @ ''['' in
      if cap \<le> length head then []
      else (let b = history_loop cap head True (map (history_entry env) history)
            in b @ snprintf_out (cap - length b) '']''))"

definition metrics_json_append_cpu_stats :: "metrics_env \<Rightarrow> nat \<Rightarrow> string" where
  "metrics_json_append_cpu_stats env cap =
     (let (rc, s) = metrics_get_cpu_stats (mt_cp env) in
      if rc = 0
      then snprintf_out cap (jkey ''cpu'' @ ''{'' @
             jkey ''used_pct'' @ show_int (cs_user s + cs_nice s + cs_system s + cs_interrupt s) @ '','' @
             jkey ''user_pct'' @ show_int (cs_user s) @ '','' @ jkey ''nice_pct'' @ show_int (cs_nice s) @ '','' @
             jkey ''system_pct'' @ show_int (cs_system s) @ '','' @ jkey ''interrupt_pct'' @ show_int (cs_interrupt s) @ '','' @
             jkey ''idle_pct'' @ show_int (cs_idle s) @ ''}'')
      else snprintf_out cap (jkey ''cpu'' @ ''null''))"

definition metrics_json_append_cpu_freq :: "int \<Rightarrow> nat \<Rightarrow> string" where
  "metrics_json_append_cpu_freq freq_mhz cap =
     snprintf_out cap (jkey ''cpu_freq_mhz'' @ (if 0 < freq_mhz then show_int freq_mhz else ''null''))"

definition memory_text :: "MemoryStats \<Rightarrow> string" where
  "memory_text s = jkey ''memory'' @ ''{'' @ jkey ''total_mb'' @ show_int (ms_total_mb s) @ '', '' @
     jkey ''free_mb'' @ show_int (ms_free_mb s) @ '', '' @ jkey ''active_mb'' @ show_int (ms_active_mb s) @ '', '' @
     jkey ''inactive_mb'' @ show_int (ms_inactive_mb s) @ '', '' @ jkey ''wired_mb'' @ show_int (ms_wired_mb s) @ '', '' @
     jkey ''cache_mb'' @ show_int (ms_cache_mb s) @ ''}, '' @
     jkey ''swap'' @ ''{'' @ jkey ''total_mb'' @ show_int (ms_swap_total_mb s) @ '', '' @
     jkey ''used_mb'' @ show_int (ms_swap_used_mb s) @ ''}''"

definition zero_memory :: MemoryStats where
  "zero_memory = \<lparr>ms_total_mb = 0, ms_free_mb = 0, ms_active_mb = 0, ms_inactive_mb = 0, ms_wired_mb = 0, ms_cache_mb = 0,
     ms_swap_total_mb = 0, ms_swap_used_mb = 0\<rparr>"

definition metrics_json_append_memory_stats :: "metrics_env \<Rightarrow> nat \<Rightarrow> string" where
  "metrics_json_append_memory_stats env cap =
     (let (rc, s) = metrics_get_memory_stats (mt_mem env) (mt_mem0 env)
      in snprintf_out cap (memory_text (if rc = 0 then s else zero_memory)))"

definition load_text :: "string \<Rightarrow> string \<Rightarrow> string \<Rightarrow> string" where
  "load_text a b c = jkey ''load'' @ ''{'' @ jkey ''1min'' @ a @ '', '' @ jkey ''5min'' @ b @ '', '' @ jkey ''15min'' @ c @ ''}''"

definition metrics_json_append_load_average :: "metrics_env \<Rightarrow> nat \<Rightarrow> string" where
  "metrics_json_append_load_average env cap =
     snprintf_out cap
       (case metrics_get_load_average (mt_load env) of
          Some load \<Rightarrow> load_text (mt_fmt2 env (la_load_1min load)) (mt_fmt2 env (la_load_5min load)) (mt_fmt2 env (la_load_15min load))
        | None \<Rightarrow> load_text ''0.0'' ''0.0'' ''0.0'')"

definition os_text :: "string \<Rightarrow> string \<Rightarrow> string \<Rightarrow> string" where
  "os_text t r m = jkey ''os'' @ ''{'' @ jkey ''type'' @ jstr t @ '', '' @ jkey ''release'' @ jstr r @ '', '' @ jkey ''machine'' @ jstr m @ ''}''"

definition metrics_json_append_os_info :: "metrics_env \<Rightarrow> nat \<Rightarrow> string" where
  "metrics_json_append_os_info env cap =
     snprintf_out cap
       (case metrics_get_os_info (mt_uts env) 64 of
          Some (t, r, m) \<Rightarrow> os_text t r m
        | None \<Rightarrow> os_text ''Unknown'' ''Unknown'' ''Unknown'')"

definition metrics_json_append_uptime :: "metrics_env \<Rightarrow> nat \<Rightarrow> string" where
  "metrics_json_append_uptime env cap =
     (let (rc, up) = metrics_get_uptime (mt_boot env) (mt_time env) 128
      in snprintf_out cap (jkey ''uptime'' @ jstr (if rc = 0 then up else ''unknown'')))"

definition disk_entry :: "DiskInfo \<Rightarrow> string" where
  "disk_entry d = ''{'' @ jkey ''device'' @ jstr (di_device d) @ '', '' @ jkey ''mount'' @ jstr (di_mount_point d) @ '', '' @
     jkey ''total_mb'' @ show_int (di_total_mb d) @ '', '' @ jkey ''used_mb'' @ show_int (di_used_mb d) @ '', '' @
     jkey ''percent'' @ show_int (di_percent_used d) @ ''}''"

definition metrics_json_append_disk_info :: "metrics_env \<Rightarrow> nat \<Rightarrow> fault + string" where
  "metrics_json_append_disk_info env cap =
     print_section cap 0 (jkey ''disks'' @ ''['') (map disk_entry (metrics_get_disk_usage (mt_mounts env) 16))"

definition port_entry :: "PortInfo \<Rightarrow> string" where
  "port_entry p = ''{'' @ jkey ''port'' @ show_int (po_port p) @ '', '' @ jkey ''protocol'' @ jstr (po_protocol p) @ '', '' @
     jkey ''connections'' @ show_int (po_connection_count p) @ '', '' @ jkey ''state'' @ jstr (po_state p) @ ''}''"

definition metrics_json_append_top_ports :: "nat \<Rightarrow> fault + string" where
  "metrics_json_append_top_ports cap = print_section cap 0 (jkey ''top_ports'' @ ''['') (map port_entry (metrics_get_top_ports 20))"

section \<open>Model: the snapshot\<close>

record metrics_state =
  me_ring :: MetricRing
  me_once :: bool
  me_ring_ready :: bool
  me_snapshot_json :: "string option"
  me_snapshot_updated_at :: int
  me_cpu_freq_mhz :: int

definition json_page :: "string list \<Rightarrow> string" where
  "json_page parts = ''{'' @ concat (map (\<lambda>p. p @ '','') (butlast parts)) @ last parts @ ''}''"

definition metrics_sections :: "metrics_env \<Rightarrow> int \<Rightarrow> MetricSample list \<Rightarrow> fault + string list" where
  "metrics_sections env freq history =
     bindR (metrics_json_append_disk_info env 2048) (\<lambda>disks.
     bindR (metrics_json_append_top_ports 2048) (\<lambda>ports.
     bindR (metrics_process_append_json_sections (mt_procs env) (mt_proc_malloc env) 2048 2048 256) (\<lambda>(top_cpu, top_mem, stats).
       Inr [jkey ''timestamp'' @ jstr (strlcpy 64 (case mt_timestamp env of Some t \<Rightarrow> t | None \<Rightarrow> ''unknown'')),
            jkey ''hostname'' @ jstr (case metrics_get_hostname (mt_hostname env) 256 of Some h \<Rightarrow> h | None \<Rightarrow> ''localhost''),
            metrics_json_append_cpu_stats env 256, metrics_json_append_memory_stats env 512,
            metrics_json_append_load_average env 256, metrics_json_append_os_info env 512,
            metrics_json_append_uptime env 256, disks, ports, top_cpu, top_mem, stats,
            metrics_json_append_cpu_freq freq 64, metrics_json_append_history env 32768 history])))"

definition build_system_metrics_json :: "metrics_env \<Rightarrow> int \<Rightarrow> MetricSample list \<Rightarrow> fault + string option" where
  "build_system_metrics_json env freq history =
     (if \<not> mt_json_malloc env then Inr None
      else bindR (metrics_sections env freq history) (\<lambda>parts. Inr (Some (snprintf_out JSON_BUFFER_SIZE (json_page parts)))))"

definition metrics_snapshot_update :: "metrics_env \<Rightarrow> metrics_state \<Rightarrow> fault + metrics_state" where
  "metrics_snapshot_update env st =
     (let history = ring_last (me_ring_ready st) (me_ring st) METRICS_HISTORY_WINDOW in
      bindR (build_system_metrics_json env (me_cpu_freq_mhz st) history) (\<lambda>json.
        case json of
          None \<Rightarrow> Inr st
        | Some j \<Rightarrow> Inr (st\<lparr>me_snapshot_json := Some j, me_snapshot_updated_at := mt_time env\<rparr>)))"

definition metrics_heartbeat_cb :: "metrics_env \<Rightarrow> metrics_state \<Rightarrow> fault + metrics_state" where
  "metrics_heartbeat_cb env st =
     (let sample = metrics_take_sample env (me_ring_ready st) (me_ring st) in
      bindR (ring_push (me_ring st) sample) (\<lambda>ring. metrics_snapshot_update env (st\<lparr>me_ring := ring\<rparr>)))"

definition metrics_ring_bootstrap :: "metrics_env \<Rightarrow> metrics_state \<Rightarrow> fault + metrics_state" where
  "metrics_ring_bootstrap env st =
     (let (rc, ring) = ring_init (mt_ring_malloc env) (mt_junk env) (me_ring st); st1 = st\<lparr>me_ring := ring\<rparr> in
      if rc \<noteq> 0 then Inr st1
      else if mt_hb_register env < 0 then Inr (st1\<lparr>me_ring := ring_free ring\<rparr>)
      else if mt_hb_start env \<noteq> 0 then Inr (st1\<lparr>me_ring := ring_free ring\<rparr>)
      else metrics_snapshot_update env (st1\<lparr>me_ring_ready := True\<rparr>))"

definition metrics_once :: "metrics_env \<Rightarrow> metrics_state \<Rightarrow> fault + metrics_state" where
  "metrics_once env st = (if me_once st then Inr st else metrics_ring_bootstrap env (st\<lparr>me_once := True\<rparr>))"

definition snapshot_stale :: "metrics_env \<Rightarrow> metrics_state \<Rightarrow> bool" where
  "snapshot_stale env st \<longleftrightarrow> me_snapshot_json st = None \<or> me_snapshot_updated_at st = 0 \<or>
     5 < mt_time env - me_snapshot_updated_at st"

text \<open>When the copy of the snapshot fails, the lock is given back a second time.\<close>

definition get_system_metrics_json :: "metrics_env \<Rightarrow> metrics_state \<Rightarrow> fault + string option \<times> metrics_state" where
  "get_system_metrics_json env st =
     bindR (metrics_once env st) (\<lambda>st1.
     bindR (if snapshot_stale env st1 then metrics_snapshot_update env st1 else Inr st1) (\<lambda>st2.
       case me_snapshot_json st2 of
         Some j \<Rightarrow> if mt_strdup env then Inr (Some j, st2) else Inl Double_unlock
       | None \<Rightarrow> Inr (None, st2)))"

definition send_metrics_json :: "http_request_t \<Rightarrow> string \<Rightarrow> http_ctx \<Rightarrow> (int \<times> http_ctx) option" where
  "send_metrics_json req json hc =
     (let (r, pools) = http_response_create (hc_tid hc) (hc_calloc_ok hc) (hc_pools hc); hc1 = hc\<lparr>hc_pools := pools\<rparr> in
      case r of
        None \<Rightarrow> http_send_error req 500 (Some ''Unable to allocate response'') hc1
      | Some resp \<Rightarrow>
          (let resp1 = http_response_add_header (resp\<lparr>rs_status_code := 200, rs_content_type := ''application/json''\<rparr>)
                         ''Access-Control-Allow-Origin'' ''*'';
               resp2 = http_response_add_header resp1 ''Cache-Control'' ''no-store''
           in send_and_free req (http_response_set_body resp2 (Some json) (length json) True) hc1))"

definition metrics_handler ::
  "metrics_env \<Rightarrow> http_request_t \<Rightarrow> metrics_state \<times> http_ctx \<Rightarrow> fault + int \<times> metrics_state \<times> http_ctx" where
  "metrics_handler env req = (\<lambda>(st, hc).
     bindR (get_system_metrics_json env st) (\<lambda>(json, st').
       case (case json of
               None \<Rightarrow> http_send_error req 500 (Some ''Unable to generate metrics'') hc
             | Some j \<Rightarrow> send_metrics_json req j hc) of
         None \<Rightarrow> Inl Blocked
       | Some (rc, hc') \<Rightarrow> Inr (rc, st', hc')))"

definition metrics_module_cleanup :: "metrics_state \<Rightarrow> metrics_state" where
  "metrics_module_cleanup st =
     (let st1 = st\<lparr>me_snapshot_json := None, me_snapshot_updated_at := 0\<rparr>;
          st2 = (if me_ring_ready st then st1\<lparr>me_ring := ring_free (me_ring st1)\<rparr> else st1)
      in st2\<lparr>me_ring_ready := False\<rparr>)"

section \<open>The ring\<close>

lemma RING_CAPACITY_pos [simp]: "0 < RING_CAPACITY"
  by (simp add: RING_CAPACITY_def)

definition ring_inv :: "MetricRing \<Rightarrow> bool" where
  "ring_inv r \<longleftrightarrow> mr_head r < RING_CAPACITY \<and> mr_count r \<le> RING_CAPACITY \<and>
     (\<exists>buf. mr_buf r = Some buf \<and> length buf = RING_CAPACITY)"

definition ring_contents :: "MetricRing \<Rightarrow> MetricSample list" where
  "ring_contents r = (case mr_buf r of None \<Rightarrow> [] | Some buf \<Rightarrow> ring_items RING_CAPACITY (mr_head r) (mr_count r) buf)"

definition ring_push_ok :: "MetricRing \<Rightarrow> MetricSample \<Rightarrow> MetricRing" where
  "ring_push_ok r s = (case ring_push r s of Inr r' \<Rightarrow> r' | Inl e \<Rightarrow> r)"

lemma ring_push_inv: "ring_inv r \<Longrightarrow> ring_push r s = Inr (ring_push_ok r s) \<and> ring_inv (ring_push_ok r s)"
  by (auto simp: ring_inv_def ring_push_ok_def ring_push_def)

interpretation metric_ring: overwriting_ring ring_push_ok ring_contents RING_CAPACITY ring_inv
proof unfold_locales
  fix r s
  assume inv: "ring_inv r"
  then obtain buf where buf: "mr_buf r = Some buf" "length buf = RING_CAPACITY" "mr_head r < RING_CAPACITY" "mr_count r \<le> RING_CAPACITY"
    by (auto simp: ring_inv_def)
  show "ring_inv (ring_push_ok r s)" using ring_push_inv inv by blast
  show "ring_contents (ring_push_ok r s) = newest RING_CAPACITY (ring_contents r @ [s])"
    using ring_items_push [OF buf(3,4,2), of s] buf(1) by (simp add: ring_contents_def ring_push_ok_def ring_push_def)
  show "length (ring_contents r) \<le> RING_CAPACITY" using buf by (simp add: ring_contents_def)
qed

lemma ring_last_newest: "ring_inv r \<Longrightarrow> ring_last True r n = newest n (ring_contents r)"
proof -
  assume "ring_inv r"
  then obtain buf where buf: "mr_buf r = Some buf" "mr_count r \<le> RING_CAPACITY" by (auto simp: ring_inv_def)
  define m where "m = (if mr_count r < n then mr_count r else n)"
  have "newest n (ring_contents r) = newest m (ring_contents r)"
    using buf by (auto simp: m_def newest_def ring_contents_def)
  then show ?thesis
    using buf ring_items_last [of m "mr_count r" RING_CAPACITY buf "mr_head r"]
    by (simp add: ring_last_def Let_def m_def [symmetric] ring_contents_def) (simp add: m_def)
qed

lemma ring_init_inv: "ring_inv (snd (ring_init True junk r))" "ring_contents (snd (ring_init True junk r)) = []"
  by (simp_all add: ring_init_def ring_inv_def ring_contents_def ring_items_def)

text \<open>A sequence of pushes, stopping at the first fault.\<close>

fun ring_pushes :: "MetricRing \<Rightarrow> MetricSample list \<Rightarrow> fault + MetricRing" where
  "ring_pushes r [] = Inr r"
| "ring_pushes r (s # ss) = bindR (ring_push r s) (\<lambda>r'. ring_pushes r' ss)"

lemma ring_pushes_eq: "ring_inv r \<Longrightarrow> ring_pushes r ss = Inr (foldl ring_push_ok r ss)"
  by (induction ss arbitrary: r) (simp_all add: ring_push_inv)

section \<open>The JSON text\<close>

lemma length_show_int_digits: "\<bar>i\<bar> < 10 ^ Suc k \<Longrightarrow> length (show_int i) \<le> Suc (Suc k)"
proof -
  assume "\<bar>i\<bar> < 10 ^ Suc k"
  then have "nat \<bar>i\<bar> < 10 ^ Suc k" by (simp add: nat_less_iff)
  then have "length (show_nat (nat \<bar>i\<bar>)) \<le> Suc k" by (rule length_show_nat)
  then show ?thesis by (auto simp: show_int_def)
qed

definition sample_sane :: "MetricSample \<Rightarrow> bool" where
  "sample_sane s \<longleftrightarrow> \<bar>sm_ts s\<bar> < 10 ^ 18 \<and>
     list_all (\<lambda>x. 0 \<le> x \<and> x < 2 ^ 32) [sm_mem_used s, sm_mem_total s, sm_swap_used s, sm_net_rx s, sm_net_tx s]"

lemma length_history_entry:
  assumes "sample_sane s" "\<And>x. length (mt_fmt2 env x) \<le> 12"
  shows "length (history_entry env s) \<le> 182"
proof -
  have ts: "length (show_int (sm_ts s)) \<le> 19"
    using assms(1) length_show_int_digits [of "sm_ts s" 17] by (simp add: sample_sane_def)
  have "length (show_int x) \<le> 11" if "0 \<le> x \<and> x < 2 ^ 32" for x
    using that length_show_int_digits [of x 9] by simp
  then have "length (show_int (sm_mem_used s)) \<le> 11" "length (show_int (sm_mem_total s)) \<le> 11" "length (show_int (sm_swap_used s)) \<le> 11"
    "length (show_int (sm_net_rx s)) \<le> 11" "length (show_int (sm_net_tx s)) \<le> 11"
    using assms(1) by (auto simp: sample_sane_def)
  then show ?thesis using ts assms(2) [of "sm_cpu s"] by (simp add: history_entry_def jkey_def)
qed

lemma history_loop_fit:
  "length b + length (join_entries f es) < cap \<Longrightarrow> history_loop cap b f es = b @ join_entries f es"
  by (induction cap b f es rule: history_loop.induct) (auto simp: Let_def)

lemma history_loop_bound: "length b < cap \<Longrightarrow> length (history_loop cap b f es) < cap"
  by (induction cap b f es rule: history_loop.induct) (auto simp: Let_def)

lemma history_bound: "0 < cap \<Longrightarrow> length (metrics_json_append_history env cap hs) < cap"
proof -
  assume "0 < cap"
  let ?head = "jkey ''history'' @ ''[''"
  let ?b = "history_loop cap ?head True (map (history_entry env) hs)"
  show ?thesis
  proof (cases "cap \<le> length ?head")
    case True
    then show ?thesis using \<open>0 < cap\<close> by (simp add: metrics_json_append_history_def Let_def)
  next
    case False
    then have "length ?b < cap" using history_loop_bound [of ?head cap] by simp
    then have "length (?b @ snprintf_out (cap - length ?b) '']'') < cap" by (auto simp: snprintf_out_def)
    then show ?thesis using False unfolding metrics_json_append_history_def Let_def by simp
  qed
qed

text \<open>A printed section never exceeds its buffer.\<close>

definition buf_ok :: "nat \<Rightarrow> out_buf \<Rightarrow> bool" where
  "buf_ok cap w \<longleftrightarrow> length (fst w) = min (snd w) (cap - 1)"

lemma buf_put_ok: "0 < cap \<Longrightarrow> buf_ok cap w \<Longrightarrow> buf_put cap t w = Inr w' \<Longrightarrow> buf_ok cap w'"
  by (auto simp: buf_ok_def buf_put_def snprintf_out_def split: if_splits)

lemma print_entries_ok:
  "0 < cap \<Longrightarrow> buf_ok cap w \<Longrightarrow> print_entries cap low f w es = Inr w' \<Longrightarrow> buf_ok cap w'"
proof (induction cap low f w es rule: print_entries.induct)
  case (2 cap low f w e es)
  then show ?case
    by (auto simp: bindR_Inr_iff split: if_splits) (metis buf_put_ok)+
qed simp

lemma print_section_bound: "0 < cap \<Longrightarrow> print_section cap low head es = Inr t \<Longrightarrow> length t < cap"
proof -
  assume cap: "0 < cap" and "print_section cap low head es = Inr t"
  then obtain w0 w1 w2 where w: "buf_put cap head ([], 0) = Inr w0" "print_entries cap low True w0 es = Inr w1"
    "buf_put cap '']'' w1 = Inr w2" "t = fst w2"
    by (auto simp: print_section_def bindR_Inr_iff)
  have "buf_ok cap w2"
    using w(1-3) buf_put_ok [OF cap] print_entries_ok [OF cap] by (metis buf_ok_def fst_conv list.size(3) min_0L snd_conv)
  then show ?thesis using cap w(4) by (auto simp: buf_ok_def)
qed

lemma sections_bound:
  assumes "metrics_process_append_json_sections env ok 2048 2048 256 = Inr (c, m, s)"
  shows "length c < 2048 \<and> length m < 2048 \<and> length s < 256"
  using assms print_section_bound [of 2048] length_snprintf_out [of 2048] length_snprintf_out [of 256]
  unfolding metrics_process_append_json_sections_def
  by (auto simp: bindR_Inr_iff Let_def split: option.split_asm if_split_asm)

section \<open>The age of the snapshot\<close>

text \<open>The snapshot, if any, was built by one of the calls so far, at the time it carries.\<close>

definition built :: "metrics_env \<Rightarrow> string \<Rightarrow> bool" where
  "built e j \<longleftrightarrow> (\<exists>freq history. build_system_metrics_json e freq history = Inr (Some j))"

definition snapshot_inv :: "metrics_env set \<Rightarrow> metrics_state \<Rightarrow> bool" where
  "snapshot_inv E st \<longleftrightarrow> (\<forall>j. me_snapshot_json st = Some j \<longrightarrow> (\<exists>e \<in> E. built e j \<and> me_snapshot_updated_at st = mt_time e))"

lemma snapshot_inv_cong:
  "me_snapshot_json st' = me_snapshot_json st \<Longrightarrow> me_snapshot_updated_at st' = me_snapshot_updated_at st \<Longrightarrow>
    snapshot_inv E st' = snapshot_inv E st"
  by (simp add: snapshot_inv_def)

lemma snapshot_inv_mono: "snapshot_inv E st \<Longrightarrow> E \<subseteq> F \<Longrightarrow> snapshot_inv F st"
  by (fastforce simp: snapshot_inv_def)

lemma snapshot_update_inv:
  assumes "metrics_snapshot_update env st = Inr st'" "snapshot_inv E st"
  shows "snapshot_inv (insert env E) st'"
    "mt_json_malloc env \<Longrightarrow> me_snapshot_json st' \<noteq> None \<and> me_snapshot_updated_at st' = mt_time env"
proof -
  obtain freq h json where b: "build_system_metrics_json env freq h = Inr json"
    and st': "st' = (case json of None \<Rightarrow> st | Some j \<Rightarrow> st\<lparr>me_snapshot_json := Some j, me_snapshot_updated_at := mt_time env\<rparr>)"
    using assms(1) by (auto simp: metrics_snapshot_update_def Let_def bindR_Inr_iff split: option.splits)
  show "snapshot_inv (insert env E) st'"
    using b st' snapshot_inv_mono [OF assms(2), of "insert env E"]
    by (auto simp: snapshot_inv_def built_def split: option.splits)
  show "mt_json_malloc env \<Longrightarrow> me_snapshot_json st' \<noteq> None \<and> me_snapshot_updated_at st' = mt_time env"
    using b st' by (auto simp: build_system_metrics_json_def bindR_Inr_iff)
qed

lemma heartbeat_inv:
  assumes "metrics_heartbeat_cb env st = Inr st'" "snapshot_inv E st"
  shows "snapshot_inv (insert env E) st'"
proof -
  obtain ring where "metrics_snapshot_update env (st\<lparr>me_ring := ring\<rparr>) = Inr st'"
    using assms(1) by (auto simp: metrics_heartbeat_cb_def Let_def bindR_Inr_iff)
  then show ?thesis by (rule snapshot_update_inv) (use assms(2) in \<open>simp add: snapshot_inv_def\<close>)
qed

lemma once_inv:
  assumes "metrics_once env st = Inr st'" "snapshot_inv E st"
  shows "snapshot_inv (insert env E) st'"
proof (cases "\<exists>st1. snapshot_inv E st1 \<and> metrics_snapshot_update env st1 = Inr st'")
  case True
  then show ?thesis using snapshot_update_inv(1) by blast
next
  case False
  have keep: "snapshot_inv E (st\<lparr>me_once := True, me_ring := r, me_ring_ready := b\<rparr>)" for r b
    using assms(2) by (simp add: snapshot_inv_def)
  have "me_snapshot_json st' = me_snapshot_json st \<and> me_snapshot_updated_at st' = me_snapshot_updated_at st"
    using assms(1) False keep unfolding metrics_once_def metrics_ring_bootstrap_def
    by (auto simp: Let_def split: if_split_asm prod.split_asm)
  then show ?thesis using snapshot_inv_mono [OF assms(2)] snapshot_inv_cong by (metis subset_insertI)
qed

lemma get_json_inv:
  assumes "get_system_metrics_json env st = Inr (r, st')" "snapshot_inv E st"
  shows "snapshot_inv (insert env E) st'"
    "r = Some j \<Longrightarrow> mt_json_malloc env \<Longrightarrow> \<exists>e \<in> insert env E. built e j \<and> mt_time env - mt_time e \<le> 5"
proof -
  obtain st1 st2 where st1: "metrics_once env st = Inr st1"
    and st2: "(if snapshot_stale env st1 then metrics_snapshot_update env st1 else Inr st1) = Inr st2"
    and fin: "(case me_snapshot_json st2 of Some j \<Rightarrow> if mt_strdup env then Inr (Some j, st2) else Inl Double_unlock
      | None \<Rightarrow> Inr (None, st2)) = Inr (r, st')"
    using assms(1) unfolding get_system_metrics_json_def bindR_Inr_iff by blast
  have "st2 = st'" and r: "r = me_snapshot_json st'"
    using fin by (cases "me_snapshot_json st2"; auto split: if_splits)+
  note st' = st2 [unfolded \<open>st2 = st'\<close>]
  have inv1: "snapshot_inv (insert env E) st1" using once_inv [OF st1 assms(2)] .
  then show inv: "snapshot_inv (insert env E) st'"
    using st' snapshot_update_inv(1) [of env st1 st' "insert env E"] by (auto split: if_splits)
  assume j: "r = Some j" and ok: "mt_json_malloc env"
  have "mt_time env - me_snapshot_updated_at st' \<le> 5"
  proof (cases "snapshot_stale env st1")
    case True
    then show ?thesis using st' snapshot_update_inv(2) [OF _ inv1 ok, of st'] by simp
  next
    case False
    then show ?thesis using st' by (auto simp: snapshot_stale_def)
  qed
  then show "\<exists>e \<in> insert env E. built e j \<and> mt_time env - mt_time e \<le> 5"
    using inv j r by (auto simp: snapshot_inv_def)
qed

text \<open>Any order of heartbeats and requests.\<close>

datatype metrics_op = Beat metrics_env | Get metrics_env

fun metrics_run :: "metrics_state \<Rightarrow> metrics_op list \<Rightarrow> fault + metrics_state" where
  "metrics_run st [] = Inr st"
| "metrics_run st (Beat e # ops) = bindR (metrics_heartbeat_cb e st) (\<lambda>st'. metrics_run st' ops)"
| "metrics_run st (Get e # ops) = bindR (get_system_metrics_json e st) (\<lambda>(r, st'). metrics_run st' ops)"

fun op_env :: "metrics_op \<Rightarrow> metrics_env" where
  "op_env (Beat e) = e"
| "op_env (Get e) = e"

lemma metrics_run_inv:
  "metrics_run st ops = Inr st' \<Longrightarrow> snapshot_inv E st \<Longrightarrow> snapshot_inv (E \<union> op_env ` set ops) st'"
proof (induction st ops arbitrary: E rule: metrics_run.induct)
  case (2 st e ops)
  then show ?case using heartbeat_inv [of e st _ E] by (fastforce simp: bindR_Inr_iff)
next
  case (3 st e ops)
  then show ?case using get_json_inv(1) [of e st _ _ E] by (fastforce simp: bindR_Inr_iff)
qed simp

section \<open>Properties\<close>

text \<open>
  The history is the newest samples, in order: after any number of samples the ring of
  18724 places has taken them all without a fault, and asking it for \<open>n\<close> of them returns the last
  \<open>n\<close> that were pushed, oldest first, or as many as the ring holds.
\<close>

theorem metrics_ring_last_newest:
  "\<exists>r. ring_pushes (snd (ring_init True junk r0)) samples = Inr r \<and>
    ring_last True r n = newest (min n RING_CAPACITY) samples"
proof -
  let ?r0 = "snd (ring_init True junk r0)"
  let ?r = "foldl ring_push_ok ?r0 samples"
  have "ring_inv ?r" using metric_ring.invar_pushes ring_init_inv(1) by blast
  then have "ring_last True ?r n = newest n (ring_contents ?r)" by (rule ring_last_newest)
  also have "ring_contents ?r = newest RING_CAPACITY samples"
    using metric_ring.contents_pushes [OF ring_init_inv(1), of junk r0 samples] by (simp add: ring_init_inv(2))
  also have "newest n (newest RING_CAPACITY samples) = newest (min n RING_CAPACITY) samples"
    using newest_le [of n RING_CAPACITY samples] newest_all [of "newest RING_CAPACITY samples" n]
    by (auto simp: min_def)
  finally show ?thesis using ring_pushes_eq [OF ring_init_inv(1)] by blast
qed

text \<open>
  The history section is complete and in bounds: it never overruns its buffer, and the last
  120 samples, whatever their figures, always fit the 32 KiB buffer of the page, so that none is
  left out and the bracket is closed.
\<close>

theorem metrics_history_complete:
  assumes "list_all sample_sane history" "length history \<le> METRICS_HISTORY_WINDOW" "\<And>x. length (mt_fmt2 env x) \<le> 12"
  shows "metrics_json_append_history env 32768 history =
      jkey ''history'' @ ''['' @ join_entries True (map (history_entry env) history) @ '']'' \<and>
    length (metrics_json_append_history env 32768 history) < 32768"
proof -
  let ?es = "map (history_entry env) history" and ?head = "jkey ''history'' @ ''[''"
  have "list_all (\<lambda>e. length e \<le> 182) ?es"
    using length_history_entry assms(1,3) by (auto simp: list_all_iff)
  then have "length (join_entries True ?es) \<le> length ?es * 184" using length_join_entries [of 182 ?es True] by simp
  moreover have "length ?es * 184 \<le> 22080" using assms(2) by (simp add: METRICS_HISTORY_WINDOW_def)
  ultimately have l: "length (join_entries True ?es) \<le> 22080" by linarith
  have head: "length ?head = 12" by (simp add: jkey_def)
  have "history_loop 32768 ?head True ?es = ?head @ join_entries True ?es"
    using l head by (intro history_loop_fit) linarith
  then have "metrics_json_append_history env 32768 history = ?head @ join_entries True ?es @ '']''"
    using l head unfolding metrics_json_append_history_def Let_def by (simp add: snprintf_out_def)
  then show ?thesis using l by (simp add: jkey_def)
qed

definition sample_metric :: MetricSample where
  "sample_metric = zero_metric\<lparr>sm_ts := 1700000000, sm_cpu := 25, sm_mem_used := 512, sm_mem_total := 4096\<rparr>"

definition sample_metrics_env :: metrics_env where
  "sample_metrics_env = \<lparr>mt_time = 1700000003, mt_cp = None, mt_mem = \<lparr>my_uvm = None, my_nswap = 0, my_calloc = True, my_swap = None\<rparr>,
     mt_mem0 = zero_memory, mt_timestamp = None, mt_hostname = Some ''puffy'', mt_load = None, mt_uts = None, mt_boot = None,
     mt_mounts = [], mt_procs = (sample_procs [])\<lparr>pv_attempts := (\<lambda>r. \<lparr>pa_size = None, pa_malloc = True, pa_data = (\<lambda>n. Procs_error)\<rparr>)\<rparr>,
     mt_fmt2 = (\<lambda>x. ''0.00''), mt_proc_malloc = True, mt_json_malloc = True, mt_ring_malloc = True, mt_junk = (\<lambda>i. zero_metric),
     mt_hb_register = 1, mt_hb_start = 0, mt_strdup = True\<rparr>"

theorem metrics_history_complete_witness:
  "metrics_json_append_history sample_metrics_env 32768 [sample_metric, sample_metric] =
     jkey ''history'' @ ''['' @ join_entries True (map (history_entry sample_metrics_env) [sample_metric, sample_metric]) @ '']''"
proof -
  have "list_all sample_sane [sample_metric, sample_metric]"
    by (simp add: sample_sane_def sample_metric_def zero_metric_def)
  then show ?thesis
    using metrics_history_complete [of "[sample_metric, sample_metric]" sample_metrics_env]
    by (simp add: METRICS_HISTORY_WINDOW_def sample_metrics_env_def)
qed

lemma build_whole:
  assumes "build_system_metrics_json env freq history = Inr (Some json)"
  shows "\<exists>parts. metrics_sections env freq history = Inr parts \<and> length parts = 14 \<and> json = json_page parts \<and>
    length json < JSON_BUFFER_SIZE"
proof -
  obtain parts where p: "metrics_sections env freq history = Inr parts"
    and j: "json = snprintf_out JSON_BUFFER_SIZE (json_page parts)"
    using assms by (auto simp: build_system_metrics_json_def bindR_Inr_iff split: if_splits)
  obtain disks ports c m s where parts: "parts = [jkey ''timestamp'' @ jstr (strlcpy 64 (case mt_timestamp env of Some t \<Rightarrow> t | None \<Rightarrow> ''unknown'')),
            jkey ''hostname'' @ jstr (case metrics_get_hostname (mt_hostname env) 256 of Some h \<Rightarrow> h | None \<Rightarrow> ''localhost''),
            metrics_json_append_cpu_stats env 256, metrics_json_append_memory_stats env 512,
            metrics_json_append_load_average env 256, metrics_json_append_os_info env 512,
            metrics_json_append_uptime env 256, disks, ports, c, m, s,
            metrics_json_append_cpu_freq freq 64, metrics_json_append_history env 32768 history]"
    and d: "metrics_json_append_disk_info env 2048 = Inr disks" and t: "metrics_json_append_top_ports 2048 = Inr ports"
    and q: "metrics_process_append_json_sections (mt_procs env) (mt_proc_malloc env) 2048 2048 256 = Inr (c, m, s)"
    using p by (auto simp: metrics_sections_def bindR_Inr_iff)
  have dl: "length disks < 2048" "length ports < 2048"
    using d t print_section_bound [of 2048 0] by (simp_all add: metrics_json_append_disk_info_def metrics_json_append_top_ports_def metrics_get_top_ports_def)
  have fixed: "length (metrics_json_append_cpu_stats env 256) < 256" "length (metrics_json_append_memory_stats env 512) < 512"
    "length (metrics_json_append_load_average env 256) < 256" "length (metrics_json_append_os_info env 512) < 512"
    "length (metrics_json_append_uptime env 256) < 256" "length (metrics_json_append_cpu_freq freq 64) < 64"
    using length_snprintf_out [of 256] length_snprintf_out [of 512] length_snprintf_out [of 64]
    by (simp_all add: metrics_json_append_cpu_stats_def metrics_json_append_memory_stats_def metrics_json_append_load_average_def
        metrics_json_append_os_info_def metrics_json_append_uptime_def metrics_json_append_cpu_freq_def split: prod.splits)
  have h: "length (metrics_json_append_history env 32768 history) < 32768" by (rule history_bound) simp
  have ts: "length (strlcpy 64 x) < 64" "length (strlcpy 256 x) < 256" for x using length_strlcpy [of 64] length_strlcpy [of 256] by auto
  have host: "length (case metrics_get_hostname (mt_hostname env) 256 of Some h \<Rightarrow> h | None \<Rightarrow> ''localhost'') < 256"
    using ts(2) by (simp add: metrics_get_hostname_def split: option.split)
  have "length (json_page parts) < JSON_BUFFER_SIZE"
    using dl fixed h sections_bound [OF q]
      ts(1) [of "case mt_timestamp env of Some t \<Rightarrow> t | None \<Rightarrow> ''unknown''"]
      host
    unfolding parts json_page_def by (simp add: jkey_def jstr_def JSON_BUFFER_SIZE_def)
  then show ?thesis using p j by (auto simp: snprintf_out_short parts)
qed

lemma build_whole_length: "build_system_metrics_json env freq history = Inr (Some json) \<Longrightarrow> length json < JSON_BUFFER_SIZE"
  using build_whole by blast

text \<open>
  The page is never cut: whenever the sections were printed, the whole JSON object, from the
  opening to the closing brace, fits the buffer of 64 KiB.
\<close>

theorem build_system_metrics_json_whole:
  assumes "build_system_metrics_json env freq history = Inr (Some json)"
  shows "\<exists>parts. metrics_sections env freq history = Inr parts \<and> length parts = 14 \<and> json = json_page parts \<and>
    length json < JSON_BUFFER_SIZE"
  using assms by (rule build_whole)

lemma sample_sections: "\<exists>parts. metrics_sections sample_metrics_env freq history = Inr parts"
proof -
  have "print_section 2048 0 (jkey ''disks'' @ ''['') [] = Inr ((jkey ''disks'' @ ''['') @ join_entries True [] @ '']'')"
    "print_section 2048 0 (jkey ''top_ports'' @ ''['') [] = Inr ((jkey ''top_ports'' @ ''['') @ join_entries True [] @ '']'')"
    by (rule print_section_fit; simp add: jkey_def)+
  then show ?thesis
    by (simp add: metrics_sections_def metrics_json_append_disk_info_def metrics_json_append_top_ports_def metrics_get_top_ports_def metrics_get_disk_usage_def
        metrics_process_append_json_sections_def metrics_get_procs_snapshot_def snapshot_loop.simps sample_metrics_env_def)
qed

lemma sample_builds: "\<exists>json. build_system_metrics_json sample_metrics_env freq history = Inr (Some json)"
  using sample_sections [of freq history] by (auto simp: build_system_metrics_json_def sample_metrics_env_def)

theorem build_system_metrics_json_whole_witness:
  "\<exists>json. build_system_metrics_json sample_metrics_env 2400 [] = Inr (Some json) \<and> length json < JSON_BUFFER_SIZE"
  using sample_builds [of 2400 "[]"] build_system_metrics_json_whole by blast

lemma send_metrics_json_delivered:
  assumes "can_create hc" "length json < 10 ^ 19"
  shows "send_metrics_json req json hc =
    delivered hc (http_message (req_keep_alive req) 200 ''application/json''
      [''Access-Control-Allow-Origin: *'', ''Cache-Control: no-store''] json)"
  by (rule created_response_delivered [OF assms, of 200 "''application/json''"
        "[''Access-Control-Allow-Origin: *'', ''Cache-Control: no-store'']" req])
    (simp_all add: send_metrics_json_def http_response_set_body_def http_response_add_header_def snprintf_out_def HEADERS_SIZE_def)

lemma metrics_handler_sends:
  assumes "metrics_handler env req (st, hc) = Inr (0, st', hc')" "can_create hc"
    and "get_system_metrics_json env st = Inr (Some j, st')" "length j < 10 ^ 19"
  shows "hc_out hc' = hc_out hc @ http_message (req_keep_alive req) 200 ''application/json''
    [''Access-Control-Allow-Origin: *'', ''Cache-Control: no-store''] j"
proof -
  let ?msg = "http_message (req_keep_alive req) 200 ''application/json'' [''Access-Control-Allow-Origin: *'', ''Cache-Control: no-store''] j"
  have "delivered hc ?msg = Some (0, hc')"
    using assms(1,3) send_metrics_json_delivered [OF assms(2,4), of req]
    by (auto simp: metrics_handler_def split: option.split_asm)
  then show ?thesis by (rule delivered_sent)
qed


definition sample_metrics_state :: metrics_state where
  "sample_metrics_state = \<lparr>me_ring = \<lparr>mr_buf = None, mr_head = 0, mr_count = 0\<rparr>, me_once = False, me_ring_ready = False,
     me_snapshot_json = None, me_snapshot_updated_at = 0, me_cpu_freq_mhz = 2400\<rparr>"

definition sample_metrics_http :: http_ctx where
  "sample_metrics_http = \<lparr>hc_tid = 7, hc_calloc_ok = True, hc_pools = response_pools0,
     hc_registry = \<lparr>routes = [], prefix_routes = []\<rparr>, hc_ws = [Accepts 100000], hc_ps = [], hc_out = []\<rparr>"

lemma sample_metrics_can_create: "can_create sample_metrics_http"
proof -
  have fresh: "\<not> rp_initialized (response_pools0 ! response_pool_shard_index 7)"
    using response_pool_shard_index_less [of 7] by (simp add: response_pools0_def)
  show ?thesis
    using response_pool_inv_fresh(1) [OF fresh] by (simp add: can_create_def response_pools0_def sample_metrics_http_def)
qed

lemma sample_get_json:
  "\<exists>j st'. get_system_metrics_json sample_metrics_env sample_metrics_state = Inr (Some j, st') \<and> length j < JSON_BUFFER_SIZE"
proof -
  obtain r where r: "ring_init True (mt_junk sample_metrics_env) (me_ring sample_metrics_state) = (0, r)" by (simp add: ring_init_def)
  let ?st = "sample_metrics_state\<lparr>me_once := True, me_ring := r, me_ring_ready := True\<rparr>"
  obtain j where j: "build_system_metrics_json sample_metrics_env 2400 (ring_last True r METRICS_HISTORY_WINDOW) = Inr (Some j)"
    using sample_builds by blast
  let ?st' = "?st\<lparr>me_snapshot_json := Some j, me_snapshot_updated_at := mt_time sample_metrics_env\<rparr>"
  have env: "mt_ring_malloc sample_metrics_env" "mt_hb_register sample_metrics_env = 1" "mt_hb_start sample_metrics_env = 0"
    "mt_strdup sample_metrics_env" "mt_time sample_metrics_env = 1700000003"
    by (simp_all add: sample_metrics_env_def)
  have st: "\<not> me_once sample_metrics_state" "me_cpu_freq_mhz sample_metrics_state = 2400" by (simp_all add: sample_metrics_state_def)
  have "metrics_snapshot_update sample_metrics_env ?st = Inr ?st'"
    using j by (simp add: metrics_snapshot_update_def Let_def st)
  then have "metrics_once sample_metrics_env sample_metrics_state = Inr ?st'"
    by (simp add: metrics_once_def metrics_ring_bootstrap_def env st r)
  moreover have "\<not> snapshot_stale sample_metrics_env ?st'" by (simp add: snapshot_stale_def env)
  ultimately have "get_system_metrics_json sample_metrics_env sample_metrics_state = Inr (Some j, ?st')"
    by (simp add: get_system_metrics_json_def env)
  then show ?thesis using build_whole_length [OF j] by blast
qed


subsection \<open>Where the code goes wrong\<close>

text \<open>
  When the scheduler cannot be started after the task was registered, the ring is freed and the task
  stays registered: its next run writes through a null pointer.
\<close>

theorem bootstrap_failure_leaves_task:
  assumes "mt_ring_malloc env" "0 \<le> mt_hb_register env" "mt_hb_start env \<noteq> 0" "\<not> me_once st"
  shows "\<exists>st'. metrics_once env st = Inr st' \<and> metrics_heartbeat_cb env' st' = Inl Null_deref"
  using assms by (simp add: metrics_once_def metrics_ring_bootstrap_def ring_init_def ring_free_def metrics_heartbeat_cb_def
      ring_push_def Let_def)

text \<open>Running out of memory while the snapshot is copied unlocks a mutex that is not held.\<close>

theorem copy_failure_unlocks_twice:
  assumes "me_once st" "me_snapshot_json st = Some j" "\<not> snapshot_stale env st" "\<not> mt_strdup env"
  shows "get_system_metrics_json env st = Inl Double_unlock"
  using assms by (simp add: get_system_metrics_json_def metrics_once_def)

text \<open>Long mount points overrun the 2048 bytes of the disk section.\<close>

lemma buf_put_over: "snd w \<le> cap \<Longrightarrow> \<exists>b. buf_put cap t w = Inr (b, snd w + length t)"
  by (auto simp: buf_put_def)

lemma print_entries_over:
  assumes "snd w \<le> cap" "cap < snd w + length (join_entries f es)" "low = 0" "\<And>e. e \<in> set es \<Longrightarrow> e \<noteq> []"
    "snd w \<noteq> cap" "\<And>k. snd w + length (join_entries f (take k es)) \<noteq> cap"
  shows "(\<exists>b n. print_entries cap low f w es = Inr (b, n) \<and> cap < n) \<or> print_entries cap low f w es = Inl Out_of_bounds"
  using assms
proof (induction es arbitrary: w f)
  case (Cons e es)
  let ?s = "if f then [] else '', ''"
  have left: "left_over cap 0 w" using Cons.prems(1,5) by (simp add: left_over_def)
  show ?case
  proof (cases "f \<or> snd w + 2 \<le> cap")
    case True
    then obtain b1 where b1: "(if f then Inr w else buf_put cap '', '' w) = Inr (b1, snd w + length ?s)"
      using buf_put_over [OF Cons.prems(1), of "'', ''"] by (cases f) (auto intro: that [of "fst w"])
    have fit: "snd w + length ?s \<le> cap" using True Cons.prems(1) by auto
    obtain b2 where b2: "buf_put cap e (b1, snd w + length ?s) = Inr (b2, snd w + length ?s + length e)"
      using buf_put_over [of "(b1, snd w + length ?s)" cap e] fit by auto
    let ?w = "(b2, snd w + length ?s + length e)"
    have step: "print_entries cap low f w (e # es) = print_entries cap low False ?w es"
      using left b1 b2 Cons.prems(3) by simp
    have k: "snd ?w + length (join_entries False (take k es)) \<noteq> cap" for k
      using Cons.prems(6) [of "Suc k"] by (auto simp: add.assoc)
    show ?thesis
    proof (cases "snd ?w \<le> cap")
      case True
      have "snd ?w \<noteq> cap" using k [of 0] by simp
      then show ?thesis unfolding step using True Cons.prems(2,3,4) k by (intro Cons.IH) (auto simp: add.assoc)
    next
      case False
      then show ?thesis unfolding step using Cons.prems(3)
        by (cases es) (auto simp: left_over_def buf_put_def)
    qed
  next
    case False
    then have "cap < snd w + 2" "\<not> f" by auto
    then show ?thesis
      using left Cons.prems(1,3) buf_put_over [OF Cons.prems(1), of "'', ''"]
      by (auto simp: buf_put_def)
  qed
qed simp

lemma length_join_replicate: "length (join_entries True (replicate k e)) = k * length e + 2 * (k - 1)"
proof -
  have "length (join_entries False (replicate k e)) = k * (length e + 2)" by (induction k) auto
  then show ?thesis by (cases k) auto
qed

theorem disk_section_overruns:
  fixes env
  defines "mnt \<equiv> \<lparr>f_fstypename = ''ffs'', f_mntfromname = ''/dev/sd0a'', f_mntonname = replicate 255 (CHR ''m''), f_blocks = 1, f_bavail = 1, f_bsize = 512\<rparr>"
  shows "metrics_json_append_disk_info (env\<lparr>mt_mounts := replicate 7 mnt\<rparr>) 2048 = Inl Out_of_bounds"
proof -
  let ?e = "disk_entry (disk_info mnt)" and ?head = "jkey ''disks'' @ ''[''"
  have len: "length ?e = 334"
    by (simp add: disk_entry_def disk_info_def mnt_def jkey_def jstr_def strlcpy_def u64_def MB_def show_int_def show_nat.simps)
  have list: "metrics_get_disk_usage (replicate 7 mnt) 16 = replicate 7 (disk_info mnt)"
    by (simp add: metrics_get_disk_usage_def disk_loop_eq skip_fs_def mnt_def filter_replicate)
  have head: "buf_put 2048 ?head ([], 0) = Inr (?head, 10)"
    using buf_put_fits [of "[]" 0 ?head 2048] by (simp add: jkey_def)
  have "10 + length (join_entries True (take k (replicate 7 ?e))) \<noteq> 2048" for k
  proof -
    have "take k (replicate 7 ?e) = replicate (min k 7) ?e" by simp
    moreover have "10 + (m * 334 + 2 * (m - 1)) \<noteq> 2048" for m :: nat by (cases "m \<le> 6") auto
    ultimately show ?thesis using length_join_replicate [of "min k 7" ?e] len by simp
  qed
  moreover have "?e \<noteq> []" using len by auto
  ultimately have "(\<exists>b n. print_entries 2048 0 True (?head, 10) (replicate 7 ?e) = Inr (b, n) \<and> 2048 < n) \<or>
      print_entries 2048 0 True (?head, 10) (replicate 7 ?e) = Inl Out_of_bounds"
    using length_join_replicate [of 7 ?e] len by (intro print_entries_over) auto
  moreover have "buf_put 2048 t (b, n) = Inl Out_of_bounds" if "2048 < n" for t b n using that by (simp add: buf_put_def)
  ultimately show ?thesis
    by (auto simp: metrics_json_append_disk_info_def list map_replicate print_section_def head)
qed

end
