(* ===== verification/Networking.thy ===== *)
theory Networking
  imports Interfaces Http_Utils Views
begin

text \<open>
  The networking module (\<^verbatim>\<open>src/modules/networking/networking_module.c\<close>): the routing table, the resolver
  configuration and the interface counters, the ring of samples, the cached JSON page and the handlers.

  The kernel's answers are parameters: a routing message with the bytes that follow its header, the list
  of \<^verbatim>\<open>getifaddrs\<close>, the contents of \<^verbatim>\<open>/etc/resolv.conf\<close>. Printing an IPv6 address and the name of an
  interface are parameters as well.
\<close>

section \<open>Model: collecting\<close>

record RouteEntry =
  re_destination :: string
  re_gateway :: string
  re_netmask :: string
  re_interface :: string
  re_flags :: nat
  re_flags_str :: string

definition zero_route :: RouteEntry where
  "zero_route = \<lparr>re_destination = [], re_gateway = [], re_netmask = [], re_interface = [], re_flags = 0, re_flags_str = []\<rparr>"

record DnsConfig =
  dn_nameservers :: "string list"
  dn_domain :: string
  dn_search :: string

record NetStats =
  ns_interface :: string
  ns_ipv4 :: string
  ns_rx_packets :: nat
  ns_rx_bytes :: nat
  ns_rx_errors :: nat
  ns_rx_dropped :: nat
  ns_tx_packets :: nat
  ns_tx_bytes :: nat
  ns_tx_errors :: nat
  ns_tx_dropped :: nat

subsection \<open>Routes\<close>

text \<open>
  A message of the routing table: the fields of its header and the bytes behind the header, with the
  address structures one after the other.
\<close>

record rt_msg =
  rt_version_ok :: bool
  rt_get_or_add :: bool
  rt_dst :: bool
  rt_gateway :: bool
  rt_netmask :: bool
  rt_index :: nat
  rt_flags :: "32 word"
  rt_area :: bytes

record route_env =
  ro_inet6 :: "bytes \<Rightarrow> string"
  ro_ifname :: "nat \<Rightarrow> string option"

definition byte_at :: "bytes \<Rightarrow> nat \<Rightarrow> nat" where
  "byte_at b i = (if i < length b then chr_code (b ! i) else 0)"

definition SA_SIZE :: "bytes \<Rightarrow> nat" where
  "SA_SIZE sa = (if byte_at sa 0 = 0 then 16 else byte_at sa 0)"

definition AF_INET :: nat where "AF_INET = 2"
definition AF_LINK :: nat where "AF_LINK = 18"
definition AF_INET6 :: nat where "AF_INET6 = 24"

definition sa_family :: "bytes \<Rightarrow> nat" where
  "sa_family sa = byte_at sa 1"

definition ntop4 :: "bytes \<Rightarrow> string" where
  "ntop4 sa = show_nat (byte_at sa 4) @ ''.'' @ show_nat (byte_at sa 5) @ ''.'' @ show_nat (byte_at sa 6) @ ''.'' @ show_nat (byte_at sa 7)"

definition ntop6 :: "route_env \<Rightarrow> bytes \<Rightarrow> string" where
  "ntop6 env sa = ro_inet6 env (take 16 (drop 8 sa))"

definition route_destination :: "route_env \<Rightarrow> bytes \<Rightarrow> string" where
  "route_destination env sa =
     (if sa_family sa = AF_INET then ntop4 sa else if sa_family sa = AF_INET6 then ntop6 env sa else ''-'')"

definition route_gateway :: "route_env \<Rightarrow> bytes \<Rightarrow> string" where
  "route_gateway env sa =
     (if sa_family sa = AF_INET then ntop4 sa else if sa_family sa = AF_INET6 then ntop6 env sa
      else if sa_family sa = AF_LINK then ''link#'' else ''-'')"

definition route_netmask :: "bytes \<Rightarrow> string" where
  "route_netmask sa = (if sa_family sa = AF_INET then ntop4 sa else ''-'')"

text \<open>\<^verbatim>\<open>RTF_UP\<close>, \<^verbatim>\<open>RTF_GATEWAY\<close>, \<^verbatim>\<open>RTF_HOST\<close>, \<^verbatim>\<open>RTF_STATIC\<close> and \<^verbatim>\<open>RTF_DYNAMIC\<close> of \<^verbatim>\<open>net/route.h\<close>.\<close>

definition flags_text :: "32 word \<Rightarrow> string" where
  "flags_text f = (if bit f 0 then ''U'' else []) @ (if bit f 1 then ''G'' else []) @ (if bit f 2 then ''H'' else []) @
     (if bit f 11 then ''S'' else []) @ (if bit f 4 then ''D'' else [])"

text \<open>One message into one entry; \<open>old\<close> is the entry before, which keeps what the message does not have.\<close>

definition route_entry :: "route_env \<Rightarrow> rt_msg \<Rightarrow> RouteEntry \<Rightarrow> RouteEntry" where
  "route_entry env m old =
     (let sa0 = rt_area m;
          (e1, sa1) = (if rt_dst m then (old\<lparr>re_destination := strlcpy 64 (route_destination env sa0)\<rparr>, drop (SA_SIZE sa0) sa0) else (old, sa0));
          (e2, sa2) = (if rt_gateway m then (e1\<lparr>re_gateway := strlcpy 64 (route_gateway env sa1)\<rparr>, drop (SA_SIZE sa1) sa1) else (e1, sa1));
          e3 = (if rt_netmask m then e2\<lparr>re_netmask := strlcpy 64 (route_netmask sa2)\<rparr> else e2);
          e4 = (if 0 < rt_index m then (case ro_ifname env (rt_index m) of Some n \<Rightarrow> e3\<lparr>re_interface := n\<rparr> | None \<Rightarrow> e3) else e3)
      in e4\<lparr>re_flags := unat (rt_flags m), re_flags_str := snprintf_out 32 (flags_text (rt_flags m))\<rparr>)"

fun routes_loop :: "route_env \<Rightarrow> nat \<Rightarrow> RouteEntry list \<Rightarrow> rt_msg list \<Rightarrow> RouteEntry list" where
  "routes_loop env max_routes acc [] = acc"
| "routes_loop env max_routes acc (m # ms) =
     (if \<not> length acc < max_routes then acc
      else if \<not> rt_version_ok m \<or> \<not> rt_get_or_add m then routes_loop env max_routes acc ms
      else routes_loop env max_routes (acc @ [route_entry env m zero_route]) ms)"

definition networking_get_routes :: "route_env \<Rightarrow> rt_msg list option \<Rightarrow> bool \<Rightarrow> nat \<Rightarrow> RouteEntry list" where
  "networking_get_routes env table malloc_ok max_routes =
     (case table of None \<Rightarrow> [] | Some ms \<Rightarrow> if malloc_ok then routes_loop env max_routes [] ms else [])"

subsection \<open>Resolver configuration\<close>

definition zero_dns :: DnsConfig where
  "zero_dns = \<lparr>dn_nameservers = [], dn_domain = [], dn_search = []\<rparr>"

definition skip_blanks :: "string \<Rightarrow> string" where
  "skip_blanks p = dropWhile (\<lambda>c. c = CHR '' '' \<or> c = CHR 0x09) p"

definition before_newline :: "string \<Rightarrow> string" where
  "before_newline p = (case strchr p (CHR 0x0A) of Some i \<Rightarrow> take i p | None \<Rightarrow> p)"

definition dns_line :: "string \<Rightarrow> DnsConfig \<Rightarrow> DnsConfig" where
  "dns_line line config =
     (let p = skip_blanks line in
      if p = [] \<or> hd p = CHR ''#'' \<or> hd p = CHR 0x0A then config
      else if prefix ''nameserver'' p
      then config\<lparr>dn_nameservers := dn_nameservers config @ [strlcpy 46 (before_newline (skip_blanks (drop 10 p)))]\<rparr>
      else if prefix ''domain'' p then config\<lparr>dn_domain := strlcpy 256 (before_newline (skip_blanks (drop 6 p)))\<rparr>
      else if prefix ''search'' p then config\<lparr>dn_search := strlcpy 512 (before_newline (skip_blanks (drop 6 p)))\<rparr>
      else config)"

fun dns_loop :: "DnsConfig \<Rightarrow> bytes list \<Rightarrow> DnsConfig" where
  "dns_loop config [] = config"
| "dns_loop config (line # ls) =
     (if length (dn_nameservers config) < 8 then dns_loop (dns_line (c_str line) config) ls else config)"

definition networking_get_dns_config :: "bytes option \<Rightarrow> int \<times> DnsConfig" where
  "networking_get_dns_config resolv_conf =
     (case resolv_conf of None \<Rightarrow> (-1, zero_dns) | Some contents \<Rightarrow> (0, dns_loop zero_dns (fgets_lines 512 contents)))"

subsection \<open>Interfaces\<close>

record if_data =
  ifi_ipackets :: nat
  ifi_ibytes :: nat
  ifi_ierrors :: nat
  ifi_iqdrops :: nat
  ifi_opackets :: nat
  ifi_obytes :: nat
  ifi_oerrors :: nat

datatype if_addr = No_addr | Link_addr "if_data option" | Inet_addr "32 word" | Other_addr

type_synonym ifaddrs = "(string \<times> if_addr) list"

definition link_stats :: "string \<Rightarrow> if_data \<Rightarrow> NetStats" where
  "link_stats name d = \<lparr>ns_interface = strlcpy 16 name, ns_ipv4 = ''-'', ns_rx_packets = ifi_ipackets d, ns_rx_bytes = ifi_ibytes d,
     ns_rx_errors = ifi_ierrors d, ns_rx_dropped = ifi_iqdrops d, ns_tx_packets = ifi_opackets d, ns_tx_bytes = ifi_obytes d,
     ns_tx_errors = ifi_oerrors d, ns_tx_dropped = 0\<rparr>"

fun link_loop :: "nat \<Rightarrow> NetStats list \<Rightarrow> ifaddrs \<Rightarrow> NetStats list" where
  "link_loop max_interfaces acc [] = acc"
| "link_loop max_interfaces acc ((name, a) # rest) =
     (if \<not> length acc < max_interfaces then acc
      else (case a of
              Link_addr (Some d) \<Rightarrow> link_loop max_interfaces (acc @ [link_stats name d]) rest
            | _ \<Rightarrow> link_loop max_interfaces acc rest))"

text \<open>The address goes to the first interface of that name, unless it has one already.\<close>

fun set_ipv4 :: "string \<Rightarrow> string \<Rightarrow> NetStats list \<Rightarrow> NetStats list" where
  "set_ipv4 name addr [] = []"
| "set_ipv4 name addr (s # ss) =
     (if ns_interface s \<noteq> name then s # set_ipv4 name addr ss
      else if ns_ipv4 s \<noteq> ''-'' then s # ss
      else s\<lparr>ns_ipv4 := addr\<rparr> # ss)"

fun inet_loop :: "NetStats list \<Rightarrow> ifaddrs \<Rightarrow> NetStats list" where
  "inet_loop stats [] = stats"
| "inet_loop stats ((name, a) # rest) =
     (case a of Inet_addr w \<Rightarrow> inet_loop (set_ipv4 name (inet_ntop w) stats) rest | _ \<Rightarrow> inet_loop stats rest)"

definition networking_get_if_stats :: "ifaddrs option \<Rightarrow> nat \<Rightarrow> NetStats list" where
  "networking_get_if_stats ifap max_interfaces =
     (case ifap of None \<Rightarrow> [] | Some l \<Rightarrow> inet_loop (link_loop max_interfaces [] l) l)"

section \<open>Model: samples and their ring\<close>

definition NETWORK_JSON_BUFFER_SIZE :: nat where "NETWORK_JSON_BUFFER_SIZE = 65536"

text \<open>\<^verbatim>\<open>NETWORK_RING_BYTES / sizeof(NetworkingSample)\<close>, the structure being 14320 bytes with its padding.\<close>

definition NETWORK_RING_CAPACITY :: nat where "NETWORK_RING_CAPACITY = 1024 * 1024 div 14320"

record NetworkingSample =
  nw_ts :: int
  nw_routes :: "RouteEntry list"
  nw_dns :: DnsConfig
  nw_interfaces :: "NetStats list"

record NetworkingRing =
  nr_buf :: "NetworkingSample list option"
  nr_head :: nat
  nr_count :: nat
  nr_cached_json :: "string option"
  nr_cached_json_len :: nat
  nr_cached_json_ts :: int

record net_env =
  nt_time :: int
  nt_route_env :: route_env
  nt_routes :: "rt_msg list option"
  nt_routes_malloc :: bool
  nt_resolv_conf :: "bytes option"
  nt_ifaddrs :: "ifaddrs option"
  nt_strftime :: "int \<Rightarrow> string option"
  nt_json_malloc :: bool
  nt_ring_malloc :: bool
  nt_junk :: "nat \<Rightarrow> NetworkingSample"
  nt_hb_register :: int
  nt_hb_start :: int
  nt_hit_strdup :: bool
  nt_store_strdup :: bool

definition networking_ring_init :: "bool \<Rightarrow> (nat \<Rightarrow> NetworkingSample) \<Rightarrow> NetworkingRing \<Rightarrow> int \<times> NetworkingRing" where
  "networking_ring_init malloc_ok junk r =
     (if \<not> malloc_ok then (-1, r\<lparr>nr_buf := None\<rparr>)
      else (0, \<lparr>nr_buf = Some (map junk [0..<NETWORK_RING_CAPACITY]), nr_head = 0, nr_count = 0, nr_cached_json = None,
                nr_cached_json_len = 0, nr_cached_json_ts = 0\<rparr>))"

definition networking_ring_push :: "NetworkingRing \<Rightarrow> NetworkingSample \<Rightarrow> fault + NetworkingRing" where
  "networking_ring_push r s =
     (case nr_buf r of
        None \<Rightarrow> Inl Null_deref
      | Some buf \<Rightarrow>
          Inr (r\<lparr>nr_buf := Some (buf[nr_head r := s]), nr_head := (nr_head r + 1) mod NETWORK_RING_CAPACITY,
                 nr_count := (if nr_count r < NETWORK_RING_CAPACITY then nr_count r + 1 else nr_count r)\<rparr>))"

definition networking_ring_last :: "NetworkingRing \<Rightarrow> NetworkingSample option" where
  "networking_ring_last r =
     (case nr_buf r of
        None \<Rightarrow> None
      | Some buf \<Rightarrow>
          if nr_count r = 0 then None
          else Some (buf ! ((nr_head r + NETWORK_RING_CAPACITY - 1) mod NETWORK_RING_CAPACITY)))"

record NetworkConnection =
  nc_protocol :: string
  nc_local_addr :: string
  nc_local_port :: int
  nc_remote_addr :: string
  nc_remote_port :: int
  nc_state :: string

definition networking_get_connections :: "nat \<Rightarrow> NetworkConnection list" where
  "networking_get_connections max_conns = []"

definition networking_collect_sample :: "net_env \<Rightarrow> NetworkingSample" where
  "networking_collect_sample env =
     \<lparr>nw_ts = nt_time env,
      nw_routes = networking_get_routes (nt_route_env env) (nt_routes env) (nt_routes_malloc env) 50,
      nw_dns = (let (rc, dns) = networking_get_dns_config (nt_resolv_conf env) in if rc \<noteq> 0 then zero_dns else dns),
      nw_interfaces = networking_get_if_stats (nt_ifaddrs env) 10\<rparr>"

section \<open>Model: JSON\<close>

text \<open>
  The text in the buffer, whose length is \<^verbatim>\<open>offset\<close>. \<open>None\<close> is the result -1, after which every caller gives
  up.
\<close>

definition networking_json_append :: "nat \<Rightarrow> string \<Rightarrow> string \<Rightarrow> string option" where
  "networking_json_append dst_size text b =
     (if dst_size \<le> length b then None
      else if dst_size - length b \<le> length text then None
      else Some (b @ text))"

definition net_escape_char :: "char \<Rightarrow> string" where
  "net_escape_char c =
     (if c = QUOTE \<or> c = BACKSLASH then [BACKSLASH, c]
      else if chr_code c < 32
      then [BACKSLASH, CHR ''u'', CHR ''0'', CHR ''0'', hex_digit (chr_code c div 16), hex_digit (chr_code c mod 16)]
      else [c])"

fun escaped_loop :: "nat \<Rightarrow> string \<Rightarrow> string \<Rightarrow> string option" where
  "escaped_loop dst_size [] b = networking_json_append dst_size [QUOTE] b"
| "escaped_loop dst_size (c # cs) b =
     Option.bind (networking_json_append dst_size (net_escape_char c) b) (escaped_loop dst_size cs)"

definition networking_json_append_escaped :: "nat \<Rightarrow> string \<Rightarrow> string \<Rightarrow> string option" where
  "networking_json_append_escaped dst_size src b =
     Option.bind (networking_json_append dst_size [QUOTE] b) (escaped_loop dst_size src)"

text \<open>The calls of \<^verbatim>\<open>networking_build_json\<close> in their order, each followed by \<^verbatim>\<open>goto fail\<close> when it fails.\<close>

datatype json_step = Lit string | Esc string

fun run_steps :: "nat \<Rightarrow> json_step list \<Rightarrow> string \<Rightarrow> string option" where
  "run_steps dst_size [] b = Some b"
| "run_steps dst_size (Lit t # ss) b = Option.bind (networking_json_append dst_size t b) (run_steps dst_size ss)"
| "run_steps dst_size (Esc t # ss) b = Option.bind (networking_json_append_escaped dst_size t b) (run_steps dst_size ss)"

definition nkey :: "string \<Rightarrow> string" where
  "nkey k = [QUOTE] @ k @ [QUOTE] @ '':''"

definition route_steps :: "nat \<times> RouteEntry \<Rightarrow> json_step list" where
  "route_steps ir =
     (case ir of (i, r) \<Rightarrow>
       [Lit ((if 0 < i then '','' else []) @ ''{'' @ nkey ''destination''), Esc (re_destination r), Lit ('','' @ nkey ''gateway''), Esc (re_gateway r),
        Lit ('','' @ nkey ''netmask''), Esc (re_netmask r), Lit ('','' @ nkey ''interface''), Esc (re_interface r),
        Lit ('','' @ nkey ''flags''), Esc (re_flags_str r), Lit ''}''])"

definition nameserver_steps :: "nat \<times> string \<Rightarrow> json_step list" where
  "nameserver_steps is = (case is of (i, s) \<Rightarrow> [Lit (if 0 < i then '','' else []), Esc s])"

definition interface_steps :: "nat \<times> NetStats \<Rightarrow> json_step list" where
  "interface_steps is =
     (case is of (i, s) \<Rightarrow>
       [Lit ((if 0 < i then '','' else []) @ ''{'' @ nkey ''interface''), Esc (ns_interface s), Lit ('','' @ nkey ''ipv4''), Esc (ns_ipv4 s),
        Lit ('','' @ nkey ''rx_packets'' @ show_nat (ns_rx_packets s) @ '','' @ nkey ''rx_bytes'' @ show_nat (ns_rx_bytes s) @
             '','' @ nkey ''rx_errors'' @ show_nat (ns_rx_errors s) @ '','' @ nkey ''tx_packets'' @ show_nat (ns_tx_packets s) @
             '','' @ nkey ''tx_bytes'' @ show_nat (ns_tx_bytes s) @ '','' @ nkey ''tx_errors'' @ show_nat (ns_tx_errors s) @ ''}'')])"

definition json_steps :: "string \<Rightarrow> NetworkingSample \<Rightarrow> json_step list" where
  "json_steps timestamp sample =
     [Lit (''{'' @ nkey ''timestamp''), Esc timestamp, Lit ('','' @ nkey ''timestamp_unix'' @ show_int (nw_ts sample) @ '',''),
      Lit (nkey ''routes'' @ ''['')] @ concat (map route_steps (enumerate 0 (nw_routes sample))) @ [Lit ''],''] @
     [Lit (nkey ''dns'' @ ''{'' @ nkey ''nameservers'' @ ''['')] @
     concat (map nameserver_steps (enumerate 0 (dn_nameservers (nw_dns sample)))) @
     [Lit (''],'' @ nkey ''domain''), Esc (dn_domain (nw_dns sample)), Lit ('','' @ nkey ''search''), Esc (dn_search (nw_dns sample)), Lit ''},''] @
     [Lit (nkey ''interfaces'' @ ''['')] @ concat (map interface_steps (enumerate 0 (nw_interfaces sample))) @ [Lit '']'', Lit ''}'']"

definition networking_build_json :: "net_env \<Rightarrow> NetworkingSample \<Rightarrow> string option" where
  "networking_build_json env sample =
     (if \<not> nt_json_malloc env then None
      else (let timestamp = strlcpy 64 (case nt_strftime env (nw_ts sample) of Some t \<Rightarrow> t | None \<Rightarrow> ''unknown'')
            in run_steps NETWORK_JSON_BUFFER_SIZE (json_steps timestamp sample) []))"

section \<open>Model: heartbeat and requests\<close>

record net_state =
  nz_ring :: NetworkingRing
  nz_once :: bool

definition cache_json :: "string \<Rightarrow> int \<Rightarrow> NetworkingRing \<Rightarrow> NetworkingRing" where
  "cache_json json ts r = r\<lparr>nr_cached_json := Some json, nr_cached_json_len := length json, nr_cached_json_ts := ts\<rparr>"

definition networking_heartbeat_cb :: "net_env \<Rightarrow> net_state \<Rightarrow> fault + net_state" where
  "networking_heartbeat_cb env st =
     (let sample = networking_collect_sample env; json = networking_build_json env sample in
      bindR (networking_ring_push (nz_ring st) sample) (\<lambda>ring.
        Inr (st\<lparr>nz_ring := (case json of None \<Rightarrow> ring | Some j \<Rightarrow> cache_json j (nw_ts sample) ring)\<rparr>)))"

definition networking_ring_bootstrap :: "net_env \<Rightarrow> net_state \<Rightarrow> net_state" where
  "networking_ring_bootstrap env st =
     (let (rc, ring) = networking_ring_init (nt_ring_malloc env) (nt_junk env) (nz_ring st) in
      if rc \<noteq> 0 then st\<lparr>nz_ring := ring\<rparr>
      else if nt_hb_register env < 0 \<or> nt_hb_start env \<noteq> 0 then st\<lparr>nz_ring := ring\<lparr>nr_buf := None\<rparr>\<rparr>
      else st\<lparr>nz_ring := ring\<rparr>)"

definition networking_once :: "net_env \<Rightarrow> net_state \<Rightarrow> net_state" where
  "networking_once env st = (if nz_once st then st else networking_ring_bootstrap env (st\<lparr>nz_once := True\<rparr>))"

definition cached_copy :: "net_env \<Rightarrow> NetworkingRing \<Rightarrow> string option" where
  "cached_copy env r = (if nr_buf r \<noteq> None \<and> nt_hit_strdup env then nr_cached_json r else None)"

definition networking_get_json :: "net_env \<Rightarrow> net_state \<Rightarrow> string option \<times> net_state" where
  "networking_get_json env st =
     (let st1 = networking_once env st; ring = nz_ring st1 in
      case cached_copy env ring of
        Some json \<Rightarrow> (Some json, st1)
      | None \<Rightarrow>
          (let sample = (case networking_ring_last ring of Some s \<Rightarrow> s | None \<Rightarrow> networking_collect_sample env) in
           case networking_build_json env sample of
             None \<Rightarrow> (None, st1)
           | Some json \<Rightarrow>
               (Some json,
                if nr_buf ring = None then st1
                else if nt_store_strdup env then st1\<lparr>nz_ring := cache_json json (nw_ts sample) ring\<rparr>
                else st1\<lparr>nz_ring := ring\<lparr>nr_cached_json := None\<rparr>\<rparr>)))"

definition networking_handler :: "string \<Rightarrow> world \<Rightarrow> http_request_t \<Rightarrow> view_ctx \<Rightarrow> (int \<times> view_ctx) option" where
  "networking_handler dir w req cx =
     http_render_template dir w req
       \<lparr>td_title = Some ''MiniWeb - Network Configuration'', td_page_content = Some ''networking.html'',
        td_extra_head_file = Some ''networking_extra_head.html'', td_extra_js_file = Some ''networking_extra_js.html''\<rparr> None cx"

definition send_network_json :: "http_request_t \<Rightarrow> string \<Rightarrow> http_ctx \<Rightarrow> (int \<times> http_ctx) option" where
  "send_network_json req json hc =
     (let (r, pools) = http_response_create (hc_tid hc) (hc_calloc_ok hc) (hc_pools hc); hc1 = hc\<lparr>hc_pools := pools\<rparr> in
      case r of
        None \<Rightarrow> http_send_error req 500 (Some ''Unable to allocate response'') hc1
      | Some resp \<Rightarrow>
          (let resp1 = http_response_add_header (resp\<lparr>rs_status_code := 200, rs_content_type := ''application/json''\<rparr>)
                         ''Cache-Control'' ''no-store''
           in send_and_free req (http_response_set_body resp1 (Some json) (length json) True) hc1))"

definition networking_api_handler ::
  "net_env \<Rightarrow> http_request_t \<Rightarrow> net_state \<times> http_ctx \<Rightarrow> (int \<times> net_state \<times> http_ctx) option" where
  "networking_api_handler env req = (\<lambda>(st, hc).
     let (json, st') = networking_get_json env st in
     map_option (\<lambda>(rc, hc'). (rc, st', hc'))
       (case json of
          None \<Rightarrow> http_send_error req 500 (Some ''Network data collection failed'') hc
        | Some j \<Rightarrow> send_network_json req j hc))"

definition networking_module_cleanup :: "net_state \<Rightarrow> net_state" where
  "networking_module_cleanup st =
     (case nr_buf (nz_ring st) of
        None \<Rightarrow> st
      | Some buf \<Rightarrow>
          st\<lparr>nz_ring := (nz_ring st)\<lparr>nr_buf := None, nr_head := 0, nr_count := 0, nr_cached_json := None,
                                     nr_cached_json_len := 0, nr_cached_json_ts := 0\<rparr>\<rparr>)"

section \<open>Lemmas\<close>

subsection \<open>The ring\<close>

lemma NETWORK_RING_CAPACITY_pos [simp]: "0 < NETWORK_RING_CAPACITY"
  by (simp add: NETWORK_RING_CAPACITY_def)

definition net_ring_inv :: "NetworkingRing \<Rightarrow> bool" where
  "net_ring_inv r \<longleftrightarrow> nr_head r < NETWORK_RING_CAPACITY \<and> nr_count r \<le> NETWORK_RING_CAPACITY \<and>
     (\<exists>buf. nr_buf r = Some buf \<and> length buf = NETWORK_RING_CAPACITY)"

definition net_ring_contents :: "NetworkingRing \<Rightarrow> NetworkingSample list" where
  "net_ring_contents r = (case nr_buf r of None \<Rightarrow> [] | Some buf \<Rightarrow> ring_items NETWORK_RING_CAPACITY (nr_head r) (nr_count r) buf)"

definition net_push_ok :: "NetworkingRing \<Rightarrow> NetworkingSample \<Rightarrow> NetworkingRing" where
  "net_push_ok r s = (case networking_ring_push r s of Inr r' \<Rightarrow> r' | Inl e \<Rightarrow> r)"

interpretation net_ring: overwriting_ring net_push_ok net_ring_contents NETWORK_RING_CAPACITY net_ring_inv
proof unfold_locales
  fix r s
  assume inv: "net_ring_inv r"
  then obtain buf where buf: "nr_buf r = Some buf" "length buf = NETWORK_RING_CAPACITY" "nr_head r < NETWORK_RING_CAPACITY"
    "nr_count r \<le> NETWORK_RING_CAPACITY"
    by (auto simp: net_ring_inv_def)
  show "net_ring_inv (net_push_ok r s)" using buf by (auto simp: net_ring_inv_def net_push_ok_def networking_ring_push_def)
  show "net_ring_contents (net_push_ok r s) = newest NETWORK_RING_CAPACITY (net_ring_contents r @ [s])"
    using ring_items_push [OF buf(3,4,2), of s] buf(1) by (simp add: net_ring_contents_def net_push_ok_def networking_ring_push_def)
  show "length (net_ring_contents r) \<le> NETWORK_RING_CAPACITY" using buf by (simp add: net_ring_contents_def)
qed

lemma networking_ring_last_eq:
  assumes "net_ring_inv r"
  shows "networking_ring_last r = (if net_ring_contents r = [] then None else Some (last (net_ring_contents r)))"
proof -
  obtain buf where buf: "nr_buf r = Some buf" "nr_count r \<le> NETWORK_RING_CAPACITY" using assms by (auto simp: net_ring_inv_def)
  show ?thesis
  proof (cases "nr_count r")
    case 0
    then show ?thesis using buf by (simp add: networking_ring_last_def net_ring_contents_def ring_items_def)
  next
    case (Suc k)
    have "nr_head r + NETWORK_RING_CAPACITY - Suc k + k = nr_head r + NETWORK_RING_CAPACITY - 1" using buf(2) Suc by simp
    then have "last (net_ring_contents r) = buf ! ((nr_head r + NETWORK_RING_CAPACITY - 1) mod NETWORK_RING_CAPACITY)"
      using buf Suc by (simp add: net_ring_contents_def ring_items_def)
    then show ?thesis using buf Suc by (simp add: networking_ring_last_def net_ring_contents_def ring_items_def)
  qed
qed

subsection \<open>The JSON text\<close>

definition net_escape :: "string \<Rightarrow> string" where
  "net_escape s = [QUOTE] @ concat (map net_escape_char s) @ [QUOTE]"

fun step_text :: "json_step \<Rightarrow> string" where
  "step_text (Lit t) = t"
| "step_text (Esc s) = net_escape s"

lemma net_append_eq:
  "length b < n \<Longrightarrow> networking_json_append n t b = (if length b + length t < n then Some (b @ t) else None)"
  by (auto simp: networking_json_append_def)

lemma escaped_loop_eq:
  "length b < n \<Longrightarrow> escaped_loop n cs b =
    (if length b + length (concat (map net_escape_char cs)) + 1 < n then Some (b @ concat (map net_escape_char cs) @ [QUOTE]) else None)"
  by (induction cs arbitrary: b) (auto simp: net_append_eq)

lemma net_escaped_eq:
  "length b < n \<Longrightarrow> networking_json_append_escaped n s b = (if length b + length (net_escape s) < n then Some (b @ net_escape s) else None)"
  by (auto simp: networking_json_append_escaped_def net_append_eq escaped_loop_eq net_escape_def)

text \<open>The chain of calls writes everything or fails; it never leaves a truncated text.\<close>

lemma run_steps_eq:
  "length b < n \<Longrightarrow> run_steps n ss b =
    (if length b + length (concat (map step_text ss)) < n then Some (b @ concat (map step_text ss)) else None)"
proof (induction n ss b rule: run_steps.induct)
  case (2 n t ss b)
  then show ?case by (auto simp: net_append_eq)
next
  case (3 n t ss b)
  then show ?case by (auto simp: net_escaped_eq)
qed simp

lemma json_unescape_net_char: "json_unescape (net_escape_char c @ s) = map_option ((#) c) (json_unescape s)"
proof -
  have hex: "hex_value (hex_digit (chr_code c div 16)) = int (chr_code c div 16)" "hex_value (hex_digit (chr_code c mod 16)) = int (chr_code c mod 16)"
    using chr_code_parts [of c] by simp_all
  have "16 * (chr_code c div 16) + chr_code c mod 16 = chr_code c" by simp
  moreover have "chr_code BACKSLASH = 92" "chr_code QUOTE = 34" by (simp_all add: chr_code_def)
  ultimately show ?thesis using hex by (auto simp: net_escape_char_def)
qed

lemma json_unescape_net: "json_unescape (concat (map net_escape_char s)) = Some s"
  by (induction s) (simp_all add: json_unescape_net_char)

subsection \<open>Collecting\<close>

lemma routes_loop_eq:
  "routes_loop env n acc ms = take (max n (length acc))
    (acc @ map (\<lambda>m. route_entry env m zero_route) (filter (\<lambda>m. rt_version_ok m \<and> rt_get_or_add m) ms))"
proof (induction env n acc ms rule: routes_loop.induct)
  case (2 env n acc m ms)
  then show ?case by (auto simp: max_def not_less take_Cons')
qed simp

definition dns_ok :: "DnsConfig \<Rightarrow> bool" where
  "dns_ok c \<longleftrightarrow> length (dn_nameservers c) \<le> 8 \<and> list_all (\<lambda>n. length n < 46 \<and> CHR 0x0A \<notin> set n) (dn_nameservers c) \<and>
     length (dn_domain c) < 256 \<and> length (dn_search c) < 512"

lemma before_newline_clean: "CHR 0x0A \<notin> set (strlcpy n (before_newline p))"
proof -
  have "CHR 0x0A \<notin> set (before_newline p)"
    by (auto simp: before_newline_def strchr_None_iff split: option.splits dest: strchr_SomeD)
  then show ?thesis by (auto simp: strlcpy_def dest: in_set_takeD)
qed

lemma dns_line_ok: "dns_ok c \<Longrightarrow> length (dn_nameservers c) < 8 \<Longrightarrow> dns_ok (dns_line l c)"
  using length_strlcpy [of 46] length_strlcpy [of 256] length_strlcpy [of 512] before_newline_clean [of 46]
  by (auto simp: dns_line_def dns_ok_def Let_def)

lemma dns_loop_ok: "dns_ok c \<Longrightarrow> dns_ok (dns_loop c ls)"
  by (induction c ls rule: dns_loop.induct) (auto simp: dns_line_ok)

text \<open>Lines that fit are read one by one.\<close>

lemma fgets_lines_step:
  assumes "1 < n" "CHR 0x0A \<notin> set b" "length b + 1 < n"
  shows "fgets_lines n (b @ [CHR 0x0A] @ rest) = (b @ [CHR 0x0A]) # fgets_lines n rest"
proof -
  have "take (n - 1) (b @ [CHR 0x0A] @ rest) = b @ [CHR 0x0A] @ take (n - 1 - length b - 1) rest"
    using assms(3) by (auto simp: take_Cons')
  then have "strchr (take (n - 1) (b @ [CHR 0x0A] @ rest)) (CHR 0x0A) = Some (length b)" using assms(2) by simp
  then have "fgets_chunk n (b @ [CHR 0x0A] @ rest) = Suc (length b)" by (simp add: fgets_chunk_def)
  then show ?thesis using assms(1) by (simp add: fgets_lines.simps [of n "b @ CHR 0x0A # rest"])
qed

section \<open>Properties\<close>

text \<open>
  C35. The resolver configuration is well formed for any contents of the file, text or not: at most
  eight name servers of at most 45 characters without line ends, and a domain and a search list
  that fit their fields.
\<close>

theorem networking_get_dns_config_ok: "dns_ok (snd (networking_get_dns_config resolv_conf))"
proof -
  have "dns_ok zero_dns" by (simp add: dns_ok_def zero_dns_def)
  then show ?thesis by (auto simp: networking_get_dns_config_def intro: dns_loop_ok split: option.splits)
qed

definition dns_word :: "nat \<Rightarrow> string \<Rightarrow> bool" where
  "dns_word n w \<longleftrightarrow> length w < n \<and> NUL \<notin> set w \<and> CHR 0x0A \<notin> set w \<and> (w = [] \<or> hd w \<noteq> CHR '' '' \<and> hd w \<noteq> CHR 0x09)"

definition resolv_conf_text :: "DnsConfig \<Rightarrow> bytes" where
  "resolv_conf_text c = ''domain '' @ dn_domain c @ [CHR 0x0A] @ ''search '' @ dn_search c @ [CHR 0x0A] @
     concat (map (\<lambda>n. ''nameserver '' @ n @ [CHR 0x0A]) (dn_nameservers c))"

lemma skip_blanks_word: "dns_word n w \<Longrightarrow> skip_blanks (CHR '' '' # w @ [CHR 0x0A]) = w @ [CHR 0x0A]"
  by (cases w) (auto simp: skip_blanks_def dns_word_def)

lemma before_newline_word: "dns_word n w \<Longrightarrow> before_newline (w @ [CHR 0x0A]) = w"
  by (simp add: before_newline_def dns_word_def)

lemma c_str_clean: "NUL \<notin> set l \<Longrightarrow> c_str l = l"
  by (auto simp: c_str_def takeWhile_eq_all_conv)

lemma dns_line_word:
  "dns_word 46 w \<Longrightarrow> dns_line (c_str (''nameserver '' @ w @ [CHR 0x0A])) c = c\<lparr>dn_nameservers := dn_nameservers c @ [w]\<rparr>"
  "dns_word 256 w \<Longrightarrow> dns_line (c_str (''domain '' @ w @ [CHR 0x0A])) c = c\<lparr>dn_domain := w\<rparr>"
  "dns_word 503 w \<Longrightarrow> dns_line (c_str (''search '' @ w @ [CHR 0x0A])) c = c\<lparr>dn_search := w\<rparr>"
proof -
  have clean: "c_str (k @ w @ [CHR 0x0A]) = k @ w @ [CHR 0x0A]" if "dns_word n w" "NUL \<notin> set k" for k n
    using that by (intro c_str_clean) (auto simp: dns_word_def)
  have len: "dns_word n w \<Longrightarrow> length w < n" for n by (simp add: dns_word_def)
  show "dns_word 46 w \<Longrightarrow> dns_line (c_str (''nameserver '' @ w @ [CHR 0x0A])) c = c\<lparr>dn_nameservers := dn_nameservers c @ [w]\<rparr>"
    using clean [of 46 "''nameserver ''"] skip_blanks_word [of 46 w] before_newline_word [of 46 w] len [of 46]
    by (simp add: dns_line_def skip_blanks_def [of "CHR ''n'' # _"] strlcpy_short)
  show "dns_word 256 w \<Longrightarrow> dns_line (c_str (''domain '' @ w @ [CHR 0x0A])) c = c\<lparr>dn_domain := w\<rparr>"
    using clean [of 256 "''domain ''"] skip_blanks_word [of 256 w] before_newline_word [of 256 w] len [of 256]
    by (simp add: dns_line_def skip_blanks_def [of "CHR ''d'' # _"] strlcpy_short)
  show "dns_word 503 w \<Longrightarrow> dns_line (c_str (''search '' @ w @ [CHR 0x0A])) c = c\<lparr>dn_search := w\<rparr>"
    using clean [of 503 "''search ''"] skip_blanks_word [of 503 w] before_newline_word [of 503 w] len [of 503]
    by (simp add: dns_line_def skip_blanks_def [of "CHR ''s'' # _"] strlcpy_short)
qed

lemma dns_loop_nameservers:
  "list_all (dns_word 46) ns \<Longrightarrow> length (dn_nameservers c) + length ns \<le> 8 \<Longrightarrow>
    dns_loop c (fgets_lines 512 (concat (map (\<lambda>n. ''nameserver '' @ n @ [CHR 0x0A]) ns))) =
      c\<lparr>dn_nameservers := dn_nameservers c @ ns\<rparr>"
proof (induction ns arbitrary: c)
  case Nil
  then show ?case by (simp add: fgets_lines.simps)
next
  case (Cons w ns)
  then have "fgets_lines 512 ((''nameserver '' @ w) @ [CHR 0x0A] @ concat (map (\<lambda>n. ''nameserver '' @ n @ [CHR 0x0A]) ns)) =
      ((''nameserver '' @ w) @ [CHR 0x0A]) # fgets_lines 512 (concat (map (\<lambda>n. ''nameserver '' @ n @ [CHR 0x0A]) ns))"
    by (intro fgets_lines_step) (auto simp: dns_word_def)
  then show ?case using Cons dns_line_word(1) [of w c] by simp
qed

text \<open>
  Reading back a resolver configuration: a file that names a domain, a search list and up to
  eight servers, each in a line of its own and fitting its field, is read as exactly that
  configuration.
\<close>

theorem networking_get_dns_config_roundtrip:
  assumes "list_all (dns_word 46) (dn_nameservers c)" "length (dn_nameservers c) \<le> 8"
    and "dns_word 256 (dn_domain c)" "dns_word 503 (dn_search c)"
  shows "networking_get_dns_config (Some (resolv_conf_text c)) = (0, c)"
proof -
  let ?ns = "concat (map (\<lambda>n. ''nameserver '' @ n @ [CHR 0x0A]) (dn_nameservers c))"
  have "fgets_lines 512 ((''search '' @ dn_search c) @ [CHR 0x0A] @ ?ns) = ((''search '' @ dn_search c) @ [CHR 0x0A]) # fgets_lines 512 ?ns"
    using assms(4) by (intro fgets_lines_step) (auto simp: dns_word_def)
  moreover have "fgets_lines 512 ((''domain '' @ dn_domain c) @ [CHR 0x0A] @ ''search '' @ dn_search c @ [CHR 0x0A] @ ?ns) =
      ((''domain '' @ dn_domain c) @ [CHR 0x0A]) # fgets_lines 512 (''search '' @ dn_search c @ [CHR 0x0A] @ ?ns)"
    using assms(3) by (intro fgets_lines_step) (auto simp: dns_word_def)
  ultimately have "fgets_lines 512 (resolv_conf_text c) =
      (''domain '' @ dn_domain c @ [CHR 0x0A]) # (''search '' @ dn_search c @ [CHR 0x0A]) # fgets_lines 512 ?ns"
    by (simp add: resolv_conf_text_def)
  then show ?thesis
    using dns_line_word(2) [OF assms(3), of zero_dns] dns_line_word(3) [OF assms(4)] dns_loop_nameservers [OF assms(1)] assms(2)
    by (simp add: networking_get_dns_config_def zero_dns_def)
qed

theorem networking_get_dns_config_roundtrip_witness:
  "networking_get_dns_config (Some (resolv_conf_text \<lparr>dn_nameservers = [''192.168.1.1'', ''2001:db8::1''], dn_domain = ''lan'', dn_search = ''lan example.org''\<rparr>)) =
     (0, \<lparr>dn_nameservers = [''192.168.1.1'', ''2001:db8::1''], dn_domain = ''lan'', dn_search = ''lan example.org''\<rparr>)"
  by (rule networking_get_dns_config_roundtrip) (simp_all add: dns_word_def)

subsection \<open>The size of the page\<close>

lemma length_net_escape: "length (net_escape s) \<le> 6 * length s + 2"
proof -
  have "length (net_escape_char c) \<le> 6" for c by (simp add: net_escape_char_def)
  then have "length (concat (map net_escape_char s)) \<le> 6 * length s"
    by (induction s) (simp_all add: add_mono)
  then show ?thesis by (simp add: net_escape_def)
qed

definition text_len :: "json_step list \<Rightarrow> nat" where
  "text_len ss = length (concat (map step_text ss))"

lemma text_len_simps [simp]:
  "text_len [] = 0" "text_len (s # ss) = length (step_text s) + text_len ss" "text_len (ss @ ts) = text_len ss + text_len ts"
  by (simp_all add: text_len_def)

lemma text_len_enumerate:
  "(\<And>i x. x \<in> set xs \<Longrightarrow> text_len (f (i, x)) \<le> m) \<Longrightarrow> text_len (concat (map f (enumerate k xs))) \<le> length xs * m"
  by (induction xs arbitrary: k) (simp_all add: add_mono)

definition route_ok :: "RouteEntry \<Rightarrow> bool" where
  "route_ok r \<longleftrightarrow> length (re_destination r) \<le> 45 \<and> length (re_gateway r) \<le> 45 \<and> length (re_netmask r) \<le> 15 \<and>
     length (re_interface r) \<le> 15 \<and> length (re_flags_str r) \<le> 5"

definition stats_ok :: "NetStats \<Rightarrow> bool" where
  "stats_ok s \<longleftrightarrow> length (ns_interface s) \<le> 15 \<and> length (ns_ipv4 s) \<le> 15 \<and>
     list_all (\<lambda>n. n < 10 ^ 20) [ns_rx_packets s, ns_rx_bytes s, ns_rx_errors s, ns_tx_packets s, ns_tx_bytes s, ns_tx_errors s]"

lemma text_len_route: "route_ok r \<Longrightarrow> text_len (route_steps (i, r)) \<le> 830"
  using length_net_escape [of "re_destination r"] length_net_escape [of "re_gateway r"] length_net_escape [of "re_netmask r"]
    length_net_escape [of "re_interface r"] length_net_escape [of "re_flags_str r"]
  by (simp add: route_steps_def route_ok_def nkey_def)

lemma text_len_nameserver: "length n < 46 \<Longrightarrow> text_len (nameserver_steps (i, n)) \<le> 273"
  using length_net_escape [of n] by (simp add: nameserver_steps_def)

lemma text_len_interface:
  assumes "stats_ok s"
  shows "text_len (interface_steps (i, s)) \<le> 450"
proof -
  have d: "length (show_nat n) \<le> 20" if "n < 10 ^ 20" for n using that length_show_nat [of n 19] by simp
  have "length (show_nat (ns_rx_packets s)) \<le> 20" "length (show_nat (ns_rx_bytes s)) \<le> 20" "length (show_nat (ns_rx_errors s)) \<le> 20"
    "length (show_nat (ns_tx_packets s)) \<le> 20" "length (show_nat (ns_tx_bytes s)) \<le> 20" "length (show_nat (ns_tx_errors s)) \<le> 20"
    by (rule d; use assms in \<open>simp add: stats_ok_def\<close>)+
  then show ?thesis
    using assms length_net_escape [of "ns_interface s"] length_net_escape [of "ns_ipv4 s"]
    by (simp add: interface_steps_def stats_ok_def nkey_def)
qed

definition sample_ok :: "NetworkingSample \<Rightarrow> bool" where
  "sample_ok s \<longleftrightarrow> \<bar>nw_ts s\<bar> < 10 ^ 18 \<and> length (nw_routes s) \<le> 50 \<and> list_all route_ok (nw_routes s) \<and> dns_ok (nw_dns s) \<and>
     length (nw_interfaces s) \<le> 10 \<and> list_all stats_ok (nw_interfaces s)"

lemma text_len_page:
  assumes "sample_ok s" "length t < 64"
  shows "text_len (json_steps t s) < NETWORK_JSON_BUFFER_SIZE"
proof -
  have ts: "length (show_int (nw_ts s)) \<le> 19"
  proof -
    have "nat \<bar>nw_ts s\<bar> < 10 ^ Suc 17" using assms(1) by (simp add: sample_ok_def nat_less_iff)
    then have "length (show_nat (nat \<bar>nw_ts s\<bar>)) \<le> Suc 17" by (rule length_show_nat)
    then show ?thesis by (auto simp: show_int_def)
  qed
  have "text_len (concat (map route_steps (enumerate 0 (nw_routes s)))) \<le> length (nw_routes s) * 830"
    by (rule text_len_enumerate) (use assms(1) text_len_route in \<open>auto simp: sample_ok_def list_all_iff\<close>)
  moreover have "length (nw_routes s) * 830 \<le> 41500" using assms(1) by (simp add: sample_ok_def)
  ultimately have r: "text_len (concat (map route_steps (enumerate 0 (nw_routes s)))) \<le> 41500" by linarith
  have "text_len (concat (map nameserver_steps (enumerate 0 (dn_nameservers (nw_dns s))))) \<le> length (dn_nameservers (nw_dns s)) * 273"
    by (rule text_len_enumerate) (use assms(1) text_len_nameserver in \<open>auto simp: sample_ok_def dns_ok_def list_all_iff\<close>)
  moreover have "length (dn_nameservers (nw_dns s)) * 273 \<le> 2184" using assms(1) by (simp add: sample_ok_def dns_ok_def)
  ultimately have n: "text_len (concat (map nameserver_steps (enumerate 0 (dn_nameservers (nw_dns s))))) \<le> 2184" by linarith
  have "text_len (concat (map interface_steps (enumerate 0 (nw_interfaces s)))) \<le> length (nw_interfaces s) * 450"
    by (rule text_len_enumerate) (use assms(1) text_len_interface in \<open>auto simp: sample_ok_def list_all_iff\<close>)
  moreover have "length (nw_interfaces s) * 450 \<le> 4500" using assms(1) by (simp add: sample_ok_def)
  ultimately have i: "text_len (concat (map interface_steps (enumerate 0 (nw_interfaces s)))) \<le> 4500" by linarith
  have d: "length (dn_domain (nw_dns s)) < 256" "length (dn_search (nw_dns s)) < 512" using assms(1) by (auto simp: sample_ok_def dns_ok_def)
  show ?thesis
    using ts r n i d assms(2) length_net_escape [of t] length_net_escape [of "dn_domain (nw_dns s)"] length_net_escape [of "dn_search (nw_dns s)"]
    unfolding json_steps_def text_len_simps by (simp add: nkey_def NETWORK_JSON_BUFFER_SIZE_def)
qed

text \<open>What the system may return: printed IPv6 addresses, interface names and counters of their usual size.\<close>

definition net_env_sane :: "net_env \<Rightarrow> bool" where
  "net_env_sane env \<longleftrightarrow> \<bar>nt_time env\<bar> < 10 ^ 18 \<and> (\<forall>b. length (ro_inet6 (nt_route_env env) b) \<le> 45) \<and>
     (\<forall>i n. ro_ifname (nt_route_env env) i = Some n \<longrightarrow> length n \<le> 15) \<and>
     (\<forall>l name d. nt_ifaddrs env = Some l \<longrightarrow> (name, Link_addr (Some d)) \<in> set l \<longrightarrow>
        list_all (\<lambda>n. n < 10 ^ 20) [ifi_ipackets d, ifi_ibytes d, ifi_ierrors d, ifi_opackets d, ifi_obytes d, ifi_oerrors d])"

lemma length_ntop4: "length (ntop4 sa) \<le> 15"
proof -
  have "byte_at sa i < 10 ^ Suc 2" for i by (simp add: byte_at_def order.strict_trans [OF chr_code_less])
  then have "length (show_nat (byte_at sa i)) \<le> 3" for i using length_show_nat [of "byte_at sa i" 2] by simp
  from this [of 4] this [of 5] this [of 6] this [of 7] show ?thesis by (simp add: ntop4_def)
qed

lemma route_entry_ok:
  assumes "net_env_sane env"
  shows "route_ok (route_entry (nt_route_env env) m zero_route)"
proof -
  let ?env = "nt_route_env env"
  have cut: "length (strlcpy n x) \<le> length x" for n x by (simp add: strlcpy_def)
  have six: "length (ntop6 ?env sa) \<le> 45" for sa using assms by (simp add: net_env_sane_def ntop6_def)
  have d: "length (strlcpy 64 (route_destination ?env sa)) \<le> 45" for sa
    using cut [of 64 "route_destination ?env sa"] six [of sa] length_ntop4 [of sa] by (auto simp: route_destination_def)
  have g: "length (strlcpy 64 (route_gateway ?env sa)) \<le> 45" for sa
    using cut [of 64 "route_gateway ?env sa"] six [of sa] length_ntop4 [of sa] by (auto simp: route_gateway_def)
  have m: "length (strlcpy 64 (route_netmask sa)) \<le> 15" for sa
    using cut [of 64 "route_netmask sa"] length_ntop4 [of sa] by (auto simp: route_netmask_def)
  have f: "length (snprintf_out 32 (flags_text (rt_flags m))) \<le> 5" by (simp add: flags_text_def snprintf_out_def)
  have n: "ro_ifname ?env i = Some x \<Longrightarrow> length x \<le> 15" for i x using assms by (simp add: net_env_sane_def)
  show ?thesis
    using d g m f n by (auto simp: route_entry_def route_ok_def zero_route_def Let_def split: option.splits)
qed

subsection \<open>Interface addresses\<close>

lemma link_loop_length: "length (link_loop n acc l) \<le> max n (length acc)"
  by (induction n acc l rule: link_loop.induct) (auto split: if_addr.splits option.splits)

lemma link_loop_from:
  "s \<in> set (link_loop n acc l) \<Longrightarrow> s \<in> set acc \<or> (\<exists>name d. (name, Link_addr (Some d)) \<in> set l \<and> s = link_stats name d)"
proof (induction n acc l rule: link_loop.induct)
  case (2 n acc name a rest)
  then show ?case by (auto split: if_splits if_addr.splits option.splits)
qed simp

lemma set_ipv4_from: "s \<in> set (set_ipv4 name addr ss) \<Longrightarrow> s \<in> set ss \<or> (\<exists>t \<in> set ss. s = t\<lparr>ns_ipv4 := addr\<rparr>)"
  by (induction name addr ss rule: set_ipv4.induct) (auto split: if_splits)

lemma length_set_ipv4 [simp]: "length (set_ipv4 name addr ss) = length ss"
  by (induction name addr ss rule: set_ipv4.induct) auto

lemma set_ipv4_ok: "list_all stats_ok ss \<Longrightarrow> length addr \<le> 15 \<Longrightarrow> list_all stats_ok (set_ipv4 name addr ss)"
  using set_ipv4_from by (fastforce simp: list_all_iff stats_ok_def)

lemma inet_loop_ok: "list_all stats_ok ss \<Longrightarrow> list_all stats_ok (inet_loop ss l) \<and> length (inet_loop ss l) = length ss"
proof (induction ss l rule: inet_loop.induct)
  case (2 ss name a rest)
  have "length (inet_ntop w) \<le> 15" for w using length_inet_ntop [of w] by (simp add: INET_ADDRSTRLEN_def)
  then show ?case using 2 set_ipv4_ok by (cases a) auto
qed simp

lemma if_stats_ok:
  assumes "net_env_sane env"
  shows "list_all stats_ok (networking_get_if_stats (nt_ifaddrs env) n) \<and> length (networking_get_if_stats (nt_ifaddrs env) n) \<le> n"
proof (cases "nt_ifaddrs env")
  case (Some l)
  have name: "length (strlcpy 16 x) \<le> 15" for x using length_strlcpy [of 16 x] by simp
  have "list_all stats_ok (link_loop n [] l)"
    using link_loop_from [of _ n "[]" l] assms Some name by (fastforce simp: list_all_iff stats_ok_def net_env_sane_def link_stats_def)
  moreover have "length (link_loop n [] l) \<le> n" using link_loop_length [of n "[]" l] by simp
  ultimately show ?thesis using inet_loop_ok Some by (simp add: networking_get_if_stats_def)
qed (simp add: networking_get_if_stats_def)

lemma collected_ok:
  assumes "net_env_sane env"
  shows "sample_ok (networking_collect_sample env)"
proof -
  have "list_all route_ok (networking_get_routes (nt_route_env env) t ok 50)" "length (networking_get_routes (nt_route_env env) t ok 50) \<le> 50" for t ok
    using route_entry_ok [OF assms] by (auto simp: networking_get_routes_def routes_loop_eq list_all_iff split: option.splits dest!: in_set_takeD)
  moreover have "dns_ok zero_dns" by (simp add: dns_ok_def zero_dns_def)
  then have "dns_ok (let (rc, dns) = networking_get_dns_config c in if rc \<noteq> 0 then zero_dns else dns)" for c
    by (auto simp: networking_get_dns_config_def dns_loop_ok split: option.splits)
  ultimately show ?thesis
    using if_stats_ok [OF assms, of 10] assms by (simp add: sample_ok_def networking_collect_sample_def net_env_sane_def)
qed

lemma networking_page_complete_lemma:
  assumes "net_env_sane env" "nt_json_malloc env"
  shows "\<exists>timestamp json. networking_build_json env (networking_collect_sample env) = Some json \<and>
    json = concat (map step_text (json_steps timestamp (networking_collect_sample env))) \<and> length json < NETWORK_JSON_BUFFER_SIZE"
proof -
  let ?s = "networking_collect_sample env"
  let ?t = "strlcpy 64 (case nt_strftime env (nw_ts ?s) of Some t \<Rightarrow> t | None \<Rightarrow> ''unknown'')"
  have "length ?t < 64" by (rule length_strlcpy) simp
  then have len: "length (concat (map step_text (json_steps ?t ?s))) < NETWORK_JSON_BUFFER_SIZE"
    using text_len_page [OF collected_ok [OF assms(1)], of ?t] by (simp add: text_len_def)
  moreover have "run_steps NETWORK_JSON_BUFFER_SIZE (json_steps ?t ?s) [] = Some (concat (map step_text (json_steps ?t ?s)))"
    using run_steps_eq [of "[]" NETWORK_JSON_BUFFER_SIZE "json_steps ?t ?s"] len by (simp add: NETWORK_JSON_BUFFER_SIZE_def)
  ultimately show ?thesis using assms(2) by (auto simp: networking_build_json_def Let_def)
qed


definition sample_net_env :: net_env where
  "sample_net_env = \<lparr>nt_time = 1700000000, nt_route_env = \<lparr>ro_inet6 = (\<lambda>b. ''::1''), ro_ifname = (\<lambda>i. Some ''em0'')\<rparr>,
     nt_routes = Some [], nt_routes_malloc = True, nt_resolv_conf = Some (''nameserver 10.0.0.1'' @ [CHR 0x0A]),
     nt_ifaddrs = Some [(''em0'', Link_addr (Some \<lparr>ifi_ipackets = 7, ifi_ibytes = 700, ifi_ierrors = 0, ifi_iqdrops = 0, ifi_opackets = 5,
       ifi_obytes = 500, ifi_oerrors = 0\<rparr>)), (''em0'', Inet_addr 0x0A000007)],
     nt_strftime = (\<lambda>t. None), nt_json_malloc = True, nt_ring_malloc = True,
     nt_junk = (\<lambda>i. \<lparr>nw_ts = 0, nw_routes = [], nw_dns = zero_dns, nw_interfaces = []\<rparr>),
     nt_hb_register = 1, nt_hb_start = 0, nt_hit_strdup = True, nt_store_strdup = True\<rparr>"

lemma sample_net_env_sane: "net_env_sane sample_net_env"
  by (auto simp: net_env_sane_def sample_net_env_def)


text \<open>The first IPv4 address of an interface, as \<^verbatim>\<open>getifaddrs\<close> lists them.\<close>

fun first_inet :: "string \<Rightarrow> ifaddrs \<Rightarrow> string" where
  "first_inet name [] = ''-''"
| "first_inet name ((n, a) # rest) =
     (case a of Inet_addr w \<Rightarrow> if n = name then inet_ntop w else first_inet name rest | _ \<Rightarrow> first_inet name rest)"

lemma set_ipv4_map:
  "distinct (map ns_interface ss) \<Longrightarrow>
    set_ipv4 name addr ss = map (\<lambda>s. if ns_interface s = name \<and> ns_ipv4 s = ''-'' then s\<lparr>ns_ipv4 := addr\<rparr> else s) ss"
proof (induction name addr ss rule: set_ipv4.induct)
  case (2 name addr s ss)
  have "map (\<lambda>t. if ns_interface t = name \<and> ns_ipv4 t = ''-'' then t\<lparr>ns_ipv4 := addr\<rparr> else t) ss = ss" if "ns_interface s = name"
    using 2(2) that by (intro map_idI) (auto simp: image_iff)
  then show ?case using 2 by auto
qed simp

lemma inet_ntop_not_dash: "inet_ntop w \<noteq> ''-''"
  by (simp add: inet_ntop_def append_eq_Cons_conv)

lemma inet_loop_map:
  "distinct (map ns_interface ss) \<Longrightarrow>
    inet_loop ss l = map (\<lambda>s. if ns_ipv4 s = ''-'' then s\<lparr>ns_ipv4 := first_inet (ns_interface s) l\<rparr> else s) ss"
proof (induction ss l rule: inet_loop.induct)
  case (1 ss)
  have "map (\<lambda>s. if ns_ipv4 s = ''-'' then s\<lparr>ns_ipv4 := ''-''\<rparr> else s) ss = ss" by (intro map_idI) auto
  then show ?case by (simp cong: if_cong)
next
  case (2 ss name a rest)
  show ?case
  proof (cases a)
    case (Inet_addr w)
    let ?ss = "set_ipv4 name (inet_ntop w) ss"
    have "map ns_interface ?ss = map ns_interface ss" using set_ipv4_map [OF 2(5)] by auto
    then have "inet_loop ?ss rest = map (\<lambda>s. if ns_ipv4 s = ''-'' then s\<lparr>ns_ipv4 := first_inet (ns_interface s) rest\<rparr> else s) ?ss"
      using 2(3) [OF Inet_addr] 2(5) by simp
    then show ?thesis using set_ipv4_map [OF 2(5), of name "inet_ntop w"] Inet_addr inet_ntop_not_dash [of w] by auto
  qed (use 2 in auto)
qed

definition links :: "ifaddrs \<Rightarrow> (string \<times> if_data) list" where
  "links l = List.map_filter (\<lambda>(n, a). case a of Link_addr (Some d) \<Rightarrow> Some (n, d) | _ \<Rightarrow> None) l"

lemma link_loop_eq:
  "link_loop n acc l = take (max n (length acc)) (acc @ map (\<lambda>(name, d). link_stats name d) (links l))"
proof (induction n acc l rule: link_loop.induct)
  case (2 n acc name a rest)
  then show ?case by (auto simp: links_def map_filter_simps max_def not_less take_Cons' split: if_addr.splits option.splits)
qed (simp add: links_def map_filter_simps)

text \<open>
  Every interface is reported once with its counters and its first IPv4 address: given distinct
  interface names that fit their field, the result lists the link-level entries in the order of the
  system, cut at the limit, each with the first IPv4 address listed for its name, or a dash.
\<close>

theorem networking_get_if_stats_addresses:
  assumes "distinct (map fst (links l))" "list_all (\<lambda>p. length (fst p) < 16) (links l)"
  shows "networking_get_if_stats (Some l) n =
    take n (map (\<lambda>(name, d). (link_stats name d)\<lparr>ns_ipv4 := first_inet name l\<rparr>) (links l))"
proof -
  let ?ss = "take n (map (\<lambda>(name, d). link_stats name d) (links l))"
  have names: "map ns_interface ?ss = take n (map fst (links l))"
    using assms(2) by (auto simp: take_map link_stats_def list_all_iff strlcpy_short dest!: in_set_takeD intro!: map_cong)
  then have "distinct (map ns_interface ?ss)" using assms(1) by simp
  then have "networking_get_if_stats (Some l) n =
      map (\<lambda>s. if ns_ipv4 s = ''-'' then s\<lparr>ns_ipv4 := first_inet (ns_interface s) l\<rparr> else s) ?ss"
    using inet_loop_map [of ?ss l] by (simp add: networking_get_if_stats_def link_loop_eq)
  also have "\<dots> = take n (map (\<lambda>(name, d). (link_stats name d)\<lparr>ns_ipv4 := first_inet name l\<rparr>) (links l))"
    using assms(2) by (auto simp: take_map link_stats_def list_all_iff strlcpy_short dest!: in_set_takeD)
  finally show ?thesis .
qed

theorem networking_get_if_stats_addresses_witness:
  "map ns_ipv4 (networking_get_if_stats (nt_ifaddrs sample_net_env) 10) = [inet_ntop 0x0A000007]"
proof -
  let ?l = "the (nt_ifaddrs sample_net_env)"
  have links: "map fst (links ?l) = [''em0'']" "length (links ?l) = 1"
    by (simp_all add: links_def map_filter_simps sample_net_env_def)
  have "first_inet ''em0'' ?l = inet_ntop 0x0A000007" by (simp add: sample_net_env_def)
  moreover have "networking_get_if_stats (Some ?l) 10 =
      take 10 (map (\<lambda>(name, d). (link_stats name d)\<lparr>ns_ipv4 := first_inet name ?l\<rparr>) (links ?l))"
    by (rule networking_get_if_stats_addresses) (simp_all add: links_def map_filter_simps sample_net_env_def)
  ultimately show ?thesis by (simp add: links_def map_filter_simps sample_net_env_def)
qed

subsection \<open>The answers\<close>

definition page_of :: "net_env set \<Rightarrow> string \<Rightarrow> bool" where
  "page_of E j \<longleftrightarrow> (\<exists>e \<in> E. \<exists>e' \<in> E. networking_build_json e' (networking_collect_sample e) = Some j)"

text \<open>Every sample in the ring was collected and every cached page built by one of the calls so far.\<close>

definition net_inv :: "net_env set \<Rightarrow> net_state \<Rightarrow> bool" where
  "net_inv E st \<longleftrightarrow> (nr_buf (nz_ring st) \<noteq> None \<longrightarrow> net_ring_inv (nz_ring st)) \<and>
     (\<forall>s \<in> set (net_ring_contents (nz_ring st)). s \<in> networking_collect_sample ` E) \<and>
     (\<forall>j. nr_cached_json (nz_ring st) = Some j \<longrightarrow> page_of E j)"

lemma page_of_mono: "page_of E j \<Longrightarrow> E \<subseteq> F \<Longrightarrow> page_of F j"
  by (fastforce simp: page_of_def)

lemma net_inv_mono: "net_inv E st \<Longrightarrow> E \<subseteq> F \<Longrightarrow> net_inv F st"
  using page_of_mono by (fastforce simp: net_inv_def)

lemma net_ring_contents_cached [simp]:
  "net_ring_contents (r\<lparr>nr_cached_json := c\<rparr>) = net_ring_contents r" "net_ring_inv (r\<lparr>nr_cached_json := c\<rparr>) = net_ring_inv r"
  "net_ring_contents (cache_json j t r) = net_ring_contents r" "net_ring_inv (cache_json j t r) = net_ring_inv r"
  "nr_buf (cache_json j t r) = nr_buf r" "nr_cached_json (cache_json j t r) = Some j"
  by (simp_all add: net_ring_contents_def net_ring_inv_def cache_json_def split: option.splits)

lemma net_inv_once:
  assumes "net_inv E st" "nz_once st \<or> nr_cached_json (nz_ring st) = None \<and> nr_buf (nz_ring st) = None"
  shows "net_inv E (networking_once env st) \<and> nz_once (networking_once env st)"
proof -
  have init: "net_ring_inv (snd (networking_ring_init True junk r))" "net_ring_contents (snd (networking_ring_init True junk r)) = []" for junk r
    by (simp_all add: networking_ring_init_def net_ring_inv_def net_ring_contents_def ring_items_def)
  have empty: "nr_buf r = None \<Longrightarrow> net_ring_contents r = []" for r by (simp add: net_ring_contents_def)
  show ?thesis
  proof (cases "nz_once st")
    case True
    then show ?thesis using assms(1) by (simp add: networking_once_def)
  next
    case False
    then have none: "nr_cached_json (nz_ring st) = None" using assms(2) by simp
    let ?r = "nz_ring (networking_once env st)"
    have "?r = (nz_ring st)\<lparr>nr_buf := None\<rparr> \<or> (\<exists>r. r = snd (networking_ring_init True (nt_junk env) (nz_ring st)) \<and>
        (?r = r\<lparr>nr_buf := None\<rparr> \<or> ?r = r))" and once: "nz_once (networking_once env st)"
      using False by (auto simp: networking_once_def networking_ring_bootstrap_def networking_ring_init_def)
    then have "net_ring_contents ?r = []" "nr_buf ?r \<noteq> None \<longrightarrow> net_ring_inv ?r" "nr_cached_json ?r = None"
      using init [of "nt_junk env" "nz_ring st"] empty none by (auto simp: networking_ring_init_def)
    then show ?thesis using once by (simp add: net_inv_def)
  qed
qed

lemma net_inv_beat:
  assumes "net_inv E st" "networking_heartbeat_cb env st = Inr st'"
  shows "net_inv (insert env E) st' \<and> nz_once st' = nz_once st"
proof -
  let ?s = "networking_collect_sample env" and ?r = "net_push_ok (nz_ring st) (networking_collect_sample env)"
  obtain buf where buf: "nr_buf (nz_ring st) = Some buf"
    using assms(2) by (cases "nr_buf (nz_ring st)") (auto simp: networking_heartbeat_cb_def networking_ring_push_def Let_def)
  have push: "networking_ring_push (nz_ring st) ?s = Inr ?r" using buf by (simp add: net_push_ok_def networking_ring_push_def)
  have inv: "net_ring_inv (nz_ring st)" using assms(1) buf by (simp add: net_inv_def)
  have r: "net_ring_inv ?r" "net_ring_contents ?r = newest NETWORK_RING_CAPACITY (net_ring_contents (nz_ring st) @ [?s])"
    using net_ring.invar_push [OF inv] net_ring.contents_push [OF inv] by auto
  have sub: "set (net_ring_contents ?r) \<subseteq> insert ?s (set (net_ring_contents (nz_ring st)))"
    using set_drop_subset [of "length (net_ring_contents (nz_ring st) @ [?s]) - NETWORK_RING_CAPACITY" "net_ring_contents (nz_ring st) @ [?s]"]
    unfolding r newest_def by simp
  have cached: "nr_cached_json ?r = nr_cached_json (nz_ring st)" using buf by (simp add: net_push_ok_def networking_ring_push_def)
  have st': "st' = st\<lparr>nz_ring := (case networking_build_json env ?s of None \<Rightarrow> ?r | Some j \<Rightarrow> cache_json j (nw_ts ?s) ?r)\<rparr>"
    using assms(2) push by (simp add: networking_heartbeat_cb_def Let_def)
  have old: "net_inv (insert env E) st" using net_inv_mono [OF assms(1)] by blast
  show ?thesis
  proof (cases "networking_build_json env ?s")
    case None
    then show ?thesis using old sub r(1) cached by (auto simp: st' net_inv_def)
  next
    case (Some j)
    then have "page_of (insert env E) j" by (auto simp: page_of_def)
    then show ?thesis using old sub r(1) Some by (auto simp: st' net_inv_def)
  qed
qed

lemma net_inv_get:
  assumes "net_inv E st" "nz_once st \<or> nr_cached_json (nz_ring st) = None \<and> nr_buf (nz_ring st) = None"
    and "networking_get_json env st = (r, st')"
  shows "net_inv (insert env E) st' \<and> nz_once st' \<and> (\<forall>j. r = Some j \<longrightarrow> page_of (insert env E) j)"
proof -
  let ?st1 = "networking_once env st"
  have inv: "net_inv (insert env E) ?st1" and once: "nz_once ?st1"
    using net_inv_once [OF assms(1,2)] net_inv_mono by blast+
  show ?thesis
  proof (cases "cached_copy env (nz_ring ?st1)")
    case (Some j)
    then show ?thesis using assms(3) inv once by (auto simp: networking_get_json_def Let_def cached_copy_def net_inv_def split: if_splits)
  next
    case None
    define s where "s = (case networking_ring_last (nz_ring ?st1) of Some s \<Rightarrow> s | None \<Rightarrow> networking_collect_sample env)"
    have s: "s \<in> networking_collect_sample ` insert env E"
    proof (cases "networking_ring_last (nz_ring ?st1)")
      case (Some t)
      then have ri: "net_ring_inv (nz_ring ?st1)" using inv by (cases "nr_buf (nz_ring ?st1)") (auto simp: networking_ring_last_def net_inv_def)
      then have "t \<in> set (net_ring_contents (nz_ring ?st1))"
        using Some networking_ring_last_eq [OF ri] by (auto split: if_splits)
      then show ?thesis using inv Some by (auto simp: s_def net_inv_def)
    qed (simp add: s_def)
    have get: "networking_get_json env st = (case networking_build_json env s of None \<Rightarrow> (None, ?st1) | Some json \<Rightarrow>
        (Some json, if nr_buf (nz_ring ?st1) = None then ?st1
          else if nt_store_strdup env then ?st1\<lparr>nz_ring := cache_json json (nw_ts s) (nz_ring ?st1)\<rparr>
          else ?st1\<lparr>nz_ring := (nz_ring ?st1)\<lparr>nr_cached_json := None\<rparr>\<rparr>))"
      unfolding networking_get_json_def Let_def None option.case s_def ..
    show ?thesis
    proof (cases "networking_build_json env s")
      case None
      then show ?thesis using assms(3) get inv once by simp
    next
      case (Some j)
      then have "page_of (insert env E) j" using s by (auto simp: page_of_def)
      then show ?thesis using assms(3) get inv once Some by (auto simp: net_inv_def split: if_splits)
    qed
  qed
qed

datatype net_op = Net_beat net_env | Net_get net_env

fun net_run :: "net_state \<Rightarrow> net_op list \<Rightarrow> fault + net_state" where
  "net_run st [] = Inr st"
| "net_run st (Net_beat e # ops) = bindR (networking_heartbeat_cb e st) (\<lambda>st'. net_run st' ops)"
| "net_run st (Net_get e # ops) = net_run (snd (networking_get_json e st)) ops"

fun net_op_env :: "net_op \<Rightarrow> net_env" where
  "net_op_env (Net_beat e) = e"
| "net_op_env (Net_get e) = e"

text \<open>Before the first request there is neither a ring nor a page; a heartbeat without a ring is a fault.\<close>

definition net_start :: "net_state \<Rightarrow> bool" where
  "net_start st \<longleftrightarrow> nz_once st \<or> nr_cached_json (nz_ring st) = None \<and> nr_buf (nz_ring st) = None"

lemma net_run_inv:
  "net_run st ops = Inr st' \<Longrightarrow> net_inv E st \<Longrightarrow> net_start st \<Longrightarrow> net_inv (E \<union> net_op_env ` set ops) st' \<and> net_start st'"
proof (induction st ops arbitrary: E rule: net_run.induct)
  case (2 st e ops)
  obtain st1 where st1: "networking_heartbeat_cb e st = Inr st1" "net_run st1 ops = Inr st'" using 2(2) by (auto simp: bindR_Inr_iff)
  have "nz_once st"
    using st1(1) 2(4) by (auto simp: net_start_def networking_heartbeat_cb_def networking_ring_push_def Let_def)
  then have "net_inv (insert e E) st1" "net_start st1" using net_inv_beat [OF 2(3) st1(1)] by (auto simp: net_start_def)
  then show ?case using 2(1) [OF st1(2), of "insert e E"] by simp
next
  case (3 st e ops)
  obtain r st1 where st1: "networking_get_json e st = (r, st1)" by fastforce
  then have "net_inv (insert e E) st1 \<and> nz_once st1" using net_inv_get [OF 3(3)] 3(4) by (auto simp: net_start_def)
  then show ?case using 3(1) [of "insert e E"] 3(2) st1 by (simp add: net_start_def)
qed simp

text \<open>
  C20. The networking API answers with what was measured: after any sequence of heartbeats and
  requests, the JSON of an answer is the complete page of one sample, collected by a heartbeat or by
  a request, and never a mixture of two.
\<close>

theorem networking_answer_collected:
  assumes "net_run st0 ops = Inr st" "\<not> nz_once st0" "nr_buf (nz_ring st0) = None" "nr_cached_json (nz_ring st0) = None"
    and "networking_get_json env st = (Some j, st')"
  shows "\<exists>e \<in> insert env (net_op_env ` set ops). \<exists>e' \<in> insert env (net_op_env ` set ops).
    networking_build_json e' (networking_collect_sample e) = Some j"
proof -
  have "net_inv {} st0" using assms(3,4) by (simp add: net_inv_def net_ring_contents_def)
  then have "net_inv (net_op_env ` set ops) st \<and> net_start st"
    using net_run_inv [OF assms(1), of "{}"] assms(3,4) by (simp add: net_start_def)
  then show ?thesis using net_inv_get [OF _ _ assms(5), of "net_op_env ` set ops"] by (simp add: net_start_def page_of_def)
qed

definition sample_net_state :: net_state where
  "sample_net_state = \<lparr>nz_ring = \<lparr>nr_buf = None, nr_head = 0, nr_count = 0, nr_cached_json = None, nr_cached_json_len = 0, nr_cached_json_ts = 0\<rparr>,
     nz_once = False\<rparr>"

lemma sample_net_answer: "\<exists>j st'. networking_get_json sample_net_env sample_net_state = (Some j, st')"
proof -
  obtain j where j: "networking_build_json sample_net_env (networking_collect_sample sample_net_env) = Some j"
    using networking_page_complete_lemma [OF sample_net_env_sane] by (auto simp: sample_net_env_def)
  let ?st = "networking_once sample_net_env sample_net_state"
  have "nr_cached_json (nz_ring ?st) = None" "nr_count (nz_ring ?st) = 0"
    by (simp_all add: networking_once_def networking_ring_bootstrap_def networking_ring_init_def sample_net_state_def sample_net_env_def)
  then have "cached_copy sample_net_env (nz_ring ?st) = None" "networking_ring_last (nz_ring ?st) = None"
    by (auto simp: cached_copy_def networking_ring_last_def split: option.splits)
  then show ?thesis using j by (simp add: networking_get_json_def Let_def)
qed

theorem networking_answer_collected_witness:
  "\<exists>j st'. networking_get_json sample_net_env sample_net_state = (Some j, st') \<and>
     networking_build_json sample_net_env (networking_collect_sample sample_net_env) = Some j"
proof -
  obtain j st' where g: "networking_get_json sample_net_env sample_net_state = (Some j, st')" using sample_net_answer by blast
  then show ?thesis
    using networking_answer_collected [of sample_net_state "[]" sample_net_state sample_net_env j st'] by (simp add: sample_net_state_def)
qed

text \<open>
  The text between the quotes of an escaped field is read back by a JSON parser as the field itself,
  whatever characters it has.
\<close>

theorem net_escape_roundtrip: "json_unescape (butlast (tl (net_escape s))) = Some s"
  by (simp add: net_escape_def butlast_append json_unescape_net)

text \<open>A route with three IPv4 addresses is read as these addresses.\<close>

definition sockaddr_in :: "nat \<Rightarrow> nat \<Rightarrow> nat \<Rightarrow> nat \<Rightarrow> bytes" where
  "sockaddr_in a b c d = map char_of ([16, 2, 0, 0, a, b, c, d, 0, 0, 0, 0, 0, 0, 0, 0] :: nat list)"

definition dotted :: "nat \<Rightarrow> nat \<Rightarrow> nat \<Rightarrow> nat \<Rightarrow> string" where
  "dotted a b c d = show_nat a @ ''.'' @ show_nat b @ ''.'' @ show_nat c @ ''.'' @ show_nat d"

lemma sockaddr_in_simps:
  assumes "a < 256" "b < 256" "c < 256" "d < 256"
  shows "SA_SIZE (sockaddr_in a b c d @ more_bytes) = 16" "sa_family (sockaddr_in a b c d @ more_bytes) = AF_INET"
    "ntop4 (sockaddr_in a b c d @ more_bytes) = dotted a b c d" "drop 16 (sockaddr_in a b c d @ more_bytes) = more_bytes"
  using assms by (simp_all add: SA_SIZE_def sa_family_def ntop4_def byte_at_def sockaddr_in_def dotted_def AF_INET_def)

theorem route_entry_inet:
  assumes "list_all (\<lambda>n. n < 256) [a, b, c, d, p, q, r, s, t, u, v, w]"
  shows "let e = route_entry env \<lparr>rt_version_ok = True, rt_get_or_add = True, rt_dst = True, rt_gateway = True, rt_netmask = True,
      rt_index = 0, rt_flags = f, rt_area = sockaddr_in a b c d @ sockaddr_in p q r s @ sockaddr_in t u v w @ rest\<rparr> zero_route
    in re_destination e = dotted a b c d \<and> re_gateway e = dotted p q r s \<and> re_netmask e = dotted t u v w"
proof -
  have short: "length (dotted i j k l) < 64" if "i < 256" "j < 256" "k < 256" "l < 256" for i j k l
    using that length_show_nat [of i 2] length_show_nat [of j 2] length_show_nat [of k 2] length_show_nat [of l 2]
    by (simp add: dotted_def)
  have oct: "a < 256" "b < 256" "c < 256" "d < 256" "p < 256" "q < 256" "r < 256" "s < 256" "t < 256" "u < 256" "v < 256" "w < 256"
    using assms by auto
  let ?z = "sockaddr_in t u v w @ rest"
  let ?y = "sockaddr_in p q r s @ ?z"
  let ?x = "sockaddr_in a b c d @ ?y"
  note x = sockaddr_in_simps [OF oct(1-4), of ?y] and y = sockaddr_in_simps [OF oct(5-8), of ?z] and z = sockaddr_in_simps [OF oct(9-12), of rest]
  have d: "strlcpy 64 (route_destination env ?x) = dotted a b c d" "strlcpy 64 (route_gateway env ?y) = dotted p q r s"
    "strlcpy 64 (route_netmask ?z) = dotted t u v w"
    unfolding route_destination_def route_gateway_def route_netmask_def x y z using short oct by (simp_all add: strlcpy_short)
  show ?thesis
    unfolding route_entry_def Let_def rt_msg.simps if_True prod.case x(1,4) y(1,4) d by simp
qed

text \<open>
  The kernel pads an address structure to a multiple of eight bytes, which \<^verbatim>\<open>SA_SIZE\<close> does not: behind
  the 28 bytes of an IPv6 destination the gateway is looked for in the padding, and shown as a dash.
\<close>

theorem route_entry_inet6_gateway_lost:
  assumes "length body = 26"
  shows "re_gateway (route_entry env \<lparr>rt_version_ok = True, rt_get_or_add = True, rt_dst = True, rt_gateway = True, rt_netmask = False,
      rt_index = 0, rt_flags = f, rt_area = char_of (28 :: nat) # char_of AF_INET6 # body @ replicate 4 NUL @ gw\<rparr> zero_route) = ''-''"
proof -
  have "SA_SIZE (char_of (28 :: nat) # xs) = 28" for xs by (simp add: SA_SIZE_def byte_at_def)
  moreover have "drop 28 (char_of (28 :: nat) # char_of AF_INET6 # body @ replicate 4 NUL @ gw) = replicate 4 NUL @ gw"
    using assms by simp
  moreover have "sa_family (replicate 4 NUL @ gw) = 0" by (simp add: sa_family_def byte_at_def numeral_eq_Suc chr_code_def)
  ultimately show ?thesis
    by (simp add: route_entry_def Let_def route_gateway_def AF_INET_def AF_INET6_def AF_LINK_def strlcpy_def)
qed

text \<open>When the scheduler cannot be started, the registered task runs without a ring.\<close>

theorem networking_bootstrap_failure_leaves_task:
  assumes "nt_ring_malloc env" "0 \<le> nt_hb_register env" "nt_hb_start env \<noteq> 0" "\<not> nz_once st"
  shows "networking_heartbeat_cb env' (networking_once env st) = Inl Null_deref"
  using assms by (simp add: networking_once_def networking_ring_bootstrap_def networking_ring_init_def networking_heartbeat_cb_def
      networking_ring_push_def Let_def)

end
