(* ===== verification/Man_Index.thy ===== *)
theory Man_Index
  imports Query_String Subprocess "HOL-Library.List_Lexorder" "HOL-Library.Char_ord"
begin

text \<open>
  Finding manual pages: the checks on names and sections of \<^verbatim>\<open>src/modules/man/man_query.c\<close>, and
  the queries of \<^verbatim>\<open>src/modules/man/man_index.c\<close>, which run \<^verbatim>\<open>man -w\<close> and \<^verbatim>\<open>apropos\<close> or list a
  directory.

  What a request does to the outside is recorded in a list of \<open>man_act\<close>, which every operation
  extends: the commands it ran, with the time and what came back, the directories it made and the
  files it wrote. What it sees of the outside is in \<open>man_env\<close>; the outcome of a command may depend
  on how many actions came before it. The clock does not move within one request.
\<close>

section \<open>Model\<close>

definition MAN_MAX_JSON_SIZE :: nat where "MAN_MAX_JSON_SIZE = 256 * 1024"
definition MAN_MAX_OUTPUT_SIZE :: nat where "MAN_MAX_OUTPUT_SIZE = 10 * 1024 * 1024"
definition MAN_FS_CACHE_TTL_SEC :: int where "MAN_FS_CACHE_TTL_SEC = 300"

subsection \<open>Queries and tokens\<close>

definition man_path_matches_endpoint :: "string \<Rightarrow> string \<Rightarrow> bool" where
  "man_path_matches_endpoint path endpoint \<longleftrightarrow>
     prefix endpoint path \<and> (drop (length endpoint) path = [] \<or> hd (drop (length endpoint) path) = CHR ''?'')"

text \<open>
  The result is the return value and the C string in \<^verbatim>\<open>out\<close>, which the callers fill with zero bytes
  after its initial content \<open>old\<close>; a value that is too long leaves its beginning there.
\<close>

definition man_get_query_value :: "string \<Rightarrow> string \<Rightarrow> nat \<Rightarrow> string \<Rightarrow> bool \<times> string" where
  "man_get_query_value url key out_size old =
     (case query_value 512 url key out_size of None \<Rightarrow> (False, old) | Some (ok, out) \<Rightarrow> (ok, c_str out))"

definition man_is_valid_token :: "string \<Rightarrow> bool" where
  "man_is_valid_token s \<longleftrightarrow> s \<noteq> [] \<and>
     list_all (\<lambda>c. isalnum c \<or> c = CHR ''.'' \<or> c = CHR ''_'' \<or> c = CHR ''-'' \<or> c = CHR ''+'') s"

definition man_is_valid_section :: "string \<Rightarrow> bool" where
  "man_is_valid_section section \<longleftrightarrow> section \<noteq> [] \<and> length section \<le> 8 \<and>
     isdigit (hd section) \<and> list_all islower (tl section)"

text \<open>The loop over the suffixes of compressed files, left at the first that matches.\<close>

fun strip_suffixes :: "string list \<Rightarrow> string \<Rightarrow> string" where
  "strip_suffixes [] tmp = tmp"
| "strip_suffixes (sx # sxs) tmp =
     (if length sx < length tmp \<and> drop (length tmp - length sx) tmp = sx
      then take (length tmp - length sx) tmp else strip_suffixes sxs tmp)"

definition compressed_suffixes :: "string list" where
  "compressed_suffixes = [''.gz'', ''.bz2'', ''.xz'', ''.zst'']"

definition man_parse_section_from_filename :: "string \<Rightarrow> nat \<Rightarrow> string option" where
  "man_parse_section_from_filename filename section_out_len =
     (if section_out_len = 0 then None
      else
        (let tmp = strip_suffixes compressed_suffixes (strlcpy 256 filename) in
         case strrchr tmp (CHR ''.'') of
           None \<Rightarrow> None
         | Some dot \<Rightarrow>
             if man_is_valid_section (drop (dot + 1) tmp) then Some (strlcpy section_out_len (drop (dot + 1) tmp))
             else None))"

definition man_area_from_path :: "string \<Rightarrow> string" where
  "man_area_from_path filepath =
     (if prefix ''/usr/X11R6/'' filepath then ''x11''
      else if prefix ''/usr/local/'' filepath then ''packages''
      else ''system'')"

subsection \<open>Running commands\<close>

datatype man_act =
    Ran int string "string list" "bytes option"
  | Made_dir string
  | Wrote_file string

text \<open>An entry of a directory, and whether the copy of its name can be allocated.\<close>

record man_dirent =
  de_name :: string
  de_is_dir :: bool
  de_strdup :: bool

record man_env =
  ma_time :: int
  ma_static_dir :: string
  ma_threads :: int
  ma_spawn :: "nat \<Rightarrow> string list \<Rightarrow> spawn_env"
  ma_access :: "string \<Rightarrow> bool"
  ma_opendir :: "string \<Rightarrow> man_dirent list option"
  ma_path_strdup :: bool
  ma_line_strdup :: bool
  ma_text_strdup :: bool
  ma_json_malloc :: bool
  ma_copy_malloc :: bool
  ma_put_malloc :: bool
  ma_file_malloc :: bool
  ma_sem_init :: bool
  ma_sem_wait :: "nat \<Rightarrow> bool"
  ma_file_open :: bool
  ma_file_read :: bool
  ma_mkdir :: "string \<Rightarrow> bool"
  ma_creat :: bool
  ma_writes :: "nat list"

definition man_exec :: "man_env \<Rightarrow> string \<Rightarrow> string list \<Rightarrow> nat \<Rightarrow> int \<Rightarrow> man_act list \<Rightarrow> fault + bytes option \<times> man_act list" where
  "man_exec env path argv max_size timeout acts =
     (case safe_popen_read_argv (ma_spawn env (length acts) argv) max_size timeout of
        None \<Rightarrow> Inl Blocked
      | Some r \<Rightarrow> Inr (sr_output r, acts @ [Ran (ma_time env) path argv (sr_output r)]))"

subsection \<open>Resolving a name\<close>

definition blank_space :: "string \<Rightarrow> string" where
  "blank_space s = map (\<lambda>c. if c = CHR 0x0A \<or> c = CHR 0x0D \<or> c = CHR 0x09 then CHR '' '' else c) s"

fun select_loop :: "(string \<Rightarrow> bool) \<Rightarrow> string option \<Rightarrow> string list \<Rightarrow> string option" where
  "select_loop readable selected [] = selected"
| "select_loop readable selected (tok # toks) =
     (if hd tok \<noteq> CHR ''/'' then select_loop readable selected toks
      else if readable tok then Some tok
      else select_loop readable (if selected = None then Some tok else selected) toks)"

definition select_resolved_man_path :: "man_env \<Rightarrow> bytes option \<Rightarrow> string option" where
  "select_resolved_man_path env raw_output =
     (case raw_output of
        None \<Rightarrow> None
      | Some raw \<Rightarrow>
          (case select_loop (ma_access env) None (strtok_all (CHR '' '') (blank_space (c_str raw))) of
             None \<Rightarrow> None
           | Some selected \<Rightarrow> if ma_path_strdup env then Some selected else None))"

definition man_path_list :: string where
  "man_path_list = ''/usr/share/man:/usr/local/man:/usr/X11R6/man''"

definition resolve_argv :: "string \<Rightarrow> string \<Rightarrow> string list" where
  "resolve_argv section name = [''man'', ''-M'', man_path_list, ''-w'', section, name]"

definition man_resolve_path :: "man_env \<Rightarrow> string \<Rightarrow> string \<Rightarrow> man_act list \<Rightarrow> fault + string option \<times> man_act list" where
  "man_resolve_path env name section acts =
     (if \<not> man_is_valid_token name \<or> \<not> man_is_valid_section section then Inr (None, acts)
      else bindR (man_exec env ''/usr/bin/man'' (resolve_argv section name) 2048 5 acts)
             (\<lambda>(raw, acts'). Inr (select_resolved_man_path env raw, acts')))"

subsection \<open>The catalogue and the pages of a section\<close>

text \<open>JSON literals are written with \<^verbatim>\<open>`\<close> for the double quote.\<close>

definition json_text :: "string \<Rightarrow> string" where
  "json_text s = map (\<lambda>c. if c = CHR ''`'' then CHR 0x22 else c) s"

definition man_dup :: "man_env \<Rightarrow> string \<Rightarrow> string option" where
  "man_dup env s = (if ma_text_strdup env then Some s else None)"

definition man_sections_text :: string where
  "man_sections_text = json_text (concat
     [''{`system`:{`name`:`OpenBSD Base System`,`path`:`/usr/share/man`,`sections`:['',
      ''{`id`:`1`,`name`:`General Commands`},'', ''{`id`:`2`,`name`:`System Calls`},'',
      ''{`id`:`3`,`name`:`Library Functions`},'', ''{`id`:`3p`,`name`:`Perl Library`},'',
      ''{`id`:`4`,`name`:`Device Drivers`},'', ''{`id`:`5`,`name`:`File Formats`},'',
      ''{`id`:`6`,`name`:`Games`},'', ''{`id`:`7`,`name`:`Miscellaneous`},'',
      ''{`id`:`8`,`name`:`System Administration`},'', ''{`id`:`9`,`name`:`Kernel Internals`}]},'',
      ''`x11`:{`name`:`X11 Window System`,`path`:`/usr/X11R6/man`,`sections`:['',
      ''{`id`:`1`,`name`:`X11 Commands`},'', ''{`id`:`3`,`name`:`X11 Library`},'',
      ''{`id`:`4`,`name`:`X11 Drivers`},'', ''{`id`:`5`,`name`:`X11 Formats`},'',
      ''{`id`:`7`,`name`:`X11 Misc`}]},'',
      ''`packages`:{`name`:`Local Packages`,`path`:`/usr/local/man`,`sections`:['',
      ''{`id`:`1`,`name`:`Pkg General`},'', ''{`id`:`2`,`name`:`Pkg Calls`},'',
      ''{`id`:`3`,`name`:`Pkg Lib`},'', ''{`id`:`3p`,`name`:`Pkg Perl`},'',
      ''{`id`:`4`,`name`:`Pkg Drivers`},'', ''{`id`:`5`,`name`:`Pkg Formats`},'',
      ''{`id`:`6`,`name`:`Pkg Games`},'', ''{`id`:`7`,`name`:`Pkg Misc`},'',
      ''{`id`:`8`,`name`:`Pkg Admin`},'', ''{`id`:`9`,`name`:`Pkg Kernel`}]}}''])"

definition man_get_sections_json :: "man_env \<Rightarrow> string option" where
  "man_get_sections_json env = man_dup env man_sections_text"

fun strcmp :: "string \<Rightarrow> string \<Rightarrow> int" where
  "strcmp [] [] = 0"
| "strcmp [] (d # ds) = - int (chr_code d)"
| "strcmp (c # cs) [] = int (chr_code c)"
| "strcmp (c # cs) (d # ds) = (if c = d then strcmp cs ds else int (chr_code c) - int (chr_code d))"

definition compare_string_ptrs :: "string \<Rightarrow> string \<Rightarrow> int" where
  "compare_string_ptrs left right = strcmp left right"

definition man_base_dir :: "string \<Rightarrow> string" where
  "man_base_dir area =
     (if area = ''packages'' then ''/usr/local/man''
      else if area = ''x11'' then ''/usr/X11R6/man''
      else ''/usr/share/man'')"

text \<open>The page name of a directory entry: everything before the last dot of its first 127 bytes.\<close>

definition page_name :: "string \<Rightarrow> string" where
  "page_name d_name =
     (let name = strlcpy 128 d_name
      in case strrchr name (CHR ''.'') of None \<Rightarrow> name | Some last_dot \<Rightarrow> take last_dot name)"

definition entry_page :: "string \<Rightarrow> man_dirent \<Rightarrow> string option" where
  "entry_page section de =
     (if de_name de = [] \<or> hd (de_name de) = CHR ''.'' \<or> de_is_dir de then None
      else if man_parse_section_from_filename (de_name de) 16 = Some section then Some (page_name (de_name de))
      else None)"

fun collect_pages :: "string \<Rightarrow> string list \<Rightarrow> man_dirent list \<Rightarrow> string list" where
  "collect_pages section pages [] = pages"
| "collect_pages section pages (de # des) =
     (case entry_page section de of
        None \<Rightarrow> collect_pages section pages des
      | Some name \<Rightarrow>
          if length pages < 8192 \<and> de_strdup de then collect_pages section (pages @ [name]) des
          else collect_pages section pages des)"

definition JSON_CLOSE_RESERVE :: nat where "JSON_CLOSE_RESERVE = 4"

fun print_pages :: "bool \<Rightarrow> out_buf \<Rightarrow> string list \<Rightarrow> fault + out_buf" where
  "print_pages first w [] = Inr w"
| "print_pages first w (name # names) =
     (let entry_len = (if first then 0 else 1) + 1 + length name + 1 in
      if MAN_MAX_JSON_SIZE \<le> snd w + entry_len + JSON_CLOSE_RESERVE then print_pages first w names
      else bindR (buf_put (MAN_MAX_JSON_SIZE - JSON_CLOSE_RESERVE)
                    ((if first then [] else '','') @ [CHR 0x22] @ name @ [CHR 0x22]) w)
             (\<lambda>w'. print_pages False w' names))"

text \<open>
  \<^verbatim>\<open>qsort\<close> with \<open>compare_string_ptrs\<close>, under which only equal strings compare equal, leaves the names
  in their one sorted order.
\<close>

definition man_get_section_pages_json :: "man_env \<Rightarrow> string \<Rightarrow> string \<Rightarrow> fault + string option" where
  "man_get_section_pages_json env area section =
     (case ma_opendir env (snprintf_out 256 (man_base_dir area @ ''/man'' @ section)) of
        None \<Rightarrow> Inr (man_dup env (json_text ''{`pages`:[]}''))
      | Some entries \<Rightarrow>
          if \<not> ma_json_malloc env then Inr None
          else
            (let pages = sort (collect_pages section [] entries) in
             bindR (buf_put MAN_MAX_JSON_SIZE (json_text ''{`pages`:['') ([], 0)) (\<lambda>w0.
             bindR (print_pages True w0 pages) (\<lambda>w1.
             bindR (buf_put MAN_MAX_JSON_SIZE '']}'' w1) (\<lambda>w2. Inr (Some (fst w2)))))))"

definition metadata_text :: "string \<Rightarrow> string \<Rightarrow> string \<Rightarrow> string \<Rightarrow> string" where
  "metadata_text name section area path =
     json_text ''{`name`:`'' @ name @ json_text ''`,`section`:`'' @ section @ json_text ''`,`area`:`'' @ area @
       json_text ''`,`path`:`'' @ path @ json_text ''`}''"

definition man_get_page_metadata_json ::
  "man_env \<Rightarrow> string \<Rightarrow> string \<Rightarrow> string \<Rightarrow> man_act list \<Rightarrow> fault + string option \<times> man_act list" where
  "man_get_page_metadata_json env area section name acts =
     bindR (man_resolve_path env name section acts) (\<lambda>(filepath, acts').
       Inr (case filepath of
              None \<Rightarrow> man_dup env (json_text ''{`error`:`Not found`}'')
            | Some path \<Rightarrow>
                if \<not> ma_json_malloc env then man_dup env (json_text ''{`error`:`OOM`}'')
                else Some (snprintf_out 1024 (metadata_text name section area path)),
            acts'))"

subsection \<open>Searching\<close>

definition apropos_argv :: "string \<Rightarrow> string list" where
  "apropos_argv query = [''apropos'', ''-M'', man_path_list, query]"

definition man_api_search :: "man_env \<Rightarrow> string \<Rightarrow> man_act list \<Rightarrow> fault + string option \<times> man_act list" where
  "man_api_search env query acts =
     (if \<not> man_is_valid_token query then Inr (man_dup env [], acts)
      else bindR (man_exec env ''/usr/bin/apropos'' (apropos_argv query) MAN_MAX_OUTPUT_SIZE 5 acts)
             (\<lambda>(out, acts'). Inr (case out of None \<Rightarrow> man_dup env [] | Some b \<Rightarrow> Some (c_str b), acts')))"

definition path_base :: "string \<Rightarrow> string" where
  "path_base filepath = (case strrchr filepath (CHR ''/'') of None \<Rightarrow> filepath | Some i \<Rightarrow> drop (i + 1) filepath)"

definition fallback_line :: "string \<Rightarrow> string \<Rightarrow> string" where
  "fallback_line query filepath =
     snprintf_out 256 (query @ '' ('' @
       (case man_parse_section_from_filename (path_base filepath) 16 of None \<Rightarrow> ''?'' | Some sec \<Rightarrow> sec) @
       '') - manual page'')"

definition search_fallback :: "man_env \<Rightarrow> string \<Rightarrow> man_act list \<Rightarrow> fault + string option \<times> man_act list" where
  "search_fallback env query acts =
     bindR (man_resolve_path env query ''1'' acts) (\<lambda>(fp1, acts1).
     bindR (case fp1 of Some p \<Rightarrow> Inr (fp1, acts1) | None \<Rightarrow> man_resolve_path env query ''8'' acts1) (\<lambda>(fp, acts2).
       Inr (case fp of
              None \<Rightarrow> Some []
            | Some p \<Rightarrow>
                if p = [] then Some []
                else if ma_line_strdup env then Some (fallback_line query p) else man_dup env [],
            acts2)))"

definition man_api_search_raw :: "man_env \<Rightarrow> string \<Rightarrow> man_act list \<Rightarrow> fault + string option \<times> man_act list" where
  "man_api_search_raw env query acts =
     (if length query < 2 \<or> \<not> man_is_valid_token query then Inr (man_dup env [], acts)
      else bindR (man_exec env ''/usr/bin/apropos'' (apropos_argv query) (1024 * 1024) 5 acts)
             (\<lambda>(out, acts').
                case (case out of None \<Rightarrow> man_dup env [] | Some b \<Rightarrow> Some (c_str b)) of
                  None \<Rightarrow> Inl Null_deref
                | Some text \<Rightarrow> if text = [] then search_fallback env query acts' else Inr (Some text, acts')))"

section \<open>Names and sections\<close>

lemma valid_section_chars:
  assumes "man_is_valid_section section"
  shows "CHR ''.'' \<notin> set section" "CHR ''/'' \<notin> set section" "section \<noteq> []" "isdigit (hd section)" "length section \<le> 8"
proof -
  obtain c cs where s: "section = c # cs" "isdigit c" "list_all islower cs" "length section \<le> 8"
    using assms by (cases "section") (auto simp: man_is_valid_section_def)
  then show "CHR ''.'' \<notin> set section" "CHR ''/'' \<notin> set section" "section \<noteq> []" "isdigit (hd section)" "length section \<le> 8"
    by (auto simp: list_all_iff isdigit_def islower_def chr_code_def)
qed

lemma valid_token_chars: "man_is_valid_token s \<Longrightarrow> CHR ''/'' \<notin> set s"
  by (auto simp: man_is_valid_token_def list_all_iff isalnum_def isdigit_def isupper_def islower_def chr_code_def)

text \<open>A suffix that is a dot and a word without dots matches exactly the last part of a name.\<close>

lemma suffix_match:
  assumes "CHR ''.'' \<notin> set e" "CHR ''.'' \<notin> set x"
  shows "length (CHR ''.'' # x) < length (base @ CHR ''.'' # e) \<and>
      drop (length (base @ CHR ''.'' # e) - length (CHR ''.'' # x)) (base @ CHR ''.'' # e) = CHR ''.'' # x
    \<longleftrightarrow> e = x \<and> base \<noteq> []"
proof
  let ?t = "base @ CHR ''.'' # e"
  assume m: "length (CHR ''.'' # x) < length ?t \<and> drop (length ?t - length (CHR ''.'' # x)) ?t = CHR ''.'' # x"
  then have "take (length ?t - length (CHR ''.'' # x)) ?t @ CHR ''.'' # x = ?t" by (metis append_take_drop_id)
  from last_char_inj [OF this assms(2,1)] show "e = x \<and> base \<noteq> []" using m by auto
qed auto

lemma strip_suffixes_dot:
  assumes "CHR ''.'' \<notin> set e" "CHR ''.'' \<notin> set x"
  shows "strip_suffixes ((CHR ''.'' # x) # sxs) (base @ CHR ''.'' # e) =
    (if e = x \<and> base \<noteq> [] then base else strip_suffixes sxs (base @ CHR ''.'' # e))"
proof (cases "e = x \<and> base \<noteq> []")
  case False
  then show ?thesis unfolding strip_suffixes.simps using suffix_match [OF assms, of base] by (simp only: if_False)
qed simp

lemma strip_compressed:
  assumes "man_is_valid_section sec" "ext = [] \<or> ext \<in> set compressed_suffixes"
  shows "strip_suffixes compressed_suffixes (name @ CHR ''.'' # sec @ ext) = name @ CHR ''.'' # sec"
proof -
  have "sec \<noteq> ''gz''" "sec \<noteq> ''bz2''" "sec \<noteq> ''xz''" "sec \<noteq> ''zst''"
    using valid_section_chars(4) [OF assms(1)] by (auto simp: isdigit_def chr_code_def)
  note sec = this valid_section_chars(1) [OF assms(1)]
  let ?base = "name @ CHR ''.'' # sec"
  consider "ext = []" | x where "ext = CHR ''.'' # x" "x \<in> {''gz'', ''bz2'', ''xz'', ''zst''}"
    using assms(2) by (auto simp: compressed_suffixes_def)
  then show ?thesis
  proof cases
    case 1
    then show ?thesis using sec by (simp add: compressed_suffixes_def strip_suffixes_dot del: strip_suffixes.simps(2))
  next
    case 2
    then have "strip_suffixes compressed_suffixes (?base @ CHR ''.'' # x) = ?base"
      by (auto simp: compressed_suffixes_def strip_suffixes_dot simp del: strip_suffixes.simps(2) append_assoc)
    then show ?thesis using 2 by simp
  qed
qed

section \<open>The list of pages\<close>

fun quoted_list :: "bool \<Rightarrow> string list \<Rightarrow> string" where
  "quoted_list first [] = []"
| "quoted_list first (k # ks) = (if first then [] else '','') @ [CHR 0x22] @ k @ [CHR 0x22] @ quoted_list False ks"

lemma print_pages_ok:
  assumes "length b + JSON_CLOSE_RESERVE < MAN_MAX_JSON_SIZE"
  shows "\<exists>ks. subseq ks names \<and> print_pages first (b, length b) names = Inr (b @ quoted_list first ks, length (b @ quoted_list first ks)) \<and>
    length (b @ quoted_list first ks) + JSON_CLOSE_RESERVE < MAN_MAX_JSON_SIZE \<and>
    (length (b @ quoted_list first names) + JSON_CLOSE_RESERVE < MAN_MAX_JSON_SIZE \<longrightarrow> ks = names)"
  using assms
proof (induction names arbitrary: first b)
  case Nil
  then show ?case by simp
next
  case (Cons name names)
  let ?entry = "(if first then [] else '','') @ [CHR 0x22] @ name @ [CHR 0x22]"
  show ?case
  proof (cases "MAN_MAX_JSON_SIZE \<le> length b + length ?entry + JSON_CLOSE_RESERVE")
    case True
    obtain ks where ks: "subseq ks names"
      "print_pages first (b, length b) names = Inr (b @ quoted_list first ks, length (b @ quoted_list first ks))"
      "length (b @ quoted_list first ks) + JSON_CLOSE_RESERVE < MAN_MAX_JSON_SIZE"
      using Cons by blast
    moreover have "print_pages first (b, length b) (name # names) = print_pages first (b, length b) names"
      using True by (cases first) (simp_all add: Let_def)
    moreover have "\<not> length (b @ quoted_list first (name # names)) + JSON_CLOSE_RESERVE < MAN_MAX_JSON_SIZE"
      using True by (auto split: if_splits)
    ultimately show ?thesis by (metis list_emb_Cons)
  next
    case False
    let ?b = "b @ ?entry"
    have put: "buf_put (MAN_MAX_JSON_SIZE - JSON_CLOSE_RESERVE) ?entry (b, length b) = Inr (?b, length ?b)"
      using False by (subst buf_put_fits) auto
    obtain ks where ks: "subseq ks names"
      "print_pages False (?b, length ?b) names = Inr (?b @ quoted_list False ks, length (?b @ quoted_list False ks))"
      "length (?b @ quoted_list False ks) + JSON_CLOSE_RESERVE < MAN_MAX_JSON_SIZE"
      "length (?b @ quoted_list False names) + JSON_CLOSE_RESERVE < MAN_MAX_JSON_SIZE \<longrightarrow> ks = names"
      using Cons.IH [of ?b False] False by force
    have "print_pages first (b, length b) (name # names) =
        bindR (buf_put (MAN_MAX_JSON_SIZE - JSON_CLOSE_RESERVE) ?entry (b, length b)) (\<lambda>w'. print_pages False w' names)"
      using False by (cases first) (simp_all add: Let_def)
    then show ?thesis using ks put by (intro exI [of _ "name # ks"]) simp
  qed
qed

lemma collect_pages_eq:
  "collect_pages section pages entries =
    pages @ take (8192 - length pages) (map (the \<circ> entry_page section) (filter (\<lambda>de. entry_page section de \<noteq> None \<and> de_strdup de) entries))"
  by (induction entries arbitrary: pages) (auto simp: take_Cons' split: option.splits)

lemma entry_page_valid: "entry_page section de = Some name \<Longrightarrow> man_is_valid_section section"
  by (fastforce simp: entry_page_def man_parse_section_from_filename_def Let_def strlcpy_def
      man_is_valid_section_def split: if_splits option.splits)

lemma strcmp_le: "a \<le> b \<Longrightarrow> strcmp a b \<le> 0"
  by (induction a b rule: strcmp.induct) (auto simp: less_char_def chr_code_def)

lemma subseq_sorted_wrt: "subseq xs ys \<Longrightarrow> sorted_wrt R ys \<Longrightarrow> set xs \<subseteq> set ys \<and> sorted_wrt R xs"
  by (induction rule: list_emb.induct) auto

section \<open>The commands that are run\<close>

text \<open>\<open>acts_extend P acts acts'\<close>: the actions between the two lists all satisfy \<open>P\<close>.\<close>

definition acts_extend :: "(man_act \<Rightarrow> bool) \<Rightarrow> man_act list \<Rightarrow> man_act list \<Rightarrow> bool" where
  "acts_extend P acts acts' \<longleftrightarrow> (\<exists>cs. acts' = acts @ cs \<and> list_all P cs)"

lemma acts_extend_refl [simp, intro]: "acts_extend P acts acts"
  by (simp add: acts_extend_def)

lemma acts_extend_snoc [simp]: "acts_extend P acts (acts @ [a]) \<longleftrightarrow> P a"
  by (simp add: acts_extend_def)

lemma acts_extend_trans [trans]: "acts_extend P a b \<Longrightarrow> acts_extend P b c \<Longrightarrow> acts_extend P a c"
  by (auto simp: acts_extend_def)

lemma acts_extend_mono: "acts_extend P a b \<Longrightarrow> (\<And>x. P x \<Longrightarrow> Q x) \<Longrightarrow> acts_extend Q a b"
  by (auto simp: acts_extend_def list_all_iff)

lemma acts_extend_set: "acts_extend P a b \<Longrightarrow> set a \<subseteq> set b"
  by (auto simp: acts_extend_def)

text \<open>What the operations of this theory run: \<^verbatim>\<open>man -w\<close> and \<^verbatim>\<open>apropos\<close> on checked words.\<close>

fun query_act :: "man_act \<Rightarrow> bool" where
  "query_act (Ran t path argv out) \<longleftrightarrow>
     path = ''/usr/bin/man'' \<and>
       (\<exists>section name. argv = resolve_argv section name \<and> man_is_valid_section section \<and> man_is_valid_token name) \<or>
     path = ''/usr/bin/apropos'' \<and> (\<exists>query. argv = apropos_argv query \<and> man_is_valid_token query)"
| "query_act a \<longleftrightarrow> False"

lemma man_exec_Inr:
  "man_exec env path argv m t acts = Inr (out, acts') \<Longrightarrow> acts' = acts @ [Ran (ma_time env) path argv out]"
  by (auto simp: man_exec_def split: option.splits)

lemma man_exec_bounded:
  assumes "man_exec env path argv m t acts = Inr (Some out, acts')"
  shows "length out \<le> m"
proof -
  obtain r where "safe_popen_read_argv (ma_spawn env (length acts) argv) m t = Some r" "sr_output r = Some out"
    using assms by (auto simp: man_exec_def split: option.splits)
  then show ?thesis by (auto elim!: safe_popen_result split: if_splits)
qed

lemma man_resolve_path_Inr:
  assumes "man_resolve_path env name section acts = Inr (r, acts')"
  shows "r = None \<and> acts' = acts \<or>
    man_is_valid_token name \<and> man_is_valid_section section \<and>
    (\<exists>raw. acts' = acts @ [Ran (ma_time env) ''/usr/bin/man'' (resolve_argv section name) raw] \<and>
       r = select_resolved_man_path env raw)"
  using assms by (auto simp: man_resolve_path_def bindR_Inr_iff dest: man_exec_Inr split: if_splits)

lemma man_resolve_path_acts:
  "man_resolve_path env name section acts = Inr (r, acts') \<Longrightarrow> acts_extend query_act acts acts'"
  by (drule man_resolve_path_Inr) (elim disjE conjE exE, simp_all, blast)

lemma select_loop_token:
  "select_loop readable selected toks = Some p \<Longrightarrow> \<forall>q. selected = Some q \<longrightarrow> q \<in> S \<and> hd q = CHR ''/'' \<Longrightarrow>
    set toks \<subseteq> S \<Longrightarrow> p \<in> S \<and> hd p = CHR ''/''"
  by (induction readable selected toks rule: select_loop.induct) (auto split: if_splits)

lemma select_resolved_token:
  assumes "select_resolved_man_path env raw = Some p"
  shows "\<exists>b. raw = Some b \<and> p \<in> set (strtok_all (CHR '' '') (blank_space (c_str b))) \<and> hd p = CHR ''/'' \<and> p \<noteq> []"
proof -
  obtain b where b: "raw = Some b"
    "select_loop (ma_access env) None (strtok_all (CHR '' '') (blank_space (c_str b))) = Some p"
    using assms by (auto simp: select_resolved_man_path_def split: option.splits if_splits)
  then have "p \<in> set (strtok_all (CHR '' '') (blank_space (c_str b))) \<and> hd p = CHR ''/''"
    using select_loop_token [OF b(2), of "set (strtok_all (CHR '' '') (blank_space (c_str b)))"] by simp
  then show ?thesis using b strtok_all_token by blast
qed

lemma search_fallback_acts:
  "search_fallback env query acts = Inr (r, acts') \<Longrightarrow> acts_extend query_act acts acts'"
  by (auto simp: search_fallback_def bindR_Inr_iff split: option.splits
      dest!: man_resolve_path_acts intro: acts_extend_trans)

lemma man_api_search_raw_acts:
  assumes "man_api_search_raw env query acts = Inr (r, acts')"
  shows "acts_extend query_act acts acts'"
proof (cases "length query < 2 \<or> \<not> man_is_valid_token query")
  case False
  then obtain out acts1 where e: "man_exec env ''/usr/bin/apropos'' (apropos_argv query) (1024 * 1024) 5 acts = Inr (out, acts1)"
    using assms by (auto simp: man_api_search_raw_def bindR_Inr_iff)
  have step: "acts_extend query_act acts acts1" using man_exec_Inr [OF e] False by auto
  then show ?thesis using assms e False
    by (auto simp: man_api_search_raw_def dest!: search_fallback_acts intro: acts_extend_trans split: option.splits if_splits)
qed (use assms in \<open>auto simp: man_api_search_raw_def\<close>)

section \<open>Properties\<close>

text \<open>
  The section of a manual file is read off its name: whatever the page is called, and whether or
  not the file is compressed, the part between the last dots is found and returned.
\<close>

theorem man_parse_section_roundtrip:
  assumes "man_is_valid_section sec" "ext = [] \<or> ext \<in> set compressed_suffixes"
    "length (name @ ''.'' @ sec @ ext) < 256" "8 < n"
  shows "man_parse_section_from_filename (name @ ''.'' @ sec @ ext) n = Some sec"
proof -
  have "strip_suffixes compressed_suffixes (strlcpy 256 (name @ ''.'' @ sec @ ext)) = name @ CHR ''.'' # sec"
    using strip_compressed [OF assms(1,2), of name] assms(3) by (simp add: strlcpy_short)
  then show ?thesis
    using assms(1,4) valid_section_chars [OF assms(1)]
    by (simp add: man_parse_section_from_filename_def Let_def strrchr_last strlcpy_short)
qed

theorem man_parse_section_roundtrip_witness:
  "man_parse_section_from_filename (''cupsd.conf'' @ ''.'' @ ''3p'' @ ''.gz'') 16 = Some ''3p''"
  by (rule man_parse_section_roundtrip)
    (simp_all add: man_is_valid_section_def isdigit_def islower_def chr_code_def compressed_suffixes_def)


definition man_sample_entries :: "man_dirent list" where
  "man_sample_entries =
     [\<lparr>de_name = ''ls.1'', de_is_dir = False, de_strdup = True\<rparr>, \<lparr>de_name = ''X11'', de_is_dir = True, de_strdup = True\<rparr>,
      \<lparr>de_name = ''cat.1'', de_is_dir = False, de_strdup = True\<rparr>, \<lparr>de_name = ''open.2'', de_is_dir = False, de_strdup = True\<rparr>]"

definition man_sample_env :: man_env where
  "man_sample_env = \<lparr>ma_time = 1000, ma_static_dir = ''static'', ma_threads = 4,
     ma_spawn = (\<lambda>n argv. \<lparr>sp_pipe_ok = True, sp_fork_ok = True, sp_malloc_ok = True, sp_start = 1000,
        sp_rounds = [\<lparr>rd_now = 1000, rd_poll = Pipe_events True True,
          rd_read = Pipe_bytes (if hd argv = ''man'' then ''/usr/share/man/man1/ls.1'' else ''LS(1)'')\<rparr>]\<rparr>),
     ma_access = (\<lambda>p. True), ma_opendir = (\<lambda>p. if p = ''/usr/share/man/man1'' then Some man_sample_entries else None),
     ma_path_strdup = True, ma_line_strdup = True, ma_text_strdup = True, ma_json_malloc = True, ma_copy_malloc = True,
     ma_put_malloc = True, ma_file_malloc = True, ma_sem_init = True, ma_sem_wait = (\<lambda>n. True), ma_file_open = True,
     ma_file_read = True, ma_mkdir = (\<lambda>p. True), ma_creat = True, ma_writes = [1000]\<rparr>"


text \<open>
  The name of a page loses only its last part, so that a compressed page is listed under a name that
  still has its section: \<^verbatim>\<open>ls.1.gz\<close> is listed as \<^verbatim>\<open>ls.1\<close>.
\<close>

lemma man_compressed_page_misnamed:
  "entry_page ''1'' \<lparr>de_name = ''ls.1.gz'', de_is_dir = False, de_strdup = True\<rparr> = Some ''ls.1''"
  by code_simp

end
