(* ===== verification/Man_Render.thy ===== *)
theory Man_Render
  imports Http_Response Man_Index Interfaces
begin

text \<open>
  Rendering manual pages (\<^verbatim>\<open>src/modules/man/man_render.c\<close>): the cache of rendered pages in memory,
  the one on disk, the runs of \<^verbatim>\<open>mandoc\<close> under a semaphore, and the two handlers of the module.

  The state holds the slots of the memory cache, the files the module has written with their time of
  modification, the semaphore, and the list of actions. A request is one step: its parts under a
  shard's lock are single steps in the code, and what two workers do to the same file on disk at
  the same time is not modelled. Debug logging is left out.
\<close>

section \<open>Model\<close>

unbundle bit_operations_syntax

definition MAN_RENDER_CACHE_SHARDS :: nat where "MAN_RENDER_CACHE_SHARDS = 8"
definition MAN_RENDER_CACHE_SLOTS :: nat where "MAN_RENDER_CACHE_SLOTS = 64"
definition MAN_RENDER_CACHE_TTL :: int where "MAN_RENDER_CACHE_TTL = 600"

record man_render_slot_t =
  ms_key :: string
  ms_body :: "bytes option"
  ms_inserted :: int

record man_state =
  mn_cache :: "man_render_slot_t list list"
  mn_cache_init :: bool
  mn_sem_once :: bool
  mn_sem_init :: bool
  mn_sem :: int
  mn_files :: "string \<rightharpoonup> bytes \<times> int"
  mn_acts :: "man_act list"

definition mandoc_semaphore_init :: "man_env \<Rightarrow> man_state \<Rightarrow> man_state" where
  "mandoc_semaphore_init env st =
     (let max_concurrent = ma_threads env * 2;
          max_concurrent = (if 16 < max_concurrent then 16 else max_concurrent)
      in if ma_sem_init env then st\<lparr>mn_sem := max_concurrent, mn_sem_init := True\<rparr> else st)"

definition man_sem_once :: "man_env \<Rightarrow> man_state \<Rightarrow> man_state" where
  "man_sem_once env st = (if mn_sem_once st then st else mandoc_semaphore_init env (st\<lparr>mn_sem_once := True\<rparr>))"

text \<open>\<^verbatim>\<open>sem_wait\<close> fails on a semaphore that was never initialised, or when a signal arrives.\<close>

definition man_sem_wait :: "man_env \<Rightarrow> man_state \<Rightarrow> fault + bool \<times> man_state" where
  "man_sem_wait env st =
     (if \<not> mn_sem_init st \<or> \<not> ma_sem_wait env (length (mn_acts st)) then Inr (False, st)
      else if mn_sem st \<le> 0 then Inl Blocked
      else Inr (True, st\<lparr>mn_sem := mn_sem st - 1\<rparr>))"

definition man_sem_post :: "man_state \<Rightarrow> man_state" where
  "man_sem_post st = st\<lparr>mn_sem := mn_sem st + 1\<rparr>"

subsection \<open>The cache in memory\<close>

definition man_render_cache_key :: "string \<Rightarrow> string \<Rightarrow> string \<Rightarrow> string \<Rightarrow> string" where
  "man_render_cache_key area section page format =
     snprintf_out 192 (area @ ''/'' @ section @ ''/'' @ page @ ''.'' @ format)"

definition man_render_cache_shard :: "string \<Rightarrow> nat" where
  "man_render_cache_shard key =
     unat (foldl (\<lambda>h c. (h XOR word_of_nat (chr_code c)) * 1099511628211) (14695981039346656037 :: 64 word) key)
       mod MAN_RENDER_CACHE_SHARDS"

fun slot_find :: "string \<Rightarrow> man_render_slot_t list \<Rightarrow> nat \<Rightarrow> nat option" where
  "slot_find key [] i = None"
| "slot_find key (s # ss) i = (if ms_body s = None \<or> ms_key s \<noteq> key then slot_find key ss (i + 1) else Some i)"

definition man_render_cache_get ::
  "man_render_slot_t list list \<Rightarrow> int \<Rightarrow> bool \<Rightarrow> string \<Rightarrow> bytes option \<times> man_render_slot_t list list" where
  "man_render_cache_get cache now malloc_ok key =
     (let si = man_render_cache_shard key; shard = cache ! si in
      case slot_find key shard 0 of
        None \<Rightarrow> (None, cache)
      | Some i \<Rightarrow>
          if MAN_RENDER_CACHE_TTL < now - ms_inserted (shard ! i)
          then (None, cache[si := shard[i := (shard ! i)\<lparr>ms_body := None\<rparr>]])
          else (if malloc_ok then ms_body (shard ! i) else None, cache))"

text \<open>
  The scan for a place: the slot of the key, else the first empty slot before it, else the slot
  that was filled first. A slot filled after \<open>oldest\<close> is never taken.
\<close>

datatype put_place = Same_key nat | Place "nat option"

fun slot_scan :: "string \<Rightarrow> man_render_slot_t list \<Rightarrow> nat \<Rightarrow> int \<Rightarrow> nat option \<Rightarrow> put_place" where
  "slot_scan key [] i oldest target = Place target"
| "slot_scan key (s # ss) i oldest target =
     (if ms_body s \<noteq> None \<and> ms_key s = key then Same_key i
      else if ms_body s = None then Place (Some i)
      else if ms_inserted s < oldest then slot_scan key ss (i + 1) (ms_inserted s) (Some i)
      else slot_scan key ss (i + 1) oldest target)"

definition man_render_cache_put ::
  "man_render_slot_t list list \<Rightarrow> int \<Rightarrow> bool \<Rightarrow> string \<Rightarrow> bytes \<Rightarrow> man_render_slot_t list list" where
  "man_render_cache_put cache now malloc_ok key body =
     (if body = [] then cache
      else
        (let si = man_render_cache_shard key; shard = cache ! si in
         case slot_scan key shard 0 (now + 1) None of
           Same_key i \<Rightarrow>
             cache[si := shard[i := if malloc_ok then (shard ! i)\<lparr>ms_body := Some body, ms_inserted := now\<rparr>
                                    else (shard ! i)\<lparr>ms_body := None\<rparr>]]
         | Place None \<Rightarrow> cache
         | Place (Some i) \<Rightarrow>
             cache[si := shard[i := if malloc_ok then \<lparr>ms_key = strlcpy 192 key, ms_body = Some body, ms_inserted = now\<rparr>
                                    else (shard ! i)\<lparr>ms_body := None\<rparr>]]))"

subsection \<open>Overstruck text\<close>

text \<open>The loop works in place; \<open>text\<close> is the whole buffer, with one byte more than \<open>len\<close>.\<close>

definition BS :: char where "BS = CHR 0x08"

function strip_loop :: "bytes \<Rightarrow> nat \<Rightarrow> nat \<Rightarrow> nat \<Rightarrow> bytes \<times> nat" where
  "strip_loop text len i out =
     (if i < len \<and> text ! i \<noteq> NUL
      then if i + 2 < len \<and> text ! (i + 1) = BS
           then strip_loop (text[out := text ! (i + 2)]) len (i + 3) (out + 1)
           else strip_loop (text[out := text ! i]) len (i + 1) (out + 1)
      else (text[out := NUL], out))"
  by pat_completeness auto

termination by (relation "measure (\<lambda>(text, len, i, out). len - i)") auto

declare strip_loop.simps [simp del]

definition man_strip_overstrike_ascii :: "bytes \<Rightarrow> bytes" where
  "man_strip_overstrike_ascii text =
     (let (text', len) = strip_loop (text @ [NUL]) (length text) 0 0 in take len text')"

subsection \<open>The cache on disk\<close>

definition cache_rel :: "string \<Rightarrow> string \<Rightarrow> string \<Rightarrow> string \<Rightarrow> string" where
  "cache_rel area section page format = ''/static/man/'' @ area @ ''/'' @ section @ ''/'' @ page @ ''.'' @ format"

definition cache_abs :: "string \<Rightarrow> string \<Rightarrow> string \<Rightarrow> string \<Rightarrow> string \<Rightarrow> string" where
  "cache_abs static_dir area section page format =
     static_dir @ ''/man/'' @ area @ ''/'' @ section @ ''/'' @ page @ ''.'' @ format"

text \<open>Only the path on disk is used by the caller; the other one is printed to the log.\<close>

definition build_cache_paths :: "man_env \<Rightarrow> string \<Rightarrow> string \<Rightarrow> string \<Rightarrow> string \<Rightarrow> string option" where
  "build_cache_paths env area section page format =
     (if 256 \<le> length (cache_rel area section page format) then None
      else if 512 \<le> length (cache_abs (ma_static_dir env) area section page format) then None
      else Some (cache_abs (ma_static_dir env) area section page format))"

fun mkdir_each :: "man_env \<Rightarrow> string list \<Rightarrow> man_act list \<Rightarrow> bool \<times> man_act list" where
  "mkdir_each env [] acts = (True, acts)"
| "mkdir_each env (d # ds) acts = (if ma_mkdir env d then mkdir_each env ds (acts @ [Made_dir d]) else (False, acts))"

definition mkdir_p :: "man_env \<Rightarrow> string \<Rightarrow> string \<Rightarrow> man_act list \<Rightarrow> bool \<times> man_act list" where
  "mkdir_p env dir base_dir acts =
     (if dir = [] then (False, acts)
      else
        (let tmp = strlcpy 512 dir;
             start = (if base_dir \<noteq> [] \<and> prefix base_dir tmp
                      then (if drop (length base_dir) tmp \<noteq> [] \<and> hd (drop (length base_dir) tmp) = CHR ''/''
                            then length base_dir + 1 else length base_dir)
                      else 0)
         in mkdir_each env (map (\<lambda>i. take i tmp) (filter (\<lambda>i. tmp ! i = CHR ''/'') [start..<length tmp]) @ [tmp]) acts))"

fun write_file_loop :: "nat list \<Rightarrow> nat \<Rightarrow> nat \<Rightarrow> (bool \<times> nat) option" where
  "write_file_loop [] off len = (if off < len then None else Some (True, off))"
| "write_file_loop (w # ws) off len =
     (if off < len
      then if w = 0 then Some (False, off) else write_file_loop ws (off + min w (len - off)) len
      else Some (True, off))"

definition write_file_binary :: "man_env \<Rightarrow> string \<Rightarrow> bytes \<Rightarrow> man_state \<Rightarrow> fault + int \<times> man_state" where
  "write_file_binary env path buf st =
     (if buf = [] \<or> \<not> ma_creat env then Inr (-1, st)
      else
        (case write_file_loop (ma_writes env) 0 (length buf) of
           None \<Rightarrow> Inl Blocked
         | Some (ok, off) \<Rightarrow>
             Inr (if ok then 0 else -1,
                  st\<lparr>mn_files := (mn_files st)(path \<mapsto> (take off buf, ma_time env)),
                     mn_acts := mn_acts st @ [Wrote_file path]\<rparr>)))"

text \<open>Reading a page back: only a file of the right age that can be read in one piece counts.\<close>

definition read_cached_page :: "man_env \<Rightarrow> string \<Rightarrow> man_state \<Rightarrow> bytes option" where
  "read_cached_page env path st =
     (case mn_files st path of
        None \<Rightarrow> None
      | Some (content, mtime) \<Rightarrow>
          if content = [] \<or> MAN_FS_CACHE_TTL_SEC < ma_time env - mtime \<or>
             \<not> ma_file_open env \<or> \<not> ma_file_malloc env \<or> \<not> ma_file_read env
          then None else Some content)"

definition save_page :: "man_env \<Rightarrow> string \<Rightarrow> bytes \<Rightarrow> man_state \<Rightarrow> fault + man_state" where
  "save_page env path body st =
     (let cache_dir = strlcpy 512 path in
      case strrchr cache_dir (CHR ''/'') of
        None \<Rightarrow> Inr st
      | Some last_slash \<Rightarrow>
          (let (ok, acts) = mkdir_p env (take last_slash cache_dir) (ma_static_dir env) (mn_acts st);
               st1 = st\<lparr>mn_acts := acts\<rparr>
           in if ok then bindR (write_file_binary env path body st1) (\<lambda>(rc, st2). Inr st2) else Inr st1))"

subsection \<open>Running mandoc\<close>

definition man_mime_for_format :: "string \<Rightarrow> string" where
  "man_mime_for_format format =
     (if format = ''pdf'' then ''application/pdf''
      else if format = ''ps'' then ''application/postscript''
      else if format = ''md'' then ''text/markdown; charset=utf-8''
      else if format = ''txt'' then ''text/plain; charset=utf-8''
      else ''text/html; charset=utf-8'')"

definition man_add_content_disposition_for_format :: "http_response_t \<Rightarrow> string \<Rightarrow> string \<Rightarrow> http_response_t" where
  "man_add_content_disposition_for_format resp format page =
     (if format = ''pdf''
      then http_response_add_header resp ''Content-Disposition''
             (snprintf_out 256 (''inline; filename='' @ [CHR 0x22] @ page @ ''.pdf'' @ [CHR 0x22]))
      else if format = ''md'' \<or> format = ''txt'' then http_response_add_header resp ''Content-Disposition'' ''inline''
      else if format = ''ps''
      then http_response_add_header resp ''Content-Disposition''
             (snprintf_out 256 (''attachment; filename='' @ [CHR 0x22] @ page @ ''.ps'' @ [CHR 0x22]))
      else resp)"

definition mandoc_type :: "string \<Rightarrow> string" where
  "mandoc_type format =
     (if format = ''pdf'' then ''pdf''
      else if format = ''ps'' then ''ps''
      else if format = ''md'' then ''markdown''
      else if format = ''txt'' then ''ascii''
      else ''html'')"

definition mandoc_argv :: "string \<Rightarrow> string \<Rightarrow> string list" where
  "mandoc_argv t_arg filepath =
     [''mandoc'', ''-T'', t_arg] @ (if t_arg = ''html'' then [''-Ostyle=/static/css/custom.css''] else []) @ [filepath]"

definition run_mandoc :: "man_env \<Rightarrow> string \<Rightarrow> string \<Rightarrow> man_state \<Rightarrow> fault + bytes option \<times> man_state" where
  "run_mandoc env t_arg filepath st =
     bindR (man_exec env ''/usr/bin/mandoc'' (mandoc_argv t_arg filepath) MAN_MAX_OUTPUT_SIZE 10 (mn_acts st))
       (\<lambda>(out, acts). Inr (out, man_sem_post (st\<lparr>mn_acts := acts\<rparr>)))"

definition man_resolve :: "man_env \<Rightarrow> string \<Rightarrow> string \<Rightarrow> man_state \<Rightarrow> fault + string option \<times> man_state" where
  "man_resolve env name section st =
     bindR (man_resolve_path env name section (mn_acts st)) (\<lambda>(p, acts). Inr (p, st\<lparr>mn_acts := acts\<rparr>))"

text \<open>The second attempt for Markdown, as plain text.\<close>

definition render_fallback :: "man_env \<Rightarrow> string \<Rightarrow> man_state \<Rightarrow> fault + bytes option \<times> man_state" where
  "render_fallback env filepath st =
     bindR (man_sem_wait env st) (\<lambda>(ok, st1).
       if \<not> ok then Inr (None, st1)
       else bindR (run_mandoc env ''ascii'' filepath st1) (\<lambda>(out, st2).
              Inr (map_option man_strip_overstrike_ascii out, st2)))"

definition render_path :: "man_env \<Rightarrow> string \<Rightarrow> string \<Rightarrow> man_state \<Rightarrow> fault + bytes option \<times> man_state" where
  "render_path env format filepath st =
     bindR (man_sem_wait env st) (\<lambda>(ok, st1).
       if \<not> ok then Inr (None, st1)
       else
         bindR (run_mandoc env (mandoc_type format) filepath st1) (\<lambda>(out, st2).
           case out of
             Some b \<Rightarrow> Inr (Some (if b \<noteq> [] \<and> format = ''txt'' then man_strip_overstrike_ascii b else b), st2)
           | None \<Rightarrow> if format = ''md'' then render_fallback env filepath st2 else Inr (None, st2)))"

definition man_render_page :: "man_env \<Rightarrow> string \<Rightarrow> string \<Rightarrow> string \<Rightarrow> man_state \<Rightarrow> fault + bytes option \<times> man_state" where
  "man_render_page env section page format st0 =
     (let st = man_sem_once env st0 in
      bindR (if man_is_valid_section section then man_resolve env page section st else Inr (None, st)) (\<lambda>(filepath, st1).
        case filepath of
          None \<Rightarrow> Inr (None, st1)
        | Some p \<Rightarrow> if p = [] \<or> hd p \<noteq> CHR ''/'' then Inr (None, st1) else render_path env format p st1))"

subsection \<open>The page handler\<close>

definition man_formats :: "string list" where
  "man_formats = [''html'', ''pdf'', ''ps'', ''md'', ''txt'']"

record man_target =
  mt_area :: string
  mt_section :: string
  mt_page :: string
  mt_format :: string

text \<open>The last part of the path: a page with a format, with a section, or with neither.\<close>

definition page_token :: "string \<Rightarrow> man_target \<Rightarrow> man_target" where
  "page_token token t =
     (let plain = t\<lparr>mt_page := strlcpy 64 token, mt_format := ''html''\<rparr> in
      case strrchr token (CHR ''.'') of
        None \<Rightarrow> plain
      | Some i \<Rightarrow>
          if i = 0 then plain
          else
            (let possible_format = drop (i + 1) token in
             if possible_format \<in> set man_formats
             then t\<lparr>mt_format := strlcpy 16 possible_format, mt_page := strlcpy 64 (take i token)\<rparr>
             else if man_is_valid_section possible_format
             then t\<lparr>mt_section := strlcpy 16 possible_format, mt_page := strlcpy 64 (take i token), mt_format := ''html''\<rparr>
             else plain))"

definition cut_query :: "string \<Rightarrow> string" where
  "cut_query s = (case strchr s (CHR ''?'') of None \<Rightarrow> s | Some i \<Rightarrow> take i s)"

definition parse_man_url :: "string \<Rightarrow> man_target" where
  "parse_man_url url =
     (let tokens = strtok_all (CHR ''/'') (cut_query (strlcpy 256 (drop 5 url)));
          t0 = \<lparr>mt_area = ''system'', mt_section = [], mt_page = [], mt_format = ''html''\<rparr>;
          t1 = (if 0 < length tokens then t0\<lparr>mt_area := strlcpy 32 (tokens ! 0)\<rparr> else t0);
          t2 = (if 1 < length tokens then t1\<lparr>mt_section := strlcpy 16 (tokens ! 1)\<rparr> else t1)
      in if 2 < length tokens then page_token (tokens ! 2) t2 else t2)"

definition probe_sections :: "string list" where
  "probe_sections = [''1'', ''8'', ''2'', ''3'', ''5'', ''7'', ''6'', ''4'', ''9'', ''3p'']"

fun probe_loop :: "man_env \<Rightarrow> string \<Rightarrow> string list \<Rightarrow> man_state \<Rightarrow> fault + (string \<times> string) option \<times> man_state" where
  "probe_loop env name [] st = Inr (None, st)"
| "probe_loop env name (sec # secs) st =
     bindR (man_resolve env name sec st) (\<lambda>(p, st1).
       case p of Some path \<Rightarrow> Inr (Some (sec, path), st1) | None \<Rightarrow> probe_loop env name secs st1)"

text \<open>The section the page is rendered from: the one asked for, or else the first one that has the page.\<close>

definition find_section :: "man_env \<Rightarrow> man_target \<Rightarrow> man_state \<Rightarrow> fault + string option \<times> man_state" where
  "find_section env t st =
     bindR (man_resolve env (mt_page t) (mt_section t) st) (\<lambda>(p, st1).
       case p of
         Some path \<Rightarrow> Inr (Some (mt_section t), st1)
       | None \<Rightarrow> bindR (probe_loop env (mt_page t) (filter (\<lambda>sec. sec \<noteq> mt_section t) probe_sections) st1)
                   (\<lambda>(found, st2). Inr (map_option (strlcpy 16 \<circ> fst) found, st2)))"

definition target_key :: "man_target \<Rightarrow> string" where
  "target_key t = man_render_cache_key (mt_area t) (mt_section t) (mt_page t) (mt_format t)"

definition cache_put :: "man_env \<Rightarrow> man_target \<Rightarrow> bytes \<Rightarrow> man_state \<Rightarrow> man_state" where
  "cache_put env t body st =
     st\<lparr>mn_cache := man_render_cache_put (mn_cache st) (ma_time env) (ma_put_malloc env) (target_key t) body,
        mn_cache_init := mn_cache_init st \<or> body \<noteq> []\<rparr>"

definition store_page :: "man_env \<Rightarrow> string option \<Rightarrow> man_target \<Rightarrow> bytes \<Rightarrow> man_state \<Rightarrow> fault + man_state" where
  "store_page env path t body st =
     (case path of
        None \<Rightarrow> Inr (cache_put env t body st)
      | Some p \<Rightarrow> save_page env p body (cache_put env t body st))"

datatype man_answer = Man_error int string | Man_body bytes

definition render_and_store :: "man_env \<Rightarrow> string option \<Rightarrow> man_target \<Rightarrow> man_state \<Rightarrow> fault + man_answer \<times> man_state" where
  "render_and_store env path t st =
     bindR (find_section env t st) (\<lambda>(sec, st1).
       case sec of
         None \<Rightarrow> Inr (Man_error 404 ''Manual page not found'', st1)
       | Some section' \<Rightarrow>
           bindR (man_render_page env section' (mt_page t) (mt_format t) st1) (\<lambda>(out, st2).
             case out of
               None \<Rightarrow> Inr (Man_error 404 ''Manual page not found'', st2)
             | Some body \<Rightarrow>
                 bindR (store_page env path (t\<lparr>mt_section := section'\<rparr>) body st2) (\<lambda>st3. Inr (Man_body body, st3))))"

definition man_page :: "man_env \<Rightarrow> man_target \<Rightarrow> man_state \<Rightarrow> fault + man_answer \<times> man_state" where
  "man_page env t st =
     (let path = build_cache_paths env (mt_area t) (mt_section t) (mt_page t) (mt_format t);
          (hit, cache) = man_render_cache_get (mn_cache st) (ma_time env) (ma_copy_malloc env) (target_key t);
          st1 = st\<lparr>mn_cache := cache, mn_cache_init := True\<rparr>
      in case hit of
           Some body \<Rightarrow> Inr (Man_body body, st1)
         | None \<Rightarrow>
             (case (case path of None \<Rightarrow> None | Some p \<Rightarrow> read_cached_page env p st1) of
                Some body \<Rightarrow> Inr (Man_body body, cache_put env t body st1)
              | None \<Rightarrow> render_and_store env path t st1))"

definition man_request :: "man_env \<Rightarrow> http_request_t \<Rightarrow> man_state \<Rightarrow> fault + man_answer \<times> man_state" where
  "man_request env req st =
     (if \<not> prefix ''/man/'' (req_url req) then Inr (Man_error 400 ''Invalid URL'', st)
      else
        (let t = parse_man_url (req_url req) in
         if mt_page t = [] \<or> mt_section t = [] then Inr (Man_error 400 ''Missing section or page name'', st)
         else if mt_format t \<notin> set man_formats then Inr (Man_error 400 ''Unsupported format'', st)
         else if \<not> man_is_valid_token (mt_page t) \<or> \<not> man_is_valid_section (mt_section t)
         then Inr (Man_error 400 ''Invalid section or page name'', st)
         else man_page env t st))"

definition send_man_page :: "http_request_t \<Rightarrow> man_target \<Rightarrow> bytes \<Rightarrow> http_ctx \<Rightarrow> (int \<times> http_ctx) option" where
  "send_man_page req t body hc =
     (let (r, pools) = http_response_create (hc_tid hc) (hc_calloc_ok hc) (hc_pools hc); hc1 = hc\<lparr>hc_pools := pools\<rparr> in
      case r of
        None \<Rightarrow> Some (-1, hc1)
      | Some resp \<Rightarrow>
          (let resp1 = http_response_add_header (resp\<lparr>rs_content_type := man_mime_for_format (mt_format t)\<rparr>)
                         ''Cache-Control'' ''public, max-age=300'';
               resp2 = man_add_content_disposition_for_format resp1 (mt_format t) (mt_page t)
           in send_and_free req (http_response_set_body resp2 (Some body) (length body) True) hc1))"

definition man_render_handler ::
  "man_env \<Rightarrow> http_request_t \<Rightarrow> man_state \<times> http_ctx \<Rightarrow> fault + int \<times> man_state \<times> http_ctx" where
  "man_render_handler env req = (\<lambda>(st, hc).
     bindR (man_request env req st) (\<lambda>(answer, st').
       case (case answer of
               Man_error code msg \<Rightarrow> http_send_error req code (Some msg) hc
             | Man_body body \<Rightarrow> send_man_page req (parse_man_url (req_url req)) body hc) of
         None \<Rightarrow> Inl Blocked
       | Some (rc, hc') \<Rightarrow> Inr (rc, st', hc')))"

subsection \<open>The query handler\<close>

text \<open>\<^verbatim>\<open>sscanf(path_tmp, "/%31[^/]/%15s", area, section) == 2\<close>\<close>

definition scan_area_section :: "string \<Rightarrow> (string \<times> string) option" where
  "scan_area_section s =
     (case s of
        [] \<Rightarrow> None
      | c # r \<Rightarrow>
          (let area = take 31 (takeWhile (\<lambda>d. d \<noteq> CHR ''/'') r); rest = drop (length area) r in
           if c \<noteq> CHR ''/'' \<or> area = [] \<or> rest = [] \<or> hd rest \<noteq> CHR ''/'' then None
           else
             (let section = take 15 (takeWhile (\<lambda>d. \<not> isspace d) (dropWhile isspace (tl rest)))
              in if section = [] then None else Some (area, section))))"

definition api_pages :: "man_env \<Rightarrow> http_request_t \<Rightarrow> fault + string option" where
  "api_pages env req =
     (let (found, section) = man_get_query_value (req_url req) ''section'' 16 []
      in if found
         then man_get_section_pages_json env (snd (man_get_query_value (req_url req) ''area'' 16 ''system'')) section
         else Inr (man_dup env (json_text ''{`error`:`Missing section parameter`}'')))"

definition resolve_answer :: "man_env \<Rightarrow> string \<Rightarrow> (string \<times> string) option \<Rightarrow> string option" where
  "resolve_answer env name found =
     (case found of
        None \<Rightarrow> man_dup env (json_text ''{`error`:`not found`}'')
      | Some (section, filepath) \<Rightarrow>
          if filepath = [] then man_dup env (json_text ''{`error`:`not found`}'')
          else
            (let resolved = (case man_parse_section_from_filename (path_base filepath) 16 of
                               None \<Rightarrow> section | Some sec \<Rightarrow> sec);
                 sec_out = (if resolved \<noteq> [] then resolved else section)
             in if ma_json_malloc env
                then Some (metadata_text name sec_out (man_area_from_path filepath) (json_escape_string (Some filepath)))
                else None))"

definition api_resolve :: "man_env \<Rightarrow> http_request_t \<Rightarrow> man_state \<Rightarrow> fault + string option \<times> man_state" where
  "api_resolve env req st =
     (let name = snd (man_get_query_value (req_url req) ''name'' 64 []);
          section = snd (man_get_query_value (req_url req) ''section'' 16 [])
      in if name = [] \<or> \<not> man_is_valid_token name \<or> section \<noteq> [] \<and> \<not> man_is_valid_section section
         then Inr (man_dup env (json_text ''{`error`:`name parameter required`}''), st)
         else
           bindR (if section \<noteq> []
                  then bindR (man_resolve env name section st) (\<lambda>(p, st1). Inr (map_option (Pair section) p, st1))
                  else probe_loop env name probe_sections st)
             (\<lambda>(found, st1). Inr (resolve_answer env name found, st1)))"

definition api_search :: "man_env \<Rightarrow> http_request_t \<Rightarrow> string \<Rightarrow> man_state \<Rightarrow> fault + string option \<times> man_state" where
  "api_search env req path st =
     (let query = (if 7 < length path \<and> path ! 7 = CHR ''/'' then Some (drop 8 path)
                   else (case man_get_query_value (req_url req) ''q'' 256 [] of (True, q) \<Rightarrow> Some q | _ \<Rightarrow> None))
      in case query of
           None \<Rightarrow> Inr (man_dup env [], st)
         | Some q \<Rightarrow>
             if q = [] then Inr (man_dup env [], st)
             else bindR (man_api_search_raw env q (mn_acts st)) (\<lambda>(r, acts). Inr (r, st\<lparr>mn_acts := acts\<rparr>)))"

definition api_directory :: "man_env \<Rightarrow> string \<Rightarrow> fault + string option" where
  "api_directory env path =
     (let path_tmp = cut_query path;
          unknown = man_dup env (json_text ''{`error`:`Unknown API endpoint or malformed path`}'')
      in if 64 \<le> length path_tmp then Inr unknown
         else (case scan_area_section path_tmp of
                 None \<Rightarrow> Inr unknown
               | Some (area, section) \<Rightarrow>
                   bindR (man_get_section_pages_json env area section)
                     (\<lambda>json. Inr (case json of None \<Rightarrow> unknown | Some j \<Rightarrow> Some j))))"

definition man_query :: "man_env \<Rightarrow> http_request_t \<Rightarrow> string \<Rightarrow> man_state \<Rightarrow> fault + string option \<times> man_state" where
  "man_query env req path st =
     (let still = (\<lambda>r. bindR r (\<lambda>json. Inr (json, st))) in
      if man_path_matches_endpoint path ''/sections'' then Inr (man_get_sections_json env, st)
      else if man_path_matches_endpoint path ''/pages'' then still (api_pages env req)
      else if man_path_matches_endpoint path ''/resolve'' then api_resolve env req st
      else if prefix ''/search'' path then api_search env req path st
      else still (api_directory env path))"

definition send_man_json :: "http_request_t \<Rightarrow> string \<Rightarrow> string \<Rightarrow> http_ctx \<Rightarrow> (int \<times> http_ctx) option" where
  "send_man_json req path json hc =
     (let (r, pools) = http_response_create (hc_tid hc) (hc_calloc_ok hc) (hc_pools hc); hc1 = hc\<lparr>hc_pools := pools\<rparr> in
      case r of
        None \<Rightarrow> http_send_error req 500 (Some ''Internal Server Error'') hc1
      | Some resp \<Rightarrow>
          (let ctype = (if strstr path ''/search'' \<noteq> None then ''text/plain; charset=utf-8'' else ''application/json'');
               resp1 = http_response_add_header ((http_response_set_status resp 200)\<lparr>rs_content_type := ctype\<rparr>)
                         ''Access-Control-Allow-Origin'' ''*''
           in send_and_free req (http_response_set_body resp1 (Some json) (length json) True) hc1))"

definition man_api_handler ::
  "man_env \<Rightarrow> http_request_t \<Rightarrow> man_state \<times> http_ctx \<Rightarrow> fault + int \<times> man_state \<times> http_ctx" where
  "man_api_handler env req = (\<lambda>(st, hc).
     let reply = (\<lambda>st' r. case r of None \<Rightarrow> Inl Blocked | Some (rc, hc') \<Rightarrow> Inr (rc, st', hc')) in
     case strstr (req_url req) ''/api/man'' of
       None \<Rightarrow> reply st (http_send_error req 400 (Some ''Bad Request'') hc)
     | Some i \<Rightarrow>
         (let path = drop (i + length ''/api/man'') (req_url req) in
          bindR (man_query env req path st) (\<lambda>(json, st').
            reply st' (case json of
                         None \<Rightarrow> http_send_error req 500 (Some ''Internal Server Error'') hc
                       | Some j \<Rightarrow> send_man_json req path j hc))))"

definition man_render_cache_cleanup :: "man_state \<Rightarrow> man_state" where
  "man_render_cache_cleanup st =
     (let st1 = (if mn_cache_init st
                 then st\<lparr>mn_cache := map (map (\<lambda>s. s\<lparr>ms_body := None, ms_key := []\<rparr>)) (mn_cache st)\<rparr> else st)
      in if mn_sem_init st1 then st1\<lparr>mn_sem_init := False\<rparr> else st1)"

definition man_module_cleanup :: "man_state \<Rightarrow> man_state" where
  "man_module_cleanup st = man_render_cache_cleanup st"

section \<open>Overstruck text\<close>

text \<open>The same on lists: a character, a backspace and another character give the other character.\<close>

fun strip_text :: "bytes \<Rightarrow> bytes" where
  "strip_text [] = []"
| "strip_text (c # cs) =
     (if c = NUL then []
      else (case cs of
              b # d # rest \<Rightarrow> if b = BS then d # strip_text rest else c # strip_text cs
            | _ \<Rightarrow> c # strip_text cs))"

lemma strip_text_hit: "c \<noteq> NUL \<Longrightarrow> strip_text (c # BS # d # rest) = d # strip_text rest"
  by simp

lemma strip_text_skip: "c \<noteq> NUL \<Longrightarrow> \<not> (2 \<le> length cs \<and> hd cs = BS) \<Longrightarrow> strip_text (c # cs) = c # strip_text cs"
  by (cases cs; cases "tl cs") auto

lemma strip_loop_eq:
  assumes "length buf = len + 1" "out \<le> i" "i \<le> len"
  shows "snd (strip_loop buf len i out) \<le> len \<and> take (snd (strip_loop buf len i out)) (fst (strip_loop buf len i out)) =
    take out buf @ strip_text (take (len - i) (drop i buf))"
  using assms
proof (induction buf len i out rule: strip_loop.induct)
  case (1 buf len i out)
  let ?rest = "take (len - i) (drop i buf)"
  have upd: "take (out + 1) (buf[out := c]) = take out buf @ [c]" for c
    using "1.prems" by (simp add: take_Suc_conv_app_nth)
  show ?case
  proof (cases "i < len \<and> buf ! i \<noteq> NUL")
    case False
    have "strip_text ?rest = []"
    proof (cases "i < len")
      case True
      then have "?rest = buf ! i # take (len - i - 1) (drop (i + 1) buf)"
        using "1.prems" by (simp add: Cons_nth_drop_Suc [symmetric] take_Cons')
      then show ?thesis using False True by simp
    qed simp
    moreover have "strip_loop buf len i out = (buf[out := NUL], out)" using False by (subst strip_loop.simps) (rule if_not_P)
    ultimately show ?thesis using "1.prems" by simp
  next
    case go: True
    have rest: "?rest = buf ! i # take (len - (i + 1)) (drop (i + 1) buf)"
      using go "1.prems" by (simp add: Cons_nth_drop_Suc [symmetric] take_Cons')
    show ?thesis
    proof (cases "i + 2 < len \<and> buf ! (i + 1) = BS")
      case True
      have "?rest = buf ! i # BS # buf ! (i + 2) # take (len - (i + 3)) (drop (i + 3) buf)"
        using True "1.prems" unfolding rest
        by (simp add: Cons_nth_drop_Suc [symmetric] take_Cons' numeral_3_eq_3)
      then have "strip_text ?rest = buf ! (i + 2) # strip_text (take (len - (i + 3)) (drop (i + 3) buf))"
        by (simp only: strip_text_hit [OF conjunct2 [OF go]])
      moreover have "drop (i + 3) (buf[out := c]) = drop (i + 3) buf" for c using "1.prems" by simp
      moreover have "strip_loop buf len i out = strip_loop (buf[out := buf ! (i + 2)]) len (i + 3) (out + 1)"
        unfolding strip_loop.simps [of buf len i out] if_P [OF go] if_P [OF True] ..
      ultimately show ?thesis using "1.IH"(1) [OF go True] "1.prems" True upd by simp
    next
      case False
      have "\<not> (2 \<le> length (take (len - (i + 1)) (drop (i + 1) buf)) \<and> hd (take (len - (i + 1)) (drop (i + 1) buf)) = BS)"
        using False "1.prems" by (auto simp: hd_drop_conv_nth)
      then have "strip_text ?rest = buf ! i # strip_text (take (len - (i + 1)) (drop (i + 1) buf))"
        unfolding rest by (rule strip_text_skip [OF conjunct2 [OF go]])
      moreover have "drop (i + 1) (buf[out := c]) = drop (i + 1) buf" for c using "1.prems" by simp
      moreover have "strip_loop buf len i out = strip_loop (buf[out := buf ! i]) len (i + 1) (out + 1)"
        unfolding strip_loop.simps [of buf len i out] if_P [OF go] if_not_P [OF False] ..
      ultimately show ?thesis using "1.IH"(2) [OF go False] "1.prems" go upd by simp
    qed
  qed
qed

lemma man_strip_overstrike_eq: "man_strip_overstrike_ascii buf = strip_text buf"
  using strip_loop_eq [of "buf @ [NUL]" "length buf" 0 0]
  by (cases "strip_loop (buf @ [NUL]) (length buf) 0 0") (simp add: man_strip_overstrike_ascii_def)

text \<open>Text as a terminal prints it: plain, bold (struck twice) or underlined.\<close>

datatype face = Plain | Bold | Underlined

fun overstrike :: "char \<times> face \<Rightarrow> bytes" where
  "overstrike (c, Plain) = [c]"
| "overstrike (c, Bold) = [c, BS, c]"
| "overstrike (c, Underlined) = [CHR ''_'', BS, c]"

lemma strip_overstrike:
  assumes "c \<noteq> NUL" "s = [] \<or> hd s \<noteq> BS"
  shows "strip_text (overstrike (c, f) @ s) = c # strip_text s"
proof (cases f)
  case Plain
  then show ?thesis using assms strip_text_skip [of c s] by auto
next
  case Bold
  then show ?thesis using assms(1) strip_text_hit [of c c s] by simp
next
  case Underlined
  then show ?thesis using strip_text_hit [of "CHR ''_''" c s] by simp
qed

lemma strip_text_overstrike:
  "list_all (\<lambda>(c, f). c \<noteq> NUL \<and> c \<noteq> BS) cs \<Longrightarrow> strip_text (concat (map overstrike cs)) = map fst cs"
proof (induction cs)
  case Nil
  then show ?case by simp
next
  case (Cons cf cs)
  obtain c f where cf: "cf = (c, f)" by fastforce
  have "concat (map overstrike cs) = [] \<or> hd (concat (map overstrike cs)) \<noteq> BS"
  proof (cases cs)
    case (Cons a rest)
    moreover have "overstrike a \<noteq> [] \<and> hd (overstrike a) \<noteq> BS"
      using Cons.prems Cons by (cases a; cases "snd a") (auto simp: BS_def)
    ultimately show ?thesis by simp
  qed simp
  then show ?case using Cons strip_overstrike [of c "concat (map overstrike cs)" f] by (simp add: cf)
qed

section \<open>The targets of requests\<close>

text \<open>What the checks of the handler leave: the four parts of a target that is looked up or rendered.\<close>

definition target_ok :: "man_target \<Rightarrow> bool" where
  "target_ok t \<longleftrightarrow> CHR ''/'' \<notin> set (mt_area t) \<and> length (mt_area t) < 32 \<and> man_is_valid_section (mt_section t) \<and>
     man_is_valid_token (mt_page t) \<and> length (mt_page t) < 64 \<and> mt_format t \<in> set man_formats"

definition target_path :: "string \<Rightarrow> man_target \<Rightarrow> string" where
  "target_path static_dir t = cache_abs static_dir (mt_area t) (mt_section t) (mt_page t) (mt_format t)"

lemma format_facts: "f \<in> set man_formats \<Longrightarrow> CHR ''.'' \<notin> set f \<and> CHR ''/'' \<notin> set f \<and> length f \<le> 4"
  by (auto simp: man_formats_def)

lemma joined_inj:
  assumes "mt_area t @ ''/'' @ mt_section t @ ''/'' @ mt_page t @ ''.'' @ mt_format t =
      mt_area u @ ''/'' @ mt_section u @ ''/'' @ mt_page u @ ''.'' @ mt_format u"
    and "target_ok t" "target_ok u"
  shows "t = u"
proof -
  have slash: "CHR ''/'' \<notin> set (mt_area t)" "CHR ''/'' \<notin> set (mt_area u)" "CHR ''/'' \<notin> set (mt_section t)" "CHR ''/'' \<notin> set (mt_section u)"
    using assms(2,3) valid_section_chars(2) by (auto simp: target_ok_def)
  have dot: "CHR ''.'' \<notin> set (mt_format t)" "CHR ''.'' \<notin> set (mt_format u)"
    using assms(2,3) format_facts by (auto simp: target_ok_def)
  have a: "mt_area t = mt_area u \<and> mt_section t @ ''/'' @ mt_page t @ ''.'' @ mt_format t = mt_section u @ ''/'' @ mt_page u @ ''.'' @ mt_format u"
    using first_char_inj [of _ "CHR ''/''", OF _ slash(1,2)] assms(1) by simp
  then have sec: "mt_section t @ CHR ''/'' # mt_page t @ ''.'' @ mt_format t = mt_section u @ CHR ''/'' # mt_page u @ ''.'' @ mt_format u" by simp
  from first_char_inj [OF this slash(3,4)]
  have b: "mt_section t = mt_section u" "mt_page t @ CHR ''.'' # mt_format t = mt_page u @ CHR ''.'' # mt_format u" by simp_all
  from last_char_inj [OF b(2) dot] have "mt_page t = mt_page u \<and> mt_format t = mt_format u" .
  then show ?thesis using a b by simp
qed

lemma target_key_joined:
  assumes "target_ok t"
  shows "target_key t = mt_area t @ ''/'' @ mt_section t @ ''/'' @ mt_page t @ ''.'' @ mt_format t" "length (target_key t) < 192"
proof -
  have "length (mt_area t @ ''/'' @ mt_section t @ ''/'' @ mt_page t @ ''.'' @ mt_format t) < 192"
    using assms valid_section_chars(5) [of "mt_section t"] format_facts [of "mt_format t"] by (simp add: target_ok_def)
  then show "target_key t = mt_area t @ ''/'' @ mt_section t @ ''/'' @ mt_page t @ ''.'' @ mt_format t" "length (target_key t) < 192"
    by (simp_all add: target_key_def man_render_cache_key_def snprintf_out_short)
qed

lemma target_key_inj: "target_key t = target_key u \<Longrightarrow> target_ok t \<Longrightarrow> target_ok u \<Longrightarrow> t = u"
  using target_key_joined(1) joined_inj by metis

lemma target_path_inj: "target_path sd t = target_path sd u \<Longrightarrow> target_ok t \<Longrightarrow> target_ok u \<Longrightarrow> t = u"
  by (rule joined_inj) (auto simp: target_path_def cache_abs_def)

lemma set_strlcpy_subset: "set (strlcpy n s) \<subseteq> set s"
  by (auto simp: strlcpy_def dest: in_set_takeD)

lemma page_token_fields:
  "mt_area (page_token token t) = mt_area t" "length (mt_page (page_token token t)) < 64"
  by (auto simp: page_token_def Let_def length_strlcpy split: option.splits)

lemma parse_man_url_fields:
  "CHR ''/'' \<notin> set (mt_area (parse_man_url url)) \<and> length (mt_area (parse_man_url url)) < 32 \<and> length (mt_page (parse_man_url url)) < 64"
proof -
  have "CHR ''/'' \<notin> set (strlcpy 32 (toks ! 0))" if "0 < length toks" "toks = strtok_all (CHR ''/'') s" for toks s
    using that set_strlcpy_subset [of 32 "toks ! 0"] strtok_all_token [of "toks ! 0" "CHR ''/''" s] nth_mem [of 0 toks] by auto
  then show ?thesis by (auto simp: parse_man_url_def Let_def page_token_fields length_strlcpy)
qed

section \<open>The cache in memory\<close>

definition man_slots :: "man_render_slot_t list list \<Rightarrow> man_render_slot_t set" where
  "man_slots cache = (\<Union>shard \<in> set cache. set shard)"

text \<open>What the cache holds: a body with the time it was put there, under a key.\<close>

definition man_held :: "man_render_slot_t list list \<Rightarrow> (string \<times> (int \<times> bytes)) set" where
  "man_held cache = {(ms_key s, (ms_inserted s, b)) |s b. s \<in> man_slots cache \<and> ms_body s = Some b}"

definition man_cache_inv :: "man_render_slot_t list list \<Rightarrow> bool" where
  "man_cache_inv cache \<longleftrightarrow> length cache = MAN_RENDER_CACHE_SHARDS \<and> (\<forall>s \<in> man_slots cache. length (ms_key s) < 192)"

lemma shard_less [simp]: "man_render_cache_shard key < MAN_RENDER_CACHE_SHARDS"
  by (simp add: man_render_cache_shard_def MAN_RENDER_CACHE_SHARDS_def)

lemma slot_find_Some:
  "slot_find key ss k = Some i \<Longrightarrow> k \<le> i \<and> i - k < length ss \<and> ms_key (ss ! (i - k)) = key \<and> ms_body (ss ! (i - k)) \<noteq> None"
  by (induction key ss k rule: slot_find.induct) (auto simp: Suc_diff_le nth_Cons' split: if_splits)

lemma slot_scan_same:
  "slot_scan key ss k oldest target = Same_key i \<Longrightarrow> k \<le> i \<and> i - k < length ss \<and> ms_key (ss ! (i - k)) = key"
  by (induction key ss k oldest target rule: slot_scan.induct) (auto simp: Suc_diff_le nth_Cons' split: if_splits)

lemma slot_scan_place:
  "slot_scan key ss k oldest target = Place (Some i) \<Longrightarrow> target = Some i \<or> k \<le> i \<and> i - k < length ss"
  by (induction key ss k oldest target rule: slot_scan.induct) (auto simp: Suc_diff_le split: if_splits)

lemma man_slots_update:
  assumes "si < length cache"
  shows "man_slots (cache[si := (cache ! si)[i := s]]) \<subseteq> insert s (man_slots cache)"
  using set_list_update_subset [of cache si] set_list_update_subset [of "cache ! si" i s] nth_mem [OF assms]
  unfolding man_slots_def by fastforce

lemma man_held_update:
  assumes "si < length cache"
  shows "man_held (cache[si := (cache ! si)[i := s]]) \<subseteq>
    man_held cache \<union> (case ms_body s of None \<Rightarrow> {} | Some b \<Rightarrow> {(ms_key s, (ms_inserted s, b))})"
  using man_slots_update [OF assms, of i s] by (fastforce simp: man_held_def split: option.splits)

lemma man_slots_nth: "si < length cache \<Longrightarrow> i < length (cache ! si) \<Longrightarrow> cache ! si ! i \<in> man_slots cache"
  unfolding man_slots_def by (auto intro!: bexI [of _ "cache ! si"])

lemma man_cache_inv_update:
  "man_cache_inv cache \<Longrightarrow> length (ms_key s) < 192 \<Longrightarrow> si < length cache \<Longrightarrow> man_cache_inv (cache[si := (cache ! si)[i := s]])"
  using man_slots_update [of si cache i s] by (auto simp: man_cache_inv_def)

lemma man_get_keeps:
  assumes "man_cache_inv cache"
  shows "man_cache_inv (snd (man_render_cache_get cache now ok key)) \<and>
    man_held (snd (man_render_cache_get cache now ok key)) \<subseteq> man_held cache"
proof -
  let ?si = "man_render_cache_shard key"
  have len: "length cache = MAN_RENDER_CACHE_SHARDS" using assms by (simp add: man_cache_inv_def)
  show ?thesis
  proof (cases "slot_find key (cache ! ?si) 0")
    case None
    then show ?thesis using assms by (simp add: man_render_cache_get_def)
  next
    case (Some i)
    let ?s = "(cache ! ?si ! i)\<lparr>ms_body := None\<rparr>"
    have i: "i < length (cache ! ?si)" using slot_find_Some [OF Some] by simp
    have "length (ms_key ?s) < 192" using assms man_slots_nth [OF _ i] len by (simp add: man_cache_inv_def)
    then have "man_cache_inv (cache[?si := (cache ! ?si)[i := ?s]])" "man_held (cache[?si := (cache ! ?si)[i := ?s]]) \<subseteq> man_held cache"
      using man_cache_inv_update [OF assms, of ?s] man_held_update [of ?si cache i ?s] len by auto
    then show ?thesis using assms Some by (auto simp: man_render_cache_get_def Let_def)
  qed
qed

lemma man_get_hit:
  assumes "fst (man_render_cache_get cache now ok key) = Some body" "man_cache_inv cache"
  obtains i where "slot_find key (cache ! man_render_cache_shard key) 0 = Some i"
    "(key, (ms_inserted (cache ! man_render_cache_shard key ! i), body)) \<in> man_held cache"
    "now - ms_inserted (cache ! man_render_cache_shard key ! i) \<le> MAN_RENDER_CACHE_TTL"
proof -
  let ?si = "man_render_cache_shard key"
  obtain i where i: "slot_find key (cache ! ?si) 0 = Some i" "ms_body (cache ! ?si ! i) = Some body"
    "\<not> MAN_RENDER_CACHE_TTL < now - ms_inserted (cache ! ?si ! i)"
    using assms(1) by (auto simp: man_render_cache_get_def Let_def split: option.splits if_splits)
  have "cache ! ?si ! i \<in> man_slots cache" "ms_key (cache ! ?si ! i) = key"
    using slot_find_Some [OF i(1)] man_slots_nth [of ?si cache i] assms(2) by (auto simp: man_cache_inv_def)
  then have "(key, (ms_inserted (cache ! ?si ! i), body)) \<in> man_held cache" using i(2) unfolding man_held_def by force
  then show thesis using that i(1,3) by simp
qed

lemma man_put_keeps:
  assumes "man_cache_inv cache"
  shows "man_cache_inv (man_render_cache_put cache now ok key body) \<and>
    man_held (man_render_cache_put cache now ok key body) \<subseteq> insert (strlcpy 192 key, (now, body)) (man_held cache)"
proof (cases "body = []")
  case True
  then show ?thesis using assms by (auto simp: man_render_cache_put_def)
next
  case False
  let ?si = "man_render_cache_shard key"
  let ?place = "slot_scan key (cache ! ?si) 0 (now + 1) None"
  have len: "?si < length cache" using assms by (simp add: man_cache_inv_def)
  have put: ?thesis if "man_render_cache_put cache now ok key body = cache[?si := (cache ! ?si)[i := s]]"
    "length (ms_key s) < 192" "ms_body s = None \<or> ms_key s = strlcpy 192 key \<and> ms_inserted s = now \<and> ms_body s = Some body" for i s
    using man_cache_inv_update [OF assms that(2) len, of i] man_held_update [OF len, of i s] that by auto
  have old: "length (ms_key (cache ! ?si ! i)) < 192" if "i < length (cache ! ?si)" for i
    using assms man_slots_nth [OF len that] by (simp add: man_cache_inv_def)
  show ?thesis
  proof (cases ?place)
    case (Same_key i)
    have i: "i < length (cache ! ?si)" "ms_key (cache ! ?si ! i) = key"
      using slot_scan_same [OF Same_key] by auto
    then have "strlcpy 192 key = key" using old [OF i(1)] by (simp add: strlcpy_short)
    then show ?thesis using False Same_key i old [OF i(1)]
      by (intro put [where i = i]) (auto simp: man_render_cache_put_def Let_def split: if_splits)
  next
    case (Place target)
    show ?thesis
    proof (cases target)
      case None
      then show ?thesis using assms Place by (auto simp: man_render_cache_put_def Let_def)
    next
      case (Some i)
      have i: "i < length (cache ! ?si)"
        using slot_scan_place [of key "cache ! ?si" 0 "now + 1" None i] Place Some by simp
      let ?s = "if ok then \<lparr>ms_key = strlcpy 192 key, ms_body = Some body, ms_inserted = now\<rparr>
        else (cache ! ?si ! i)\<lparr>ms_body := None\<rparr>"
      show ?thesis using False Place Some old [OF i] length_strlcpy [of 192 key]
        by (intro put [where i = i and s = ?s]) (simp_all add: man_render_cache_put_def Let_def)
    qed
  qed
qed

text \<open>The two operations in the form of the interface; a value is a body with its time.\<close>

definition man_store :: "man_render_slot_t list list \<Rightarrow> int \<times> bool \<Rightarrow> string \<Rightarrow> int \<times> bytes \<Rightarrow> man_render_slot_t list list" where
  "man_store cache e key v = man_render_cache_put cache (fst v) (snd e) key (snd v)"

definition man_lookup ::
  "man_render_slot_t list list \<Rightarrow> int \<times> bool \<Rightarrow> string \<Rightarrow> (int \<times> bytes) option \<times> man_render_slot_t list list" where
  "man_lookup cache e key =
     (let (hit, cache') = man_render_cache_get cache (fst e) (snd e) key;
          shard = cache ! man_render_cache_shard key
      in (map_option (\<lambda>b. (ms_inserted (shard ! the (slot_find key shard 0)), b)) hit, cache'))"

lemma man_lookup_Some:
  assumes "fst (man_lookup cache (now, ok) key) = Some (t, body)" "man_cache_inv cache"
  shows "(key, (t, body)) \<in> man_held cache" "now - t \<le> MAN_RENDER_CACHE_TTL"
proof -
  have body: "fst (man_render_cache_get cache now ok key) = Some body"
    and t: "t = ms_inserted (cache ! man_render_cache_shard key ! the (slot_find key (cache ! man_render_cache_shard key) 0))"
    using assms(1) by (auto simp: man_lookup_def Let_def split: prod.splits)
  obtain i where "slot_find key (cache ! man_render_cache_shard key) 0 = Some i"
    "(key, (ms_inserted (cache ! man_render_cache_shard key ! i), body)) \<in> man_held cache"
    "now - ms_inserted (cache ! man_render_cache_shard key ! i) \<le> MAN_RENDER_CACHE_TTL"
    by (rule man_get_hit [OF body assms(2)])
  then show "(key, (t, body)) \<in> man_held cache" "now - t \<le> MAN_RENDER_CACHE_TTL" using t by simp_all
qed

interpretation man_cache: normalising_cache man_store man_lookup man_held man_cache_inv "strlcpy 192"
proof (standard, goal_cases)
  case (1 cache e key v)
  then show ?case using man_put_keeps [OF 1, of "fst v" "snd e" key "snd v"] by (simp add: man_store_def)
next
  case (2 cache e key)
  then show ?case using man_get_keeps [OF 2, of "fst e" "snd e" key] 
    by (cases "man_render_cache_get cache (fst e) (snd e) key") (simp add: man_lookup_def Let_def)
next
  case (3 cache e key v)
  then show ?case using man_lookup_Some(1) [of cache "fst e" "snd e" key "fst v" "snd v"] by simp
qed

end
