(* ===== verification/Man_Module.thy ===== *)
theory Man_Module
  imports Man_Render
begin

text \<open>
  What the handlers of the manual page module (\<open>Man_Render\<close>) may do and what they serve: the commands,
  directories and files of a request, the invariant of the two caches, and the age of a page.
\<close>

section \<open>Actions\<close>

definition mandoc_types :: "string set" where
  "mandoc_types = {''html'', ''pdf'', ''ps'', ''markdown'', ''ascii''}"

definition render_act :: "man_act \<Rightarrow> bool" where
  "render_act a \<longleftrightarrow> query_act a \<or>
     (\<exists>t ty path out. a = Ran t ''/usr/bin/mandoc'' (mandoc_argv ty path) out \<and> ty \<in> mandoc_types \<and> path \<noteq> [] \<and> hd path = CHR ''/'')"

text \<open>
  With the files: a directory on the way to a page, or the file of a page, below the directory of
  static files.
\<close>

definition page_act :: "string \<Rightarrow> man_act \<Rightarrow> bool" where
  "page_act sd a \<longleftrightarrow> render_act a \<or>
     (\<exists>d area section. a = Made_dir d \<and> prefix sd d \<and> prefix d (sd @ ''/man/'' @ area @ ''/'' @ section) \<and>
        CHR ''/'' \<notin> set area \<and> man_is_valid_section section) \<or>
     (\<exists>t. a = Wrote_file (target_path sd t) \<and> target_ok t)"

lemma query_act_render: "query_act a \<Longrightarrow> render_act a"
  by (simp add: render_act_def)

lemma render_act_page: "render_act a \<Longrightarrow> page_act sd a"
  by (simp add: page_act_def)

lemma man_resolve_Inr:
  assumes "man_resolve env name section st = Inr (p, st')"
  shows "\<exists>acts. st' = st\<lparr>mn_acts := acts\<rparr> \<and> acts_extend render_act (mn_acts st) acts \<and>
    (\<forall>path. p = Some path \<longrightarrow> path \<noteq> [] \<and> hd path = CHR ''/'' \<and> man_is_valid_section section \<and>
       (\<exists>raw. Ran (ma_time env) ''/usr/bin/man'' (resolve_argv section name) (Some raw) \<in> set acts \<and>
          path \<in> set (strtok_all (CHR '' '') (blank_space (c_str raw)))))"
proof -
  obtain acts where a: "man_resolve_path env name section (mn_acts st) = Inr (p, acts)" "st' = st\<lparr>mn_acts := acts\<rparr>"
    using assms by (auto simp: man_resolve_def bindR_Inr_iff)
  have "acts_extend render_act (mn_acts st) acts"
    using man_resolve_path_acts [OF a(1)] query_act_render by (rule acts_extend_mono)
  moreover have "path \<noteq> [] \<and> hd path = CHR ''/'' \<and> man_is_valid_section section \<and>
      (\<exists>raw. Ran (ma_time env) ''/usr/bin/man'' (resolve_argv section name) (Some raw) \<in> set acts \<and>
        path \<in> set (strtok_all (CHR '' '') (blank_space (c_str raw))))" if "p = Some path" for path
    using man_resolve_path_Inr [OF a(1)] that by (auto dest!: select_resolved_token [OF sym])
  ultimately show ?thesis using a(2) by blast
qed

section \<open>Rendering\<close>

text \<open>
  \<open>rendering acts r page format b\<close>: among the actions, at time \<open>r\<close>, \<^verbatim>\<open>man -w\<close> named a file for the
  page and \<^verbatim>\<open>mandoc\<close> turned this file into \<open>b\<close>, in the format, or as plain text where Markdown failed.
\<close>

definition rendering :: "man_act list \<Rightarrow> int \<Rightarrow> string \<Rightarrow> string \<Rightarrow> bytes \<Rightarrow> bool" where
  "rendering acts r page format b \<longleftrightarrow> (\<exists>section raw path ty out.
     Ran r ''/usr/bin/man'' (resolve_argv section page) (Some raw) \<in> set acts \<and>
     path \<in> set (strtok_all (CHR '' '') (blank_space (c_str raw))) \<and>
     Ran r ''/usr/bin/mandoc'' (mandoc_argv ty path) (Some out) \<in> set acts \<and> length out \<le> MAN_MAX_OUTPUT_SIZE \<and>
     (ty = mandoc_type format \<and> b = (if format = ''txt'' then strip_text out else out) \<or>
      format = ''md'' \<and> ty = ''ascii'' \<and> b = strip_text out))"

lemma rendering_mono: "rendering acts r page format b \<Longrightarrow> set acts \<subseteq> set acts' \<Longrightarrow> rendering acts' r page format b"
  unfolding rendering_def by blast

lemma run_mandoc_Inr:
  assumes "run_mandoc env ty path st = Inr (out, st')"
  shows "st' = st\<lparr>mn_acts := mn_acts st @ [Ran (ma_time env) ''/usr/bin/mandoc'' (mandoc_argv ty path) out], mn_sem := mn_sem st + 1\<rparr>"
    "\<And>b. out = Some b \<Longrightarrow> length b \<le> MAN_MAX_OUTPUT_SIZE"
proof -
  obtain acts where e: "man_exec env ''/usr/bin/mandoc'' (mandoc_argv ty path) MAN_MAX_OUTPUT_SIZE 10 (mn_acts st) = Inr (out, acts)"
    and st': "st' = man_sem_post (st\<lparr>mn_acts := acts\<rparr>)"
    using assms by (auto simp: run_mandoc_def bindR_Inr_iff)
  show "st' = st\<lparr>mn_acts := mn_acts st @ [Ran (ma_time env) ''/usr/bin/mandoc'' (mandoc_argv ty path) out], mn_sem := mn_sem st + 1\<rparr>"
    using man_exec_Inr [OF e] st' by (simp add: man_sem_post_def)
  show "length b \<le> MAN_MAX_OUTPUT_SIZE" if "out = Some b" for b using man_exec_bounded e that by blast
qed

lemma man_sem_wait_Inr:
  "man_sem_wait env st = Inr (ok, st') \<Longrightarrow> st' = (if ok then st\<lparr>mn_sem := mn_sem st - 1\<rparr> else st)"
  by (auto simp: man_sem_wait_def split: if_splits)

lemma mandoc_act: "ty \<in> mandoc_types \<Longrightarrow> path \<noteq> [] \<Longrightarrow> hd path = CHR ''/'' \<Longrightarrow>
    render_act (Ran t ''/usr/bin/mandoc'' (mandoc_argv ty path) out)"
  by (auto simp: render_act_def)

lemma mandoc_type_in: "mandoc_type format \<in> mandoc_types" "''ascii'' \<in> mandoc_types"
  by (simp_all add: mandoc_type_def mandoc_types_def)

lemma man_sem_once_same [simp]:
  "mn_acts (man_sem_once env st) = mn_acts st" "mn_cache (man_sem_once env st) = mn_cache st" "mn_files (man_sem_once env st) = mn_files st"
  by (simp_all add: man_sem_once_def mandoc_semaphore_init_def Let_def)

text \<open>One run of \<^verbatim>\<open>mandoc\<close> between waiting for the semaphore and giving it back.\<close>

lemma guarded_mandoc:
  assumes "man_sem_wait env st = Inr (True, st1)" "run_mandoc env ty path st1 = Inr (out, st2)"
    and "ty \<in> mandoc_types" "path \<noteq> []" "hd path = CHR ''/''"
  shows "\<exists>acts. st2 = st\<lparr>mn_acts := acts\<rparr> \<and> acts_extend render_act (mn_acts st) acts \<and>
    Ran (ma_time env) ''/usr/bin/mandoc'' (mandoc_argv ty path) out \<in> set acts \<and>
    (\<forall>b. out = Some b \<longrightarrow> length b \<le> MAN_MAX_OUTPUT_SIZE)"
  using man_sem_wait_Inr [OF assms(1)] run_mandoc_Inr [OF assms(2)] mandoc_act [OF assms(3-5)] by auto

lemma render_fallback_Inr:
  assumes "render_fallback env path st = Inr (out, st')" "path \<noteq> []" "hd path = CHR ''/''"
  shows "\<exists>acts. st' = st\<lparr>mn_acts := acts\<rparr> \<and> acts_extend render_act (mn_acts st) acts \<and>
    (\<forall>b. out = Some b \<longrightarrow> (\<exists>raw. b = strip_text raw \<and>
       Ran (ma_time env) ''/usr/bin/mandoc'' (mandoc_argv ''ascii'' path) (Some raw) \<in> set acts \<and>
       length raw \<le> MAN_MAX_OUTPUT_SIZE))"
proof -
  obtain ok st1 where w: "man_sem_wait env st = Inr (ok, st1)" using assms(1) by (auto simp: render_fallback_def bindR_Inr_iff)
  show ?thesis
  proof (cases ok)
    case True
    then obtain raw where r: "run_mandoc env ''ascii'' path st1 = Inr (raw, st')" "out = map_option man_strip_overstrike_ascii raw"
      using assms(1) w by (auto simp: render_fallback_def bindR_Inr_iff)
    obtain acts where "st' = st\<lparr>mn_acts := acts\<rparr>" "acts_extend render_act (mn_acts st) acts"
      "Ran (ma_time env) ''/usr/bin/mandoc'' (mandoc_argv ''ascii'' path) raw \<in> set acts"
      "\<forall>b. raw = Some b \<longrightarrow> length b \<le> MAN_MAX_OUTPUT_SIZE"
      using guarded_mandoc [OF _ r(1) mandoc_type_in(2) assms(2,3)] w True by auto
    then show ?thesis using r(2) by (cases raw) (auto simp: man_strip_overstrike_eq)
  next
    case False
    then show ?thesis using assms(1) w man_sem_wait_Inr [OF w] by (auto simp: render_fallback_def intro!: exI [of _ "mn_acts st"])
  qed
qed

lemma render_path_Inr:
  assumes "render_path env format path st = Inr (out, st')" "path \<noteq> []" "hd path = CHR ''/''"
  shows "\<exists>acts. st' = st\<lparr>mn_acts := acts\<rparr> \<and> acts_extend render_act (mn_acts st) acts \<and>
    (\<forall>b. out = Some b \<longrightarrow> (\<exists>ty raw. Ran (ma_time env) ''/usr/bin/mandoc'' (mandoc_argv ty path) (Some raw) \<in> set acts \<and>
       length raw \<le> MAN_MAX_OUTPUT_SIZE \<and>
       (ty = mandoc_type format \<and> b = (if format = ''txt'' then strip_text raw else raw) \<or>
        format = ''md'' \<and> ty = ''ascii'' \<and> b = strip_text raw)))"
proof -
  obtain ok st1 where w: "man_sem_wait env st = Inr (ok, st1)" using assms(1) by (auto simp: render_path_def bindR_Inr_iff)
  show ?thesis
  proof (cases ok)
    case False
    then show ?thesis using assms(1) w man_sem_wait_Inr [OF w] by (auto simp: render_path_def intro!: exI [of _ "mn_acts st"])
  next
    case True
    then obtain out2 st2 where m: "run_mandoc env (mandoc_type format) path st1 = Inr (out2, st2)"
      using assms(1) w by (auto simp: render_path_def bindR_Inr_iff)
    obtain acts2 where a2: "st2 = st\<lparr>mn_acts := acts2\<rparr>" "acts_extend render_act (mn_acts st) acts2"
      "Ran (ma_time env) ''/usr/bin/mandoc'' (mandoc_argv (mandoc_type format) path) out2 \<in> set acts2"
      "\<forall>b. out2 = Some b \<longrightarrow> length b \<le> MAN_MAX_OUTPUT_SIZE"
      using guarded_mandoc [OF _ m mandoc_type_in(1) assms(2,3)] w True by auto
    show ?thesis
    proof (cases "out2 = None \<and> format = ''md''")
      case True
      then have "render_fallback env path st2 = Inr (out, st')" using assms(1) w \<open>ok\<close> m by (simp add: render_path_def)
      from render_fallback_Inr [OF this assms(2,3)] obtain acts where a: "st' = st\<lparr>mn_acts := acts\<rparr>" "acts_extend render_act acts2 acts"
        "\<And>b. out = Some b \<Longrightarrow> \<exists>raw. b = strip_text raw \<and>
           Ran (ma_time env) ''/usr/bin/mandoc'' (mandoc_argv ''ascii'' path) (Some raw) \<in> set acts \<and> length raw \<le> MAN_MAX_OUTPUT_SIZE"
        using a2(1) by auto
      show ?thesis using a(1) acts_extend_trans [OF a2(2) a(2)] a(3) True by blast
    next
      case False
      then have res: "st' = st2" "\<forall>b. out = Some b \<longrightarrow> (\<exists>raw. out2 = Some raw \<and> b = (if format = ''txt'' then strip_text raw else raw))"
        using assms(1) w \<open>ok\<close> m by (auto simp: render_path_def man_strip_overstrike_eq split: option.splits)
      show ?thesis
      proof (intro exI [of _ acts2] conjI allI impI)
        fix b assume "out = Some b"
        then obtain raw where "out2 = Some raw" "b = (if format = ''txt'' then strip_text raw else raw)" using res(2) by blast
        then show "\<exists>ty raw. Ran (ma_time env) ''/usr/bin/mandoc'' (mandoc_argv ty path) (Some raw) \<in> set acts2 \<and>
            length raw \<le> MAN_MAX_OUTPUT_SIZE \<and>
            (ty = mandoc_type format \<and> b = (if format = ''txt'' then strip_text raw else raw) \<or>
             format = ''md'' \<and> ty = ''ascii'' \<and> b = strip_text raw)"
          using a2(3,4) by (intro exI [of _ "mandoc_type format"] exI [of _ raw]) simp
      qed (use a2 res in simp_all)
    qed
  qed
qed

lemma man_render_page_Inr:
  assumes "man_render_page env section page format st0 = Inr (out, st')"
  shows "\<exists>acts. st' = (man_sem_once env st0)\<lparr>mn_acts := acts\<rparr> \<and> acts_extend render_act (mn_acts st0) acts \<and>
    (\<forall>b. out = Some b \<longrightarrow> rendering acts (ma_time env) page format b)"
proof -
  let ?st = "man_sem_once env st0"
  obtain p st1 where res: "(if man_is_valid_section section then man_resolve env page section ?st else Inr (None, ?st)) = Inr (p, st1)"
    using assms by (auto simp: man_render_page_def Let_def bindR_Inr_iff)
  obtain acts1 where a1: "st1 = ?st\<lparr>mn_acts := acts1\<rparr>" "acts_extend render_act (mn_acts st0) acts1"
    and found: "\<And>path. p = Some path \<Longrightarrow> path \<noteq> [] \<and> hd path = CHR ''/'' \<and>
       (\<exists>raw. Ran (ma_time env) ''/usr/bin/man'' (resolve_argv section page) (Some raw) \<in> set acts1 \<and>
          path \<in> set (strtok_all (CHR '' '') (blank_space (c_str raw))))"
  proof (cases "man_is_valid_section section")
    case True
    then have "man_resolve env page section ?st = Inr (p, st1)" using res by simp
    from man_resolve_Inr [OF this] that show thesis by auto
  next
    case False
    then have p: "p = None" "st1 = ?st" using res by simp_all
    have "?st = ?st\<lparr>mn_acts := mn_acts st0\<rparr>" unfolding man_sem_once_same(1) [of env st0, symmetric] by (cases ?st) simp
    then show thesis using that [of "mn_acts st0"] p by simp
  qed
  show ?thesis
  proof (cases p)
    case None
    then show ?thesis using assms res a1 by (auto simp: man_render_page_def Let_def)
  next
    case (Some path)
    note path = found [OF Some]
    have "render_path env format path st1 = Inr (out, st')" using assms res Some path by (simp add: man_render_page_def)
    from render_path_Inr [OF this] path obtain acts where acts: "st' = st1\<lparr>mn_acts := acts\<rparr>" "acts_extend render_act acts1 acts"
      "\<And>b. out = Some b \<Longrightarrow> \<exists>ty raw. Ran (ma_time env) ''/usr/bin/mandoc'' (mandoc_argv ty path) (Some raw) \<in> set acts \<and>
         length raw \<le> MAN_MAX_OUTPUT_SIZE \<and>
         (ty = mandoc_type format \<and> b = (if format = ''txt'' then strip_text raw else raw) \<or> format = ''md'' \<and> ty = ''ascii'' \<and> b = strip_text raw)"
      using a1(1) by auto
    then have "rendering acts (ma_time env) page format b" if "out = Some b" for b
      using path acts(3) [OF that] acts_extend_set [OF acts(2)] unfolding rendering_def by blast
    then show ?thesis using acts(1,2) a1 acts_extend_trans [OF a1(2)] by auto
  qed
qed

lemma probe_loop_Inr:
  assumes "probe_loop env name secs st = Inr (found, st')"
  shows "\<exists>acts. st' = st\<lparr>mn_acts := acts\<rparr> \<and> acts_extend render_act (mn_acts st) acts \<and>
    (\<forall>sec path. found = Some (sec, path) \<longrightarrow> man_is_valid_section sec)"
  using assms
proof (induction secs arbitrary: st)
  case Nil
  then show ?case by (auto intro!: exI [of _ "mn_acts st"])
next
  case (Cons sec secs)
  obtain p st1 where r: "man_resolve env name sec st = Inr (p, st1)" using Cons.prems by (auto simp: bindR_Inr_iff)
  obtain acts1 where a1: "st1 = st\<lparr>mn_acts := acts1\<rparr>" "acts_extend render_act (mn_acts st) acts1"
    "\<And>path. p = Some path \<Longrightarrow> man_is_valid_section sec" using man_resolve_Inr [OF r] by blast
  show ?case
  proof (cases p)
    case None
    then have "probe_loop env name secs st1 = Inr (found, st')" using Cons.prems r by simp
    from Cons.IH [OF this] show ?thesis using a1(1) acts_extend_trans [OF a1(2)] by auto
  next
    case (Some path)
    then show ?thesis using Cons.prems r a1 by auto
  qed
qed

lemma find_section_Inr:
  assumes "find_section env t st = Inr (sec, st')" "man_is_valid_section (mt_section t)"
  shows "\<exists>acts. st' = st\<lparr>mn_acts := acts\<rparr> \<and> acts_extend render_act (mn_acts st) acts \<and>
    (\<forall>section'. sec = Some section' \<longrightarrow> man_is_valid_section section')"
proof -
  obtain p st1 where r: "man_resolve env (mt_page t) (mt_section t) st = Inr (p, st1)"
    using assms(1) by (auto simp: find_section_def bindR_Inr_iff)
  obtain acts1 where a1: "st1 = st\<lparr>mn_acts := acts1\<rparr>" "acts_extend render_act (mn_acts st) acts1" using man_resolve_Inr [OF r] by blast
  show ?thesis
  proof (cases p)
    case None
    then obtain found where probe: "probe_loop env (mt_page t) (filter (\<lambda>sec. sec \<noteq> mt_section t) probe_sections) st1 = Inr (found, st')"
      "sec = map_option (strlcpy 16 \<circ> fst) found" using assms(1) r by (auto simp: find_section_def bindR_Inr_iff)
    have short: "strlcpy 16 s = s" if "man_is_valid_section s" for s
      using valid_section_chars(5) [OF that] by (simp add: strlcpy_short)
    obtain acts2 where a2: "st' = st1\<lparr>mn_acts := acts2\<rparr>" "acts_extend render_act (mn_acts st1) acts2"
      "\<And>s path. found = Some (s, path) \<Longrightarrow> man_is_valid_section s" using probe_loop_Inr [OF probe(1)] by blast
    have "man_is_valid_section section'" if "sec = Some section'" for section'
      using that probe(2) a2(3) short by (cases found) auto
    then show ?thesis using a1(1) a2(1,2) acts_extend_trans [OF a1(2)] by auto
  next
    case (Some path)
    then show ?thesis using assms r a1 by (auto simp: find_section_def)
  qed
qed

section \<open>Files\<close>

lemma mkdir_each_acts:
  "mkdir_each env ds acts = (ok, acts') \<Longrightarrow> acts_extend (\<lambda>a. \<exists>d \<in> set ds. a = Made_dir d) acts acts'"
proof (induction ds arbitrary: acts)
  case (Cons d ds)
  show ?case
  proof (cases "ma_mkdir env d")
    case True
    then have "acts_extend (\<lambda>a. \<exists>d \<in> set ds. a = Made_dir d) (acts @ [Made_dir d]) acts'" using Cons by simp
    then have "acts_extend (\<lambda>a. \<exists>e \<in> set (d # ds). a = Made_dir e) (acts @ [Made_dir d]) acts'" by (rule acts_extend_mono) auto
    moreover have "acts_extend (\<lambda>a. \<exists>e \<in> set (d # ds). a = Made_dir e) acts (acts @ [Made_dir d])" by simp
    ultimately show ?thesis using acts_extend_trans by blast
  qed (use Cons in auto)
qed simp

lemma mkdir_p_acts:
  assumes "mkdir_p env dir sd acts = (ok, acts')" "prefix sd dir" "length dir < 512"
  shows "acts_extend (\<lambda>a. \<exists>d. a = Made_dir d \<and> prefix sd d \<and> prefix d dir) acts acts'"
proof (cases "dir = []")
  case False
  let ?start = "if sd \<noteq> [] \<and> prefix sd dir then (if drop (length sd) dir \<noteq> [] \<and> hd (drop (length sd) dir) = CHR ''/''
      then length sd + 1 else length sd) else 0"
  let ?ds = "map (\<lambda>i. take i dir) (filter (\<lambda>i. dir ! i = CHR ''/'') [?start..<length dir]) @ [dir]"
  have "mkdir_each env ?ds acts = (ok, acts')" using assms(1,3) False by (simp add: mkdir_p_def strlcpy_short Let_def)
  from mkdir_each_acts [OF this] show ?thesis
  proof (rule acts_extend_mono)
    fix a assume "\<exists>d \<in> set ?ds. a = Made_dir d"
    then consider "a = Made_dir dir" | i where "a = Made_dir (take i dir)" "?start \<le> i" by auto
    then have "a = Made_dir dir \<or> (\<exists>i. a = Made_dir (take i dir) \<and> length sd \<le> i)"
      using assms(2) by cases (auto split: if_splits)
    then obtain i where a: "a = Made_dir dir \<or> a = Made_dir (take i dir) \<and> length sd \<le> i" by blast
    have "prefix sd (take i dir)" if "length sd \<le> i" using assms(2) that by (auto simp: prefix_def)
    then show "\<exists>d. a = Made_dir d \<and> prefix sd d \<and> prefix d dir" using a assms(2) take_is_prefix by blast
  qed
qed (use assms in \<open>auto simp: mkdir_p_def\<close>)

lemma write_file_binary_Inr:
  "write_file_binary env path buf st = Inr (rc, st') \<Longrightarrow> st' = st \<or>
    (\<exists>n. st' = st\<lparr>mn_files := (mn_files st)(path \<mapsto> (take n buf, ma_time env)), mn_acts := mn_acts st @ [Wrote_file path]\<rparr>)"
  by (auto simp: write_file_binary_def split: if_splits option.splits)

text \<open>The directory of a page's file, and the last part of its path.\<close>

lemma target_path_dir:
  assumes "target_ok t"
  shows "strrchr (target_path sd t) (CHR ''/'') = Some (length (sd @ ''/man/'' @ mt_area t @ ''/'' @ mt_section t))"
    "take (length (sd @ ''/man/'' @ mt_area t @ ''/'' @ mt_section t)) (target_path sd t) = sd @ ''/man/'' @ mt_area t @ ''/'' @ mt_section t"
proof -
  let ?d = "sd @ ''/man/'' @ mt_area t @ ''/'' @ mt_section t"
  have split: "target_path sd t = ?d @ CHR ''/'' # mt_page t @ ''.'' @ mt_format t" by (simp add: target_path_def cache_abs_def)
  have "CHR ''/'' \<notin> set (mt_page t @ ''.'' @ mt_format t)"
    using assms valid_token_chars [of "mt_page t"] format_facts [of "mt_format t"] by (auto simp: target_ok_def)
  then show "strrchr (target_path sd t) (CHR ''/'') = Some (length ?d)" unfolding split by (rule strrchr_last)
  show "take (length ?d) (target_path sd t) = ?d" unfolding split by (rule append_eq_conv_conj [THEN iffD1, THEN conjunct1, symmetric]) (rule refl)
qed

lemma save_page_Inr:
  assumes "save_page env (target_path (ma_static_dir env) t) body st = Inr st'" "target_ok t"
    "length (target_path (ma_static_dir env) t) < 512"
  shows "mn_cache st' = mn_cache st \<and> acts_extend (page_act (ma_static_dir env)) (mn_acts st) (mn_acts st') \<and>
    (mn_files st' = mn_files st \<or>
     (\<exists>n. mn_files st' = (mn_files st)(target_path (ma_static_dir env) t \<mapsto> (take n body, ma_time env))))"
proof -
  let ?sd = "ma_static_dir env" let ?path = "target_path ?sd t"
  let ?dir = "?sd @ ''/man/'' @ mt_area t @ ''/'' @ mt_section t"
  obtain ok acts where mk: "mkdir_p env ?dir ?sd (mn_acts st) = (ok, acts)" by fastforce
  have len: "length ?dir < 512" using assms(3) by (simp add: target_path_def cache_abs_def)
  have dirs: "acts_extend (page_act ?sd) (mn_acts st) acts"
    by (rule acts_extend_mono [OF mkdir_p_acts [OF mk _ len]]) (use assms(2) in \<open>auto simp: page_act_def target_ok_def\<close>)
  have st': "if ok then \<exists>rc. write_file_binary env ?path body (st\<lparr>mn_acts := acts\<rparr>) = Inr (rc, st') else st' = st\<lparr>mn_acts := acts\<rparr>"
    using assms(1) target_path_dir [OF assms(2), of ?sd] mk
    by (auto simp: save_page_def strlcpy_short [OF assms(3)] bindR_Inr_iff Let_def split: if_splits)
  have "page_act ?sd (Wrote_file ?path)" using assms(2) by (auto simp: page_act_def)
  then show ?thesis using st' dirs
    by (cases ok) (auto dest!: write_file_binary_Inr intro: acts_extend_trans [OF dirs])
qed

section \<open>The invariant of the caches\<close>

text \<open>
  \<open>cached acts t r body\<close>: \<open>body\<close> is what was rendered at time \<open>r\<close> for the page and format of the
  target \<open>t\<close>, or the beginning of it, since a file may have been written only in part.
\<close>

definition cached :: "man_act list \<Rightarrow> man_target \<Rightarrow> int \<Rightarrow> bytes \<Rightarrow> bool" where
  "cached acts t r body \<longleftrightarrow> target_ok t \<and> (\<exists>b. rendering acts r (mt_page t) (mt_format t) b \<and> prefix body b)"

definition caches_ok ::
  "string \<Rightarrow> man_render_slot_t list list \<Rightarrow> (string \<rightharpoonup> bytes \<times> int) \<Rightarrow> man_act list \<Rightarrow> bool" where
  "caches_ok sd cache files acts \<longleftrightarrow> man_cache_inv cache \<and>
     (\<forall>key t body. (key, (t, body)) \<in> man_held cache \<longrightarrow>
        (\<exists>u r. key = target_key u \<and> cached acts u r body \<and> t - r \<le> MAN_FS_CACHE_TTL_SEC)) \<and>
     (\<forall>path body t. files path = Some (body, t) \<longrightarrow> (\<exists>u. path = target_path sd u \<and> cached acts u t body))"

definition man_inv :: "string \<Rightarrow> man_state \<Rightarrow> bool" where
  "man_inv sd st \<longleftrightarrow> caches_ok sd (mn_cache st) (mn_files st) (mn_acts st)"

lemma cached_mono: "cached acts t r body \<Longrightarrow> set acts \<subseteq> set acts' \<Longrightarrow> cached acts' t r body"
  unfolding cached_def using rendering_mono by blast

lemma caches_ok_acts: "caches_ok sd cache files acts \<Longrightarrow> set acts \<subseteq> set acts' \<Longrightarrow> caches_ok sd cache files acts'"
  unfolding caches_ok_def using cached_mono by blast

lemma caches_ok_get:
  "caches_ok sd cache files acts \<Longrightarrow> caches_ok sd (snd (man_render_cache_get cache now ok key)) files acts"
  using man_get_keeps [of cache now ok key] unfolding caches_ok_def by blast

lemma caches_ok_put:
  assumes "caches_ok sd cache files acts" "cached acts t r body" "now - r \<le> MAN_FS_CACHE_TTL_SEC"
  shows "caches_ok sd (man_render_cache_put cache now ok (target_key t) body) files acts"
proof -
  have "strlcpy 192 (target_key t) = target_key t"
    using assms(2) target_key_joined(2) by (intro strlcpy_short) (simp add: cached_def)
  then show ?thesis using man_put_keeps [of cache now ok "target_key t" body] assms unfolding caches_ok_def by fastforce
qed

lemma caches_ok_write:
  assumes "caches_ok sd cache files acts" "cached acts t now body"
  shows "caches_ok sd cache (files(target_path sd t \<mapsto> (take n body, now))) acts"
proof -
  have "cached acts t now (take n body)" using assms(2) take_is_prefix unfolding cached_def by (meson prefix_order.trans)
  then show ?thesis using assms(1) unfolding caches_ok_def by (auto split: if_splits)
qed

text \<open>What comes out of a cache belongs to the target that asked for it.\<close>

lemma cached_hit:
  assumes "caches_ok sd cache files acts" "target_ok t" "fst (man_render_cache_get cache now ok (target_key t)) = Some body"
  shows "\<exists>r. cached acts t r body \<and> now - r \<le> MAN_RENDER_CACHE_TTL + MAN_FS_CACHE_TTL_SEC"
proof -
  have inv: "man_cache_inv cache" using assms(1) by (simp add: caches_ok_def)
  obtain i where hit: "(target_key t, (ms_inserted (cache ! man_render_cache_shard (target_key t) ! i), body)) \<in> man_held cache"
    "now - ms_inserted (cache ! man_render_cache_shard (target_key t) ! i) \<le> MAN_RENDER_CACHE_TTL"
    using man_get_hit [OF assms(3) inv] by blast
  then obtain u r where u: "target_key t = target_key u" "cached acts u r body"
    "ms_inserted (cache ! man_render_cache_shard (target_key t) ! i) - r \<le> MAN_FS_CACHE_TTL_SEC"
    using assms(1) unfolding caches_ok_def by blast
  have "u = t" using target_key_inj [OF u(1) assms(2)] u(2) by (simp add: cached_def)
  then show ?thesis using u hit(2) by (intro exI [of _ r]) simp
qed

lemma cached_file:
  assumes "caches_ok sd cache files acts" "target_ok t" "files (target_path sd t) = Some (body, r)"
  shows "cached acts t r body"
proof -
  obtain u where u: "target_path sd t = target_path sd u" "cached acts u r body" using assms(1,3) unfolding caches_ok_def by blast
  then have "u = t" using target_path_inj [OF u(1) assms(2)] by (simp add: cached_def)
  then show ?thesis using u(2) by simp
qed

section \<open>One request\<close>

lemma build_cache_paths_Some:
  "build_cache_paths env (mt_area t) (mt_section t) (mt_page t) (mt_format t) = Some p \<Longrightarrow>
    p = target_path (ma_static_dir env) t \<and> length p < 512"
  by (auto simp: build_cache_paths_def target_path_def split: if_splits)

text \<open>
  The result of a request for a target: the invariant is kept, only allowed actions were done, and
  a body that is served was rendered at most fifteen minutes ago.
\<close>

definition request_ok :: "man_env \<Rightarrow> man_target \<Rightarrow> man_state \<Rightarrow> man_answer \<Rightarrow> man_state \<Rightarrow> bool" where
  "request_ok env t st answer st' \<longleftrightarrow> man_inv (ma_static_dir env) st' \<and>
     acts_extend (page_act (ma_static_dir env)) (mn_acts st) (mn_acts st') \<and>
     (\<forall>body. answer = Man_body body \<longrightarrow>
        (\<exists>r. cached (mn_acts st') t r body \<and> ma_time env - r \<le> MAN_RENDER_CACHE_TTL + MAN_FS_CACHE_TTL_SEC))"

lemma store_page_ok:
  assumes "store_page env path u body st = Inr st'" "man_inv (ma_static_dir env) st"
    and "cached (mn_acts st) u (ma_time env) body" "cached (mn_acts st) t (ma_time env) body"
    and "\<And>p. path = Some p \<Longrightarrow> p = target_path (ma_static_dir env) t \<and> length p < 512"
  shows "man_inv (ma_static_dir env) st' \<and> acts_extend (page_act (ma_static_dir env)) (mn_acts st) (mn_acts st')"
proof -
  let ?sd = "ma_static_dir env" let ?st = "cache_put env u body st"
  have put: "caches_ok ?sd (mn_cache ?st) (mn_files ?st) (mn_acts st)" "mn_acts ?st = mn_acts st"
    using caches_ok_put [OF _ assms(3)] assms(2) by (simp_all add: cache_put_def man_inv_def MAN_FS_CACHE_TTL_SEC_def)
  show ?thesis
  proof (cases path)
    case None
    then have "st' = ?st" using assms(1) by (simp add: store_page_def)
    then show ?thesis using put by (simp add: man_inv_def)
  next
    case (Some p)
    then have "save_page env (target_path ?sd t) body ?st = Inr st'" "length (target_path ?sd t) < 512"
      using assms(1,5) by (auto simp: store_page_def)
    from save_page_Inr [OF this(1) _ this(2)] assms(4)
    have sp: "mn_cache st' = mn_cache ?st" "acts_extend (page_act ?sd) (mn_acts st) (mn_acts st')"
      "mn_files st' = mn_files ?st \<or> (\<exists>n. mn_files st' = (mn_files ?st)(target_path ?sd t \<mapsto> (take n body, ma_time env)))"
      using put(2) by (auto simp: cached_def)
    then have "caches_ok ?sd (mn_cache st') (mn_files st') (mn_acts st)" using put(1) caches_ok_write [OF put(1) assms(4)] by auto
    then show ?thesis using sp(2) acts_extend_set [OF sp(2)] by (auto simp: man_inv_def intro: caches_ok_acts)
  qed
qed

text \<open>Actions that only run commands leave the caches as they were.\<close>

lemma man_inv_ran:
  assumes "man_inv sd st" "acts_extend render_act (mn_acts st) acts"
    and "mn_cache st' = mn_cache st" "mn_files st' = mn_files st" "mn_acts st' = acts"
  shows "man_inv sd st' \<and> acts_extend (page_act sd) (mn_acts st) (mn_acts st')"
  using assms acts_extend_set [OF assms(2)] acts_extend_mono [OF assms(2) render_act_page]
  by (auto simp: man_inv_def intro: caches_ok_acts)

lemma render_and_store_ok:
  assumes "render_and_store env path t st = Inr (answer, st')" "target_ok t" "man_inv (ma_static_dir env) st"
    and path: "\<And>p. path = Some p \<Longrightarrow> p = target_path (ma_static_dir env) t \<and> length p < 512"
  shows "request_ok env t st answer st'"
proof -
  let ?sd = "ma_static_dir env"
  obtain sec st1 where f: "find_section env t st = Inr (sec, st1)" using assms(1) by (auto simp: render_and_store_def bindR_Inr_iff)
  obtain acts1 where a1: "st1 = st\<lparr>mn_acts := acts1\<rparr>" "acts_extend render_act (mn_acts st) acts1"
    "\<And>section'. sec = Some section' \<Longrightarrow> man_is_valid_section section'"
    using find_section_Inr [OF f] assms(2) by (auto simp: target_ok_def)
  have i1: "man_inv ?sd st1 \<and> acts_extend (page_act ?sd) (mn_acts st) (mn_acts st1)"
    by (rule man_inv_ran [OF assms(3) a1(2)]) (simp_all add: a1(1))
  show ?thesis
  proof (cases sec)
    case None
    then show ?thesis using assms(1) f i1 by (auto simp: render_and_store_def request_ok_def)
  next
    case (Some section')
    obtain out st2 where r: "man_render_page env section' (mt_page t) (mt_format t) st1 = Inr (out, st2)"
      using assms(1) f Some by (auto simp: render_and_store_def bindR_Inr_iff)
    obtain acts2 where a2: "st2 = (man_sem_once env st1)\<lparr>mn_acts := acts2\<rparr>" "acts_extend render_act (mn_acts st1) acts2"
      "\<And>b. out = Some b \<Longrightarrow> rendering acts2 (ma_time env) (mt_page t) (mt_format t) b"
      using man_render_page_Inr [OF r] by auto
    have i2: "man_inv ?sd st2 \<and> acts_extend (page_act ?sd) (mn_acts st1) (mn_acts st2)"
      by (rule man_inv_ran [OF _ a2(2)]) (use i1 in \<open>simp_all add: a2(1)\<close>)
    then have e2: "acts_extend (page_act ?sd) (mn_acts st) (mn_acts st2)" using acts_extend_trans i1 by blast
    show ?thesis
    proof (cases out)
      case None
      then show ?thesis using assms(1) f Some r i2 e2 by (auto simp: render_and_store_def request_ok_def)
    next
      case body: (Some body)
      have c: "cached (mn_acts st2) t (ma_time env) body" "cached (mn_acts st2) (t\<lparr>mt_section := section'\<rparr>) (ma_time env) body"
        using a2(1,3) body assms(2) a1(3) [OF Some] by (auto simp: cached_def target_ok_def)
      have s: "store_page env path (t\<lparr>mt_section := section'\<rparr>) body st2 = Inr st'" "answer = Man_body body"
        using assms(1) f Some r body by (auto simp: render_and_store_def bindR_Inr_iff)
      have i3: "man_inv ?sd st'" "acts_extend (page_act ?sd) (mn_acts st2) (mn_acts st')"
        using store_page_ok [OF s(1) _ c(2,1) path] i2 by blast+
      have "cached (mn_acts st') t (ma_time env) body" using cached_mono [OF c(1) acts_extend_set [OF i3(2)]] .
      then have "\<exists>r. cached (mn_acts st') t r body \<and> ma_time env - r \<le> MAN_RENDER_CACHE_TTL + MAN_FS_CACHE_TTL_SEC"
        by (intro exI [of _ "ma_time env"]) (simp add: MAN_RENDER_CACHE_TTL_def MAN_FS_CACHE_TTL_SEC_def)
      then show ?thesis using s(2) i3 acts_extend_trans [OF e2 i3(2)] by (simp add: request_ok_def)
    qed
  qed
qed

lemma man_page_ok:
  assumes "man_page env t st = Inr (answer, st')" "target_ok t" "man_inv (ma_static_dir env) st"
  shows "request_ok env t st answer st'"
proof -
  let ?sd = "ma_static_dir env"
  let ?path = "build_cache_paths env (mt_area t) (mt_section t) (mt_page t) (mt_format t)"
  obtain hit cache where get: "man_render_cache_get (mn_cache st) (ma_time env) (ma_copy_malloc env) (target_key t) = (hit, cache)" by fastforce
  let ?st1 = "st\<lparr>mn_cache := cache, mn_cache_init := True\<rparr>"
  have ok: "caches_ok ?sd (mn_cache st) (mn_files st) (mn_acts st)" using assms(3) by (simp add: man_inv_def)
  have i1: "man_inv ?sd ?st1"
    using caches_ok_get [OF ok, of "ma_time env" "ma_copy_malloc env" "target_key t"] get by (simp add: man_inv_def)
  show ?thesis
  proof (cases hit)
    case (Some body)
    then have "answer = Man_body body" "st' = ?st1" using assms(1) get by (simp_all add: man_page_def)
    then show ?thesis using cached_hit [OF ok assms(2), of "ma_time env" "ma_copy_malloc env" body] get Some i1
      by (simp add: request_ok_def)
  next
    case None
    show ?thesis
    proof (cases "case ?path of None \<Rightarrow> None | Some p \<Rightarrow> read_cached_page env p ?st1")
      case on_disk: (Some body)
      then obtain p r where p: "?path = Some p" "mn_files st p = Some (body, r)" "ma_time env - r \<le> MAN_FS_CACHE_TTL_SEC"
        by (auto simp: read_cached_page_def split: option.splits if_splits)
      have res: "answer = Man_body body" "st' = cache_put env t body ?st1"
        using assms(1) get None on_disk by (simp_all add: man_page_def)
      have c: "cached (mn_acts st) t r body"
        using cached_file [OF ok assms(2)] p build_cache_paths_Some [OF p(1)] by simp
      have "man_inv ?sd st'" using caches_ok_put [OF _ c p(3)] i1 res by (simp add: man_inv_def cache_put_def)
      then show ?thesis using res c p(3) by (auto simp: request_ok_def cache_put_def MAN_RENDER_CACHE_TTL_def)
    next
      case no_file: None
      then have "render_and_store env ?path t ?st1 = Inr (answer, st')" using assms(1) get None by (simp add: man_page_def)
      from render_and_store_ok [OF this assms(2) i1 build_cache_paths_Some] show ?thesis by (simp add: request_ok_def)
    qed
  qed
qed

lemma man_request_ok:
  assumes "man_request env req st = Inr (answer, st')" "man_inv (ma_static_dir env) st"
  shows "request_ok env (parse_man_url (req_url req)) st answer st'"
proof (cases "target_ok (parse_man_url (req_url req)) \<and> man_page env (parse_man_url (req_url req)) st = Inr (answer, st')")
  case True
  then show ?thesis using man_page_ok assms(2) by blast
next
  case False
  then have "(\<exists>code msg. answer = Man_error code msg) \<and> st' = st"
    using assms(1) parse_man_url_fields [of "req_url req"]
    by (auto simp: man_request_def Let_def target_ok_def split: if_splits)
  then show ?thesis using assms(2) by (auto simp: request_ok_def)
qed

lemma api_resolve_Inr:
  assumes "api_resolve env req st = Inr (json, st')"
  shows "\<exists>acts. st' = st\<lparr>mn_acts := acts\<rparr> \<and> acts_extend render_act (mn_acts st) acts"
proof -
  let ?name = "snd (man_get_query_value (req_url req) ''name'' 64 [])"
  let ?section = "snd (man_get_query_value (req_url req) ''section'' 16 [])"
  consider "st' = st" | p where "man_resolve env ?name ?section st = Inr (p, st')"
    | found where "probe_loop env ?name probe_sections st = Inr (found, st')"
    using assms by (auto simp: api_resolve_def Let_def bindR_Inr_iff split: if_splits)
  then show ?thesis
  proof cases
    case 1
    then show ?thesis by (auto intro: exI [of _ "mn_acts st"])
  qed (blast dest: man_resolve_Inr probe_loop_Inr)+
qed

lemma api_search_Inr:
  assumes "api_search env req path st = Inr (json, st')"
  shows "\<exists>acts. st' = st\<lparr>mn_acts := acts\<rparr> \<and> acts_extend render_act (mn_acts st) acts"
proof -
  consider "st' = st" | q acts where "man_api_search_raw env q (mn_acts st) = Inr (json, acts)" "st' = st\<lparr>mn_acts := acts\<rparr>"
  proof (cases "if 7 < length path \<and> path ! 7 = CHR ''/'' then Some (drop 8 path)
      else (case man_get_query_value (req_url req) ''q'' 256 [] of (True, q) \<Rightarrow> Some q | _ \<Rightarrow> None)")
    case None
    then show thesis using assms that(1) unfolding api_search_def Let_def by simp
  next
    case (Some q)
    then have "st' = st \<or> (\<exists>acts. man_api_search_raw env q (mn_acts st) = Inr (json, acts) \<and> st' = st\<lparr>mn_acts := acts\<rparr>)"
      using assms unfolding api_search_def Let_def Some option.case by (simp add: bindR_Inr_iff split: if_split_asm) blast
    then show thesis using that by blast
  qed
  then show ?thesis
  proof cases
    case 1
    then show ?thesis by (auto intro: exI [of _ "mn_acts st"])
  next
    case 2
    then show ?thesis using acts_extend_mono [OF man_api_search_raw_acts [OF 2(1)]] query_act_render by blast
  qed
qed

lemma man_query_Inr:
  assumes "man_query env req path st = Inr (json, st')"
  shows "\<exists>acts. st' = st\<lparr>mn_acts := acts\<rparr> \<and> acts_extend render_act (mn_acts st) acts"
proof -
  have "st' = st \<or> api_resolve env req st = Inr (json, st') \<or> api_search env req path st = Inr (json, st')"
    using assms unfolding man_query_def by (simp add: bindR_Inr_iff split: if_split_asm)
  then consider "st' = st" | "api_resolve env req st = Inr (json, st')" | "api_search env req path st = Inr (json, st')" by blast
  then show ?thesis
  proof cases
    case 1
    then show ?thesis by (auto intro: exI [of _ "mn_acts st"])
  qed (use api_resolve_Inr api_search_Inr in blast)+
qed

section \<open>Histories\<close>

text \<open>What the server does with the module: requests for pages, queries, and the clean-up at the end.\<close>

datatype man_op =
    Page man_env http_request_t http_ctx
  | Query man_env http_request_t http_ctx
  | Cleanup

fun man_step :: "man_op \<Rightarrow> man_state \<Rightarrow> fault + man_state" where
  "man_step (Page env req hc) st = bindR (man_render_handler env req (st, hc)) (\<lambda>(rc, st', hc'). Inr st')"
| "man_step (Query env req hc) st = bindR (man_api_handler env req (st, hc)) (\<lambda>(rc, st', hc'). Inr st')"
| "man_step Cleanup st = Inr (man_module_cleanup st)"

fun man_run :: "man_op list \<Rightarrow> man_state \<Rightarrow> fault + man_state" where
  "man_run [] st = Inr st"
| "man_run (m # ms) st = bindR (man_step m st) (man_run ms)"

fun op_static_dir :: "string \<Rightarrow> man_op \<Rightarrow> bool" where
  "op_static_dir sd (Page env req hc) \<longleftrightarrow> ma_static_dir env = sd"
| "op_static_dir sd (Query env req hc) \<longleftrightarrow> ma_static_dir env = sd"
| "op_static_dir sd Cleanup \<longleftrightarrow> True"

text \<open>The module at the start of the server, with no page on disk.\<close>

definition man_state0 :: man_state where
  "man_state0 = \<lparr>mn_cache = replicate MAN_RENDER_CACHE_SHARDS (replicate MAN_RENDER_CACHE_SLOTS \<lparr>ms_key = [], ms_body = None, ms_inserted = 0\<rparr>),
     mn_cache_init = False, mn_sem_once = False, mn_sem_init = False, mn_sem = 0, mn_files = Map.empty, mn_acts = []\<rparr>"

lemma man_held_empty: "(\<And>s. s \<in> man_slots cache \<Longrightarrow> ms_body s = None) \<Longrightarrow> man_held cache = {}"
  by (auto simp: man_held_def)

lemma man_state0_cache: "man_cache_inv (mn_cache man_state0)" "man_held (mn_cache man_state0) = {}"
  using man_held_empty [of "mn_cache man_state0"] by (auto simp: man_state0_def man_cache_inv_def man_slots_def)

lemma man_inv_state0: "man_inv sd man_state0"
  using man_state0_cache by (simp add: man_inv_def caches_ok_def) (simp add: man_state0_def)

lemma man_inv_cleanup:
  assumes "man_inv sd st"
  shows "man_inv sd (man_module_cleanup st)"
proof -
  let ?c = "map (map (\<lambda>s. s\<lparr>ms_body := None, ms_key := []\<rparr>)) (mn_cache st)"
  have "man_held ?c = {}" by (rule man_held_empty) (auto simp: man_slots_def)
  moreover have "man_cache_inv ?c" using assms by (auto simp: man_inv_def caches_ok_def man_cache_inv_def man_slots_def)
  ultimately show ?thesis using assms
    by (auto simp: man_module_cleanup_def man_render_cache_cleanup_def man_inv_def caches_ok_def Let_def)
qed

lemma man_render_handler_request:
  assumes "man_render_handler env req (st, hc) = Inr (rc, st', hc')"
  obtains answer where "man_request env req st = Inr (answer, st')"
proof -
  obtain answer st1 where a: "man_request env req st = Inr (answer, st1)" using assms by (auto simp: man_render_handler_def bindR_Inr_iff)
  then have "st1 = st'" using assms by (cases answer) (auto simp: man_render_handler_def split: option.split_asm)
  then show thesis using a that by simp
qed

lemma man_api_handler_acts:
  assumes "man_api_handler env req (st, hc) = Inr (rc, st', hc')"
  shows "\<exists>acts. st' = st\<lparr>mn_acts := acts\<rparr> \<and> acts_extend render_act (mn_acts st) acts"
proof (cases "strstr (req_url req) ''/api/man''")
  case None
  then have "st' = st" using assms by (auto simp: man_api_handler_def split: option.split_asm)
  then show ?thesis by (auto intro: exI [of _ "mn_acts st"])
next
  case (Some i)
  let ?path = "drop (i + length ''/api/man'') (req_url req)"
  obtain json st1 where q: "man_query env req ?path st = Inr (json, st1)" using assms Some
    by (auto simp: man_api_handler_def bindR_Inr_iff Let_def)
  then have "st1 = st'" using assms Some by (auto simp: man_api_handler_def split: option.split_asm)
  then show ?thesis using man_query_Inr [OF q] by simp
qed

lemma man_step_inv:
  assumes "man_step m st = Inr st'" "man_inv sd st" "op_static_dir sd m"
  shows "man_inv sd st' \<and> acts_extend (page_act sd) (mn_acts st) (mn_acts st')"
proof (cases m)
  case (Page env req hc)
  then obtain rc hc' where "man_render_handler env req (st, hc) = Inr (rc, st', hc')" using assms(1) by (auto simp: bindR_Inr_iff)
  then obtain answer where "man_request env req st = Inr (answer, st')" by (rule man_render_handler_request)
  from man_request_ok [OF this] show ?thesis using assms(2,3) Page by (simp add: request_ok_def)
next
  case (Query env req hc)
  then obtain rc hc' where "man_api_handler env req (st, hc) = Inr (rc, st', hc')" using assms(1) by (auto simp: bindR_Inr_iff)
  from man_api_handler_acts [OF this] obtain acts where a: "st' = st\<lparr>mn_acts := acts\<rparr>" "acts_extend render_act (mn_acts st) acts"
    by blast
  show ?thesis by (rule man_inv_ran [OF assms(2) a(2)]) (simp_all add: a(1))
next
  case Cleanup
  then show ?thesis using assms(1) man_inv_cleanup [OF assms(2)]
    by (auto simp: man_module_cleanup_def man_render_cache_cleanup_def Let_def)
qed

lemma man_run_inv:
  "man_run ms st = Inr st' \<Longrightarrow> man_inv sd st \<Longrightarrow> list_all (op_static_dir sd) ms \<Longrightarrow>
    man_inv sd st' \<and> acts_extend (page_act sd) (mn_acts st) (mn_acts st')"
proof (induction ms arbitrary: st)
  case (Cons m ms)
  then obtain st1 where s: "man_step m st = Inr st1" "man_run ms st1 = Inr st'" by (auto simp: bindR_Inr_iff)
  have i: "man_inv sd st1 \<and> acts_extend (page_act sd) (mn_acts st) (mn_acts st1)" using man_step_inv [OF s(1)] Cons.prems by simp
  then have "man_inv sd st' \<and> acts_extend (page_act sd) (mn_acts st1) (mn_acts st')" using Cons.IH [OF s(2)] Cons.prems(3) by simp
  then show ?case using i acts_extend_trans by blast
qed simp

section \<open>Answers\<close>

text \<open>The header lines of an answer with a page.\<close>

definition man_disposition :: "string \<Rightarrow> string \<Rightarrow> string list" where
  "man_disposition format page =
     (if format = ''pdf'' then [''Content-Disposition: inline; filename='' @ [CHR 0x22] @ page @ ''.pdf'' @ [CHR 0x22]]
      else if format = ''md'' \<or> format = ''txt'' then [''Content-Disposition: inline'']
      else if format = ''ps'' then [''Content-Disposition: attachment; filename='' @ [CHR 0x22] @ page @ ''.ps'' @ [CHR 0x22]]
      else [])"

definition man_headers :: "man_target \<Rightarrow> string list" where
  "man_headers t = ''Cache-Control: public, max-age=300'' # man_disposition (mt_format t) (mt_page t)"

lemma man_add_content_disposition_same [simp]:
  "rs_addr (man_add_content_disposition_for_format resp f p) = rs_addr resp"
  "rs_pool_shard_idx (man_add_content_disposition_for_format resp f p) = rs_pool_shard_idx resp"
  "rs_status_code (man_add_content_disposition_for_format resp f p) = rs_status_code resp"
  "rs_content_type (man_add_content_disposition_for_format resp f p) = rs_content_type resp"
  by (simp_all add: man_add_content_disposition_for_format_def http_response_add_header_def Let_def)

lemma man_disposition_headers:
  assumes "rs_headers resp = join_crlf [''Cache-Control: public, max-age=300'']" "length (mt_page t) < 64"
  shows "rs_headers (man_add_content_disposition_for_format resp (mt_format t) (mt_page t)) = join_crlf (man_headers t)"
  using assms by (simp add: man_add_content_disposition_for_format_def man_headers_def man_disposition_def
      http_response_add_header_def snprintf_out_def HEADERS_SIZE_def Let_def)

lemma send_man_page_delivered:
  assumes "can_create hc" "length body < 10 ^ 19" "length (mt_page t) < 64"
  shows "send_man_page req t body hc =
    delivered hc (http_message (req_keep_alive req) 200 (man_mime_for_format (mt_format t)) (man_headers t) body)"
proof -
  have "length (man_mime_for_format (mt_format t)) + length (join_crlf (man_headers t)) < 3900"
    using assms(3) by (simp add: man_mime_for_format_def man_headers_def man_disposition_def)
  then show ?thesis
  proof (rule created_response_delivered [OF assms(1,2), of 200 _ _ req, rotated 2], goal_cases)
    case (1 resp pools)
    let ?r1 = "http_response_add_header (resp\<lparr>rs_content_type := man_mime_for_format (mt_format t)\<rparr>) ''Cache-Control'' ''public, max-age=300''"
    have "rs_headers ?r1 = join_crlf [''Cache-Control: public, max-age=300'']"
      using 1(4) by (simp add: http_response_add_header_def snprintf_out_def HEADERS_SIZE_def)
    note h = man_disposition_headers [OF this assms(3)]
    show ?case unfolding send_man_page_def Let_def 1(1) prod.case option.case
      by (rule 1(5)) (use 1(2) h in \<open>simp_all add: http_response_set_body_def http_response_add_header_def Let_def\<close>)
  qed simp_all
qed

lemma length_strip_text: "length (strip_text s) \<le> length s"
  by (induction s rule: strip_text.induct) (auto split: list.splits)

lemma rendering_length: "rendering acts r page format b \<Longrightarrow> length b \<le> MAN_MAX_OUTPUT_SIZE"
  unfolding rendering_def using length_strip_text by (auto split: if_splits intro: order_trans)

section \<open>The semaphore\<close>

definition sem_fields :: "man_state \<Rightarrow> bool \<times> bool \<times> int" where
  "sem_fields st = (mn_sem_once st, mn_sem_init st, mn_sem st)"

lemma sem_fields_acts [simp]: "sem_fields (st\<lparr>mn_acts := acts\<rparr>) = sem_fields st"
  by (simp add: sem_fields_def)

lemma sem_fields_cache [simp]: "sem_fields (st\<lparr>mn_cache := c, mn_cache_init := b\<rparr>) = sem_fields st"
  by (simp add: sem_fields_def)

lemma sem_fields_put [simp]: "sem_fields (cache_put env t body st) = sem_fields st"
  by (simp add: cache_put_def)

lemma save_page_sem: "save_page env path body st = Inr st' \<Longrightarrow> sem_fields st' = sem_fields st"
  by (auto simp: save_page_def write_file_binary_def bindR_Inr_iff sem_fields_def Let_def split: option.splits if_splits prod.splits)

lemma store_page_sem: "store_page env path t body st = Inr st' \<Longrightarrow> sem_fields st' = sem_fields st"
  by (auto simp: store_page_def split: option.splits dest!: save_page_sem)

lemma render_and_store_sem:
  assumes "render_and_store env path t st = Inr (answer, st')" "man_is_valid_section (mt_section t)"
  shows "sem_fields st' \<in> {sem_fields st, sem_fields (man_sem_once env st)}"
proof -
  obtain sec st1 where f: "find_section env t st = Inr (sec, st1)" using assms(1) by (auto simp: render_and_store_def bindR_Inr_iff)
  obtain acts where a: "st1 = st\<lparr>mn_acts := acts\<rparr>" using find_section_Inr [OF f assms(2)] by blast
  have once: "sem_fields (man_sem_once env st1) = sem_fields (man_sem_once env st)"
    by (simp add: a man_sem_once_def mandoc_semaphore_init_def sem_fields_def Let_def)
  show ?thesis
  proof (cases sec)
    case None
    then show ?thesis using assms(1) f a by (auto simp: render_and_store_def)
  next
    case (Some section')
    then obtain out st2 where r: "man_render_page env section' (mt_page t) (mt_format t) st1 = Inr (out, st2)"
      using assms(1) f by (auto simp: render_and_store_def bindR_Inr_iff)
    then have "sem_fields st2 = sem_fields (man_sem_once env st)" using man_render_page_Inr [OF r] once by auto
    then show ?thesis using assms(1) f Some r
      by (cases out) (auto simp: render_and_store_def bindR_Inr_iff dest!: store_page_sem)
  qed
qed

lemma man_request_sem:
  assumes "man_request env req st = Inr (answer, st')"
  shows "sem_fields st' \<in> {sem_fields st, sem_fields (man_sem_once env st)}"
proof (cases "st' = st")
  case False
  let ?t = "parse_man_url (req_url req)"
  obtain hit cache where get: "man_render_cache_get (mn_cache st) (ma_time env) (ma_copy_malloc env) (target_key ?t) = (hit, cache)" by fastforce
  let ?st = "st\<lparr>mn_cache := cache, mn_cache_init := True\<rparr>"
  have once: "sem_fields (man_sem_once env ?st) = sem_fields (man_sem_once env st)"
    by (simp add: man_sem_once_def mandoc_semaphore_init_def sem_fields_def Let_def)
  have page: "man_page env ?t st = Inr (answer, st')" "man_is_valid_section (mt_section ?t)"
    using assms False by (auto simp: man_request_def Let_def split: if_splits)
  then have "sem_fields st' = sem_fields ?st \<or> (\<exists>path. render_and_store env path ?t ?st = Inr (answer, st'))"
    using get by (auto simp: man_page_def Let_def split: option.splits)
  then show ?thesis using render_and_store_sem [OF _ page(2)] once by force
qed simp

text \<open>All slots are free, and there are as many as some request's configuration gave.\<close>

definition sem_free :: "int set \<Rightarrow> man_state \<Rightarrow> bool" where
  "sem_free T st \<longleftrightarrow> (mn_sem_init st \<longrightarrow> mn_sem_once st \<and> (\<exists>n \<in> T. mn_sem st = min 16 (2 * n)))"

fun op_threads :: "man_op \<Rightarrow> int set" where
  "op_threads (Page env req hc) = {ma_threads env}"
| "op_threads m = {}"

lemma sem_free_cong: "sem_fields st = sem_fields st' \<Longrightarrow> sem_free T st = sem_free T st'"
  by (simp add: sem_free_def sem_fields_def)

lemma sem_free_once: "sem_free T st \<Longrightarrow> ma_threads env \<in> T \<Longrightarrow> sem_free T (man_sem_once env st)"
  by (auto simp: sem_free_def man_sem_once_def mandoc_semaphore_init_def Let_def intro!: bexI [of _ "ma_threads env"])

lemma man_step_sem:
  assumes "man_step m st = Inr st'" "sem_free T st" "op_threads m \<subseteq> T"
  shows "sem_free T st'"
proof (cases m)
  case (Page env req hc)
  then obtain rc hc' where "man_render_handler env req (st, hc) = Inr (rc, st', hc')" using assms(1) by (auto simp: bindR_Inr_iff)
  then obtain answer where "man_request env req st = Inr (answer, st')" by (rule man_render_handler_request)
  from man_request_sem [OF this] show ?thesis using assms(2,3) Page sem_free_once sem_free_cong [of st'] by fastforce
next
  case (Query env req hc)
  then obtain rc hc' where "man_api_handler env req (st, hc) = Inr (rc, st', hc')" using assms(1) by (auto simp: bindR_Inr_iff)
  from man_api_handler_acts [OF this] show ?thesis using assms(2) by (auto simp: sem_free_def)
next
  case Cleanup
  then show ?thesis using assms(1,2) by (auto simp: sem_free_def man_module_cleanup_def man_render_cache_cleanup_def Let_def split: if_splits)
qed

lemma man_run_sem:
  "man_run ms st = Inr st' \<Longrightarrow> sem_free T st \<Longrightarrow> (\<Union>m \<in> set ms. op_threads m) \<subseteq> T \<Longrightarrow> sem_free T st'"
proof (induction ms arbitrary: st)
  case (Cons m ms)
  then obtain st1 where "man_step m st = Inr st1" "man_run ms st1 = Inr st'" by (auto simp: bindR_Inr_iff)
  then show ?case using Cons man_step_sem [of m st st1 T] by auto
qed simp

section \<open>Putting and getting\<close>

abbreviation slot_hit :: "string \<Rightarrow> man_render_slot_t \<Rightarrow> bool" where
  "slot_hit key s \<equiv> ms_body s \<noteq> None \<and> ms_key s = key"

lemma slot_find_first:
  "i < length ss \<Longrightarrow> slot_hit key (ss ! i) \<Longrightarrow> \<forall>j < i. \<not> slot_hit key (ss ! j) \<Longrightarrow> slot_find key ss k = Some (k + i)"
proof (induction ss arbitrary: i k)
  case (Cons s ss)
  show ?case
  proof (cases i)
    case (Suc n)
    then show ?thesis using Cons.IH [of n "k + 1"] Cons.prems by fastforce
  qed (use Cons.prems in auto)
qed simp

lemma slot_scan_first:
  "slot_scan key ss k oldest target \<in> {Same_key i, Place (Some i)} \<Longrightarrow> k \<le> j \<Longrightarrow> j < i \<Longrightarrow> j - k < length ss \<Longrightarrow>
    \<not> slot_hit key (ss ! (j - k))"
proof (induction key ss k oldest target rule: slot_scan.induct)
  case (2 key s ss k oldest target)
  then show ?case by (cases "j = k") (auto simp: nth_Cons' split: if_splits)
qed simp

lemma slot_scan_finds:
  "target \<noteq> None \<or> ss \<noteq> [] \<and> (\<forall>s \<in> set ss. ms_inserted s < oldest) \<Longrightarrow> slot_scan key ss k oldest target \<noteq> Place None"
  by (induction key ss k oldest target rule: slot_scan.induct) auto

lemma man_put_slot:
  assumes "body \<noteq> []" "length key < 192" "cache ! man_render_cache_shard key \<noteq> []"
    and "\<forall>s \<in> set (cache ! man_render_cache_shard key). ms_inserted s \<le> now"
  obtains i where "i < length (cache ! man_render_cache_shard key)"
    "\<forall>j < i. \<not> slot_hit key (cache ! man_render_cache_shard key ! j)"
    "man_render_cache_put cache now True key body = cache[man_render_cache_shard key :=
       (cache ! man_render_cache_shard key)[i := \<lparr>ms_key = key, ms_body = Some body, ms_inserted = now\<rparr>]]"
proof -
  let ?shard = "cache ! man_render_cache_shard key"
  have "slot_scan key ?shard 0 (now + 1) None \<noteq> Place None" using assms(3,4) by (intro slot_scan_finds) auto
  then obtain i where i: "slot_scan key ?shard 0 (now + 1) None \<in> {Same_key i, Place (Some i)}"
    by (cases "slot_scan key ?shard 0 (now + 1) None") auto
  have len: "i < length ?shard" using i by (auto dest!: slot_scan_same slot_scan_place)
  have "\<forall>j < i. \<not> slot_hit key (?shard ! j)" using slot_scan_first [OF i] len by fastforce
  moreover have "(?shard ! i)\<lparr>ms_body := Some body, ms_inserted := now\<rparr> = \<lparr>ms_key = key, ms_body = Some body, ms_inserted = now\<rparr>"
    if "slot_scan key ?shard 0 (now + 1) None = Same_key i" using slot_scan_same [OF that] by (cases "?shard ! i") simp
  ultimately show thesis using len i assms(1,2)
    by (intro that [of i]) (auto simp: man_render_cache_put_def Let_def strlcpy_short)
qed

lemma man_put_get:
  assumes "body \<noteq> []" "length key < 192" "man_render_cache_shard key < length cache" "cache ! man_render_cache_shard key \<noteq> []"
    and "\<forall>s \<in> set (cache ! man_render_cache_shard key). ms_inserted s \<le> now" "now' - now \<le> MAN_RENDER_CACHE_TTL"
  shows "man_render_cache_get (man_render_cache_put cache now True key body) now' True key =
    (Some body, man_render_cache_put cache now True key body)"
proof -
  let ?si = "man_render_cache_shard key" let ?slot = "\<lparr>ms_key = key, ms_body = Some body, ms_inserted = now\<rparr>"
  obtain i where i: "i < length (cache ! ?si)" "\<forall>j < i. \<not> slot_hit key (cache ! ?si ! j)"
    "man_render_cache_put cache now True key body = cache[?si := (cache ! ?si)[i := ?slot]]"
    using man_put_slot [OF assms(1,2,4,5)] .
  have "slot_find key ((cache ! ?si)[i := ?slot]) 0 = Some (0 + i)"
    by (rule slot_find_first) (use i(1,2) in auto)
  then show ?thesis using assms(3,6) i by (simp add: man_render_cache_get_def Let_def)
qed

section \<open>Addresses\<close>

lemma cut_query_suffix:
  assumes "CHR ''?'' \<notin> set base" "query = [] \<or> hd query = CHR ''?''" "length base < n"
  shows "cut_query (strlcpy n (base @ query)) = base"
proof -
  have "strlcpy n (base @ query) = base @ take (n - 1 - length base) query" using assms(3) by (simp add: strlcpy_def)
  then show ?thesis using assms(1,2)
    by (cases query; cases "n - 1 - length base") (auto simp: cut_query_def strchr_append strchr_None_iff [THEN iffD2])
qed

lemma token_chars:
  assumes "target_ok t"
  shows "c \<in> {CHR ''?'', CHR ''/''} \<Longrightarrow> c \<notin> set (mt_section t @ mt_page t @ ''.'' @ mt_format t)" "mt_page t \<noteq> []" "mt_section t \<noteq> []"
    "CHR ''.'' \<notin> set (mt_format t)"
proof -
  have ok: "man_is_valid_section (mt_section t)" "man_is_valid_token (mt_page t)" "mt_format t \<in> set man_formats"
    using assms by (simp_all add: target_ok_def)
  show "mt_page t \<noteq> []" "mt_section t \<noteq> []" using ok by (simp_all add: man_is_valid_token_def man_is_valid_section_def)
  show "CHR ''.'' \<notin> set (mt_format t)" using format_facts [OF ok(3)] by simp
  assume c: "c \<in> {CHR ''?'', CHR ''/''}"
  have "c \<notin> set (mt_section t)"
    using ok(1) c by (cases "mt_section t") (auto simp: man_is_valid_section_def list_all_iff isdigit_def islower_def chr_code_def)
  moreover have "c \<notin> set (mt_page t)"
    using ok(2) c by (auto simp: man_is_valid_token_def list_all_iff isalnum_def isdigit_def isupper_def islower_def chr_code_def)
  moreover have "c \<notin> set (mt_format t)" using ok(3) c by (auto simp: man_formats_def)
  ultimately show "c \<notin> set (mt_section t @ mt_page t @ ''.'' @ mt_format t)" using c by auto
qed

lemma parse_man_url_target:
  assumes "target_ok t" "mt_area t \<noteq> []" "CHR ''?'' \<notin> set (mt_area t)" "query = [] \<or> hd query = CHR ''?''"
  shows "parse_man_url (''/man/'' @ mt_area t @ ''/'' @ mt_section t @ ''/'' @ mt_page t @ ''.'' @ mt_format t @ query) = t"
proof -
  let ?token = "mt_page t @ CHR ''.'' # mt_format t"
  let ?base = "mt_area t @ CHR ''/'' # mt_section t @ CHR ''/'' # ?token"
  have chars: "CHR ''?'' \<notin> set ?base" "CHR ''/'' \<notin> set (mt_area t)" "CHR ''/'' \<notin> set (mt_section t)" "CHR ''/'' \<notin> set ?token"
    using token_chars(1) [OF assms(1), of "CHR ''?''"] token_chars(1) [OF assms(1), of "CHR ''/''"] assms(1,3) by (auto simp: target_ok_def)
  have len: "length (mt_area t) < 32" "length (mt_section t) < 16" "length (mt_page t) < 64" "length (mt_format t) < 16"
    using assms(1) valid_section_chars(5) [of "mt_section t"] format_facts [of "mt_format t"] by (auto simp: target_ok_def)
  have "cut_query (strlcpy 256 (?base @ query)) = ?base" by (rule cut_query_suffix [OF chars(1) assms(4)]) (use len in simp)
  moreover have "strtok_all (CHR ''/'') ?base = [mt_area t, mt_section t, ?token]"
    using chars(2-4) token_chars(3) [OF assms(1)] assms(2) by (simp add: strtok_all_def split_on_append split_on_fresh)
  moreover have "page_token ?token u = u\<lparr>mt_page := mt_page t, mt_format := mt_format t\<rparr>" for u
    using token_chars(2,4) [OF assms(1)] assms(1) len by (simp add: page_token_def strrchr_last Let_def target_ok_def strlcpy_short)
  ultimately show ?thesis using len by (simp add: parse_man_url_def Let_def strlcpy_short)
qed

section \<open>Properties\<close>

text \<open>
  A reader never gets the wrong page or an old one: after any history of page requests, queries and
  clean-ups that began with no page on disk, a page that is served was rendered by \<^verbatim>\<open>mandoc\<close> from the
  file that \<^verbatim>\<open>man -w\<close> named for exactly this page, in exactly this format, at most fifteen minutes
  before (it may be the beginning of it, where a file could not be written to the end), and it arrives as a complete HTTP message with the
  type and the headers of its format. Neither of the two caches confuses two pages.
\<close>

theorem man_page_fresh:
  assumes "man_run ms man_state0 = Inr st" "list_all (op_static_dir (ma_static_dir env)) ms"
    and "man_render_handler env req (st, hc) = Inr (0, st', hc')" "can_create hc"
    and "man_request env req st = Inr (Man_body body, st')" "t = parse_man_url (req_url req)"
  shows "(\<exists>r b. rendering (mn_acts st') r (mt_page t) (mt_format t) b \<and> prefix body b \<and> ma_time env - r \<le> 900) \<and>
    hc_out hc' = hc_out hc @ http_message (req_keep_alive req) 200 (man_mime_for_format (mt_format t)) (man_headers t) body"
proof -
  have "man_inv (ma_static_dir env) st" using man_run_inv [OF assms(1) man_inv_state0 assms(2)] by simp
  from man_request_ok [OF assms(5) this] obtain r b where r: "rendering (mn_acts st') r (mt_page t) (mt_format t) b" "prefix body b"
    "ma_time env - r \<le> 900"
    by (auto simp: request_ok_def cached_def assms(6) MAN_RENDER_CACHE_TTL_def MAN_FS_CACHE_TTL_SEC_def)
  have "length body < 10 ^ 19"
    using rendering_length [OF r(1)] prefix_length_le [OF r(2)] by (simp add: MAN_MAX_OUTPUT_SIZE_def)
  note sent = send_man_page_delivered [OF assms(4) this, of t req]
  have "length (mt_page t) < 64" using parse_man_url_fields assms(6) by simp
  then have "delivered hc (http_message (req_keep_alive req) 200 (man_mime_for_format (mt_format t)) (man_headers t) body) = Some (0, hc')"
    using assms(3,5) sent by (auto simp: man_render_handler_def assms(6) split: option.split_asm)
  then show ?thesis using r delivered_sent by blast
qed

text \<open>
  What the module may do to the system, whatever is asked of it: run \<^verbatim>\<open>man -w\<close> with a section that is a
  digit and letters and a page name without slashes, run \<^verbatim>\<open>apropos\<close> on one such word, run \<^verbatim>\<open>mandoc\<close> on an
  absolute path that \<^verbatim>\<open>man\<close> gave, make the directories of a page below the directory of static files, and write the
  file of a page there. No shell is involved, and no other file or directory is touched.
\<close>

theorem man_effects_confined:
  assumes "man_run ms man_state0 = Inr st" "list_all (op_static_dir sd) ms" "a \<in> set (mn_acts st)"
  shows "page_act sd a"
  using man_run_inv [OF assms(1) man_inv_state0 assms(2)] assms(3)
  by (auto simp: acts_extend_def man_state0_def list_all_iff)

text \<open>
  C39. Slots of the semaphore are never lost: after any history, whatever failed in it, the semaphore that bounds the
  runs of \<^verbatim>\<open>mandoc\<close> is back at its first value, twice the number of threads but at most sixteen.
\<close>

theorem man_semaphore_balanced:
  assumes "man_run ms man_state0 = Inr st" "mn_sem_init st"
  shows "\<exists>env req hc. Page env req hc \<in> set ms \<and> mn_sem st = min 16 (2 * ma_threads env)"
proof -
  let ?T = "\<Union>m \<in> set ms. op_threads m"
  have "sem_free ?T man_state0" by (simp add: sem_free_def man_state0_def)
  from man_run_sem [OF assms(1) this] obtain m n where m: "m \<in> set ms" "n \<in> op_threads m" "mn_sem st = min 16 (2 * n)"
    using assms(2) by (auto simp: sem_free_def)
  show ?thesis by (cases m) (use m in force)+
qed

text \<open>
  The cache of rendered pages is exact: whatever was put in and looked up before, a hit for a page was put in
  for this page in this section, area and format, at most ten minutes before, and comes out unchanged.
\<close>

theorem man_render_cache_exact:
  assumes "fst (man_lookup (cache_run man_store man_lookup (mn_cache man_state0) ops) (now, ok) (target_key t)) = Some (r, body)"
    and "target_ok t" "\<And>key v. (key, v) \<in> stored ops \<Longrightarrow> \<exists>u. target_ok u \<and> key = target_key u"
  shows "(target_key t, (r, body)) \<in> stored ops \<and> now - r \<le> 600 \<and> (\<forall>u. target_ok u \<and> target_key u = target_key t \<longrightarrow> u = t)"
proof -
  obtain key where key: "strlcpy 192 key = target_key t" "(key, (r, body)) \<in> stored ops"
    using man_cache.norm_lookup_was_stored [OF man_state0_cache assms(1)] by blast
  obtain u where "target_ok u" "key = target_key u" using assms(3) [OF key(2)] by blast
  then have "strlcpy 192 key = key" using target_key_joined(2) by (simp add: strlcpy_short)
  moreover have "man_cache_inv (cache_run man_store man_lookup (mn_cache man_state0) ops)"
    using man_cache.norm_holds_run [OF man_state0_cache(1)] by simp
  ultimately show ?thesis
    using key man_lookup_Some(2) [OF assms(1)] target_key_inj assms(2) by (auto simp: MAN_RENDER_CACHE_TTL_def)
qed

text \<open>
  C40. The address of a page is read back: area, section, page and format written into a URL, with or without a query
  after it, are what the handler finds there, and the request goes on to this page.
\<close>

theorem parse_man_url_roundtrip:
  assumes "target_ok t" "mt_area t \<noteq> []" "CHR ''?'' \<notin> set (mt_area t)" "query = [] \<or> hd query = CHR ''?''"
    and "req_url req = ''/man/'' @ mt_area t @ ''/'' @ mt_section t @ ''/'' @ mt_page t @ ''.'' @ mt_format t @ query"
  shows "parse_man_url (req_url req) = t \<and> man_request env req st = man_page env t st"
proof -
  have t: "parse_man_url (req_url req) = t" using parse_man_url_target [OF assms(1-4)] assms(5) by simp
  then show ?thesis using assms(1,5) token_chars(2,3) [OF assms(1)] by (simp add: man_request_def Let_def target_ok_def)
qed

text \<open>
  Overstruck text becomes plain text: a text in which characters are plain, bold (struck twice) or underlined,
  as \<^verbatim>\<open>mandoc\<close> prints it, comes out as its characters.
\<close>

theorem man_strip_overstrike_roundtrip:
  assumes "list_all (\<lambda>(c, f). c \<noteq> NUL \<and> c \<noteq> BS) cs"
  shows "man_strip_overstrike_ascii (concat (map overstrike cs)) = map fst cs"
  by (simp add: man_strip_overstrike_eq strip_text_overstrike [OF assms])

subsection \<open>Witnesses\<close>

text \<open>A request for \<^verbatim>\<open>ls\<close> as plain text, the system it is made to, and the same request a minute later.\<close>

definition man_sample_req :: http_request_t where
  "man_sample_req = \<lparr>req_fd = 5, req_method = ''GET'', req_url = ''/man/system/1/ls.txt'', req_version = ''HTTP/1.1'',
     req_keep_alive = True, req_buffer = [], req_buffer_len = 0, req_client_addr = None\<rparr>"

definition man_sample_http :: http_ctx where
  "man_sample_http = \<lparr>hc_tid = 7, hc_calloc_ok = True, hc_pools = response_pools0,
     hc_registry = \<lparr>routes = [], prefix_routes = []\<rparr>, hc_ws = [Accepts 100000], hc_ps = [], hc_out = []\<rparr>"

definition man_sample_target :: man_target where
  "man_sample_target = \<lparr>mt_area = ''system'', mt_section = ''1'', mt_page = ''ls'', mt_format = ''txt''\<rparr>"

lemma man_sample_ok: "target_ok man_sample_target" "parse_man_url (req_url man_sample_req) = man_sample_target"
  by code_simp+

lemma man_sample_exec:
  assumes "100 \<le> m" "0 < t"
  shows "man_exec man_sample_env path argv m t acts =
    (let out = Some (if hd argv = ''man'' then ''/usr/share/man/man1/ls.1'' else ''LS(1)'') in
     Inr (out, acts @ [Ran 1000 path argv out]))"
  using assms by (simp add: man_exec_def man_sample_env_def safe_popen_read_argv_def Let_def)

lemma man_sample_resolve:
  "man_resolve man_sample_env ''ls'' ''1'' st =
    Inr (Some ''/usr/share/man/man1/ls.1'', st\<lparr>mn_acts := mn_acts st @
      [Ran 1000 ''/usr/bin/man'' (resolve_argv ''1'' ''ls'') (Some ''/usr/share/man/man1/ls.1'')]\<rparr>)"
proof -
  have "man_is_valid_token ''ls''" "man_is_valid_section ''1''"
    "select_resolved_man_path man_sample_env (Some ''/usr/share/man/man1/ls.1'') = Some ''/usr/share/man/man1/ls.1''" by code_simp+
  then show ?thesis by (simp add: man_resolve_def man_resolve_path_def man_sample_exec resolve_argv_def Let_def)
qed

lemma man_sample_render:
  assumes "\<not> mn_sem_once st"
  shows "\<exists>st'. man_render_page man_sample_env ''1'' ''ls'' ''txt'' st = Inr (Some ''LS(1)'', st') \<and>
    mn_cache st' = mn_cache st \<and> mn_sem_init st'"
proof -
  have ok: "man_is_valid_section ''1''" "man_strip_overstrike_ascii ''LS(1)'' = ''LS(1)''" by code_simp+
  have env: "ma_sem_init man_sample_env" "ma_sem_wait man_sample_env n" "ma_threads man_sample_env = 4" for n
    by (simp_all add: man_sample_env_def)
  show ?thesis
    by (simp add: man_render_page_def man_sem_once_def mandoc_semaphore_init_def render_path_def man_sem_wait_def run_mandoc_def
        man_sample_resolve man_sample_exec mandoc_type_def mandoc_argv_def MAN_MAX_OUTPUT_SIZE_def man_sem_post_def ok env assms Let_def)
qed

lemma man_sample_save: "\<exists>st'. save_page man_sample_env p ''LS(1)'' st = Inr st' \<and> mn_cache st' = mn_cache st \<and> mn_sem_init st' = mn_sem_init st"
proof -
  have "write_file_binary man_sample_env p ''LS(1)'' st1 = Inr (0, st1\<lparr>mn_files := (mn_files st1)(p \<mapsto> (''LS(1)'', 1000)),
      mn_acts := mn_acts st1 @ [Wrote_file p]\<rparr>)" for st1
    by (simp add: write_file_binary_def man_sample_env_def)
  then show ?thesis by (auto simp: save_page_def Let_def split: option.split prod.split)
qed

lemma slot_find_empty: "\<forall>s \<in> set ss. ms_body s = None \<Longrightarrow> slot_find key ss k = None"
  by (induction key ss k rule: slot_find.induct) auto

lemma man_state0_get: "man_render_cache_get (mn_cache man_state0) now ok key = (None, mn_cache man_state0)"
  by (simp add: man_render_cache_get_def man_state0_def slot_find_empty Let_def)

lemma man_sample_first:
  "\<exists>st. man_request man_sample_env man_sample_req man_state0 = Inr (Man_body ''LS(1)'', st) \<and>
    mn_cache st = man_render_cache_put (mn_cache man_state0) 1000 True (target_key man_sample_target) ''LS(1)'' \<and> mn_sem_init st"
proof -
  let ?st = "man_state0\<lparr>mn_cache_init := True\<rparr>"
  have req: "prefix ''/man/'' (req_url man_sample_req)" by (simp add: man_sample_req_def)
  have ok: "man_is_valid_token ''ls''" "man_is_valid_section ''1''" "''txt'' \<in> set man_formats" by code_simp+
  have t: "mt_page man_sample_target = ''ls''" "mt_section man_sample_target = ''1''" "mt_format man_sample_target = ''txt''"
    by (simp_all add: man_sample_target_def)
  have env: "ma_time man_sample_env = 1000" "ma_put_malloc man_sample_env" by (simp_all add: man_sample_env_def)
  obtain path where path: "build_cache_paths man_sample_env (mt_area man_sample_target) ''1'' ''ls'' ''txt'' = Some path"
    by (simp add: build_cache_paths_def cache_rel_def cache_abs_def man_sample_target_def man_sample_env_def)
  have page: "man_request man_sample_env man_sample_req man_state0 = render_and_store man_sample_env (Some path) man_sample_target ?st"
    using req ok by (simp add: man_request_def man_sample_ok(2) man_page_def man_state0_get t path read_cached_page_def Let_def)
      (simp add: man_state0_def)
  obtain st1 where f: "find_section man_sample_env man_sample_target ?st = Inr (Some ''1'', st1)" "\<not> mn_sem_once st1"
    "mn_cache st1 = mn_cache man_state0" by (simp add: find_section_def man_sample_resolve t man_state0_def)
  obtain st2 where r: "man_render_page man_sample_env ''1'' ''ls'' ''txt'' st1 = Inr (Some ''LS(1)'', st2)" "mn_cache st2 = mn_cache man_state0"
    "mn_sem_init st2"
    using man_sample_render [OF f(2)] f(3) by auto
  have same: "man_sample_target\<lparr>mt_section := ''1''\<rparr> = man_sample_target" by (simp add: man_sample_target_def)
  show ?thesis
    using man_sample_save [of path "cache_put man_sample_env man_sample_target ''LS(1)'' st2"] r(2,3)
    by (auto simp: page render_and_store_def f(1) t r(1) store_page_def cache_put_def env same)
qed

lemma man_sample_put_get:
  "man_render_cache_get (man_render_cache_put (mn_cache man_state0) 1000 True (target_key man_sample_target) ''LS(1)'') 1060 True
      (target_key man_sample_target) =
    (Some ''LS(1)'', man_render_cache_put (mn_cache man_state0) 1000 True (target_key man_sample_target) ''LS(1)'')"
  by (rule man_put_get)
    (use target_key_joined(2) [OF man_sample_ok(1)] shard_less [of "target_key man_sample_target"] in
      \<open>simp_all add: man_state0_def MAN_RENDER_CACHE_TTL_def MAN_RENDER_CACHE_SLOTS_def\<close>)

lemma man_sample_second:
  assumes "mn_cache st = man_render_cache_put (mn_cache man_state0) 1000 True (target_key man_sample_target) ''LS(1)''"
  shows "\<exists>st'. man_request (man_sample_env\<lparr>ma_time := 1060\<rparr>) man_sample_req st = Inr (Man_body ''LS(1)'', st')"
proof -
  let ?env = "man_sample_env\<lparr>ma_time := 1060\<rparr>"
  have req: "prefix ''/man/'' (req_url man_sample_req)" by (simp add: man_sample_req_def)
  have "ma_time ?env = 1060" "ma_copy_malloc ?env" by (simp_all add: man_sample_env_def)
  then have "\<exists>st'. man_page ?env man_sample_target st = Inr (Man_body ''LS(1)'', st')"
    using man_sample_put_get assms by (simp add: man_page_def)
  then show ?thesis using req token_chars(2,3) [OF man_sample_ok(1)] man_sample_ok(1)
    by (simp add: man_request_def man_sample_ok(2) target_ok_def Let_def)
qed

lemma man_sample_can_create: "can_create man_sample_http"
proof -
  have fresh: "\<not> rp_initialized (response_pools0 ! response_pool_shard_index 7)"
    using response_pool_shard_index_less [of 7] by (simp add: response_pools0_def)
  show ?thesis
    using response_pool_inv_fresh(1) [OF fresh] by (simp add: can_create_def response_pools0_def man_sample_http_def)
qed

lemma man_sample_handler:
  assumes "man_request env req st = Inr (Man_body ''LS(1)'', st')" "req_url req = req_url man_sample_req"
    and "can_create hc" "hc_ws hc = [Accepts 100000]"
  shows "\<exists>hc'. man_render_handler env req (st, hc) = Inr (0, st', hc')"
proof -
  let ?t = man_sample_target
  have "length (mt_page ?t) < 64" by (simp add: man_sample_target_def)
  note sent = send_man_page_delivered [OF assms(3) _ this, of "''LS(1)''" req]
  obtain msg where m: "http_message (req_keep_alive req) 200 (man_mime_for_format (mt_format ?t)) (man_headers ?t) ''LS(1)'' = msg"
    by simp
  have "length msg < 100000" "msg \<noteq> []"
    using length_message_lines [of 200 "length ''LS(1)''" "req_keep_alive req" "man_mime_for_format (mt_format ?t)" "man_headers ?t"]
    by (auto simp: m [symmetric] http_message_def man_headers_def man_disposition_def man_mime_for_format_def man_sample_target_def)
  then have "\<exists>hc'. delivered hc msg = Some (0, hc')"
    using assms(4) by (simp add: delivered_def http_response_write_all_def after_sent_def Let_def)
  then show ?thesis using assms(1,2) sent m by (auto simp: man_render_handler_def man_sample_ok(2))
qed

lemma man_sample_ws: "hc_ws man_sample_http = [Accepts 100000]"
  by (simp add: man_sample_http_def)

lemma man_sample_history:
  obtains st where "man_run [Page man_sample_env man_sample_req man_sample_http] man_state0 = Inr st"
    "man_request man_sample_env man_sample_req man_state0 = Inr (Man_body ''LS(1)'', st)" "mn_sem_init st"
    "mn_cache st = man_render_cache_put (mn_cache man_state0) 1000 True (target_key man_sample_target) ''LS(1)''"
  using man_sample_first man_sample_handler [OF _ refl man_sample_can_create man_sample_ws] by fastforce

theorem man_page_fresh_witness:
  "\<exists>st st' hc'. man_run [Page man_sample_env man_sample_req man_sample_http] man_state0 = Inr st \<and>
    man_render_handler (man_sample_env\<lparr>ma_time := 1060\<rparr>) man_sample_req (st, man_sample_http) = Inr (0, st', hc') \<and>
    (\<exists>r b. rendering (mn_acts st') r ''ls'' ''txt'' b \<and> prefix ''LS(1)'' b \<and> 1060 - r \<le> 900) \<and>
    hc_out hc' = http_message True 200 ''text/plain; charset=utf-8''
      [''Cache-Control: public, max-age=300'', ''Content-Disposition: inline''] ''LS(1)''"
proof -
  let ?env = "man_sample_env\<lparr>ma_time := 1060\<rparr>"
  obtain st where run: "man_run [Page man_sample_env man_sample_req man_sample_http] man_state0 = Inr st"
    and cache: "mn_cache st = man_render_cache_put (mn_cache man_state0) 1000 True (target_key man_sample_target) ''LS(1)''"
    by (rule man_sample_history)
  obtain st' where req: "man_request ?env man_sample_req st = Inr (Man_body ''LS(1)'', st')" using man_sample_second [OF cache] by blast
  obtain hc' where h: "man_render_handler ?env man_sample_req (st, man_sample_http) = Inr (0, st', hc')"
    using man_sample_handler [OF req refl man_sample_can_create man_sample_ws] by blast
  from man_page_fresh [OF run _ h man_sample_can_create req man_sample_ok(2) [symmetric]] run h show ?thesis
    by (auto simp: man_sample_target_def man_sample_http_def man_sample_req_def man_mime_for_format_def man_headers_def man_disposition_def)
qed

theorem man_effects_confined_witness:
  "\<exists>st a. man_run [Page man_sample_env man_sample_req man_sample_http] man_state0 = Inr st \<and> a \<in> set (mn_acts st) \<and>
    page_act ''static'' a"
proof -
  obtain st where run: "man_run [Page man_sample_env man_sample_req man_sample_http] man_state0 = Inr st"
    and req: "man_request man_sample_env man_sample_req man_state0 = Inr (Man_body ''LS(1)'', st)" by (rule man_sample_history)
  obtain a where a: "a \<in> set (mn_acts st)"
    using man_request_ok [OF req man_inv_state0] by (auto simp: request_ok_def cached_def rendering_def)
  have "ma_static_dir man_sample_env = ''static''" by (simp add: man_sample_env_def)
  then show ?thesis using man_effects_confined [OF run _ a, of "''static''"] run a by auto
qed

theorem man_semaphore_balanced_witness:
  "\<exists>st. man_run [Page man_sample_env man_sample_req man_sample_http] man_state0 = Inr st \<and> mn_sem_init st \<and> mn_sem st = 8"
proof -
  obtain st where st: "man_run [Page man_sample_env man_sample_req man_sample_http] man_state0 = Inr st" "mn_sem_init st"
    by (rule man_sample_history)
  then show ?thesis using man_semaphore_balanced [OF st] by (auto simp: man_sample_env_def)
qed

theorem man_render_cache_exact_witness:
  "\<exists>r. fst (man_lookup (cache_run man_store man_lookup (mn_cache man_state0)
      [Store_op (1000, True) (target_key man_sample_target) (1000, ''LS(1)'')]) (1060, True) (target_key man_sample_target)) =
    Some (r, ''LS(1)'') \<and> r = 1000"
proof -
  let ?ops = "[Store_op (1000, True) (target_key man_sample_target) (1000, ''LS(1)'')] :: (int \<times> bool, string, int \<times> bytes) cache_op list"
  obtain r where r: "fst (man_lookup (cache_run man_store man_lookup (mn_cache man_state0) ?ops) (1060, True)
      (target_key man_sample_target)) = Some (r, ''LS(1)'')"
    using man_sample_put_get by (simp add: man_lookup_def man_store_def Let_def)
  from man_render_cache_exact [OF r man_sample_ok(1)] man_sample_ok(1) show ?thesis using r by auto
qed

theorem parse_man_url_roundtrip_witness:
  "parse_man_url ''/man/system/1/ls.txt?raw=1'' = man_sample_target"
  using parse_man_url_roundtrip [OF man_sample_ok(1), of "''?raw=1''" "man_sample_req\<lparr>req_url := ''/man/system/1/ls.txt?raw=1''\<rparr>"]
  by (simp add: man_sample_target_def)

theorem man_strip_overstrike_roundtrip_witness:
  "man_strip_overstrike_ascii [CHR ''L'', BS, CHR ''L'', CHR ''_'', BS, CHR ''s'', CHR ''!''] = ''Ls!''"
  using man_strip_overstrike_roundtrip [of "[(CHR ''L'', Bold), (CHR ''s'', Underlined), (CHR ''!'', Plain)]"]
  by (simp add: BS_def)

subsection \<open>Where the code goes wrong\<close>

text \<open>
  The area of a page is not checked: two dots are an area, and the file of the page lies outside the
  directory \<^verbatim>\<open>man\<close> (though, with a section and a page below it, never outside the directory of static files).
\<close>

lemma man_area_may_be_parent:
  "target_ok (parse_man_url ''/man/../1/ls'') \<and>
    target_path ''static'' (parse_man_url ''/man/../1/ls'') = ''static/man/../1/ls.html''"
  by code_simp

text \<open>A file that could only be written in part stays, and is served for the next five minutes.\<close>

lemma man_partial_file_served:
  assumes "write_file_loop (ma_writes env) 0 (length buf) = Some (False, off)" "0 < off" "buf \<noteq> []" "ma_creat env"
    and "ma_file_open env'" "ma_file_malloc env'" "ma_file_read env'" "ma_time env' - ma_time env \<le> MAN_FS_CACHE_TTL_SEC"
  shows "\<exists>st'. write_file_binary env path buf st = Inr (-1, st') \<and> read_cached_page env' path st' = Some (take off buf)"
  using assms by (simp add: write_file_binary_def read_cached_page_def)

text \<open>When memory runs out after a search found nothing, the empty answer is read through a null pointer.\<close>

lemma man_search_null:
  assumes "2 \<le> length query" "man_is_valid_token query" "\<not> ma_text_strdup env"
    and "man_exec env ''/usr/bin/apropos'' (apropos_argv query) (1024 * 1024) 5 acts = Inr (None, acts')"
  shows "man_api_search_raw env query acts = Inl Null_deref"
  using assms by (simp add: man_api_search_raw_def man_dup_def)

text \<open>The result of reading a parameter is ignored: of a name that is too long, the first 63 bytes are looked up.\<close>

lemma man_long_value_cut:
  "man_get_query_value ''/api/man/resolve?name=abcdefgh'' ''name'' 4 [] = (False, ''abc'')"
  by code_simp

text \<open>A name may begin with a dash and is then an option of \<^verbatim>\<open>man\<close> or \<^verbatim>\<open>apropos\<close>.\<close>

lemma man_name_may_be_option: "man_is_valid_token ''-k''"
  by code_simp

end
