(* ===== verification/Storage.thy ===== *)
theory Storage
  imports World
begin

text \<open>
  The storage facade (\<^verbatim>\<open>src/storage/\<close>): handles of databases with a catalogue of table names in memory.
  No database library stands behind it yet; schema, migrations, transactions and prepared statements
  are stubs with a fixed result. A handle owns four blocks of the C heap, which is explicit here: an
  address is used once, a block that is freed disappears, and an access to an address without a block
  is a fault. The outcomes of the coming allocations are part of the heap.
\<close>

section \<open>Model\<close>

definition MW_MAX_TABLES :: nat where "MW_MAX_TABLES = 32"
definition MW_MAX_TABLE_NAME :: nat where "MW_MAX_TABLE_NAME = 64"

text \<open>A null pointer is \<open>None\<close>; \<open>db_tables\<close> is the whole array of names.\<close>

record mw_db =
  db_path :: "nat option"
  db_url :: "nat option"
  db_name :: "nat option"
  db_flags :: int
  db_tables :: "string list"
  db_table_count :: nat

datatype db_block = Db mw_db | Str string

record db_heap =
  dh_cells :: "nat \<rightharpoonup> db_block"
  dh_next :: nat
  dh_allocs :: "bool list"

definition heap_alloc :: "db_block \<Rightarrow> db_heap \<Rightarrow> nat option \<times> db_heap" where
  "heap_alloc b h =
     (let (ok, rest) = next_alloc (dh_allocs h); h1 = h\<lparr>dh_allocs := rest\<rparr> in
      if ok then (Some (dh_next h), h1\<lparr>dh_cells := (dh_cells h)(dh_next h \<mapsto> b), dh_next := dh_next h + 1\<rparr>)
      else (None, h1))"

definition heap_free :: "nat option \<Rightarrow> db_heap \<Rightarrow> fault + db_heap" where
  "heap_free p h =
     (case p of
        None \<Rightarrow> Inr h
      | Some a \<Rightarrow> if dh_cells h a = None then Inl Double_free else Inr (h\<lparr>dh_cells := (dh_cells h)(a := None)\<rparr>))"

definition db_read :: "nat \<Rightarrow> db_heap \<Rightarrow> fault + mw_db" where
  "db_read a h = (case dh_cells h a of Some (Db d) \<Rightarrow> Inr d | _ \<Rightarrow> Inl Use_after_free)"

definition db_write :: "nat \<Rightarrow> mw_db \<Rightarrow> db_heap \<Rightarrow> db_heap" where
  "db_write a d h = h\<lparr>dh_cells := (dh_cells h)(a \<mapsto> Db d)\<rparr>"

definition zero_db :: mw_db where
  "zero_db = \<lparr>db_path = None, db_url = None, db_name = None, db_flags = 0,
     db_tables = replicate MW_MAX_TABLES [], db_table_count = 0\<rparr>"

text \<open>
  The variable an output parameter points to: \<open>None\<close> for a null output pointer, else what the
  variable holds.
\<close>

type_synonym db_out = "nat option option"

definition mw_db_open :: "string option \<Rightarrow> int \<Rightarrow> db_out \<Rightarrow> db_heap \<Rightarrow> fault + int \<times> db_out \<times> db_heap" where
  "mw_db_open path flags out_db h =
     (case (path, out_db) of
        (Some p, Some old) \<Rightarrow>
          (let (db, h1) = heap_alloc (Db zero_db) h in
           case db of
             None \<Rightarrow> Inr (-1, out_db, h1)
           | Some a \<Rightarrow>
               (let (s, h2) = heap_alloc (Str p) (db_write a (zero_db\<lparr>db_flags := flags\<rparr>) h1) in
                case s of
                  None \<Rightarrow> bindR (heap_free db h2) (\<lambda>h3. Inr (-1, out_db, h3))
                | Some ps \<Rightarrow>
                    Inr (0, Some (Some a), db_write a (zero_db\<lparr>db_flags := flags, db_path := Some ps\<rparr>) h2)))
      | _ \<Rightarrow> Inr (-1, out_db, h))"

definition mw_db_close :: "nat option \<Rightarrow> db_heap \<Rightarrow> fault + db_heap" where
  "mw_db_close db h =
     (case db of
        None \<Rightarrow> Inr h
      | Some a \<Rightarrow>
          bindR (db_read a h) (\<lambda>d.
          bindR (heap_free (db_path d) h) (\<lambda>h1.
          bindR (heap_free (db_url d) h1) (\<lambda>h2.
          bindR (heap_free (db_name d) h2) (\<lambda>h3.
            heap_free (Some a) h3)))))"

definition mw_db_exec_schema :: "nat option \<Rightarrow> string option \<Rightarrow> int" where
  "mw_db_exec_schema db schema_sql = (if db = None \<or> schema_sql = None then -1 else 0)"

definition create_db :: "string option \<Rightarrow> string option \<Rightarrow> db_out \<Rightarrow> db_heap \<Rightarrow> fault + int \<times> db_out \<times> db_heap" where
  "create_db name url out_db h =
     (case (name, url, out_db) of
        (Some n, Some u, Some old) \<Rightarrow>
          bindR (mw_db_open url 0 out_db h) (\<lambda>(rc, out1, h1).
            if rc \<noteq> 0 then Inr (-1, out1, h1)
            else
              (case out1 of
                 Some (Some a) \<Rightarrow>
                   bindR (db_read a h1) (\<lambda>d.
                     let (ns, h2) = heap_alloc (Str n) h1;
                         (us, h3) = heap_alloc (Str u) (db_write a (d\<lparr>db_name := ns\<rparr>) h2);
                         h4 = db_write a (d\<lparr>db_name := ns, db_url := us\<rparr>) h3
                     in if ns = None \<or> us = None
                        then bindR (mw_db_close (Some a) h4) (\<lambda>h5. Inr (-1, Some None, h5))
                        else Inr (0, out1, h4))
               | _ \<Rightarrow> Inl Null_deref))
      | _ \<Rightarrow> Inr (-1, out_db, h))"

text \<open>The loops over the catalogue look at the first \<^verbatim>\<open>table_count\<close> names.\<close>

definition table_known :: "mw_db \<Rightarrow> string \<Rightarrow> bool" where
  "table_known d name \<longleftrightarrow> name \<in> set (take (db_table_count d) (db_tables d))"

definition create_table :: "nat option \<Rightarrow> string option \<Rightarrow> db_heap \<Rightarrow> fault + int \<times> db_heap" where
  "create_table db name h =
     (case (db, name) of
        (Some a, Some n) \<Rightarrow>
          if n = [] then Inr (-1, h)
          else
            bindR (db_read a h) (\<lambda>d.
              if MW_MAX_TABLES \<le> db_table_count d then Inr (-1, h)
              else if table_known d n then Inr (0, h)
              else
                Inr (0, db_write a (d\<lparr>db_tables := (db_tables d)[db_table_count d := strlcpy MW_MAX_TABLE_NAME n],
                                      db_table_count := db_table_count d + 1\<rparr>) h))
      | _ \<Rightarrow> Inr (-1, h))"

text \<open>The result of a retrieval is the return value and the text in the output, if it was written.\<close>

definition retrieve_table ::
  "nat option \<Rightarrow> string option \<Rightarrow> nat \<Rightarrow> bool \<Rightarrow> nat \<Rightarrow> db_heap \<Rightarrow> fault + int \<times> string option" where
  "retrieve_table db name limit out_ok out_sz h =
     (case (db, name) of
        (Some a, Some n) \<Rightarrow>
          if \<not> out_ok \<or> out_sz = 0 then Inr (-1, None)
          else
            bindR (db_read a h) (\<lambda>d.
              if table_known d n
              then Inr (0, Some (snprintf_out out_sz (''table='' @ n @ '' limit='' @ show_nat limit)))
              else Inr (-1, None))
      | _ \<Rightarrow> Inr (-1, None))"

definition retrieve_column ::
  "nat option \<Rightarrow> string option \<Rightarrow> nat \<Rightarrow> bool \<Rightarrow> nat \<Rightarrow> db_heap \<Rightarrow> fault + int \<times> string option" where
  "retrieve_column db tbl limit out_ok out_sz h =
     (case (db, tbl) of
        (Some a, Some n) \<Rightarrow>
          if \<not> out_ok \<or> out_sz = 0 then Inr (-1, None)
          else
            bindR (db_read a h) (\<lambda>d.
              if table_known d n
              then Inr (0, Some (snprintf_out out_sz (''table='' @ n @ '' column=* limit='' @ show_nat limit)))
              else Inr (-1, None))
      | _ \<Rightarrow> Inr (-1, None))"

subsection \<open>Stubs\<close>

record mw_migration =
  mg_version :: int
  mg_sql :: "string option"

definition mw_db_migrate :: "nat option \<Rightarrow> mw_migration list \<Rightarrow> nat \<Rightarrow> int" where
  "mw_db_migrate db migrations cnt = 0"

definition mw_tx_begin :: "nat option \<Rightarrow> int" where "mw_tx_begin db = 0"
definition mw_tx_commit :: "nat option \<Rightarrow> int" where "mw_tx_commit db = 0"
definition mw_tx_rollback :: "nat option \<Rightarrow> int" where "mw_tx_rollback db = 0"

text \<open>No statement can ever be prepared, so that the functions on statements have no statement to work on.\<close>

definition mw_stmt_prepare :: "nat option \<Rightarrow> string option \<Rightarrow> db_out \<Rightarrow> int \<times> db_out" where
  "mw_stmt_prepare db sql out_stmt = (-1, out_stmt)"

definition mw_bind_text :: "nat option \<Rightarrow> int \<Rightarrow> string option \<Rightarrow> int" where "mw_bind_text stmt idx val = -1"
definition mw_bind_int64 :: "nat option \<Rightarrow> int \<Rightarrow> int \<Rightarrow> int" where "mw_bind_int64 stmt idx val = -1"
definition mw_bind_null :: "nat option \<Rightarrow> int \<Rightarrow> int" where "mw_bind_null stmt idx = -1"
definition mw_stmt_step :: "nat option \<Rightarrow> int" where "mw_stmt_step stmt = -1"

section \<open>The heap\<close>

text \<open>Addresses that were not given out yet hold nothing.\<close>

definition heap_ok :: "db_heap \<Rightarrow> bool" where
  "heap_ok h \<longleftrightarrow> (\<forall>a. dh_next h \<le> a \<longrightarrow> dh_cells h a = None)"

lemma heap_okD: "heap_ok h \<Longrightarrow> dh_next h \<le> a \<Longrightarrow> dh_cells h a = None"
  by (simp add: heap_ok_def)

lemma heap_alloc_cases:
  assumes "heap_alloc b h = (p, h')" "heap_ok h"
  obtains (no) "p = None" "dh_cells h' = dh_cells h" "dh_next h' = dh_next h" "heap_ok h'"
  | (yes) "p = Some (dh_next h)" "dh_cells h' = (dh_cells h)(dh_next h \<mapsto> b)" "dh_next h' = dh_next h + 1" "heap_ok h'"
proof (cases "fst (next_alloc (dh_allocs h))")
  case True
  then show thesis using assms yes by (auto simp: heap_alloc_def heap_ok_def Let_def split: prod.splits)
next
  case False
  then show thesis using assms no by (auto simp: heap_alloc_def heap_ok_def Let_def split: prod.splits)
qed

lemma db_write_simps [simp]:
  "dh_cells (db_write a d h) = (dh_cells h)(a \<mapsto> Db d)" "dh_next (db_write a d h) = dh_next h"
  by (simp_all add: db_write_def)

lemma heap_ok_write: "heap_ok h \<Longrightarrow> a < dh_next h \<Longrightarrow> heap_ok (db_write a d h)"
  by (auto simp: heap_ok_def)

lemma db_read_Db: "dh_cells h a = Some (Db d) \<Longrightarrow> db_read a h = Inr d"
  by (simp add: db_read_def)

lemma mw_db_open_cases:
  assumes "heap_ok h"
  obtains (bad) h' where "mw_db_open (Some path) flags (Some old) h = Inr (-1, Some old, h')" "dh_cells h' = dh_cells h"
  | (good) h' where "mw_db_open (Some path) flags (Some old) h = Inr (0, Some (Some (dh_next h)), h')"
    "dh_cells h' = (dh_cells h)(dh_next h + 1 \<mapsto> Str path, dh_next h \<mapsto> Db (zero_db\<lparr>db_flags := flags, db_path := Some (dh_next h + 1)\<rparr>))"
    "dh_next h' = dh_next h + 2" "heap_ok h'"
proof -
  obtain p1 h1 where a1: "heap_alloc (Db zero_db) h = (p1, h1)" by fastforce
  show thesis
  proof (cases rule: heap_alloc_cases [OF a1 assms])
    case 1
    then show thesis using bad [of h1] a1 by (simp add: mw_db_open_def)
  next
    case 2
    let ?a = "dh_next h" let ?h1 = "db_write ?a (zero_db\<lparr>db_flags := flags\<rparr>) h1"
    have ok1: "heap_ok ?h1" using 2 by (intro heap_ok_write) auto
    obtain p2 h2 where a2: "heap_alloc (Str path) ?h1 = (p2, h2)" by fastforce
    show thesis
    proof (cases rule: heap_alloc_cases [OF a2 ok1])
      case no: 1
      then have "heap_free (Some ?a) h2 = Inr (h2\<lparr>dh_cells := (dh_cells h2)(?a := None)\<rparr>)" by (simp add: heap_free_def)
      then show thesis using bad [of "h2\<lparr>dh_cells := (dh_cells h2)(?a := None)\<rparr>"] a1 a2 2 no heap_okD [OF assms, of ?a]
        by (auto simp: mw_db_open_def fun_upd_idem)
    next
      case yes: 2
      let ?d = "zero_db\<lparr>db_flags := flags, db_path := Some (?a + 1)\<rparr>"
      have "heap_ok (db_write ?a ?d h2)" using yes 2 by (intro heap_ok_write) auto
      then show thesis using good [of "db_write ?a ?d h2"] a1 a2 2 yes by (simp add: mw_db_open_def)
    qed
  qed
qed

text \<open>The blocks of a handle: itself, its path, its address and its name, each at its own place.\<close>

definition db_strings :: "mw_db \<Rightarrow> nat list" where
  "db_strings d = List.map_filter id [db_path d, db_url d, db_name d]"

definition db_owns :: "db_heap \<Rightarrow> nat \<Rightarrow> mw_db \<Rightarrow> bool" where
  "db_owns h a d \<longleftrightarrow> dh_cells h a = Some (Db d) \<and>
     distinct (a # db_strings d) \<and> (\<forall>b \<in> set (db_strings d). dh_cells h b \<noteq> None)"

definition db_blocks :: "nat \<Rightarrow> mw_db \<Rightarrow> nat set" where
  "db_blocks a d = insert a (set (db_strings d))"

lemma mw_db_close_owned:
  assumes "db_owns h a d"
  shows "\<exists>h'. mw_db_close (Some a) h = Inr h' \<and> dh_cells h' = dh_cells h |` (- db_blocks a d)"
  using assms
  by (cases "db_path d"; cases "db_url d"; cases "db_name d")
    (auto simp: mw_db_close_def db_read_def heap_free_def db_owns_def db_blocks_def db_strings_def List.map_filter_def restrict_map_def)

lemma create_db_cases:
  assumes "heap_ok h"
  obtains (bad) out h' where "create_db (Some name) (Some url) (Some old) h = Inr (-1, Some out, h')" "out \<in> {old, None}"
    "dh_cells h' = dh_cells h"
  | (good) d h' where "create_db (Some name) (Some url) (Some old) h = Inr (0, Some (Some (dh_next h)), h')"
    "db_owns h' (dh_next h) d" "db_tables d = replicate MW_MAX_TABLES []" "db_table_count d = 0"
    "dh_cells h = dh_cells h' |` (- db_blocks (dh_next h) d)"
proof -
  let ?a = "dh_next h"
  show thesis
  proof (cases rule: mw_db_open_cases [OF assms, of url 0 old])
    case (1 h1)
    then show thesis using bad [of old h1] by (simp add: create_db_def)
  next
    case (2 h1)
    let ?d = "zero_db\<lparr>db_flags := 0, db_path := Some (?a + 1)\<rparr>"
    have read: "db_read ?a h1 = Inr ?d" using 2 by (simp add: db_read_def)
    obtain ns h2 where a2: "heap_alloc (Str name) h1 = (ns, h2)" by fastforce
    obtain us h3 where a3: "heap_alloc (Str url) (db_write ?a (?d\<lparr>db_name := ns\<rparr>) h2) = (us, h3)" by fastforce
    let ?d4 = "?d\<lparr>db_name := ns, db_url := us\<rparr>" let ?h4 = "db_write ?a ?d4 h3"
    have fresh: "dh_cells h x = None" if "?a \<le> x" for x using heap_okD [OF assms that] .
    have ok2: "heap_ok (db_write ?a (?d\<lparr>db_name := ns\<rparr>) h2)"
      by (cases rule: heap_alloc_cases [OF a2 2(4)]) (use 2 in \<open>auto intro!: heap_ok_write\<close>)
    have own: "db_owns ?h4 ?a ?d4 \<and> dh_cells h = dh_cells ?h4 |` (- db_blocks ?a ?d4)"
      by (cases rule: heap_alloc_cases [OF a2 2(4)]; cases rule: heap_alloc_cases [OF a3 ok2])
        (use 2 fresh in \<open>auto simp: db_owns_def db_blocks_def db_strings_def List.map_filter_def restrict_map_def fun_eq_iff\<close>)
    have run: "create_db (Some name) (Some url) (Some old) h =
        (if ns = None \<or> us = None then bindR (mw_db_close (Some ?a) ?h4) (\<lambda>h5. Inr (-1, Some None, h5)) else Inr (0, Some (Some ?a), ?h4))"
      using 2(1) read a2 a3 by (simp add: create_db_def Let_def)
    show thesis
    proof (cases "ns = None \<or> us = None")
      case True
      then show thesis using mw_db_close_owned [OF own [THEN conjunct1]] own run bad by auto
    next
      case False
      then have "create_db (Some name) (Some url) (Some old) h = Inr (0, Some (Some ?a), ?h4)" using run by auto
      then show thesis by (rule good) (use own in \<open>simp_all add: zero_db_def\<close>)
    qed
  qed
qed

section \<open>The catalogue\<close>

text \<open>
  What a catalogue promises: a list of names without repetition, to which a new name is added as long
  as there is room.
\<close>

definition catalogue_add :: "string \<Rightarrow> string list \<Rightarrow> int \<times> string list" where
  "catalogue_add n names =
     (if n = [] \<or> MW_MAX_TABLES \<le> length names then (-1, names)
      else if n \<in> set names then (0, names) else (0, names @ [n]))"

definition catalogue :: "mw_db \<Rightarrow> string list" where
  "catalogue d = take (db_table_count d) (db_tables d)"

definition catalogue_ok :: "mw_db \<Rightarrow> bool" where
  "catalogue_ok d \<longleftrightarrow> length (db_tables d) = MW_MAX_TABLES \<and> db_table_count d \<le> MW_MAX_TABLES \<and> distinct (catalogue d)"

fun catalogue_run :: "string list \<Rightarrow> string list \<Rightarrow> int list \<times> string list" where
  "catalogue_run [] names = ([], names)"
| "catalogue_run (n # ns) names =
     (let (rc, names') = catalogue_add n names; (rcs, names'') = catalogue_run ns names' in (rc # rcs, names''))"

fun create_tables :: "nat \<Rightarrow> string list \<Rightarrow> db_heap \<Rightarrow> fault + int list \<times> db_heap" where
  "create_tables a [] h = Inr ([], h)"
| "create_tables a (n # ns) h =
     bindR (create_table (Some a) (Some n) h) (\<lambda>(rc, h1).
     bindR (create_tables a ns h1) (\<lambda>(rcs, h2). Inr (rc # rcs, h2)))"

lemma create_table_refines:
  assumes "dh_cells h a = Some (Db d)" "catalogue_ok d" "length n < MW_MAX_TABLE_NAME"
  shows "\<exists>d' h'. create_table (Some a) (Some n) h = Inr (fst (catalogue_add n (catalogue d)), h') \<and>
    dh_cells h' = (dh_cells h)(a \<mapsto> Db d') \<and> catalogue_ok d' \<and> catalogue d' = snd (catalogue_add n (catalogue d)) \<and>
    db_strings d' = db_strings d"
proof -
  have len: "length (catalogue d) = db_table_count d" using assms(2) by (simp add: catalogue_def catalogue_ok_def)
  have read: "db_read a h = Inr d" using assms(1) by (simp add: db_read_def)
  show ?thesis
  proof (cases "n = [] \<or> MW_MAX_TABLES \<le> db_table_count d \<or> n \<in> set (catalogue d)")
    case True
    then have "\<exists>rc. create_table (Some a) (Some n) h = Inr (rc, h) \<and> catalogue_add n (catalogue d) = (rc, catalogue d)"
      using read len by (auto simp: create_table_def table_known_def catalogue_add_def catalogue_def [symmetric])
    then show ?thesis using assms(1,2) by (intro exI [of _ d] exI [of _ h]) (auto simp: fun_upd_idem)
  next
    case False
    let ?d = "d\<lparr>db_tables := (db_tables d)[db_table_count d := n], db_table_count := db_table_count d + 1\<rparr>"
    have "create_table (Some a) (Some n) h = Inr (0, db_write a ?d h)"
      using False read assms(3) by (simp add: create_table_def table_known_def catalogue_def [symmetric] strlcpy_short)
    moreover have "catalogue_add n (catalogue d) = (0, catalogue d @ [n])" using False len by (simp add: catalogue_add_def)
    moreover have cat: "catalogue ?d = catalogue d @ [n]"
      using False assms(2) by (simp add: catalogue_def catalogue_ok_def take_Suc_conv_app_nth)
    moreover have "catalogue_ok ?d" using assms(2) False cat by (simp add: catalogue_ok_def)
    ultimately show ?thesis by (intro exI [of _ ?d] exI [of _ "db_write a ?d h"]) (simp add: db_strings_def)
  qed
qed

lemma create_tables_refines:
  assumes "dh_cells h a = Some (Db d)" "catalogue_ok d" "\<forall>n \<in> set ns. length n < MW_MAX_TABLE_NAME"
  shows "\<exists>d' h'. create_tables a ns h = Inr (fst (catalogue_run ns (catalogue d)), h') \<and> dh_cells h' = (dh_cells h)(a \<mapsto> Db d') \<and>
    catalogue_ok d' \<and> catalogue d' = snd (catalogue_run ns (catalogue d)) \<and> db_strings d' = db_strings d"
  using assms
proof (induction ns arbitrary: h d)
  case Nil
  then show ?case by (intro exI [of _ d]) (simp add: fun_upd_idem)
next
  case (Cons n ns)
  obtain rc names where add: "catalogue_add n (catalogue d) = (rc, names)" by fastforce
  obtain d1 h1 where 1: "create_table (Some a) (Some n) h = Inr (rc, h1)" "dh_cells h1 = (dh_cells h)(a \<mapsto> Db d1)"
    "catalogue_ok d1" "catalogue d1 = names" "db_strings d1 = db_strings d"
    using create_table_refines [OF Cons.prems(1,2), of n] Cons.prems(3) add by auto
  obtain d2 h2 where 2: "create_tables a ns h1 = Inr (fst (catalogue_run ns names), h2)" "dh_cells h2 = (dh_cells h1)(a \<mapsto> Db d2)"
    "catalogue_ok d2" "catalogue d2 = snd (catalogue_run ns names)" "db_strings d2 = db_strings d1"
    using Cons.IH [of h1 d1] 1(2,3) Cons.prems(3) unfolding 1(4) by (metis fun_upd_same list.set_intros(2))
  show ?case using 1 2 add by (intro exI [of _ d2] exI [of _ h2]) (simp split: prod.split)
qed

lemma retrieve_table_known:
  "dh_cells h a = Some (Db d) \<Longrightarrow> 0 < out_sz \<Longrightarrow>
    retrieve_table (Some a) (Some n) limit True out_sz h =
      Inr (if n \<in> set (catalogue d) then (0, Some (snprintf_out out_sz (''table='' @ n @ '' limit='' @ show_nat limit))) else (-1, None))"
  by (simp add: retrieve_table_def db_read_def table_known_def catalogue_def)

lemma db_owns_update:
  assumes "db_owns h a d" "dh_cells h' = (dh_cells h)(a \<mapsto> Db d')" "db_strings d' = db_strings d"
  shows "db_owns h' a d' \<and> dh_cells h' |` (- db_blocks a d') = dh_cells h |` (- db_blocks a d)"
  using assms by (auto simp: db_owns_def db_blocks_def restrict_map_def fun_eq_iff)

section \<open>Properties\<close>

text \<open>
  C26. The life of a database handle. However many of the allocations fail, \<^verbatim>\<open>create_db\<close> either fails and
  leaves nothing on the heap behind, or gives a handle; then, for any sequence of names that fit, the calls of
  \<^verbatim>\<open>create_table\<close> answer as the abstract catalogue does, \<^verbatim>\<open>retrieve_table\<close> finds exactly the names in
  it, and \<^verbatim>\<open>mw_db_close\<close> frees each block of the handle once and nothing else.
\<close>

theorem storage_session_refines:
  assumes "heap_ok h" "\<forall>n \<in> set ns. length n < MW_MAX_TABLE_NAME"
  shows "(\<exists>out h'. create_db (Some name) (Some url) (Some old) h = Inr (-1, Some out, h') \<and> out \<in> {old, None} \<and> dh_cells h' = dh_cells h) \<or>
    (\<exists>a h1 h2 h3. create_db (Some name) (Some url) (Some old) h = Inr (0, Some (Some a), h1) \<and>
       create_tables a ns h1 = Inr (fst (catalogue_run ns []), h2) \<and>
       (\<forall>n limit sz. 0 < sz \<longrightarrow> retrieve_table (Some a) (Some n) limit True sz h2 =
          Inr (if n \<in> set (snd (catalogue_run ns [])) then (0, Some (snprintf_out sz (''table='' @ n @ '' limit='' @ show_nat limit)))
               else (-1, None))) \<and>
       mw_db_close (Some a) h2 = Inr h3 \<and> dh_cells h3 = dh_cells h)"
proof (cases rule: create_db_cases [OF assms(1), of name url old])
  case (1 out h')
  then show ?thesis by blast
next
  case (2 d h1)
  let ?a = "dh_next h"
  have cat: "catalogue_ok d" "catalogue d = []" "dh_cells h1 ?a = Some (Db d)"
    using 2 by (simp_all add: catalogue_ok_def catalogue_def db_owns_def)
  obtain d2 h2 where r: "create_tables ?a ns h1 = Inr (fst (catalogue_run ns []), h2)" "dh_cells h2 = (dh_cells h1)(?a \<mapsto> Db d2)"
    "catalogue d2 = snd (catalogue_run ns [])" "db_strings d2 = db_strings d"
    using create_tables_refines [OF cat(3,1) assms(2)] cat(2) by auto
  note own = db_owns_update [OF 2(2) r(2,4)]
  obtain h3 where "mw_db_close (Some ?a) h2 = Inr h3" "dh_cells h3 = dh_cells h"
    using mw_db_close_owned [OF own [THEN conjunct1]] own 2(5) by auto
  moreover have "retrieve_table (Some ?a) (Some n) limit True sz h2 =
      Inr (if n \<in> set (snd (catalogue_run ns [])) then (0, Some (snprintf_out sz (''table='' @ n @ '' limit='' @ show_nat limit)))
           else (-1, None))" if "0 < sz" for n limit sz
    using retrieve_table_known [of h2 ?a d2 sz n limit] r(2,3) that by simp
  ultimately show ?thesis using 2(1) r(1) by blast
qed

text \<open>A session with two tables, one created twice, in which every allocation succeeds.\<close>

theorem storage_session_refines_witness:
  "\<exists>a h1 h2 h3. create_db (Some ''main'') (Some ''./test.db'') (Some None) \<lparr>dh_cells = Map.empty, dh_next = 1, dh_allocs = []\<rparr> =
      Inr (0, Some (Some a), h1) \<and>
    create_tables a [''metrics'', ''hosts'', ''metrics''] h1 = Inr ([0, 0, 0], h2) \<and>
    retrieve_table (Some a) (Some ''metrics'') 10 True 128 h2 = Inr (0, Some ''table=metrics limit=10'') \<and>
    mw_db_close (Some a) h2 = Inr h3 \<and> dh_cells h3 = Map.empty"
proof -
  let ?h = "\<lparr>dh_cells = Map.empty, dh_next = 1, dh_allocs = []\<rparr> :: db_heap"
  let ?ns = "[''metrics'', ''hosts'', ''metrics'']"
  have "heap_ok ?h" "\<forall>n \<in> set ?ns. length n < MW_MAX_TABLE_NAME" by (simp_all add: heap_ok_def MW_MAX_TABLE_NAME_def)
  note session = storage_session_refines [OF this, of "''main''" "''./test.db''" None]
  have run: "catalogue_run ?ns [] = ([0, 0, 0], [''metrics'', ''hosts''])" by code_simp
  have line: "snprintf_out 128 (''table='' @ ''metrics'' @ '' limit='' @ show_nat 10) = ''table=metrics limit=10''" by code_simp
  have "\<exists>h'. create_db (Some ''main'') (Some ''./test.db'') (Some None) ?h = Inr (0, Some (Some 1), h')"
    by (simp add: create_db_def mw_db_open_def heap_alloc_def db_read_def db_write_def Let_def)
  then obtain a h1 h2 h3 where "create_db (Some ''main'') (Some ''./test.db'') (Some None) ?h = Inr (0, Some (Some a), h1)"
    "create_tables a ?ns h1 = Inr ([0, 0, 0], h2)" "mw_db_close (Some a) h2 = Inr h3" "dh_cells h3 = Map.empty"
    "\<And>n limit sz. 0 < sz \<Longrightarrow> retrieve_table (Some a) (Some n) limit True sz h2 =
      Inr (if n \<in> {''metrics'', ''hosts''} then (0, Some (snprintf_out sz (''table='' @ n @ '' limit='' @ show_nat limit))) else (-1, None))"
    using session unfolding run by auto
  then show ?thesis using line by (intro exI [of _ a] exI [of _ h1] exI [of _ h2] exI [of _ h3]) simp
qed

subsection \<open>Where the code goes wrong\<close>

text \<open>
  A name of 64 bytes or more is cut when it is stored and compared in full: the call reports success, the
  table is not found, and every further call takes another place.
\<close>

lemma long_table_lost:
  assumes "dh_cells h a = Some (Db d)" "catalogue_ok d" "db_table_count d < MW_MAX_TABLES" "MW_MAX_TABLE_NAME \<le> length n"
    and "\<forall>m \<in> set (catalogue d). length m < MW_MAX_TABLE_NAME" "0 < sz"
  shows "\<exists>h'. create_table (Some a) (Some n) h = Inr (0, h') \<and> retrieve_table (Some a) (Some n) limit True sz h' = Inr (-1, None)"
proof -
  let ?d = "d\<lparr>db_tables := (db_tables d)[db_table_count d := strlcpy MW_MAX_TABLE_NAME n], db_table_count := db_table_count d + 1\<rparr>"
  have new: "n \<notin> set (catalogue d)" "n \<noteq> []" using assms(4,5) by (force simp: MW_MAX_TABLE_NAME_def)+
  have cut: "length (strlcpy MW_MAX_TABLE_NAME n) < length n" using assms(4) by (simp add: strlcpy_def MW_MAX_TABLE_NAME_def)
  have "catalogue ?d = catalogue d @ [strlcpy MW_MAX_TABLE_NAME n]"
    using assms(2,3) by (simp add: catalogue_def catalogue_ok_def take_Suc_conv_app_nth)
  then have "n \<notin> set (catalogue ?d)" using new cut by auto
  moreover have "create_table (Some a) (Some n) h = Inr (0, db_write a ?d h)"
    using new assms(1,3) by (simp add: create_table_def table_known_def catalogue_def [symmetric] db_read_def)
  ultimately show ?thesis using retrieve_table_known [of "db_write a ?d h" a ?d sz n limit] assms(6) by simp
qed

text \<open>A table that exists is refused once the catalogue is full: the number is tested before the name.\<close>

lemma full_catalogue_refuses_known:
  "dh_cells h a = Some (Db d) \<Longrightarrow> db_table_count d = MW_MAX_TABLES \<Longrightarrow> create_table (Some a) (Some n) h = Inr (-1, h)"
  by (simp add: create_table_def db_read_def)

end
