(* ===== verification/Log.thy ===== *)
theory Log
  imports World
begin

text \<open>
  The log (\<^verbatim>\<open>src/core/log.c\<close>): where the lines go, and which of them are written. A line is written under
  a mutex, so that it is one step. The state holds the streams that are open, what was written to each
  of them, and the two globals of the code. The time stamp, the formatted message and the text of
  \<^verbatim>\<open>errno\<close> are arguments: what \<^verbatim>\<open>strftime\<close>, \<^verbatim>\<open>vfprintf\<close> and \<^verbatim>\<open>strerror\<close> make of theirs.
\<close>

section \<open>Model\<close>

datatype log_dest = Stderr | Logfile nat

record log_state =
  lg_fp :: "log_dest option"
  lg_verbose :: bool
  lg_open :: "nat list"
  lg_next :: nat
  lg_text :: "log_dest \<Rightarrow> string"

definition log_state0 :: log_state where
  "log_state0 = \<lparr>lg_fp = None, lg_verbose = False, lg_open = [], lg_next = 0, lg_text = (\<lambda>d. [])\<rparr>"

definition log_put :: "log_dest \<Rightarrow> string \<Rightarrow> log_state \<Rightarrow> fault + log_state" where
  "log_put d s st =
     (case d of
        Logfile f \<Rightarrow> if f \<in> set (lg_open st) then Inr (st\<lparr>lg_text := (lg_text st)(d := lg_text st d @ s)\<rparr>) else Inl Use_after_free
      | Stderr \<Rightarrow> Inr (st\<lparr>lg_text := (lg_text st)(d := lg_text st d @ s)\<rparr>))"

definition log_init :: "string option \<Rightarrow> bool \<Rightarrow> bool \<Rightarrow> string \<Rightarrow> log_state \<Rightarrow> fault + int \<times> log_state" where
  "log_init path verbose fopen_ok err st =
     (let st1 = st\<lparr>lg_verbose := verbose\<rparr> in
      case path of
        Some (c # cs) \<Rightarrow>
          if fopen_ok
          then Inr (0, st1\<lparr>lg_fp := Some (Logfile (lg_next st)), lg_open := lg_next st # lg_open st, lg_next := lg_next st + 1\<rparr>)
          else bindR (log_put Stderr (''log_init: cannot open log file '' @ [CHR 0x27] @ (c # cs) @ [CHR 0x27] @ '': '' @ err @ [CHR 0x0A])
                        (st1\<lparr>lg_fp := None\<rparr>)) (\<lambda>st2. Inr (-1, st2))
      | _ \<Rightarrow> Inr (0, st1\<lparr>lg_fp := Some Stderr\<rparr>))"

definition log_close :: "log_state \<Rightarrow> fault + log_state" where
  "log_close st =
     (case lg_fp st of
        Some (Logfile f) \<Rightarrow>
          if f \<in> set (lg_open st) then Inr (st\<lparr>lg_open := removeAll f (lg_open st), lg_fp := None\<rparr>) else Inl Double_free
      | _ \<Rightarrow> Inr (st\<lparr>lg_fp := None\<rparr>))"

definition log_set_verbose :: "bool \<Rightarrow> log_state \<Rightarrow> log_state" where
  "log_set_verbose verbose st = st\<lparr>lg_verbose := verbose\<rparr>"

definition log_line :: "string \<Rightarrow> string \<Rightarrow> string \<Rightarrow> string" where
  "log_line level ts msg = ''['' @ ts @ ''] ['' @ level @ ''] '' @ msg @ [CHR 0x0A]"

definition log_write :: "string \<Rightarrow> string \<Rightarrow> string \<Rightarrow> log_state \<Rightarrow> fault + log_state" where
  "log_write level ts msg st =
     (let fp = (case lg_fp st of Some d \<Rightarrow> d | None \<Rightarrow> Stderr) in log_put fp (log_line level ts msg) st)"

definition log_info :: "string \<Rightarrow> string \<Rightarrow> log_state \<Rightarrow> fault + log_state" where
  "log_info ts msg st = log_write ''INFO'' ts msg st"

definition log_debug :: "string \<Rightarrow> string \<Rightarrow> log_state \<Rightarrow> fault + log_state" where
  "log_debug ts msg st = (if \<not> lg_verbose st then Inr st else log_write ''DEBUG'' ts msg st)"

definition log_error :: "string \<Rightarrow> string \<Rightarrow> log_state \<Rightarrow> fault + log_state" where
  "log_error ts msg st = log_write ''ERROR'' ts msg st"

definition log_errno :: "string \<Rightarrow> string \<Rightarrow> string \<Rightarrow> log_state \<Rightarrow> fault + log_state" where
  "log_errno ts ctxt err st = log_error ts (ctxt @ '': '' @ err) st"

section \<open>Histories\<close>

datatype log_op =
    Log_init "string option" bool bool string
  | Log_close
  | Log_verbose bool
  | Log_info string string
  | Log_debug string string
  | Log_error string string
  | Log_errno string string string

fun log_step :: "log_op \<Rightarrow> log_state \<Rightarrow> fault + log_state" where
  "log_step (Log_init path verbose ok err) st = bindR (log_init path verbose ok err st) (\<lambda>(rc, st'). Inr st')"
| "log_step Log_close st = log_close st"
| "log_step (Log_verbose b) st = Inr (log_set_verbose b st)"
| "log_step (Log_info ts msg) st = log_info ts msg st"
| "log_step (Log_debug ts msg) st = log_debug ts msg st"
| "log_step (Log_error ts msg) st = log_error ts msg st"
| "log_step (Log_errno ts ctxt err) st = log_errno ts ctxt err st"

fun log_run :: "log_op list \<Rightarrow> log_state \<Rightarrow> fault + log_state" where
  "log_run [] st = Inr st"
| "log_run (m # ms) st = bindR (log_step m st) (log_run ms)"

text \<open>
  What a log promises, without streams: files are numbered as they are opened, a line goes to the file
  opened last, or to the standard error after a close, and debug lines count only in the verbose mode.
\<close>

record log_view =
  lv_dest :: log_dest
  lv_verbose :: bool
  lv_files :: nat
  lv_lines :: "(log_dest \<times> string) list"

definition view_line :: "string \<Rightarrow> log_view \<Rightarrow> log_view" where
  "view_line s v = v\<lparr>lv_lines := lv_lines v @ [(lv_dest v, s)]\<rparr>"

fun view_step :: "log_op \<Rightarrow> log_view \<Rightarrow> log_view" where
  "view_step (Log_init path verbose ok err) v =
     (case path of
        Some (c # cs) \<Rightarrow>
          if ok then v\<lparr>lv_verbose := verbose, lv_dest := Logfile (lv_files v), lv_files := lv_files v + 1\<rparr>
          else view_line (''log_init: cannot open log file '' @ [CHR 0x27] @ (c # cs) @ [CHR 0x27] @ '': '' @ err @ [CHR 0x0A])
                 (v\<lparr>lv_verbose := verbose, lv_dest := Stderr\<rparr>)
      | _ \<Rightarrow> v\<lparr>lv_verbose := verbose, lv_dest := Stderr\<rparr>)"
| "view_step Log_close v = v\<lparr>lv_dest := Stderr\<rparr>"
| "view_step (Log_verbose b) v = v\<lparr>lv_verbose := b\<rparr>"
| "view_step (Log_info ts msg) v = view_line (log_line ''INFO'' ts msg) v"
| "view_step (Log_debug ts msg) v = (if lv_verbose v then view_line (log_line ''DEBUG'' ts msg) v else v)"
| "view_step (Log_error ts msg) v = view_line (log_line ''ERROR'' ts msg) v"
| "view_step (Log_errno ts ctxt err) v = view_line (log_line ''ERROR'' ts (ctxt @ '': '' @ err)) v"

definition log_view0 :: log_view where
  "log_view0 = \<lparr>lv_dest = Stderr, lv_verbose = False, lv_files = 0, lv_lines = []\<rparr>"

definition log_rel :: "log_state \<Rightarrow> log_view \<Rightarrow> bool" where
  "log_rel st v \<longleftrightarrow> lv_dest v = (case lg_fp st of Some d \<Rightarrow> d | None \<Rightarrow> Stderr) \<and> lv_verbose v = lg_verbose st \<and> lv_files v = lg_next st \<and>
     (\<forall>f. lg_fp st = Some (Logfile f) \<longrightarrow> f \<in> set (lg_open st)) \<and> (\<forall>f \<in> set (lg_open st). f < lg_next st) \<and>
     (\<forall>d. lg_text st d = concat (map snd (filter (\<lambda>p. fst p = d) (lv_lines v))))"

lemma log_put_rel:
  assumes "log_rel st v"
  shows "\<exists>st'. log_put (lv_dest v) s st = Inr st' \<and> log_rel st' (view_line s v)"
proof -
  let ?st = "st\<lparr>lg_text := (lg_text st)(lv_dest v := lg_text st (lv_dest v) @ s)\<rparr>"
  have "log_put (lv_dest v) s st = Inr ?st"
    using assms by (auto simp: log_put_def log_rel_def split: log_dest.splits option.splits)
  moreover have "log_rel ?st (view_line s v)" using assms by (auto simp: log_rel_def view_line_def)
  ultimately show ?thesis by blast
qed

lemma log_write_rel:
  assumes "log_rel st v"
  shows "\<exists>st'. log_write level ts msg st = Inr st' \<and> log_rel st' (view_line (log_line level ts msg) v)"
  using log_put_rel [OF assms] assms by (simp add: log_write_def log_rel_def)

lemma log_init_rel:
  assumes "log_rel st v"
  shows "\<exists>rc st'. log_init path verbose ok err st = Inr (rc, st') \<and> log_rel st' (view_step (Log_init path verbose ok err) v)"
proof (cases "path = None \<or> path = Some []")
  case True
  then have "log_init path verbose ok err st = Inr (0, st\<lparr>lg_verbose := verbose, lg_fp := Some Stderr\<rparr>)"
    "view_step (Log_init path verbose ok err) v = v\<lparr>lv_verbose := verbose, lv_dest := Stderr\<rparr>"
    by (auto simp: log_init_def)
  moreover have "log_rel (st\<lparr>lg_verbose := verbose, lg_fp := Some Stderr\<rparr>) (v\<lparr>lv_verbose := verbose, lv_dest := Stderr\<rparr>)"
    using assms by (auto simp: log_rel_def)
  ultimately show ?thesis by simp
next
  case False
  then obtain c cs where path: "path = Some (c # cs)" by (cases path; cases "the path") auto
  show ?thesis
  proof (cases ok)
    case True
    then show ?thesis using assms path by (auto simp: log_init_def log_rel_def)
  next
    case no: False
    have "log_rel (st\<lparr>lg_verbose := verbose, lg_fp := None\<rparr>) (v\<lparr>lv_verbose := verbose, lv_dest := Stderr\<rparr>)"
      using assms by (auto simp: log_rel_def)
    from log_put_rel [OF this, of "''log_init: cannot open log file '' @ [CHR 0x27] @ (c # cs) @ [CHR 0x27] @ '': '' @ err @ [CHR 0x0A]"]
    show ?thesis using path no by (auto simp: log_init_def)
  qed
qed

lemma log_step_rel:
  assumes "log_rel st v"
  shows "\<exists>st'. log_step m st = Inr st' \<and> log_rel st' (view_step m v)"
proof (cases m)
  case (Log_init path verbose ok err)
  then show ?thesis using log_init_rel [OF assms, of path verbose ok err] by auto
next
  case Log_close
  then show ?thesis using assms by (auto simp: log_close_def log_rel_def split: option.splits log_dest.splits)
next
  case (Log_debug ts msg)
  then show ?thesis using log_write_rel [OF assms] assms by (auto simp: log_debug_def log_rel_def)
qed (use assms log_write_rel [OF assms] in \<open>auto simp: log_set_verbose_def log_info_def log_error_def log_errno_def log_rel_def\<close>)

lemma log_run_rel: "log_rel st v \<Longrightarrow> \<exists>st'. log_run ms st = Inr st' \<and> log_rel st' (fold view_step ms v)"
proof (induction ms arbitrary: st v)
  case (Cons m ms)
  then show ?case using log_step_rel [OF Cons.prems, of m] by fastforce
qed simp

section \<open>Properties\<close>

text \<open>
  C27. The log is safe and exact: whatever sequence of opening, closing, changing the mode and writing, no line is written to a
  closed stream and no stream is closed twice; and what a destination holds in the end is, in order, the lines that were meant
  for it, whole, with the debug lines of the verbose periods only.
\<close>

theorem log_lines_exact:
  "\<exists>st. log_run ms log_state0 = Inr st \<and>
    (\<forall>d. lg_text st d = concat (map snd (filter (\<lambda>p. fst p = d) (lv_lines (fold view_step ms log_view0)))))"
  using log_run_rel [of log_state0 log_view0 ms] by (auto simp: log_rel_def log_state0_def log_view0_def)

text \<open>Opening a second file forgets the first one, which stays open.\<close>

lemma log_init_leaks:
  "bindR (log_init (Some ''a.log'') False True [] log_state0) (\<lambda>(rc, st1).
   bindR (log_init (Some ''b.log'') False True [] st1) (\<lambda>(rc, st2).
   bindR (log_close st2) (\<lambda>st3. Inr (lg_open st3, lg_fp st3)))) = Inr ([0], None)"
  by (simp add: log_init_def log_close_def log_state0_def)

end
