(* ===== verification/Security.thy ===== *)
theory Security
  imports Conf Log
begin

text \<open>
  The sandbox (\<^verbatim>\<open>src/platform/openbsd/security.c\<close>). Beside the calls of the code this theory has the part of \<^verbatim>\<open>unveil\<close>
  and \<^verbatim>\<open>pledge\<close> that their manual pages document: a rule per place of the file system, the rule of the deepest place above a
  file decides, rules can be made stricter but not laxer, and a call without arguments ends the changes. How the kernel turns
  a path name into a place is the parameter \<open>namei\<close>; a place is the list of the names on the way from the root.
\<close>

section \<open>Model\<close>

record sandbox =
  sb_rules :: "(string list \<times> string) list"
  sb_locked :: bool
  sb_promises :: "string option"

definition sandbox0 :: sandbox where
  "sandbox0 = \<lparr>sb_rules = [], sb_locked = False, sb_promises = None\<rparr>"

definition unveil :: "(string \<Rightarrow> string list option) \<Rightarrow> string \<Rightarrow> string \<Rightarrow> sandbox \<Rightarrow> int \<times> sandbox" where
  "unveil namei path permissions sb =
     (case namei path of
        None \<Rightarrow> (-1, sb)
      | Some node \<Rightarrow>
          if sb_locked sb \<or> (\<exists>old \<in> set_option (map_of (sb_rules sb) node). \<not> set permissions \<subseteq> set old) then (-1, sb)
          else (0, sb\<lparr>sb_rules := (node, permissions) # sb_rules sb\<rparr>))"

definition unveil_end :: "sandbox \<Rightarrow> sandbox" where
  "unveil_end sb = sb\<lparr>sb_locked := True\<rparr>"

definition pledge :: "bool \<Rightarrow> string \<Rightarrow> sandbox \<Rightarrow> int \<times> sandbox" where
  "pledge ok promises sb = (if ok then (0, sb\<lparr>sb_promises := Some promises\<rparr>) else (-1, sb))"

fun unveil_lookup :: "(string list \<times> string) list \<Rightarrow> nat \<Rightarrow> string list \<Rightarrow> string option" where
  "unveil_lookup rules 0 node = map_of rules []"
| "unveil_lookup rules (Suc n) node =
     (case map_of rules (take (Suc n) node) of Some p \<Rightarrow> Some p | None \<Rightarrow> unveil_lookup rules n node)"

text \<open>A process that has not called \<^verbatim>\<open>unveil\<close> sees everything.\<close>

definition permits :: "sandbox \<Rightarrow> char \<Rightarrow> string list \<Rightarrow> bool" where
  "permits sb c node \<longleftrightarrow> sb_rules sb = [] \<or>
     (case unveil_lookup (sb_rules sb) (length node) node of Some p \<Rightarrow> c \<in> set p | None \<Rightarrow> False)"

definition security_paths :: "miniweb_conf_t \<Rightarrow> (string \<times> string) list" where
  "security_paths config =
     [(''/etc'', ''r''), (''/usr/share/man'', ''r''), (''/usr/X11R6/man'', ''r''), (''/usr/local/man'', ''r''),
      (''/usr/local/share/man'', ''r''), (cf_static_dir config, ''rwc''), (cf_templates_dir config, ''r''), (''/tmp'', ''rwc''),
      (''/dev'', ''r''), (''/var/run'', ''r''), (''/var/db/pkg'', ''r''), (''/usr/local'', ''r''), (''/usr/bin'', ''rx''),
      (''/usr/sbin'', ''rx''), (''/bin'', ''rx''), (''/sbin'', ''rx''), (''/usr/local/bin'', ''rx''), (''/etc/passwd'', ''r''),
      (''/etc/group'', ''r''), (''/etc/resolv.conf'', ''r'')]"

definition security_promises :: string where
  "security_promises = ''stdio rpath wpath cpath inet route proc exec vminfo ps getpw''"

definition unveil_all :: "(string \<Rightarrow> string list option) \<Rightarrow> (string \<times> string) list \<Rightarrow> sandbox \<Rightarrow> sandbox" where
  "unveil_all namei ps sb = fold (\<lambda>(path, permissions) s. snd (unveil namei path permissions s)) ps sb"

definition miniweb_apply_openbsd_security ::
  "bool \<Rightarrow> (string \<Rightarrow> string list option) \<Rightarrow> bool \<Rightarrow> string \<Rightarrow> string \<Rightarrow> miniweb_conf_t \<Rightarrow> sandbox \<times> log_state \<Rightarrow>
    fault + sandbox \<times> log_state" where
  "miniweb_apply_openbsd_security openbsd namei pledge_ok ts err config = (\<lambda>(sb, lg).
     if openbsd
     then (let sb1 = unveil_end (unveil_all namei (security_paths config) sb);
               (rc, sb2) = pledge pledge_ok security_promises sb1
           in if rc = -1
              then bindR (log_errno ts ''pledge'' err lg) (\<lambda>lg1.
                   bindR (log_error ts ''Continuing without pledge...'' lg1) (\<lambda>lg2. Inr (sb2, lg2)))
              else if cf_verbose config \<noteq> 0
              then bindR (log_debug ts (''Pledge promises set: '' @ security_promises) lg) (\<lambda>lg1. Inr (sb2, lg1))
              else Inr (sb2, lg))
     else if cf_verbose config \<noteq> 0
     then bindR (log_debug ts ''OpenBSD security features disabled on this platform.'' lg) (\<lambda>lg1. Inr (sb, lg1))
     else Inr (sb, lg))"

section \<open>Rules\<close>

lemma unveil_lookup_rule:
  "unveil_lookup rules n node = Some p \<Longrightarrow> \<exists>r. (r, p) \<in> set rules \<and> prefix r node"
  by (induction n) (auto split: option.splits dest!: map_of_SomeD intro: take_is_prefix)

lemma unveil_all_Cons [simp]: "unveil_all namei ((d, p) # ps) sb = unveil_all namei ps (snd (unveil namei d p sb))"
  by (simp add: unveil_all_def)

lemma unveil_all_Nil [simp]: "unveil_all namei [] sb = sb"
  by (simp add: unveil_all_def)

lemma unveil_keeps [simp]: "sb_locked (snd (unveil namei d p sb)) = sb_locked sb"
  by (simp add: unveil_def split: option.split)

lemma unveil_rules:
  "set (sb_rules sb) \<subseteq> set (sb_rules (snd (unveil namei d p sb)))"
  "(r, q) \<in> set (sb_rules (snd (unveil namei d p sb))) \<Longrightarrow> (r, q) \<in> set (sb_rules sb) \<or> q = p \<and> namei d = Some r"
  by (auto simp: unveil_def split: option.splits if_splits)

lemma unveil_all_rules:
  "(r, q) \<in> set (sb_rules (unveil_all namei ps sb)) \<Longrightarrow> (r, q) \<in> set (sb_rules sb) \<or> (\<exists>d. (d, q) \<in> set ps \<and> namei d = Some r)"
proof (induction ps arbitrary: sb)
  case (Cons x ps)
  obtain d p where "x = (d, p)" by fastforce
  then show ?case using Cons.IH [of "snd (unveil namei d p sb)"] Cons.prems unveil_rules(2) [of r q namei d p sb] by auto
qed simp

text \<open>A place that is named with one set of permissions only has these in the end.\<close>

lemma unveil_all_unique:
  assumes "(d, p) \<in> set ps \<and> namei d = Some r \<or> map_of (sb_rules sb) r = Some p"
    and "\<And>d' p'. (d', p') \<in> set ps \<Longrightarrow> namei d' = Some r \<Longrightarrow> p' = p"
    and "map_of (sb_rules sb) r \<in> {None, Some p}" "\<not> sb_locked sb"
  shows "map_of (sb_rules (unveil_all namei ps sb)) r = Some p"
  using assms
proof (induction ps arbitrary: sb)
  case (Cons x ps)
  obtain e q where x: "x = (e, q)" by fastforce
  let ?sb = "snd (unveil namei e q sb)"
  have q: "namei e = Some r \<Longrightarrow> q = p" using Cons.prems(2) [of e q] x by simp
  have kept: "map_of (sb_rules ?sb) r = (if namei e = Some r then Some p else map_of (sb_rules sb) r)"
    using q Cons.prems(3,4) by (auto simp: unveil_def split: option.splits)
  have "map_of (sb_rules (unveil_all namei ps ?sb)) r = Some p"
  proof (rule Cons.IH)
    show "(d, p) \<in> set ps \<and> namei d = Some r \<or> map_of (sb_rules ?sb) r = Some p"
      using Cons.prems(1) x kept by auto
    show "p' = p" if "(d', p') \<in> set ps" "namei d' = Some r" for d' p' using Cons.prems(2) [of d' p'] that by simp
    show "map_of (sb_rules ?sb) r \<in> {None, Some p}" "\<not> sb_locked ?sb" using Cons.prems(3,4) kept by simp_all
  qed
  then show ?case using x by simp
qed simp

lemma permits_below:
  assumes "map_of (sb_rules sb) r = Some p" "\<And>r' p'. (r', p') \<in> set (sb_rules sb) \<Longrightarrow> prefix r r' \<Longrightarrow> r' = r"
  shows "permits sb c (r @ xs) \<longleftrightarrow> c \<in> set p"
proof -
  have "unveil_lookup (sb_rules sb) (length r + n) (r @ xs) = Some p" if "n \<le> length xs" for n
    using that
  proof (induction n)
    case 0
    then show ?case using assms(1) by (cases "length r") auto
  next
    case (Suc n)
    show ?case
    proof (cases "map_of (sb_rules sb) (take (Suc (length r + n)) (r @ xs))")
      case None
      then show ?thesis using Suc by simp
    next
      case (Some p')
      then have "r @ take (Suc n) xs = r" using assms(2) [of "r @ take (Suc n) xs" p'] by (auto dest!: map_of_SomeD)
      then show ?thesis using Suc.prems by simp
    qed
  qed
  from this [of "length xs"] assms(1) show ?thesis by (auto simp: permits_def)
qed

section \<open>The sandbox of the server\<close>

text \<open>The names on the way to an absolute path without links.\<close>

definition path_nodes :: "string \<Rightarrow> string list" where
  "path_nodes path = filter (\<lambda>x. x \<noteq> []) (split_on (CHR ''/'') path)"

definition exec_dirs :: "string list" where
  "exec_dirs = [''/usr/bin'', ''/usr/sbin'', ''/bin'', ''/sbin'', ''/usr/local/bin'']"

definition system_dirs :: "string list" where
  "system_dirs = [''/etc'', ''/usr/share/man'', ''/usr/X11R6/man'', ''/usr/local/man'', ''/usr/local/share/man'', ''/tmp'', ''/dev'',
     ''/var/run'', ''/var/db/pkg'', ''/usr/local'', ''/usr/bin'', ''/usr/sbin'', ''/bin'', ''/sbin'', ''/usr/local/bin'', ''/etc/passwd'',
     ''/etc/group'', ''/etc/resolv.conf'']"

text \<open>
  The system directories are where their names say, and the two configured directories are not inside
  one of those with the programs.
\<close>

definition standard_layout :: "(string \<Rightarrow> string list option) \<Rightarrow> miniweb_conf_t \<Rightarrow> bool" where
  "standard_layout namei config \<longleftrightarrow>
     list_all (\<lambda>d. namei d = Some (path_nodes d)) system_dirs \<and>
     list_all (\<lambda>d. case namei d of Some r \<Rightarrow> \<not> list_ex (\<lambda>e. prefix (path_nodes e) r) exec_dirs | None \<Rightarrow> True)
       [cf_static_dir config, cf_templates_dir config]"

lemma security_path_cases:
  "(d, p) \<in> set (security_paths config) \<Longrightarrow>
    d = cf_static_dir config \<and> p = ''rwc'' \<or> d = cf_templates_dir config \<and> p = ''r'' \<or>
    d \<in> set system_dirs \<and> p = (if d = ''/tmp'' then ''rwc'' else if d \<in> set exec_dirs then ''rx'' else ''r'')"
  by (auto simp: security_paths_def system_dirs_def exec_dirs_def)

text \<open>Among the system directories none lies inside one with programs.\<close>

lemma system_dirs_apart:
  "list_all (\<lambda>e. list_all (\<lambda>d. prefix (path_nodes e) (path_nodes d) \<longrightarrow> d = e) system_dirs) exec_dirs"
  by code_simp

lemma security_rules:
  assumes "miniweb_apply_openbsd_security True namei ok ts err config (sandbox0, lg) = Inr (sb, lg')"
  shows "sb_rules sb = sb_rules (unveil_all namei (security_paths config) sandbox0)"
  using assms
  by (auto simp: miniweb_apply_openbsd_security_def unveil_end_def pledge_def Let_def bindR_Inr_iff split: if_splits)

lemma layout_place:
  assumes "standard_layout namei config" "(d, p) \<in> set (security_paths config)" "namei d = Some r" "e \<in> set exec_dirs"
    "prefix (path_nodes e) r"
  shows "r = path_nodes e \<and> p = ''rx''"
proof -
  have "d \<noteq> cf_static_dir config" "d \<noteq> cf_templates_dir config"
    using assms(1,3,4,5) by (auto simp: standard_layout_def list_ex_iff)
  then have d: "d \<in> set system_dirs" "p = (if d = ''/tmp'' then ''rwc'' else if d \<in> set exec_dirs then ''rx'' else ''r'')"
    using security_path_cases [OF assms(2)] by auto
  then have "r = path_nodes d" using assms(1,3) by (auto simp: standard_layout_def list_all_iff)
  then have "d = e" using system_dirs_apart assms(4,5) d(1) by (auto simp: list_all_iff)
  then show ?thesis using d assms(4) \<open>r = path_nodes d\<close> by (auto simp: exec_dirs_def)
qed

lemma exec_dirs_listed: "e \<in> set exec_dirs \<Longrightarrow> (e, ''rx'') \<in> set (security_paths config) \<and> e \<in> set system_dirs"
  unfolding exec_dirs_def security_paths_def system_dirs_def by auto

lemma exec_rule:
  assumes "standard_layout namei config" "e \<in> set exec_dirs"
  shows "map_of (sb_rules (unveil_all namei (security_paths config) sandbox0)) (path_nodes e) = Some ''rx''"
proof (rule unveil_all_unique)
  show "(e, ''rx'') \<in> set (security_paths config) \<and> namei e = Some (path_nodes e) \<or> map_of (sb_rules sandbox0) (path_nodes e) = Some ''rx''"
    using exec_dirs_listed [OF assms(2)] assms(1) by (simp add: standard_layout_def list_all_iff)
  show "p' = ''rx''" if "(d', p') \<in> set (security_paths config)" "namei d' = Some (path_nodes e)" for d' p'
    using layout_place [OF assms(1) that assms(2)] by simp
qed (simp_all add: sandbox0_def)

lemma sandbox_exec:
  assumes "standard_layout namei config" "sb_rules sb = sb_rules (unveil_all namei (security_paths config) sandbox0)" "e \<in> set exec_dirs"
  shows "permits sb CHR ''x'' (path_nodes e @ xs)"
proof -
  have rule: "map_of (sb_rules sb) (path_nodes e) = Some ''rx''" using exec_rule [OF assms(1,3)] assms(2) by simp
  have "r' = path_nodes e" if r: "(r', p') \<in> set (sb_rules sb)" "prefix (path_nodes e) r'" for r' p'
  proof -
    obtain d where "(d, p') \<in> set (security_paths config)" "namei d = Some r'"
      using unveil_all_rules [of r' p' namei "security_paths config" sandbox0] r(1) assms(2) by (auto simp: sandbox0_def)
    from layout_place [OF assms(1) this assms(3) r(2)] show ?thesis by simp
  qed
  from permits_below [OF rule this] show ?thesis by simp
qed

lemma sandbox_bound:
  assumes "standard_layout namei config" "sb_rules sb = sb_rules (unveil_all namei (security_paths config) sandbox0)" "permits sb c node"
  obtains d p r where "(d, p) \<in> set (security_paths config)" "namei d = Some r" "prefix r node" "c \<in> set p"
proof -
  have "map_of (sb_rules sb) (path_nodes ''/bin'') = Some ''rx''"
    using exec_rule [OF assms(1), of "''/bin''"] assms(2) by (simp add: exec_dirs_def)
  then have "sb_rules sb \<noteq> []" by auto
  then obtain p where p: "unveil_lookup (sb_rules sb) (length node) node = Some p" "c \<in> set p"
    using assms(3) by (auto simp: permits_def split: option.splits)
  from unveil_lookup_rule [OF p(1)] obtain r where r: "(r, p) \<in> set (sb_rules sb)" "prefix r node" by blast
  then obtain d where "(d, p) \<in> set (security_paths config)" "namei d = Some r"
    using unveil_all_rules [of r p namei "security_paths config" sandbox0] assms(2) by (auto simp: sandbox0_def)
  then show thesis using that r(2) p(2) by blast
qed

text \<open>What can be written, and what can be executed.\<close>

lemma sandbox_write:
  assumes "standard_layout namei config" "sb_rules sb = sb_rules (unveil_all namei (security_paths config) sandbox0)"
    and "permits sb CHR ''w'' node \<or> permits sb CHR ''c'' node"
  shows "\<exists>d \<in> {cf_static_dir config, ''/tmp''}. \<exists>r. namei d = Some r \<and> prefix r node"
proof -
  obtain c where "c \<in> {CHR ''w'', CHR ''c''}" "permits sb c node" using assms(3) by blast
  moreover from this(2) obtain d p r where "(d, p) \<in> set (security_paths config)" "namei d = Some r" "prefix r node" "c \<in> set p"
    by (rule sandbox_bound [OF assms(1,2)])
  ultimately show ?thesis using security_path_cases [of d p config] by (auto split: if_splits)
qed

lemma sandbox_exec_only:
  assumes "standard_layout namei config" "sb_rules sb = sb_rules (unveil_all namei (security_paths config) sandbox0)"
    and "permits sb CHR ''x'' node"
  shows "\<exists>e \<in> set exec_dirs. prefix (path_nodes e) node"
proof -
  from assms obtain d p r where d: "(d, p) \<in> set (security_paths config)" "namei d = Some r" "prefix r node" "CHR ''x'' \<in> set p"
    by (rule sandbox_bound)
  then have "d \<in> set exec_dirs \<and> d \<in> set system_dirs" using security_path_cases [of d p config] by (auto split: if_splits)
  then show ?thesis using d assms(1) by (auto simp: standard_layout_def list_all_iff)
qed

end
