(* ===== verification/Response_Use.thy ===== *)
theory Response_Use
  imports Static_Files Views Packages Metrics Networking Man_Module
begin

text \<open>
  How the handlers use what they share. A handler takes a response object from the pool, sends it and
  gives it back; it only adds to the bytes that are sent; it leaves the routing table alone. This theory
  shows it once for the pattern that the senders have in common, and from there for every handler: what
  is left of a request in the shared context is at most that the shard of the thread is initialised.
\<close>

section \<open>The pattern\<close>

definition pools_ok :: "http_ctx \<Rightarrow> bool" where
  "pools_ok hc \<longleftrightarrow> length (hc_pools hc) = RESPONSE_POOL_SHARDS \<and> (\<forall>p \<in> set (hc_pools hc). response_pool_inv p)"

definition gives_back :: "http_ctx \<Rightarrow> http_ctx \<Rightarrow> bool" where
  "gives_back hc hc' \<longleftrightarrow> hc_tid hc' = hc_tid hc \<and> hc_calloc_ok hc' = hc_calloc_ok hc \<and> hc_registry hc' = hc_registry hc \<and>
     hc_pools hc' \<in> {hc_pools hc, pools_ready hc} \<and> prefix (hc_out hc) (hc_out hc')"

definition tidy :: "(http_ctx \<Rightarrow> (int \<times> http_ctx) option) \<Rightarrow> bool" where
  "tidy f \<longleftrightarrow> (\<forall>hc rc hc'. pools_ok hc \<longrightarrow> f hc = Some (rc, hc') \<longrightarrow> gives_back hc hc')"

lemma tidyD: "tidy f \<Longrightarrow> pools_ok hc \<Longrightarrow> f hc = Some (rc, hc') \<Longrightarrow> gives_back hc hc'"
  by (simp add: tidy_def)

lemma pools_ready_idem:
  assumes "hc_pools hc' = pools_ready hc" "hc_tid hc' = hc_tid hc"
  shows "pools_ready hc' = pools_ready hc"
  using assms by (cases "response_pool_shard_index (hc_tid hc) < length (hc_pools hc)") (auto simp: pools_ready_def Let_def list_update_beyond)

lemma gives_back_refl [simp]: "gives_back hc hc"
  by (simp add: gives_back_def)

lemma gives_back_trans: "gives_back hc hc1 \<Longrightarrow> gives_back hc1 hc2 \<Longrightarrow> gives_back hc hc2"
  using pools_ready_idem [of hc1 hc] by (auto simp: gives_back_def pools_ready_def intro: prefix_order.trans)

lemma pools_ok_ready: "pools_ok hc \<Longrightarrow> pools_ok (hc\<lparr>hc_pools := pools_ready hc\<rparr>)"
  using set_update_subset_insert [of "hc_pools hc"] response_pool_shard_index_less [of "hc_tid hc"]
  by (fastforce simp: pools_ok_def pools_ready_def Let_def)

lemma gives_back_ok: "gives_back hc hc' \<Longrightarrow> pools_ok hc \<Longrightarrow> pools_ok hc'"
  using pools_ok_ready [of hc] by (auto simp: gives_back_def pools_ok_def)

text \<open>A response that was taken goes back to its place, whatever was written into it meanwhile.\<close>

lemma create_free:
  assumes "pools_ok hc" "http_response_create (hc_tid hc) (hc_calloc_ok hc) (hc_pools hc) = (r, pools)"
  shows "r = None \<Longrightarrow> pools = pools_ready hc"
    and "r = Some resp \<Longrightarrow> rs_addr resp' = rs_addr resp \<Longrightarrow> rs_pool_shard_idx resp' = rs_pool_shard_idx resp \<Longrightarrow>
      http_response_free (Some resp') pools = pools_ready hc"
proof -
  let ?s = "response_pool_shard_index (hc_tid hc)"
  have inv: "response_pool_inv (hc_pools hc ! ?s)"
    using assms(1) response_pool_shard_index_less [of "hc_tid hc"] by (simp add: pools_ok_def)
  have can: "can_create hc \<longleftrightarrow> hc_calloc_ok hc \<or> rp_free (hc_pools hc ! ?s) \<noteq> []"
    using assms(1) inv by (simp add: can_create_def pools_ok_def)
  obtain i p where take: "response_pool_take (hc_pools hc ! ?s) = (i, p)" by fastforce
  have none: "r = None \<and> pools = pools_ready hc" if "\<not> can_create hc"
  proof -
    have "\<not> hc_calloc_ok hc" "rp_free (hc_pools hc ! ?s) = []" using can that by auto
    then have "i = None" "p = response_pool_init_locked (hc_pools hc ! ?s)"
      using response_pool_take_Some(1) [OF inv] response_pool_take_None [OF inv] take by (cases i; fastforce)+
    then show ?thesis using assms(2) take \<open>\<not> hc_calloc_ok hc\<close>
      by (auto simp: http_response_create_def http_response_pool_acquire_def pools_ready_def Let_def)
  qed
  show "pools = pools_ready hc" if "r = None"
    using none that assms(2) by (cases "can_create hc") (auto elim!: http_response_create_free)
  show "http_response_free (Some resp') pools = pools_ready hc"
    if "r = Some resp" "rs_addr resp' = rs_addr resp" "rs_pool_shard_idx resp' = rs_pool_shard_idx resp"
    using none that assms(2) by (cases "can_create hc") (auto elim!: http_response_create_free)
qed

lemma send_and_free_back:
  assumes "pools_ok hc" "http_response_create (hc_tid hc) (hc_calloc_ok hc) (hc_pools hc) = (Some resp, pools)"
    and "rs_addr resp' = rs_addr resp" "rs_pool_shard_idx resp' = rs_pool_shard_idx resp"
    and "send_and_free req resp' (hc\<lparr>hc_pools := pools\<rparr>) = Some (rc, hc')"
  shows "gives_back hc hc'"
  using create_free(2) [OF assms(1,2) refl assms(3,4)] assms(5) by (auto simp: send_and_free_def gives_back_def)

lemma tidy_respond:
  assumes none: "\<And>hc pools. http_response_create (hc_tid hc) (hc_calloc_ok hc) (hc_pools hc) = (None, pools) \<Longrightarrow>
      f hc = g (hc\<lparr>hc_pools := pools\<rparr>)"
    and some: "\<And>hc resp pools. http_response_create (hc_tid hc) (hc_calloc_ok hc) (hc_pools hc) = (Some resp, pools) \<Longrightarrow>
      \<exists>resp'. f hc = send_and_free req resp' (hc\<lparr>hc_pools := pools\<rparr>) \<and>
        rs_addr resp' = rs_addr resp \<and> rs_pool_shard_idx resp' = rs_pool_shard_idx resp"
    and g: "tidy g"
  shows "tidy f"
  unfolding tidy_def
proof (intro allI impI)
  fix hc rc hc'
  assume ok: "pools_ok hc" and r: "f hc = Some (rc, hc')"
  obtain r0 pools where c: "http_response_create (hc_tid hc) (hc_calloc_ok hc) (hc_pools hc) = (r0, pools)" by fastforce
  show "gives_back hc hc'"
  proof (cases r0)
    case None
    then have ready: "pools = pools_ready hc" using create_free(1) [OF ok c] by simp
    have "gives_back (hc\<lparr>hc_pools := pools_ready hc\<rparr>) hc'"
      using r none [OF c [unfolded None]] ready tidyD [OF g pools_ok_ready [OF ok]] by simp
    moreover have "gives_back hc (hc\<lparr>hc_pools := pools_ready hc\<rparr>)" by (simp add: gives_back_def)
    ultimately show ?thesis by (rule gives_back_trans [rotated])
  next
    case (Some resp)
    from some [OF c [unfolded Some]] obtain resp' where
      sent: "f hc = send_and_free req resp' (hc\<lparr>hc_pools := pools\<rparr>)" "rs_addr resp' = rs_addr resp"
      "rs_pool_shard_idx resp' = rs_pool_shard_idx resp" by blast
    have "send_and_free req resp' (hc\<lparr>hc_pools := pools\<rparr>) = Some (rc, hc')" by (rule trans [OF sent(1) [symmetric] r])
    then show ?thesis by (rule send_and_free_back [OF ok c [unfolded Some] sent(2,3)])
  qed
qed

lemma response_keeps [simp]:
  "rs_addr (http_response_add_header resp n v) = rs_addr resp"
  "rs_pool_shard_idx (http_response_add_header resp n v) = rs_pool_shard_idx resp"
  "rs_addr (http_response_set_status resp code) = rs_addr resp"
  "rs_pool_shard_idx (http_response_set_status resp code) = rs_pool_shard_idx resp"
  "rs_addr (http_response_set_body resp body len must_free) = rs_addr resp"
  "rs_pool_shard_idx (http_response_set_body resp body len must_free) = rs_pool_shard_idx resp"
  "rs_addr (man_add_content_disposition_for_format resp format page) = rs_addr resp"
  "rs_pool_shard_idx (man_add_content_disposition_for_format resp format page) = rs_pool_shard_idx resp"
  "rs_addr (file_response mime resp) = rs_addr resp"
  "rs_pool_shard_idx (file_response mime resp) = rs_pool_shard_idx resp"
  by (simp_all add: http_response_add_header_def http_response_set_status_def http_response_set_body_def
      man_add_content_disposition_for_format_def file_response_def Let_def)

section \<open>The senders\<close>

lemma tidy_give_up: "tidy (\<lambda>hc. Some (rc, hc))"
  by (simp add: tidy_def)

lemma tidy_send_error: "tidy (http_send_error req code msg)"
  by (rule tidy_respond [where g = "\<lambda>hc. Some (-1, hc)" and req = req]) (auto simp: http_send_error_def Let_def tidy_give_up split: prod.split)

lemma tidy_send_html: "tidy (http_send_html req html)"
  by (rule tidy_respond [where g = "\<lambda>hc. Some (-1, hc)" and req = req]) (auto simp: http_send_html_def Let_def tidy_give_up split: prod.split)

lemma tidy_send_owned_html: "tidy (send_owned_html req output)"
  by (rule tidy_respond [where g = "\<lambda>hc. Some (-1, hc)" and req = req]) (auto simp: send_owned_html_def Let_def tidy_give_up split: prod.split)

lemma tidy_send_metrics_json: "tidy (send_metrics_json req json)"
  by (rule tidy_respond [where g = "http_send_error req 500 (Some ''Unable to allocate response'')" and req = req]) (auto simp: send_metrics_json_def Let_def tidy_send_error split: prod.split)

lemma tidy_send_network_json: "tidy (send_network_json req json)"
  by (rule tidy_respond [where g = "http_send_error req 500 (Some ''Unable to allocate response'')" and req = req]) (auto simp: send_network_json_def Let_def tidy_send_error split: prod.split)

lemma tidy_send_man_page: "tidy (send_man_page req t body)"
  by (rule tidy_respond [where g = "\<lambda>hc. Some (-1, hc)" and req = req]) (auto simp: send_man_page_def Let_def tidy_give_up split: prod.split)

lemma tidy_send_man_json: "tidy (send_man_json req path json)"
  by (rule tidy_respond [where g = "http_send_error req 500 (Some ''Internal Server Error'')" and req = req]) (auto simp: send_man_json_def Let_def tidy_send_error split: prod.split)

lemmas tidy_senders = tidy_send_error tidy_send_html tidy_send_owned_html tidy_send_metrics_json tidy_send_network_json
  tidy_send_man_page tidy_send_man_json

lemma send_pkg_json_back:
  assumes "pools_ok hc" "send_pkg_json req json hc = Inr (rc, hc')"
  shows "gives_back hc hc'"
proof -
  obtain r pools where c: "http_response_create (hc_tid hc) (hc_calloc_ok hc) (hc_pools hc) = (r, pools)" by fastforce
  then obtain resp where r: "r = Some resp" using assms(2) by (cases r) (auto simp: send_pkg_json_def)
  show ?thesis
    using assms(2) c r
    by (intro send_and_free_back [OF assms(1) c [unfolded r]]) (auto simp: send_pkg_json_def Let_def split: option.splits)
qed

section \<open>The handlers of the modules\<close>

lemma metrics_handler_back:
  "pools_ok hc \<Longrightarrow> metrics_handler env req (st, hc) = Inr (rc, st', hc') \<Longrightarrow> gives_back hc hc'"
  by (auto simp: metrics_handler_def bindR_Inr_iff split: option.splits intro: tidy_senders [THEN tidyD])

lemma networking_api_handler_back:
  "pools_ok hc \<Longrightarrow> networking_api_handler env req (st, hc) = Some (rc, st', hc') \<Longrightarrow> gives_back hc hc'"
  by (auto simp: networking_api_handler_def Let_def split: option.splits prod.splits intro: tidy_senders [THEN tidyD])

lemma view_template_handler_back:
  assumes "pools_ok (vx_http cx)" "view_template_handler dir env req cx = Some (rc, cx')"
  shows "gives_back (vx_http cx) (vx_http cx')"
proof -
  obtain page cx1 where p: "view_page dir env req cx = (page, cx1)" by fastforce
  then have "vx_http cx1 = vx_http cx"
    by (auto simp: view_page_def Let_def split: option.splits prod.splits if_splits)
  then show ?thesis
    using assms p by (auto simp: view_template_handler_def split: view_outcome.splits intro: tidy_senders [THEN tidyD])
qed

lemma pkg_api_handler_back:
  assumes "pools_ok hc" "pkg_api_handler env req (st, hc) = Inr (rc, st', hc')"
  shows "gives_back hc hc'"
proof -
  obtain answer st1 where q: "pkg_query env req st = Inr (answer, st1)"
    using assms(2) by (auto simp: pkg_api_handler_def bindR_Inr_iff)
  show ?thesis
  proof (cases answer)
    case (Answer_error code msg)
    then show ?thesis
      using assms q by (auto simp: pkg_api_handler_def Let_def split: option.splits intro: tidyD [OF tidy_send_error])
  next
    case (Answer_json json)
    then show ?thesis
      using assms q by (auto simp: pkg_api_handler_def bindR_Inr_iff Let_def split: option.splits intro: send_pkg_json_back tidyD [OF tidy_send_error])
  qed
qed

lemma man_render_handler_back:
  assumes "pools_ok hc" "man_render_handler env req (st, hc) = Inr (rc, st', hc')"
  shows "gives_back hc hc'"
proof -
  obtain answer st1 where q: "man_request env req st = Inr (answer, st1)"
    using assms(2) by (auto simp: man_render_handler_def bindR_Inr_iff)
  then show ?thesis
    using assms by (cases answer) (auto simp: man_render_handler_def split: option.splits intro: tidy_senders [THEN tidyD])
qed

lemma man_api_handler_back:
  "pools_ok hc \<Longrightarrow> man_api_handler env req (st, hc) = Inr (rc, st', hc') \<Longrightarrow> gives_back hc hc'"
  by (auto simp: man_api_handler_def bindR_Inr_iff Let_def split: option.splits intro: tidy_senders [THEN tidyD])

section \<open>The static files\<close>

definition site_tidy :: "(site_ctx \<Rightarrow> site_result) \<Rightarrow> bool" where
  "site_tidy f \<longleftrightarrow> (\<forall>cx rc keep cx'. pools_ok (sx_http cx) \<longrightarrow> f cx = Some (rc, keep, cx') \<longrightarrow> gives_back (sx_http cx) (sx_http cx'))"

lemma site_tidyD: "site_tidy f \<Longrightarrow> pools_ok (sx_http cx) \<Longrightarrow> f cx = Some (rc, keep, cx') \<Longrightarrow> gives_back (sx_http cx) (sx_http cx')"
  by (simp add: site_tidy_def)

text \<open>What is between taking a response and giving it back, on a context whose cache may change meanwhile.\<close>

lemma site_create_cases:
  assumes "pools_ok (sx_http cx)"
  obtains (failed) cx1 where "site_create cx = (None, cx1)" "gives_back (sx_http cx) (sx_http cx1)"
  | (created) resp cx1 where "site_create cx = (Some resp, cx1)"
      "\<And>shards resp' req rc keep cx'. rs_addr resp' = rs_addr resp \<Longrightarrow> rs_pool_shard_idx resp' = rs_pool_shard_idx resp \<Longrightarrow>
        site_send req resp' (cx1\<lparr>sx_shards := shards\<rparr>) = Some (rc, keep, cx') \<Longrightarrow> gives_back (sx_http cx) (sx_http cx')"
      "\<And>shards resp'. rs_addr resp' = rs_addr resp \<Longrightarrow> rs_pool_shard_idx resp' = rs_pool_shard_idx resp \<Longrightarrow>
        gives_back (sx_http cx) (sx_http (site_free resp' (cx1\<lparr>sx_shards := shards\<rparr>)))"
proof -
  let ?hc = "sx_http cx"
  obtain r pools where c: "http_response_create (hc_tid ?hc) (hc_calloc_ok ?hc) (hc_pools ?hc) = (r, pools)" by fastforce
  let ?cx1 = "cx\<lparr>sx_http := ?hc\<lparr>hc_pools := pools\<rparr>\<rparr>"
  have cr: "site_create cx = (r, ?cx1)" using c by (simp add: site_create_def Let_def)
  show thesis
  proof (cases r)
    case None
    then show thesis using cr create_free(1) [OF assms c] by (intro failed [of ?cx1]) (simp_all add: gives_back_def)
  next
    case (Some resp)
    show thesis
    proof (rule created [of resp ?cx1])
      show "site_create cx = (Some resp, ?cx1)" using cr Some by simp
      show "gives_back ?hc (sx_http cx')"
        if "rs_addr resp' = rs_addr resp" "rs_pool_shard_idx resp' = rs_pool_shard_idx resp"
          "site_send req resp' (?cx1\<lparr>sx_shards := shards\<rparr>) = Some (rc, keep, cx')" for shards resp' req rc keep cx'
        using that send_and_free_back [OF assms c [unfolded Some] that(1,2)] by (auto simp: site_send_def)
      show "gives_back ?hc (sx_http (site_free resp' (?cx1\<lparr>sx_shards := shards\<rparr>)))"
        if "rs_addr resp' = rs_addr resp" "rs_pool_shard_idx resp' = rs_pool_shard_idx resp" for shards resp'
        using create_free(2) [OF assms c Some that] by (simp add: site_free_def gives_back_def)
    qed
  qed
qed

lemma site_error_tidy: "site_tidy (site_error req code msg)"
  by (auto simp: site_tidy_def site_error_def intro: tidyD [OF tidy_send_error])

lemma stream_loop_back: "stream_loop content rs hc = Some (rc, hc') \<Longrightarrow> gives_back hc hc'"
proof (induction content rs hc arbitrary: rc hc' rule: stream_loop.induct)
  case (4 content k rs hc)
  let ?n = "min k (min 65536 (length content))"
  show ?case
  proof (cases "?n = 0")
    case False
    then obtain rc1 out ws ps where w: "http_response_write_all (take ?n content) (hc_ws hc) (hc_ps hc) = Some (rc1, out, ws, ps)"
      using "4.prems" unfolding stream_loop.simps Let_def if_not_P [OF False] by (auto split: option.splits)
    let ?hc = "hc\<lparr>hc_ws := ws, hc_ps := ps, hc_out := hc_out hc @ out\<rparr>"
    have grown: "gives_back hc ?hc" by (simp add: gives_back_def)
    show ?thesis
    proof (cases "rc1 < 0")
      case True
      then show ?thesis using "4.prems" w False grown by (simp add: Let_def)
    next
      case go: False
      have "gives_back ?hc hc'"
        by (rule "4.IH" [OF refl False w refl refl refl refl go]) (use "4.prems" w False go in \<open>simp add: Let_def\<close>)
      with grown show ?thesis by (rule gives_back_trans)
    qed
  qed (use "4.prems" in \<open>simp add: Let_def\<close>)
qed simp_all

lemma send_streamed_file_back:
  assumes "send_streamed_file req st f resp cx = Some (rc, keep, cx')"
    and "\<And>resp' req rc keep cx'. rs_addr resp' = rs_addr resp \<Longrightarrow> rs_pool_shard_idx resp' = rs_pool_shard_idx resp \<Longrightarrow>
      site_send req resp' cx = Some (rc, keep, cx') \<Longrightarrow> gives_back hc (sx_http cx')"
  shows "gives_back hc (sx_http cx')"
proof -
  let ?resp = "http_response_set_body resp None (nat (st_size st mod 2 ^ 64)) False"
  obtain rc1 keep1 cx1 where send: "site_send (req\<lparr>req_keep_alive := False\<rparr>) ?resp cx = Some (rc1, keep1, cx1)"
    using assms(1) by (auto simp: send_streamed_file_def split: option.splits)
  have "gives_back hc (sx_http cx1)" by (rule assms(2) [OF _ _ send]) simp_all
  moreover have "gives_back (sx_http cx1) (sx_http cx')"
    using assms(1) send by (auto simp: send_streamed_file_def split: if_splits intro: stream_loop_back)
  ultimately show ?thesis by (rule gives_back_trans)
qed

lemma send_small_file_back:
  assumes "send_small_file now req path st f resp cx = Some (rc, keep, cx')" "pools_ok hc"
    and sent: "\<And>resp' req rc keep cx'. rs_addr resp' = rs_addr resp \<Longrightarrow> rs_pool_shard_idx resp' = rs_pool_shard_idx resp \<Longrightarrow>
      site_send req resp' cx = Some (rc, keep, cx') \<Longrightarrow> gives_back hc (sx_http cx')"
    and freed: "gives_back hc (sx_http (site_free resp cx))"
  shows "gives_back hc (sx_http cx')"
proof (cases "of_body_alloc f")
  case True
  then obtain rc1 body where read: "read_entire_file (nat (st_size st)) (of_content f) (of_reads f) = Some (rc1, body)"
    using assms(1) by (auto simp: send_small_file_def split: option.splits)
  show ?thesis
  proof (cases "rc1 < 0")
    case True
    then have "site_error req 500 ''Read error'' (site_free resp cx) = Some (rc, keep, cx')"
      using assms(1) read \<open>of_body_alloc f\<close> by (simp add: send_small_file_def)
    from gives_back_trans [OF freed site_tidyD [OF site_error_tidy gives_back_ok [OF freed assms(2)] this]] show ?thesis .
  next
    case False
    let ?resp = "http_response_set_body resp (Some body) (nat rc1) True"
    obtain rc2 keep2 cx2 where send: "site_send req ?resp cx = Some (rc2, keep2, cx2)" and cx': "sx_http cx' = sx_http cx2"
      using assms(1) read \<open>of_body_alloc f\<close> False by (auto simp: send_small_file_def split: option.splits if_splits)
    show ?thesis unfolding cx' by (rule sent [OF _ _ send]) simp_all
  qed
qed (use assms(1) freed in \<open>auto simp: send_small_file_def\<close>)

lemma http_send_file_tidy: "site_tidy (http_send_file env req path mime)"
  unfolding site_tidy_def
proof (intro allI impI)
  fix cx rc keep cx'
  assume ok: "pools_ok (sx_http cx)" and r: "http_send_file env req path mime cx = Some (rc, keep, cx')"
  show "gives_back (sx_http cx) (sx_http cx')"
  proof (cases "\<exists>f st. sn_open env path = Some f \<and> of_stat f = Some st")
    case True
    then obtain f st where f: "sn_open env path = Some f" "of_stat f = Some st" by blast
    from ok show ?thesis
    proof (cases rule: site_create_cases)
      case (failed cx1)
      then show ?thesis using r f by (simp add: http_send_file_def)
    next
      case (created resp cx1)
      obtain hit shards where look: "http_file_cache_lookup (sx_shards cx1) (wd_time (sn_world env)) (of_lookup_alloc f) path st = (hit, shards)"
        by fastforce
      let ?cx = "cx1\<lparr>sx_shards := shards\<rparr>" and ?resp = "file_response mime resp"
      have sent: "gives_back (sx_http cx) (sx_http cx')" if "rs_addr resp' = rs_addr ?resp" "rs_pool_shard_idx resp' = rs_pool_shard_idx ?resp"
        "site_send req' resp' ?cx = Some (rc', keep', cx')" for resp' req' rc' keep' cx'
        using created(2) that by simp
      have freed: "gives_back (sx_http cx) (sx_http (site_free ?resp ?cx))" by (rule created(3)) simp_all
      consider (hit) cached where "site_send req (http_response_set_body ?resp (Some cached) (length cached) True) ?cx = Some (rc, keep, cx')"
        | (small) "send_small_file (wd_time (sn_world env)) req path st f ?resp ?cx = Some (rc, keep, cx')"
        | (stream) "send_streamed_file req st f ?resp ?cx = Some (rc, keep, cx')"
        using r f created(1) look by (auto simp: http_send_file_def Let_def split: option.splits if_splits)
      then show ?thesis
      proof cases
        case hit
        then show ?thesis by (intro sent [OF _ _ hit]) simp_all
      next
        case small
        from send_small_file_back [OF this ok sent freed] show ?thesis .
      next
        case stream
        from send_streamed_file_back [OF this sent] show ?thesis .
      qed
    qed
  qed (use r site_tidyD [OF site_error_tidy ok] in \<open>auto simp: http_send_file_def split: option.splits\<close>)
qed

lemma send_autoindex_tidy: "site_tidy (send_autoindex env req req_path fullpath)"
  unfolding site_tidy_def
proof (intro allI impI)
  fix cx rc keep cx'
  assume ok: "pools_ok (sx_http cx)" and r: "send_autoindex env req req_path fullpath cx = Some (rc, keep, cx')"
  from ok show "gives_back (sx_http cx) (sx_http cx')"
  proof (cases rule: site_create_cases)
    case (failed cx1)
    then show ?thesis
      using r site_tidyD [OF site_error_tidy ok] by (auto simp: send_autoindex_def split: option.splits)
  next
    case (created resp cx1)
    have sent: "gives_back (sx_http cx) (sx_http cx')" if "site_send req resp' cx1 = Some (rc, keep, cx')" "rs_addr resp' = rs_addr resp"
      "rs_pool_shard_idx resp' = rs_pool_shard_idx resp" for resp'
      using created(2) [OF that(2,3), of req "sx_shards cx1" rc keep cx'] that(1) by simp
    show ?thesis
      using r created(1) by (auto simp: send_autoindex_def split: option.splits intro: sent site_tidyD [OF site_error_tidy ok])
  qed
qed

lemma send_redirect_tidy: "site_tidy (send_redirect req code location)"
  unfolding site_tidy_def
proof (intro allI impI)
  fix cx rc keep cx'
  assume ok: "pools_ok (sx_http cx)" and r: "send_redirect req code location cx = Some (rc, keep, cx')"
  from ok show "gives_back (sx_http cx) (sx_http cx')"
  proof (cases rule: site_create_cases)
    case (failed cx1)
    then show ?thesis using r by (simp add: send_redirect_def)
  next
    case (created resp cx1)
    have sent: "gives_back (sx_http cx) (sx_http cx')" if "site_send req resp' cx1 = Some (rc, keep, cx')" "rs_addr resp' = rs_addr resp"
      "rs_pool_shard_idx resp' = rs_pool_shard_idx resp" for resp'
      using created(2) [OF that(2,3), of req "sx_shards cx1" rc keep cx'] that(1) by simp
    show ?thesis using r created(1) by (auto simp: send_redirect_def intro: sent)
  qed
qed

lemmas site_senders = site_error_tidy http_send_file_tidy send_autoindex_tidy send_redirect_tidy

lemma site_tidy_if: "site_tidy f \<Longrightarrow> site_tidy g \<Longrightarrow> site_tidy (\<lambda>cx. if b then f cx else g cx)"
  by (cases b) simp_all

lemma site_tidy_option: "site_tidy f \<Longrightarrow> (\<And>x. site_tidy (g x)) \<Longrightarrow> site_tidy (\<lambda>cx. case r of None \<Rightarrow> f cx | Some x \<Rightarrow> g x cx)"
  by (cases r) simp_all

lemma static_directory_tidy: "site_tidy (static_directory config env req req_path fullpath)"
  unfolding static_directory_def Let_def by (intro site_tidy_if site_senders)

lemma static_handler_tidy: "site_tidy (static_handler config env req)"
  unfolding static_handler_def Let_def by (intro site_tidy_if site_tidy_option site_senders static_directory_tidy)

lemma favicon_handler_tidy: "site_tidy (favicon_handler config env req)"
  by (auto simp: site_tidy_def favicon_handler_def intro: site_tidyD [OF http_send_file_tidy])

end
