(* ===== verification/Application.thy ===== *)
theory Application
  imports Server Static_Files Views Packages Networking Metrics Man_Module Log Security
begin

text \<open>
  The application as a whole: the handlers of all modules behind the router, as a worker calls them
  (\<^verbatim>\<open>src/net/worker.c\<close>), and the life of the process (\<^verbatim>\<open>main\<close> in \<^verbatim>\<open>src/app_main.c\<close>). The state holds
  the globals of every module. The requests that workers answer and the beats of the heartbeat thread
  form one sequence of events: each module guards its globals with its own locks, and the theories of
  the modules say what one request is. The installation of the signal handlers changes no data of the
  program and is left out.
\<close>

section \<open>Model\<close>

record app_state =
  ap_shards :: "file_cache_shard_t list"
  ap_templates :: template_state
  ap_views :: "hot_view_cache_entry_t list"
  ap_metrics :: metrics_state
  ap_net :: net_state
  ap_pkg :: pkg_state
  ap_man :: man_state
  ap_sandbox :: sandbox

text \<open>What the system answers to the modules during one request.\<close>

record app_env =
  ae_site :: site_env
  ae_view :: view_env
  ae_metrics :: metrics_env
  ae_net :: net_env
  ae_pkg :: pkg_env
  ae_man :: man_env

type_synonym app_result = "fault + int \<times> bool \<times> app_state \<times> http_ctx"

definition from_option :: "'a option \<Rightarrow> fault + 'a" where
  "from_option r = (case r of None \<Rightarrow> Inl Blocked | Some x \<Rightarrow> Inr x)"

definition on_views :: "(view_ctx \<Rightarrow> (int \<times> view_ctx) option) \<Rightarrow> http_request_t \<Rightarrow> app_state \<times> http_ctx \<Rightarrow> app_result" where
  "on_views f req = (\<lambda>(ap, hc).
     bindR (from_option (f \<lparr>vx_http = hc, vx_templates = ap_templates ap, vx_cache = ap_views ap\<rparr>)) (\<lambda>(rc, cx).
       Inr (rc, req_keep_alive req, ap\<lparr>ap_templates := vx_templates cx, ap_views := vx_cache cx\<rparr>, vx_http cx)))"

definition on_site :: "(site_ctx \<Rightarrow> site_result) \<Rightarrow> app_state \<times> http_ctx \<Rightarrow> app_result" where
  "on_site f = (\<lambda>(ap, hc).
     bindR (from_option (f \<lparr>sx_http = hc, sx_shards = ap_shards ap\<rparr>)) (\<lambda>(rc, keep, cx).
       Inr (rc, keep, ap\<lparr>ap_shards := sx_shards cx\<rparr>, sx_http cx)))"

text \<open>The handlers behind the pointers of the routing table.\<close>

fun call_handler ::
  "miniweb_conf_t \<Rightarrow> app_env \<Rightarrow> route_handler_t \<Rightarrow> http_request_t \<Rightarrow> app_state \<times> http_ctx \<Rightarrow> app_result" where
  "call_handler config env View_template_handler req x =
     on_views (view_template_handler (cf_templates_dir config) (ae_view env) req) req x"
| "call_handler config env Favicon_handler req x = on_site (favicon_handler config (ae_site env) req) x"
| "call_handler config env Static_handler req x = on_site (static_handler config (ae_site env) req) x"
| "call_handler config env Metrics_handler req (ap, hc) =
     bindR (metrics_handler (ae_metrics env) req (ap_metrics ap, hc)) (\<lambda>(rc, st, hc').
       Inr (rc, req_keep_alive req, ap\<lparr>ap_metrics := st\<rparr>, hc'))"
| "call_handler config env Networking_api_handler req (ap, hc) =
     bindR (from_option (networking_api_handler (ae_net env) req (ap_net ap, hc))) (\<lambda>(rc, st, hc').
       Inr (rc, req_keep_alive req, ap\<lparr>ap_net := st\<rparr>, hc'))"
| "call_handler config env Man_render_handler req (ap, hc) =
     bindR (man_render_handler ((ae_man env)\<lparr>ma_static_dir := cf_static_dir config, ma_threads := cf_threads config\<rparr>) req (ap_man ap, hc))
       (\<lambda>(rc, st, hc'). Inr (rc, req_keep_alive req, ap\<lparr>ap_man := st\<rparr>, hc'))"
| "call_handler config env Man_api_handler req (ap, hc) =
     bindR (man_api_handler ((ae_man env)\<lparr>ma_static_dir := cf_static_dir config, ma_threads := cf_threads config\<rparr>) req (ap_man ap, hc))
       (\<lambda>(rc, st, hc'). Inr (rc, req_keep_alive req, ap\<lparr>ap_man := st\<rparr>, hc'))"
| "call_handler config env Pkg_api_handler req (ap, hc) =
     bindR (pkg_api_handler (ae_pkg env) req (ap_pkg ap, hc)) (\<lambda>(rc, st, hc').
       Inr (rc, req_keep_alive req, ap\<lparr>ap_pkg := st\<rparr>, hc'))"

text \<open>One request, once it is parsed: route it, or say why not.\<close>

definition app_request :: "miniweb_conf_t \<Rightarrow> app_env \<Rightarrow> http_request_t \<Rightarrow> app_state \<times> http_ctx \<Rightarrow> app_result" where
  "app_request config env req x =
     (let reg = hc_registry (snd x) in
      case route_match reg (req_method req) (req_url req) of
        Some h \<Rightarrow> call_handler config env h req x
      | None \<Rightarrow>
          bindR (from_option (if route_path_known reg (Some (req_url req))
                              then error_handler 405 ''Method Not Allowed'' req (snd x)
                              else error_handler 404 ''Not Found'' req (snd x)))
            (\<lambda>(rc, keep, hc'). Inr (rc, keep, fst x, hc')))"

text \<open>The same as the worker of \<open>Worker\<close> sees it, which only knows the connection's context.\<close>

definition app_handlers :: "miniweb_conf_t \<Rightarrow> app_env \<Rightarrow> app_state \<Rightarrow> route_handler_t \<Rightarrow> handler_fn" where
  "app_handlers config env ap h req hc =
     (case call_handler config env h req (ap, hc) of Inl f \<Rightarrow> None | Inr (rc, keep, ap', hc') \<Rightarrow> Some (rc, keep, hc'))"

datatype app_event =
    Request app_env http_request_t http_ctx
  | Metrics_beat metrics_env
  | Network_beat net_env

fun app_step :: "miniweb_conf_t \<Rightarrow> url_registry \<Rightarrow> app_event \<Rightarrow> app_state \<Rightarrow> fault + app_state" where
  "app_step config reg (Request env req hc) ap =
     bindR (app_request config env req (ap, hc\<lparr>hc_registry := reg\<rparr>)) (\<lambda>(rc, keep, ap', hc'). Inr ap')"
| "app_step config reg (Metrics_beat env) ap =
     bindR (metrics_heartbeat_cb env (ap_metrics ap)) (\<lambda>st. Inr (ap\<lparr>ap_metrics := st\<rparr>))"
| "app_step config reg (Network_beat env) ap =
     bindR (networking_heartbeat_cb env (ap_net ap)) (\<lambda>st. Inr (ap\<lparr>ap_net := st\<rparr>))"

fun app_run :: "miniweb_conf_t \<Rightarrow> url_registry \<Rightarrow> app_event list \<Rightarrow> app_state \<Rightarrow> fault + app_state" where
  "app_run config reg [] ap = Inr ap"
| "app_run config reg (e # es) ap = bindR (app_step config reg e ap) (app_run config reg es)"

subsection \<open>The life of the process\<close>

record main_env =
  mx_fs :: "string \<Rightarrow> bytes option"
  mx_home :: "string option"
  mx_cores :: int
  mx_opts :: "(char \<times> string) list"
  mx_ts :: string
  mx_fopen :: bool
  mx_errno :: string
  mx_world :: world
  mx_cpu_freq :: "int option"
  mx_openbsd :: bool
  mx_namei :: "string \<Rightarrow> string list option"
  mx_pledge :: bool
  mx_setup :: setup_io
  mx_kevents :: "(int \<times> kevent_outcome) list"
  mx_http :: http_ctx
  mx_events :: "app_event list"

definition start_lines :: "miniweb_conf_t \<Rightarrow> string list" where
  "start_lines config =
     [''MiniWeb starting on '' @ cf_bind_addr config @ '':'' @ show_int (cf_port config) @ '' ('' @ show_int (cf_threads config) @ '' thread(s))'',
      ''Static dir: '' @ cf_static_dir config @ ''  Templates dir: '' @ cf_templates_dir config]"

fun log_infos :: "string \<Rightarrow> string list \<Rightarrow> log_state \<Rightarrow> fault + log_state" where
  "log_infos ts [] lg = Inr lg"
| "log_infos ts (m # ms) lg = bindR (log_info ts m lg) (log_infos ts ms)"

definition handle_signal :: "int \<Rightarrow> miniweb_server_runtime_t \<Rightarrow> miniweb_server_runtime_t option" where
  "handle_signal sig rt = miniweb_server_stop (Some rt)"

text \<open>The end of \<^verbatim>\<open>main\<close>, in the order of the code.\<close>

definition main_cleanup :: "app_state \<Rightarrow> app_state" where
  "main_cleanup ap =
     ap\<lparr>ap_man := man_module_cleanup (ap_man ap),
        ap_net := networking_module_cleanup (ap_net ap),
        ap_metrics := metrics_module_cleanup (ap_metrics ap),
        ap_pkg := packages_cache_cleanup (ap_pkg ap),
        ap_shards := http_handler_globals_cleanup (ap_shards ap),
        ap_templates := template_cache_cleanup (ap_templates ap)\<rparr>"

text \<open>
  From the registered routes to the shut-down: the server runs and, when it came up, answers its
  requests; what it returns is not looked at.
\<close>

definition main_serve :: "main_env \<Rightarrow> miniweb_conf_t \<Rightarrow> app_state \<times> log_state \<Rightarrow> fault + int \<times> app_state \<times> log_state" where
  "main_serve env config = (\<lambda>(ap, lg).
     let reg = init_routes (Some config) \<lparr>routes = [], prefix_routes = []\<rparr>;
         metrics = ap_metrics ap;
         ap1 = ap\<lparr>ap_metrics := metrics\<lparr>me_cpu_freq_mhz := metrics_init_cpu_freq (mx_cpu_freq env) (me_cpu_freq_mhz metrics)\<rparr>\<rparr>
     in bindR (log_info (mx_ts env) (''Routes registered '' @ [CHR 0xE2, CHR 0x80, CHR 0x94] @ '' listening'') lg) (\<lambda>lg1.
        bindR (miniweb_apply_openbsd_security (mx_openbsd env) (mx_namei env) (mx_pledge env) (mx_ts env) (mx_errno env) config
                 (ap_sandbox ap, lg1)) (\<lambda>(sb, lg2).
        bindR (from_option (miniweb_server_run config (mx_setup env) (mx_kevents env) ((mx_http env)\<lparr>hc_registry := reg\<rparr>))) (\<lambda>(rc, rt).
        bindR (if rc = 0 then app_run config reg (mx_events env) (ap1\<lparr>ap_sandbox := sb\<rparr>) else Inr (ap1\<lparr>ap_sandbox := sb\<rparr>)) (\<lambda>ap2.
        bindR (log_info (mx_ts env) ''MiniWeb shutting down'' lg2) (\<lambda>lg3.
        bindR (log_close lg3) (\<lambda>lg4. Inr (0, main_cleanup ap2, lg4))))))))"

definition main :: "main_env \<Rightarrow> app_state \<times> log_state \<Rightarrow> fault + int \<times> app_state \<times> log_state" where
  "main env = (\<lambda>(ap, lg).
     case parse_args (mx_fs env) (mx_home env) (mx_cores env) (mx_opts env) of
       Inl code \<Rightarrow> Inr (code, ap, lg)
     | Inr config \<Rightarrow>
         bindR (log_init (Some (cf_log_file config)) (cf_verbose config \<noteq> 0) (mx_fopen env) (mx_errno env) lg) (\<lambda>(rc, lg1).
           if rc \<noteq> 0 then Inr (1, ap, lg1)
           else
             bindR (log_infos (mx_ts env) (start_lines config) (log_set_verbose (cf_verbose config \<noteq> 0) lg1)) (\<lambda>lg2.
             bindR (if cf_verbose config \<noteq> 0 then log_put Stderr (conf_dump config) lg2 else Inr lg2) (\<lambda>lg3.
               let (ok, templates) = template_cache_init (mx_world env) (cf_templates_dir config) (ap_templates ap);
                   ap1 = ap\<lparr>ap_templates := templates\<rparr>
               in if \<not> ok
                  then bindR (log_error (mx_ts env) ''template_cache_init failed'' lg3) (\<lambda>lg4. Inr (1, ap1, lg4))
                  else main_serve env config (ap1, lg3)))))"

section \<open>One request touches one module\<close>

lemma from_option_Inr [simp]: "from_option r = Inr x \<longleftrightarrow> r = Some x"
  by (cases r) (auto simp: from_option_def)

lemma on_views_Inr:
  "on_views f req (ap, hc) = Inr (rc, keep, ap', hc') \<Longrightarrow> \<exists>t v. ap' = ap\<lparr>ap_templates := t, ap_views := v\<rparr>"
  by (auto simp: on_views_def bindR_Inr_iff)

lemma on_site_Inr:
  "on_site f (ap, hc) = Inr (rc, keep, ap', hc') \<Longrightarrow> \<exists>s. ap' = ap\<lparr>ap_shards := s\<rparr>"
  by (auto simp: on_site_def bindR_Inr_iff)

lemma call_handler_frame:
  assumes "call_handler config env h req (ap, hc) = Inr (rc, keep, ap', hc')"
  shows "h \<notin> {Man_render_handler, Man_api_handler} \<Longrightarrow> ap_man ap' = ap_man ap"
    "h \<noteq> Pkg_api_handler \<Longrightarrow> ap_pkg ap' = ap_pkg ap"
    "h \<noteq> Metrics_handler \<Longrightarrow> ap_metrics ap' = ap_metrics ap"
    "h \<noteq> Networking_api_handler \<Longrightarrow> ap_net ap' = ap_net ap"
    "h \<notin> {View_template_handler, Favicon_handler, Static_handler} \<Longrightarrow>
       ap_shards ap' = ap_shards ap \<and> ap_templates ap' = ap_templates ap \<and> ap_views ap' = ap_views ap"
  using assms by (cases h; auto simp: bindR_Inr_iff dest!: on_views_Inr on_site_Inr)+

lemma app_request_cases:
  assumes "app_request config env req (ap, hc) = Inr (rc, keep, ap', hc')"
  obtains (routed) h where "route_match (hc_registry hc) (req_method req) (req_url req) = Some h"
    "call_handler config env h req (ap, hc) = Inr (rc, keep, ap', hc')"
  | (refused) "route_match (hc_registry hc) (req_method req) (req_url req) = None" "ap' = ap"
  using assms by (auto simp: app_request_def Let_def bindR_Inr_iff split: option.splits if_splits)

section \<open>Commands and files\<close>

definition app_confined :: "miniweb_conf_t \<Rightarrow> app_state \<Rightarrow> bool" where
  "app_confined config ap \<longleftrightarrow> man_inv (cf_static_dir config) (ap_man ap) \<and>
     (\<forall>a \<in> set (mn_acts (ap_man ap)). page_act (cf_static_dir config) a) \<and>
     (\<forall>c \<in> set (pk_trace (ap_pkg ap)). direct_cmd c \<or> (\<exists>q. c = Shell (search_cmd q)))"

lemma man_step_confined:
  assumes "man_step m (ap_man ap) = Inr st" "app_confined config ap" "op_static_dir (cf_static_dir config) m"
  shows "app_confined config (ap\<lparr>ap_man := st\<rparr>)"
  using man_step_inv [OF assms(1) _ assms(3)] assms(2)
  by (auto simp: app_confined_def acts_extend_def list_all_iff)

lemma pkg_confined:
  assumes "pkg_api_handler env req (ap_pkg ap, hc) = Inr (rc, st, hc')" "app_confined config ap"
  shows "app_confined config (ap\<lparr>ap_pkg := st\<rparr>)"
proof -
  obtain answer where "pkg_query env req (ap_pkg ap) = Inr (answer, st)" using pkg_api_handler_query [OF assms(1)] .
  from pkg_query_ran [OF this] obtain cs q where
    "pk_trace st = pk_trace (ap_pkg ap) @ cs" "list_all (\<lambda>c. direct_cmd c \<or> c = Shell (search_cmd q)) cs"
    by (auto simp: ran_def list_all_iff)
  then show ?thesis using assms(2) by (auto simp: app_confined_def list_all_iff)
qed

lemma call_handler_confined:
  assumes "call_handler config env h req (ap, hc) = Inr (rc, keep, ap', hc')" "app_confined config ap"
  shows "app_confined config ap'"
proof -
  let ?env = "(ae_man env)\<lparr>ma_static_dir := cf_static_dir config, ma_threads := cf_threads config\<rparr>"
  consider (page) "h = Man_render_handler" | (query) "h = Man_api_handler" | (pkg) "h = Pkg_api_handler"
    | (other) "h \<notin> {Man_render_handler, Man_api_handler}" "h \<noteq> Pkg_api_handler" by blast
  then show ?thesis
  proof cases
    case page
    then obtain st where st: "man_step (Page ?env req hc) (ap_man ap) = Inr st" "ap' = ap\<lparr>ap_man := st\<rparr>"
      using assms(1) by (auto simp: bindR_Inr_iff)
    from man_step_confined [OF st(1) assms(2)] st(2) show ?thesis by simp
  next
    case query
    then obtain st where st: "man_step (Query ?env req hc) (ap_man ap) = Inr st" "ap' = ap\<lparr>ap_man := st\<rparr>"
      using assms(1) by (auto simp: bindR_Inr_iff)
    from man_step_confined [OF st(1) assms(2)] st(2) show ?thesis by simp
  next
    case pkg
    then show ?thesis using assms pkg_confined by (auto simp: bindR_Inr_iff)
  next
    case other
    then show ?thesis using call_handler_frame(1,2) [OF assms(1)] assms(2) by (simp add: app_confined_def)
  qed
qed

lemma app_step_confined:
  assumes "app_step config reg e ap = Inr ap'" "app_confined config ap"
  shows "app_confined config ap'"
proof (cases e)
  case (Request env req hc)
  then obtain rc keep hc' where "app_request config env req (ap, hc\<lparr>hc_registry := reg\<rparr>) = Inr (rc, keep, ap', hc')"
    using assms(1) by (auto simp: bindR_Inr_iff)
  then show ?thesis by (cases rule: app_request_cases) (use assms(2) call_handler_confined in auto)
qed (use assms in \<open>auto simp: bindR_Inr_iff app_confined_def\<close>)

lemma app_run_induct:
  assumes "app_run config reg es ap = Inr ap'" "P ap"
    and "\<And>e ap ap'. e \<in> set es \<Longrightarrow> P ap \<Longrightarrow> app_step config reg e ap = Inr ap' \<Longrightarrow> P ap'"
  shows "P ap'"
  using assms
proof (induction es arbitrary: ap)
  case (Cons e es)
  then obtain ap1 where "app_step config reg e ap = Inr ap1" "app_run config reg es ap1 = Inr ap'" by (auto simp: bindR_Inr_iff)
  then show ?case using Cons.IH [of ap1] Cons.prems by auto
qed simp

section \<open>The manual pages at the end\<close>

text \<open>The cache of pages is marked as used before anything is put into it.\<close>

definition man_marked :: "man_state \<Rightarrow> bool" where
  "man_marked st \<longleftrightarrow> mn_cache_init st \<or> man_held (mn_cache st) = {}"

lemma save_page_init: "save_page env path body st = Inr st' \<Longrightarrow> mn_cache_init st' = mn_cache_init st"
  by (auto simp: save_page_def write_file_binary_def bindR_Inr_iff Let_def split: option.splits if_splits prod.splits)

lemma store_page_init: "store_page env path t body st = Inr st' \<Longrightarrow> mn_cache_init st \<Longrightarrow> mn_cache_init st'"
  by (auto simp: store_page_def cache_put_def split: option.splits dest!: save_page_init)

lemma man_sem_once_init [simp]: "mn_cache_init (man_sem_once env st) = mn_cache_init st"
  by (simp add: man_sem_once_def mandoc_semaphore_init_def Let_def)

lemma render_and_store_init:
  assumes "render_and_store env path t st = Inr (answer, st')" "man_is_valid_section (mt_section t)" "mn_cache_init st"
  shows "mn_cache_init st'"
proof -
  obtain sec st1 where f: "find_section env t st = Inr (sec, st1)" using assms(1) by (auto simp: render_and_store_def bindR_Inr_iff)
  then have 1: "mn_cache_init st1" using find_section_Inr [OF f assms(2)] assms(3) by auto
  show ?thesis
  proof (cases sec)
    case None
    then show ?thesis using assms(1) f 1 by (auto simp: render_and_store_def)
  next
    case (Some section')
    then obtain out st2 where r: "man_render_page env section' (mt_page t) (mt_format t) st1 = Inr (out, st2)"
      using assms(1) f by (auto simp: render_and_store_def bindR_Inr_iff)
    then have "mn_cache_init st2" using man_render_page_Inr [OF r] 1 by auto
    then show ?thesis using assms(1) f Some r
      by (cases out) (auto simp: render_and_store_def bindR_Inr_iff dest: store_page_init)
  qed
qed

lemma man_request_init:
  assumes "man_request env req st = Inr (answer, st')"
  shows "st' = st \<or> mn_cache_init st'"
proof (cases "st' = st")
  case False
  let ?t = "parse_man_url (req_url req)"
  have page: "man_page env ?t st = Inr (answer, st')" "man_is_valid_section (mt_section ?t)"
    using assms False by (auto simp: man_request_def Let_def split: if_splits)
  obtain hit cache where "man_render_cache_get (mn_cache st) (ma_time env) (ma_copy_malloc env) (target_key ?t) = (hit, cache)" by fastforce
  then have "mn_cache_init st' \<or> (\<exists>path. render_and_store env path ?t (st\<lparr>mn_cache := cache, mn_cache_init := True\<rparr>) = Inr (answer, st'))"
    using page(1) by (auto simp: man_page_def cache_put_def Let_def split: option.splits)
  then show ?thesis using render_and_store_init [OF _ page(2)] by auto
qed simp

lemma man_cleanup_empty: "man_marked st \<Longrightarrow> man_held (mn_cache (man_module_cleanup st)) = {}"
  by (auto simp: man_marked_def man_module_cleanup_def man_render_cache_cleanup_def man_held_def man_slots_def Let_def)

lemma man_step_marked:
  assumes "man_step m st = Inr st'" "man_marked st"
  shows "man_marked st'"
proof (cases m)
  case (Page env req hc)
  then obtain rc hc' where "man_render_handler env req (st, hc) = Inr (rc, st', hc')" using assms(1) by (auto simp: bindR_Inr_iff)
  then obtain answer where "man_request env req st = Inr (answer, st')" by (rule man_render_handler_request)
  from man_request_init [OF this] show ?thesis using assms(2) by (auto simp: man_marked_def)
next
  case (Query env req hc)
  then obtain rc hc' where "man_api_handler env req (st, hc) = Inr (rc, st', hc')" using assms(1) by (auto simp: bindR_Inr_iff)
  from man_api_handler_acts [OF this] show ?thesis using assms(2) by (auto simp: man_marked_def)
next
  case Cleanup
  then show ?thesis using assms man_cleanup_empty by (auto simp: man_marked_def)
qed

lemma call_handler_marked:
  assumes "call_handler config env h req (ap, hc) = Inr (rc, keep, ap', hc')" "man_marked (ap_man ap)"
  shows "man_marked (ap_man ap')"
proof -
  let ?env = "(ae_man env)\<lparr>ma_static_dir := cf_static_dir config, ma_threads := cf_threads config\<rparr>"
  consider (page) "h = Man_render_handler" | (query) "h = Man_api_handler" | (other) "h \<notin> {Man_render_handler, Man_api_handler}" by blast
  then have "ap_man ap' = ap_man ap \<or> (\<exists>m. man_step m (ap_man ap) = Inr (ap_man ap'))"
  proof cases
    case page
    then have "man_step (Page ?env req hc) (ap_man ap) = Inr (ap_man ap')" using assms(1) by (auto simp: bindR_Inr_iff)
    then show ?thesis by blast
  next
    case query
    then have "man_step (Query ?env req hc) (ap_man ap) = Inr (ap_man ap')" using assms(1) by (auto simp: bindR_Inr_iff)
    then show ?thesis by blast
  next
    case other
    then show ?thesis using call_handler_frame(1) [OF assms(1)] by simp
  qed
  then show ?thesis using man_step_marked assms(2) by auto
qed

lemma app_step_marked:
  assumes "app_step config reg e ap = Inr ap'" "man_marked (ap_man ap)"
  shows "man_marked (ap_man ap')"
proof (cases e)
  case (Request env req hc)
  then obtain rc keep hc' where "app_request config env req (ap, hc\<lparr>hc_registry := reg\<rparr>) = Inr (rc, keep, ap', hc')"
    using assms(1) by (auto simp: bindR_Inr_iff)
  then show ?thesis by (cases rule: app_request_cases) (use assms(2) call_handler_marked in auto)
qed (use assms in \<open>auto simp: bindR_Inr_iff\<close>)

section \<open>What the configuration switches off\<close>

lemma route_spec_enabled:
  assumes "route_spec d m p = Some h"
  shows "m = ''GET''" "h \<in> {Man_render_handler, Man_api_handler} \<Longrightarrow> mac_enable_man d \<noteq> 0"
    "h = Pkg_api_handler \<Longrightarrow> mac_enable_packages d \<noteq> 0" "h = Metrics_handler \<Longrightarrow> mac_enable_metrics d \<noteq> 0"
    "h = Networking_api_handler \<Longrightarrow> mac_enable_networking d \<noteq> 0"
    "h \<in> {View_template_handler, Favicon_handler, Static_handler} \<Longrightarrow> mac_enable_views d \<noteq> 0"
  using assms by (auto simp: route_spec_def split: if_splits)

fun quiet_event :: "app_event \<Rightarrow> bool" where
  "quiet_event (Request env req hc) \<longleftrightarrow> req_method req \<noteq> ''GET''"
| "quiet_event e \<longleftrightarrow> False"

lemma app_step_inert:
  assumes "app_step config (init_routes (Some config) reg0) e ap = Inr ap'"
  shows "cf_enable_man config = 0 \<Longrightarrow> ap_man ap' = ap_man ap"
    "cf_enable_packages config = 0 \<Longrightarrow> ap_pkg ap' = ap_pkg ap"
    "cf_enable_views config = 0 \<Longrightarrow> ap_shards ap' = ap_shards ap \<and> ap_templates ap' = ap_templates ap \<and> ap_views ap' = ap_views ap"
    "cf_enable_metrics config = 0 \<Longrightarrow> (\<And>env. e \<noteq> Metrics_beat env) \<Longrightarrow> ap_metrics ap' = ap_metrics ap"
    "cf_enable_networking config = 0 \<Longrightarrow> (\<And>env. e \<noteq> Network_beat env) \<Longrightarrow> ap_net ap' = ap_net ap"
    "quiet_event e \<Longrightarrow> ap' = ap"
proof -
  let ?d = "module_config (Some config)"
  have en: "mac_enable_man ?d = cf_enable_man config" "mac_enable_packages ?d = cf_enable_packages config"
    "mac_enable_views ?d = cf_enable_views config" "mac_enable_metrics ?d = cf_enable_metrics config"
    "mac_enable_networking ?d = cf_enable_networking config" by (simp_all add: module_config_def)
  have req: "ap' = ap \<or> (\<exists>h rc keep hc2 hc'. route_spec ?d (req_method req) (req_url req) = Some h \<and>
      call_handler config env h req (ap, hc2) = Inr (rc, keep, ap', hc'))" if e: "e = Request env req hc" for env req hc
  proof -
    obtain rc keep hc' where "app_request config env req (ap, hc\<lparr>hc_registry := init_routes (Some config) reg0\<rparr>) = Inr (rc, keep, ap', hc')"
      using assms e by (auto simp: bindR_Inr_iff)
    then show ?thesis by (cases rule: app_request_cases) (auto simp: route_match_spec)
  qed
  note handled = call_handler_frame route_spec_enabled
  show "ap_man ap' = ap_man ap" if "cf_enable_man config = 0"
    by (cases e) (use that assms req handled(1) handled(7) [of ?d] en in \<open>fastforce simp: bindR_Inr_iff\<close>)+
  show "ap_pkg ap' = ap_pkg ap" if "cf_enable_packages config = 0"
    by (cases e) (use that assms req handled(2) handled(8) [of ?d] en in \<open>fastforce simp: bindR_Inr_iff\<close>)+
  show "ap_shards ap' = ap_shards ap \<and> ap_templates ap' = ap_templates ap \<and> ap_views ap' = ap_views ap" if "cf_enable_views config = 0"
    by (cases e) (use that assms req handled(5) handled(11) [of ?d] en in \<open>fastforce simp: bindR_Inr_iff\<close>)+
  show "ap_metrics ap' = ap_metrics ap" if "cf_enable_metrics config = 0" "\<And>env. e \<noteq> Metrics_beat env"
    by (cases e) (use that assms req handled(3) handled(9) [of ?d] en in \<open>fastforce simp: bindR_Inr_iff\<close>)+
  show "ap_net ap' = ap_net ap" if "cf_enable_networking config = 0" "\<And>env. e \<noteq> Network_beat env"
    by (cases e) (use that assms req handled(4) handled(10) [of ?d] en in \<open>fastforce simp: bindR_Inr_iff\<close>)+
  show "ap' = ap" if "quiet_event e"
    by (cases e) (use that req handled(6) [of ?d] in fastforce)+
qed

section \<open>The log and the end of the process\<close>

lemma log_write_keeps: "log_write level ts m lg = Inr lg' \<Longrightarrow> lg_fp lg' = lg_fp lg \<and> lg_open lg' = lg_open lg"
  by (auto simp: log_write_def log_put_def Let_def split: log_dest.splits option.splits if_splits)

lemma log_put_keeps: "log_put d m lg = Inr lg' \<Longrightarrow> lg_fp lg' = lg_fp lg \<and> lg_open lg' = lg_open lg"
  by (auto simp: log_put_def split: log_dest.splits if_splits)

lemma security_keeps_log:
  "miniweb_apply_openbsd_security openbsd namei ok ts err config (sb, lg) = Inr (sb', lg') \<Longrightarrow> lg_fp lg' = lg_fp lg \<and> lg_open lg' = lg_open lg"
  by (auto simp: miniweb_apply_openbsd_security_def Let_def bindR_Inr_iff log_debug_def log_errno_def log_error_def
      split: if_splits prod.splits dest!: log_write_keeps)

lemma log_infos_keeps: "log_infos ts ms lg = Inr lg' \<Longrightarrow> lg_fp lg' = lg_fp lg \<and> lg_open lg' = lg_open lg"
  by (induction ms arbitrary: lg) (auto simp: bindR_Inr_iff log_info_def dest!: log_write_keeps)

text \<open>What \<^verbatim>\<open>main\<close> leaves behind when it ends regularly.\<close>

definition app_empty :: "app_state \<Rightarrow> bool" where
  "app_empty ap \<longleftrightarrow> man_held (mn_cache (ap_man ap)) = {} \<and> nr_buf (nz_ring (ap_net ap)) = None \<and>
     me_snapshot_json (ap_metrics ap) = None \<and> \<not> me_ring_ready (ap_metrics ap) \<and> pr_buf (pk_ring (ap_pkg ap)) = None \<and>
     tc_cache (ap_templates ap) = [] \<and> (\<forall>s \<in> set (ap_shards ap). \<forall>e \<in> set (fs_entries s). fe_data e = [])"

lemma main_cleanup_empty: "man_marked (ap_man ap) \<Longrightarrow> app_empty (main_cleanup ap)"
  using man_cleanup_empty [of "ap_man ap"]
  by (auto simp: app_empty_def main_cleanup_def networking_module_cleanup_def metrics_module_cleanup_def packages_cache_cleanup_def
      pkg_ring_free_def http_handler_globals_cleanup_def template_cache_cleanup_def Let_def split: option.splits)

lemma main_serve_ends:
  assumes "main_serve env config (ap, lg) = Inr (code, ap', lg')" "man_marked (ap_man ap)"
  shows "code = 0 \<and> app_empty ap' \<and> lg_fp lg' = None \<and>
    lg_open lg' = (case lg_fp lg of Some (Logfile f) \<Rightarrow> removeAll f (lg_open lg) | _ \<Rightarrow> lg_open lg)"
proof -
  let ?reg = "init_routes (Some config) \<lparr>routes = [], prefix_routes = []\<rparr>"
  let ?freq = "metrics_init_cpu_freq (mx_cpu_freq env) (me_cpu_freq_mhz (ap_metrics ap))"
  let ?ap = "\<lambda>sb. ap\<lparr>ap_metrics := (ap_metrics ap)\<lparr>me_cpu_freq_mhz := ?freq\<rparr>, ap_sandbox := sb\<rparr>"
  obtain ap2 sb lg1 lg2 lg3 where r: "app_run config ?reg (mx_events env) (?ap sb) = Inr ap2 \<or> ap2 = ?ap sb"
    and lg: "log_info (mx_ts env) (''Routes registered '' @ [CHR 0xE2, CHR 0x80, CHR 0x94] @ '' listening'') lg = Inr lg1"
    "miniweb_apply_openbsd_security (mx_openbsd env) (mx_namei env) (mx_pledge env) (mx_ts env) (mx_errno env) config
      (ap_sandbox ap, lg1) = Inr (sb, lg2)"
    "log_info (mx_ts env) ''MiniWeb shutting down'' lg2 = Inr lg3" "log_close lg3 = Inr lg'"
    and res: "code = 0" "ap' = main_cleanup ap2"
    using assms(1) unfolding main_serve_def Let_def prod.case by (elim bindR_InrE) (fastforce split: if_splits elim!: bindR_InrE)
  have "man_marked (ap_man ap2)"
  proof (cases "ap2 = ?ap sb")
    case False
    then have "app_run config ?reg (mx_events env) (?ap sb) = Inr ap2" using r by simp
    then show ?thesis by (rule app_run_induct) (use assms(2) app_step_marked in auto)
  qed (use assms(2) in simp)
  moreover have "lg_fp lg3 = lg_fp lg \<and> lg_open lg3 = lg_open lg"
    using lg(1,3) security_keeps_log [OF lg(2)] by (auto simp: log_info_def dest!: log_write_keeps)
  ultimately show ?thesis using res main_cleanup_empty lg(4)
    by (auto simp: log_close_def split: option.splits log_dest.splits if_splits)
qed

lemma log_init_start:
  "log_init (Some f) verbose ok err log_state0 = Inr (rc, lg) \<Longrightarrow>
    if f \<noteq> [] \<and> \<not> ok then rc = -1
    else rc = 0 \<and> lg_fp lg = Some (if f = [] then Stderr else Logfile 0) \<and> lg_open lg = (if f = [] then [] else [0])"
  by (cases f) (auto simp: log_init_def log_state0_def bindR_Inr_iff split: if_splits)

lemma main_after_log:
  assumes "main env (ap0, lg0) = Inr (code, ap, lg)"
    and "parse_args (mx_fs env) (mx_home env) (mx_cores env) (mx_opts env) = Inr config"
    and "template_cache_init (mx_world env) (cf_templates_dir config) (ap_templates ap0) = (ok, templates)"
  obtains rc lg1 where "log_init (Some (cf_log_file config)) (cf_verbose config \<noteq> 0) (mx_fopen env) (mx_errno env) lg0 = Inr (rc, lg1)"
    "rc \<noteq> 0 \<longrightarrow> code = 1" "rc = 0 \<and> \<not> ok \<longrightarrow> code = 1"
    "rc = 0 \<and> ok \<longrightarrow> (\<exists>lg2. lg_fp lg2 = lg_fp lg1 \<and> lg_open lg2 = lg_open lg1 \<and>
       main_serve env config (ap0\<lparr>ap_templates := templates\<rparr>, lg2) = Inr (code, ap, lg))"
proof -
  obtain rc lg1 where i: "log_init (Some (cf_log_file config)) (cf_verbose config \<noteq> 0) (mx_fopen env) (mx_errno env) lg0 = Inr (rc, lg1)"
    using assms(1,2) by (auto simp: main_def bindR_Inr_iff)
  show thesis
  proof (cases "rc = 0")
    case True
    then obtain lg2 lg3 where l: "log_infos (mx_ts env) (start_lines config) (log_set_verbose (cf_verbose config \<noteq> 0) lg1) = Inr lg2"
      and d: "(if cf_verbose config \<noteq> 0 then log_put Stderr (conf_dump config) lg2 else Inr lg2) = Inr lg3"
      using assms(1,2) i by (auto simp: main_def bindR_Inr_iff)
    have keeps: "lg_fp lg3 = lg_fp lg1 \<and> lg_open lg3 = lg_open lg1"
      using log_infos_keeps [OF l] d by (auto simp: log_set_verbose_def split: if_splits dest!: log_put_keeps)
    show thesis using assms i True l d keeps
      by (intro that [OF i]) (auto simp: main_def bindR_Inr_iff intro!: exI [of _ lg3])
  next
    case False
    then show thesis using assms(1,2) i by (intro that [OF i]) (auto simp: main_def)
  qed
qed

section \<open>A worker and its handler\<close>

abbreviation worker_req :: "int \<Rightarrow> miniweb_connection_t \<Rightarrow> string \<Rightarrow> string \<Rightarrow> string \<Rightarrow> http_request_t" where
  "worker_req fd conn meth path version \<equiv>
     \<lparr>req_fd = fd, req_method = meth, req_url = path, req_version = version,
      req_keep_alive = request_keep_alive (c_str (conn_buffer conn)) version,
      req_buffer = c_str (conn_buffer conn), req_buffer_len = conn_bytes_read conn,
      req_client_addr = Some (sin_addr (conn_addr conn))\<rparr>"

lemma worker_respond_routed:
  assumes p: "parse_request_line (c_str (conn_buffer conn)) = Some (meth, path, version)"
    and m: "route_match (hc_registry (sv_http rt)) meth path = Some h"
    and r: "worker_respond handlers io fd slot conn rt = Some rt'"
  obtains rc keep hc as where
    "handlers h (worker_req fd conn meth path version) ((sv_http rt)\<lparr>hc_ws := io_ws io, hc_ps := io_ps io, hc_out := []\<rparr>) = Some (rc, keep, hc)"
    "sv_trace rt' = sv_trace rt @ [Act_send fd (hc_out hc)] @ as" "rc \<noteq> 0 \<longrightarrow> Act_close fd \<in> set as"
proof -
  obtain rc keep rt1 where run: "on_socket fd io (handlers h (worker_req fd conn meth path version)) rt = Some (rc, keep, rt1)"
    and rt': "rt' = (if keep \<and> rc = 0
        then (let (ok, rt2) = try_rearm_keepalive slot io rt1 in if ok then rt2 else close_connection fd rt2)
        else close_connection fd rt1)"
    using p m r by (auto simp: worker_respond_def Let_def split: option.splits if_splits prod.splits)
  obtain ok rt2 where re: "try_rearm_keepalive slot io rt1 = (ok, rt2)" by fastforce
  have tail: "\<exists>as. sv_trace rt' = sv_trace rt1 @ as \<and> (rc \<noteq> 0 \<longrightarrow> Act_close fd \<in> set as)"
    using rt' re try_rearm_trace [OF re] by (auto simp: close_connection_def act_def split: if_splits)
  from run obtain hc where
    "handlers h (worker_req fd conn meth path version) ((sv_http rt)\<lparr>hc_ws := io_ws io, hc_ps := io_ps io, hc_out := []\<rparr>) = Some (rc, keep, hc)"
    "sv_trace rt1 = sv_trace rt @ [Act_send fd (hc_out hc)]" by (auto simp: on_socket_def)
  then show thesis using that tail by auto
qed

lemma path_slash_count_append: "path_slash_count (a @ b) = path_slash_count a + path_slash_count b"
  by (induction a) auto

lemma path_slash_count_nonneg: "0 \<le> path_slash_count a"
  by (induction a) auto

lemma man_route:
  assumes "mac_enable_man d \<noteq> 0"
  shows "route_spec d ''GET'' (''/man/'' @ a @ ''/'' @ b @ ''/'' @ c) = Some Man_render_handler"
  using assms path_slash_count_nonneg [of a] path_slash_count_nonneg [of b] path_slash_count_nonneg [of c]
  by (simp add: route_spec_def path_slash_count_append)

lemma app_run_confined:
  assumes "app_run config reg es ap0 = Inr ap" "ap_man ap0 = man_state0" "pk_trace (ap_pkg ap0) = []"
  shows "app_confined config ap"
proof -
  have "app_confined config ap0" using assms(2,3) man_inv_state0 by (simp add: app_confined_def) (simp add: man_state0_def)
  with assms(1) show ?thesis by (rule app_run_induct) (use app_step_confined in blast)
qed

lemma program_nodes:
  "path_nodes ''/usr/bin/man'' = path_nodes ''/usr/bin'' @ [''man'']"
  "path_nodes ''/usr/bin/apropos'' = path_nodes ''/usr/bin'' @ [''apropos'']"
  "path_nodes ''/usr/bin/mandoc'' = path_nodes ''/usr/bin'' @ [''mandoc'']"
  "path_nodes ''/usr/sbin/pkg_info'' = path_nodes ''/usr/sbin'' @ [''pkg_info'']"
  "path_nodes ''/bin/sh'' = path_nodes ''/bin'' @ [''sh'']"
  by code_simp+

text \<open>What reaches the client of a handler that delivers one message.\<close>

lemma delivered_prefix: "delivered hc msg = Some (rc, hc') \<Longrightarrow> \<exists>out. hc_out hc' = hc_out hc @ out \<and> prefix out msg \<and> (rc = 0 \<longrightarrow> out = msg)"
  by (auto simp: delivered_def http_response_write_all_def strict_prefix_def dest!: write_all_loop_sent)

section \<open>Properties\<close>


text \<open>
  C13. What the whole server may do to the system: whatever the routing table, whatever requests arrive and however they mix with the
  beats of the heartbeat, the only programs that are started are \<^verbatim>\<open>pkg_info\<close>, \<^verbatim>\<open>man\<close>, \<^verbatim>\<open>apropos\<close> and \<^verbatim>\<open>mandoc\<close>, each
  directly and with checked arguments, apart from the one command line of the package search; and the only files and directories that
  are made are those of manual pages below the configured directory of static files.
\<close>

theorem app_effects_confined:
  assumes "app_run config reg es ap0 = Inr ap" "ap_man ap0 = man_state0" "pk_trace (ap_pkg ap0) = []"
  shows "(\<forall>a \<in> set (mn_acts (ap_man ap)). page_act (cf_static_dir config) a) \<and>
    (\<forall>c \<in> set (pk_trace (ap_pkg ap)). direct_cmd c \<or> (\<exists>q. c = Shell (search_cmd q)))"
  using app_run_confined [OF assms] by (simp add: app_confined_def)


text \<open>
  C18. Switched off is off: in a server with the routes of its configuration, no sequence of requests changes anything in a module that
  the configuration disables (the two modules with a heartbeat aside from their beats), and requests with a method other than GET
  change nothing at all.
\<close>

theorem app_disabled_inert:
  assumes "app_run config (init_routes (Some config) reg0) es ap0 = Inr ap"
  shows "(cf_enable_man config = 0 \<longrightarrow> ap_man ap = ap_man ap0) \<and> (cf_enable_packages config = 0 \<longrightarrow> ap_pkg ap = ap_pkg ap0) \<and>
    (cf_enable_views config = 0 \<longrightarrow> ap_shards ap = ap_shards ap0 \<and> ap_templates ap = ap_templates ap0 \<and> ap_views ap = ap_views ap0) \<and>
    (cf_enable_metrics config = 0 \<and> (\<forall>e \<in> set es. \<forall>env. e \<noteq> Metrics_beat env) \<longrightarrow> ap_metrics ap = ap_metrics ap0) \<and>
    (cf_enable_networking config = 0 \<and> (\<forall>e \<in> set es. \<forall>env. e \<noteq> Network_beat env) \<longrightarrow> ap_net ap = ap_net ap0) \<and>
    (list_all quiet_event es \<longrightarrow> ap = ap0)"
proof (intro conjI impI)
  note run = app_run_induct [OF assms]
  show "ap_man ap = ap_man ap0" if "cf_enable_man config = 0"
    by (rule run [where P = "\<lambda>x. ap_man x = ap_man ap0"]) (use app_step_inert(1) that in auto)
  show "ap_pkg ap = ap_pkg ap0" if "cf_enable_packages config = 0"
    by (rule run [where P = "\<lambda>x. ap_pkg x = ap_pkg ap0"]) (use app_step_inert(2) that in auto)
  show "ap_shards ap = ap_shards ap0" if "cf_enable_views config = 0"
    by (rule run [where P = "\<lambda>x. ap_shards x = ap_shards ap0"]) (use app_step_inert(3) that in auto)
  show "ap_templates ap = ap_templates ap0" if "cf_enable_views config = 0"
    by (rule run [where P = "\<lambda>x. ap_templates x = ap_templates ap0"]) (use app_step_inert(3) that in auto)
  show "ap_views ap = ap_views ap0" if "cf_enable_views config = 0"
    by (rule run [where P = "\<lambda>x. ap_views x = ap_views ap0"]) (use app_step_inert(3) that in auto)
  show "ap_metrics ap = ap_metrics ap0" if "cf_enable_metrics config = 0 \<and> (\<forall>e \<in> set es. \<forall>env. e \<noteq> Metrics_beat env)"
    by (rule run [where P = "\<lambda>x. ap_metrics x = ap_metrics ap0"]) (use app_step_inert(4) that in auto)
  show "ap_net ap = ap_net ap0" if "cf_enable_networking config = 0 \<and> (\<forall>e \<in> set es. \<forall>env. e \<noteq> Network_beat env)"
    by (rule run [where P = "\<lambda>x. ap_net x = ap_net ap0"]) (use app_step_inert(5) that in auto)
  show "ap = ap0" if "list_all quiet_event es"
    by (rule run [where P = "\<lambda>x. x = ap0"]) (use app_step_inert(6) that in \<open>auto simp: list_all_iff\<close>)
qed


section \<open>The life of the process, badly ended\<close>

text \<open>
  The server's result is dropped: a server that cannot even bind its address ends with status 0, like one that was asked to stop.
\<close>

lemma main_hides_failed_start:
  assumes "fst (server_setup config (mx_setup env) (runtime_init ((mx_http env)\<lparr>hc_registry := init_routes (Some config) \<lparr>routes = [], prefix_routes = []\<rparr>\<rparr>))) = False"
    and "main_serve env config (ap, lg) = Inr (code, ap', lg')"
  shows "code = 0"
  using assms by (auto simp: main_serve_def Let_def elim!: bindR_InrE)

text \<open>
  The heartbeat thread is never stopped: a beat of the metrics or of the network after the clean-up of the module stores through the
  freed ring.
\<close>

lemma beat_after_cleanup:
  "me_ring_ready st \<Longrightarrow> metrics_heartbeat_cb env (metrics_module_cleanup st) = Inl Null_deref"
  "networking_heartbeat_cb env' (networking_module_cleanup st') = Inl Null_deref"
  by (simp_all add: metrics_heartbeat_cb_def metrics_module_cleanup_def ring_free_def ring_push_def networking_heartbeat_cb_def
      networking_module_cleanup_def networking_ring_push_def Let_def split: option.split)

section \<open>A concrete application\<close>

definition app_sample_state :: app_state where
  "app_sample_state = \<lparr>ap_shards = sx_shards site_sample_ctx, ap_templates = template_initial, ap_views = g_hot_view_cache,
     ap_metrics = sample_metrics_state, ap_net = sample_net_state, ap_pkg = pkg_sample_state, ap_man = man_state0, ap_sandbox = sandbox0\<rparr>"

definition app_sample_env :: app_env where
  "app_sample_env = \<lparr>ae_site = site_sample None, ae_view = view_sample_env, ae_metrics = sample_metrics_env, ae_net = sample_net_env,
     ae_pkg = pkg_sample_env, ae_man = man_sample_env\<rparr>"

abbreviation sample_registry :: "miniweb_conf_t \<Rightarrow> url_registry" where
  "sample_registry config \<equiv> init_routes (Some config) \<lparr>routes = [], prefix_routes = []\<rparr>"

lemma app_sample_start [simp]: "ap_man app_sample_state = man_state0" "pk_trace (ap_pkg app_sample_state) = []"
  by (simp_all add: app_sample_state_def pkg_sample_state_def)

lemma app_sample_man_env [simp]:
  "(ae_man app_sample_env)\<lparr>ma_static_dir := cf_static_dir (conf_defaults 4), ma_threads := cf_threads (conf_defaults 4)\<rparr> = man_sample_env"
  by (simp add: app_sample_env_def man_sample_env_def conf_defaults_def conf_default_threads_def MINIWEB_THREAD_POOL_SIZE_def)

lemma app_sample_routed:
  "route_match (sample_registry (conf_defaults 4)) ''GET'' ''/man/system/1/ls.txt'' = Some Man_render_handler"
  using man_route [of "module_config (Some (conf_defaults 4))" "''system''" "''1''" "''ls.txt''"]
  by (simp add: route_match_spec module_config_def conf_defaults_def)

lemma app_sample_run:
  obtains ap where "app_run (conf_defaults 4) (sample_registry (conf_defaults 4)) [Request app_sample_env man_sample_req man_sample_http]
      app_sample_state = Inr ap" "man_request man_sample_env man_sample_req man_state0 = Inr (Man_body ''LS(1)'', ap_man ap)"
proof -
  let ?hc = "man_sample_http\<lparr>hc_registry := sample_registry (conf_defaults 4)\<rparr>"
  have can: "can_create ?hc" "hc_ws ?hc = [Accepts 100000]"
    using man_sample_can_create by (simp_all add: can_create_def man_sample_http_def)
  obtain st where st: "man_request man_sample_env man_sample_req man_state0 = Inr (Man_body ''LS(1)'', st)" using man_sample_first by blast
  obtain hc' where h: "man_render_handler man_sample_env man_sample_req (man_state0, ?hc) = Inr (0, st, hc')"
    using man_sample_handler [OF st refl can] by blast
  have "req_method man_sample_req = ''GET''" "req_url man_sample_req = ''/man/system/1/ls.txt''" by (simp_all add: man_sample_req_def)
  then have "app_run (conf_defaults 4) (sample_registry (conf_defaults 4)) [Request app_sample_env man_sample_req man_sample_http]
      app_sample_state = Inr (app_sample_state\<lparr>ap_man := st\<rparr>)"
    using h app_sample_routed by (simp add: app_request_def Let_def)
  then show thesis by (rule that) (simp add: st)
qed

theorem app_effects_confined_witness:
  "\<exists>ap a. app_run (conf_defaults 4) (sample_registry (conf_defaults 4)) [Request app_sample_env man_sample_req man_sample_http]
      app_sample_state = Inr ap \<and> a \<in> set (mn_acts (ap_man ap)) \<and> page_act ''static'' a"
proof -
  obtain ap where run: "app_run (conf_defaults 4) (sample_registry (conf_defaults 4)) [Request app_sample_env man_sample_req man_sample_http]
      app_sample_state = Inr ap" and req: "man_request man_sample_env man_sample_req man_state0 = Inr (Man_body ''LS(1)'', ap_man ap)"
    by (rule app_sample_run)
  obtain a where a: "a \<in> set (mn_acts (ap_man ap))"
    using man_request_ok [OF req man_inv_state0] by (auto simp: request_ok_def cached_def rendering_def)
  have "cf_static_dir (conf_defaults 4) = ''static''" by (simp add: conf_defaults_def)
  then show ?thesis using app_effects_confined [OF run] run a by auto
qed


definition app_sample_conn :: miniweb_connection_t where
  "app_sample_conn = zero_connection\<lparr>conn_buffer := ''GET /man/system/1/ls.txt HTTP/1.1'' @ CRLF @ CRLF\<rparr>"

definition app_sample_io :: socket_io where
  "app_sample_io = \<lparr>io_recvs = [], io_ws = [Accepts 100000], io_ps = [], io_kevent_ok = True, io_now = 0\<rparr>"

definition app_sample_rt :: miniweb_server_runtime_t where
  "app_sample_rt = (runtime_init (sample_ctx\<lparr>hc_registry := sample_registry (conf_defaults 4)\<rparr>))"

lemma sample_ctx_can_create: "can_create (sample_ctx\<lparr>hc_registry := reg\<rparr>)"
proof -
  have fresh: "\<not> rp_initialized (response_pools0 ! response_pool_shard_index 1)"
    using response_pool_shard_index_less [of 1] by (simp add: response_pools0_def)
  show ?thesis using response_pool_inv_fresh(1) [OF fresh] by (simp add: can_create_def response_pools0_def sample_ctx_def)
qed

lemma app_sample_parse:
  "parse_request_line (c_str (conn_buffer app_sample_conn)) = Some (''GET'', ''/man/system/1/ls.txt'', ''HTTP/1.1'')"
  "request_keep_alive (c_str (conn_buffer app_sample_conn)) ''HTTP/1.1''"
  by code_simp+

lemma app_sample_respond:
  "\<exists>rt'. worker_respond (app_handlers (conf_defaults 4) app_sample_env app_sample_state) app_sample_io 5 0 app_sample_conn app_sample_rt = Some rt'"
proof -
  let ?req = "worker_req 5 app_sample_conn ''GET'' ''/man/system/1/ls.txt'' ''HTTP/1.1''"
  let ?hc = "(sv_http app_sample_rt)\<lparr>hc_ws := io_ws app_sample_io, hc_ps := io_ps app_sample_io, hc_out := []\<rparr>"
  have can: "can_create ?hc" "hc_ws ?hc = [Accepts 100000]"
    using sample_ctx_can_create by (simp_all add: can_create_def app_sample_rt_def runtime_init_def app_sample_io_def)
  have url: "req_url ?req = req_url man_sample_req" by (simp add: man_sample_req_def)
  obtain st where "man_request man_sample_env man_sample_req man_state0 = Inr (Man_body ''LS(1)'', st)" using man_sample_first by blast
  then have "man_request man_sample_env ?req man_state0 = Inr (Man_body ''LS(1)'', st)"
    by (simp only: man_request_def url)
  from man_sample_handler [OF this url can] obtain hc' where
    "app_handlers (conf_defaults 4) app_sample_env app_sample_state Man_render_handler ?req ?hc = Some (0, True, hc')"
    using app_sample_parse(2) by (auto simp: app_handlers_def)
  moreover have "hc_registry (sv_http app_sample_rt) = sample_registry (conf_defaults 4)"
    by (simp add: app_sample_rt_def runtime_init_def)
  ultimately show ?thesis
    by (simp add: worker_respond_def app_sample_parse(1) app_sample_routed on_socket_def Let_def split: prod.split)
qed


text \<open>The same request to a server without the manual pages, from a client that has gone.\<close>

theorem app_disabled_inert_witness:
  "\<exists>ap. app_run ((conf_defaults 4)\<lparr>cf_enable_man := 0\<rparr>) (sample_registry ((conf_defaults 4)\<lparr>cf_enable_man := 0\<rparr>))
      [Request app_sample_env man_sample_req (man_sample_http\<lparr>hc_ws := [Write_error]\<rparr>)] app_sample_state = Inr ap \<and> ap_man ap = man_state0"
proof -
  let ?config = "(conf_defaults 4)\<lparr>cf_enable_man := 0\<rparr>"
  let ?hc = "man_sample_http\<lparr>hc_ws := [Write_error], hc_registry := sample_registry ?config\<rparr>"
  have none: "route_match (sample_registry ?config) ''GET'' ''/man/system/1/ls.txt'' = None"
    by (simp add: route_match_spec route_spec_def module_config_def conf_defaults_def)
  have req: "req_method man_sample_req = ''GET''" "req_url man_sample_req = ''/man/system/1/ls.txt''" by (simp_all add: man_sample_req_def)
  have can: "can_create ?hc" using man_sample_can_create by (simp add: can_create_def)
  have "\<exists>r. error_handler code msg man_sample_req ?hc = Some r" if "100 \<le> code" "code < 600" "length msg \<le> 1500" for code msg
  proof -
    have "http_message k code t hs body \<noteq> []" for k t hs body by (simp add: http_message_def message_lines_def)
    then have "\<exists>r. delivered ?hc (http_message k code t hs body) = Some r" for k t hs body
      by (simp add: delivered_def http_response_write_all_def neq_Nil_conv)
    then show ?thesis using http_send_error_delivered [OF can that, of man_sample_req]
      by (auto simp: error_handler_def split: option.splits prod.splits)
  qed
  then have "\<exists>r. error_handler 404 ''Not Found'' man_sample_req ?hc = Some r" "\<exists>r. error_handler 405 ''Method Not Allowed'' man_sample_req ?hc = Some r"
    by simp_all
  then obtain ap where run: "app_run ?config (sample_registry ?config)
      [Request app_sample_env man_sample_req (man_sample_http\<lparr>hc_ws := [Write_error]\<rparr>)] app_sample_state = Inr ap"
    using none req by (auto simp: app_request_def from_option_def Let_def)
  then show ?thesis using app_disabled_inert [OF run] by auto
qed

definition main_sample_env :: main_env where
  "main_sample_env = \<lparr>mx_fs = (\<lambda>_. None), mx_home = None, mx_cores = 1, mx_opts = [], mx_ts = ''t'', mx_fopen = False, mx_errno = [],
     mx_world = \<lparr>wd_time = 100, wd_readdir = (\<lambda>_. Some [''base.html'']),
       wd_stat = (\<lambda>_. Some \<lparr>st_size = 0, st_mtime = 7, st_isdir = False, st_isreg = True\<rparr>), wd_fopen = (\<lambda>_. Some (sample_stream ''x''))\<rparr>,
     mx_cpu_freq = None, mx_openbsd = True, mx_namei = (\<lambda>p. Some (path_nodes p)), mx_pledge = True, mx_setup = sample_setup, mx_kevents = [(0, Kev_error)], mx_http = sample_ctx, mx_events = []\<rparr>"


end
