(* ===== verification/System.thy ===== *)
theory System
  imports Application Response_Use
begin

text \<open>
  The running system: dispatcher and workers of \<open>Server\<close> with the handlers of \<open>Application\<close> behind
  them, and the heartbeat. A worker serves with the handlers as they are in the present state of the
  modules, under the identity of its thread and with its own luck on the heap; its request changes the
  modules. The requests and beats that one process has seen form a history of the application, so that
  what holds of every history holds of the running system.
\<close>

section \<open>Model\<close>

record system =
  ss_srv :: server_sys
  ss_app :: app_state

text \<open>The globals as a thread sees them.\<close>

definition as_thread :: "64 word \<Rightarrow> bool \<Rightarrow> miniweb_server_runtime_t \<Rightarrow> miniweb_server_runtime_t" where
  "as_thread tid calloc_ok rt = rt\<lparr>sv_http := (sv_http rt)\<lparr>hc_tid := tid, hc_calloc_ok := calloc_ok\<rparr>\<rparr>"

text \<open>The request that a worker finds in what it receives, if it is complete and can be parsed.\<close>

definition served_request ::
  "miniweb_conf_t \<Rightarrow> socket_io \<Rightarrow> int \<Rightarrow> nat \<Rightarrow> miniweb_server_runtime_t \<Rightarrow> http_request_t option" where
  "served_request config io fd slot rt =
     (case recv_loop (nat (cf_max_req_size config)) (cp_pool (sv_pool rt) ! slot) (io_recvs io) of
        Some (Recv_done, conn) \<Rightarrow>
          map_option (\<lambda>(meth, path, version). worker_req fd conn meth path version) (parse_request_line (c_str (conn_buffer conn)))
      | _ \<Rightarrow> None)"

definition socket_ctx :: "socket_io \<Rightarrow> miniweb_server_runtime_t \<Rightarrow> http_ctx" where
  "socket_ctx io rt = (sv_http rt)\<lparr>hc_ws := io_ws io, hc_ps := io_ps io, hc_out := []\<rparr>"

text \<open>What serving does to the modules.\<close>

definition served_app ::
  "miniweb_conf_t \<Rightarrow> app_env \<Rightarrow> socket_io \<Rightarrow> int \<Rightarrow> nat \<Rightarrow> miniweb_server_runtime_t \<Rightarrow> app_state \<Rightarrow> fault + app_state" where
  "served_app config env io fd slot rt ap =
     (case served_request config io fd slot rt of
        None \<Rightarrow> Inr ap
      | Some req \<Rightarrow> bindR (app_request config env req (ap, socket_ctx io rt)) (\<lambda>(rc, keep, ap', hc'). Inr ap'))"

inductive system_step :: "miniweb_conf_t \<Rightarrow> system \<Rightarrow> system \<Rightarrow> bool" for config where
  sys_server:
    "s = ss_srv y \<Longrightarrow> server_step config (\<lambda>_ _ _. None) (s\<lparr>sy_rt := as_thread tid calloc_ok (sy_rt s)\<rparr>) s' \<Longrightarrow>
     system_step config y (y\<lparr>ss_srv := s'\<rparr>)"
| sys_serve:
    "s = ss_srv y \<Longrightarrow> i < length (sy_workers s) \<Longrightarrow> sy_workers s ! i = Some (fd, slot) \<Longrightarrow> rt = as_thread tid calloc_ok (sy_rt s) \<Longrightarrow>
     worker_serve config (app_handlers config env (ss_app y)) io fd slot rt = Some rt' \<Longrightarrow>
     served_app config env io fd slot rt (ss_app y) = Inr ap' \<Longrightarrow>
     system_step config y \<lparr>ss_srv = s\<lparr>sy_rt := rt', sy_workers := (sy_workers s)[i := None]\<rparr>, ss_app = ap'\<rparr>"
| sys_metrics_beat:
    "metrics_heartbeat_cb env (ap_metrics (ss_app y)) = Inr st \<Longrightarrow> system_step config y (y\<lparr>ss_app := (ss_app y)\<lparr>ap_metrics := st\<rparr>\<rparr>)"
| sys_network_beat:
    "networking_heartbeat_cb env (ap_net (ss_app y)) = Inr st \<Longrightarrow> system_step config y (y\<lparr>ss_app := (ss_app y)\<lparr>ap_net := st\<rparr>\<rparr>)"

inductive_cases system_stepE: "system_step config y z"

text \<open>Up and listening, with the routes of the configuration and the pools as they are at the start of the process.\<close>

definition system_init :: "miniweb_conf_t \<Rightarrow> url_registry \<Rightarrow> app_state \<Rightarrow> system \<Rightarrow> bool" where
  "system_init config reg ap0 y \<longleftrightarrow> ss_app y = ap0 \<and>
     (\<exists>su hc n rt. hc_registry hc = reg \<and> hc_pools hc = response_pools0 \<and>
        server_setup config su (runtime_init hc) = (True, n, rt) \<and>
        ss_srv y = \<lparr>sy_rt = rt, sy_workers = replicate n None, sy_last_sweep = su_now su\<rparr>)"

section \<open>All responses are in the pools\<close>

definition pools_idle :: "http_ctx \<Rightarrow> bool" where
  "pools_idle hc \<longleftrightarrow> pools_ok hc \<and> (\<forall>p \<in> set (hc_pools hc). length (rp_free p) = RESPONSE_POOL_ITEMS)"

lemma pools_idle_cong: "hc_pools hc' = hc_pools hc \<Longrightarrow> pools_idle hc' \<longleftrightarrow> pools_idle hc"
  by (simp add: pools_idle_def pools_ok_def)

lemma pools_idle_back:
  assumes "pools_idle hc" "gives_back hc hc'"
  shows "pools_idle hc'"
proof -
  have "set (pools_ready hc) \<subseteq> insert (response_pool_init_locked (hc_pools hc ! response_pool_shard_index (hc_tid hc))) (set (hc_pools hc))"
    using set_update_subset_insert by (simp add: pools_ready_def Let_def)
  moreover have "hc_pools hc ! response_pool_shard_index (hc_tid hc) \<in> set (hc_pools hc)"
    using assms(1) response_pool_shard_index_less [of "hc_tid hc"] by (simp add: pools_idle_def pools_ok_def)
  ultimately have "\<forall>p \<in> set (hc_pools hc'). length (rp_free p) = RESPONSE_POOL_ITEMS"
    using assms by (auto simp: gives_back_def pools_idle_def)
  then show ?thesis using gives_back_ok [OF assms(2)] assms(1) by (simp add: pools_idle_def)
qed

lemma pools_idle_can_create:
  assumes "pools_idle hc"
  shows "can_create hc"
proof -
  let ?p = "hc_pools hc ! response_pool_shard_index (hc_tid hc)"
  have "?p \<in> set (hc_pools hc)"
    using assms response_pool_shard_index_less [of "hc_tid hc"] by (simp add: pools_idle_def pools_ok_def)
  then have "response_pool_inv ?p" "length (rp_free ?p) = RESPONSE_POOL_ITEMS" using assms by (auto simp: pools_idle_def pools_ok_def)
  then show ?thesis using assms by (auto simp: can_create_def pools_idle_def pools_ok_def RESPONSE_POOL_ITEMS_def)
qed

lemma pools_idle_start: "hc_pools hc = response_pools0 \<Longrightarrow> pools_idle hc"
  using response_pool_inv_fresh by (auto simp: pools_idle_def pools_ok_def response_pools0_def RESPONSE_POOL_ITEMS_def)

lemma call_handler_back:
  assumes "pools_ok hc" "call_handler config env h req (ap, hc) = Inr (rc, keep, ap', hc')"
  shows "gives_back hc hc'"
  using assms(2)
  by (cases h)
    (auto simp: on_views_def on_site_def bindR_Inr_iff assms(1) intro: metrics_handler_back [OF assms(1)]
      networking_api_handler_back [OF assms(1)] man_render_handler_back [OF assms(1)] man_api_handler_back [OF assms(1)]
      pkg_api_handler_back [OF assms(1)]
      dest!: view_template_handler_back [rotated] site_tidyD [OF static_handler_tidy, rotated] site_tidyD [OF favicon_handler_tidy, rotated])

lemma app_request_back:
  assumes "pools_ok hc" "app_request config env req (ap, hc) = Inr (rc, keep, ap', hc')"
  shows "gives_back hc hc'"
proof (cases "route_match (hc_registry hc) (req_method req) (req_url req)")
  case None
  then obtain code msg where "error_handler code msg req hc = Some (rc, keep, hc')"
    using assms(2) by (auto simp: app_request_def bindR_Inr_iff Let_def split: if_splits)
  then show ?thesis using tidyD [OF tidy_send_error assms(1)] by (auto simp: error_handler_def)
next
  case (Some h)
  then show ?thesis using assms by (auto simp: app_request_def Let_def intro: call_handler_back)
qed

section \<open>What is on the wire\<close>

text \<open>The answers the server gives by itself, and the whole ones they are the beginning of.\<close>

definition refusals :: "(int \<times> string) list" where
  "refusals = [(400, ''Bad Request''), (400, ''Request Too Large''), (503, ''Server busy'')]"

definition refusal_page :: "int \<Rightarrow> string \<Rightarrow> bytes" where
  "refusal_page code msg = http_message False code ''text/html; charset=utf-8'' [] (error_page code (Some msg))"

text \<open>
  An answer of the application to a request that has come in on \<open>fd\<close>, in a state that it has reached,
  by requests and beats, from its start.
\<close>

definition answer_of :: "miniweb_conf_t \<Rightarrow> url_registry \<Rightarrow> app_state \<Rightarrow> int \<Rightarrow> bytes \<Rightarrow> bool" where
  "answer_of config reg ap0 fd out \<longleftrightarrow> (\<exists>es ap env req hc rc keep ap' hc'.
     app_run config reg es ap0 = Inr ap \<and> hc_registry hc = reg \<and> hc_out hc = [] \<and> can_create hc \<and> req_fd req = fd \<and>
     app_request config env req (ap, hc) = Inr (rc, keep, ap', hc') \<and> out = hc_out hc')"

fun wire_ok :: "miniweb_conf_t \<Rightarrow> url_registry \<Rightarrow> app_state \<Rightarrow> int \<Rightarrow> net_action \<Rightarrow> bool" where
  "wire_ok config reg ap0 wake (Act_send fd out) \<longleftrightarrow>
     fd = wake \<and> out = ''x'' \<or> (\<exists>(code, msg) \<in> set refusals. prefix out (refusal_page code msg)) \<or> answer_of config reg ap0 fd out"
| "wire_ok config reg ap0 wake a \<longleftrightarrow> True"

definition net_ok :: "(net_action \<Rightarrow> bool) \<Rightarrow> url_registry \<Rightarrow> int \<Rightarrow> miniweb_server_runtime_t \<Rightarrow> bool" where
  "net_ok P reg wake rt \<longleftrightarrow> hc_registry (sv_http rt) = reg \<and> pools_idle (sv_http rt) \<and> sv_signal_pipe_wfd rt = wake \<and> list_all P (sv_trace rt)"

lemma net_ok_simps [simp]:
  "net_ok P reg wake (rt\<lparr>sv_pool := pool\<rparr>) \<longleftrightarrow> net_ok P reg wake rt"
  "net_ok P reg wake (rt\<lparr>sv_queue := q\<rparr>) \<longleftrightarrow> net_ok P reg wake rt"
  "net_ok P reg wake (rt\<lparr>sv_running := b\<rparr>) \<longleftrightarrow> net_ok P reg wake rt"
  "net_ok P reg wake (put_recv slot conn rt) \<longleftrightarrow> net_ok P reg wake rt"
  "net_ok P reg wake (as_thread tid ok rt) \<longleftrightarrow> net_ok P reg wake rt"
  "net_ok P reg wake (act as rt) \<longleftrightarrow> net_ok P reg wake rt \<and> list_all P as"
  by (auto simp: net_ok_def put_recv_def act_def as_thread_def pools_idle_def pools_ok_def)

lemma net_ok_idle: "net_ok P reg wake rt \<Longrightarrow> pools_idle (socket_ctx io rt)" "net_ok P reg wake rt \<Longrightarrow> hc_registry (socket_ctx io rt) = reg"
  by (simp_all add: net_ok_def socket_ctx_def pools_idle_def pools_ok_def)

lemma net_ok_sent:
  assumes "net_ok P reg wake rt" "gives_back (socket_ctx io rt) hc" "P (Act_send fd (hc_out hc))"
  shows "net_ok P reg wake (rt\<lparr>sv_http := hc, sv_trace := sv_trace rt @ [Act_send fd (hc_out hc)]\<rparr>)"
  using assms pools_idle_back [OF net_ok_idle(1) assms(2), of P reg wake] by (auto simp: net_ok_def gives_back_def socket_ctx_def)

text \<open>The call in the middle of the worker, for any handlers.\<close>

definition serve_run :: "(route_handler_t \<Rightarrow> handler_fn) \<Rightarrow> handler_fn" where
  "serve_run handlers req hc =
     (case route_match (hc_registry hc) (req_method req) (req_url req) of
        Some h \<Rightarrow> handlers h req hc
      | None \<Rightarrow>
          if route_path_known (hc_registry hc) (Some (req_url req))
          then error_handler 405 ''Method Not Allowed'' req hc else error_handler 404 ''Not Found'' req hc)"

lemma serve_run_app:
  "serve_run (app_handlers config env ap) req hc = Some (rc, keep, hc') \<longleftrightarrow>
    (\<exists>ap'. app_request config env req (ap, hc) = Inr (rc, keep, ap', hc'))"
  by (auto simp: serve_run_def app_request_def app_handlers_def from_option_def Let_def bindR_Inr_iff
      split: option.splits sum.splits if_splits)

lemma served_request_fd: "served_request config io fd slot rt = Some req \<Longrightarrow> req_fd req = fd"
  by (auto simp: served_request_def split: option.splits recv_result.splits)

lemma serve_run_mono: "serve_run (\<lambda>_ _ _. None) req hc = Some r \<Longrightarrow> serve_run handlers req hc = Some r"
  by (auto simp: serve_run_def split: option.splits)

section \<open>The network side\<close>

text \<open>
  What is sent, as far as the server decides it: a property of the actions on the network that the
  byte to the own pipe and the refusals have, holds of everything that is done if it holds of what
  the handlers send.
\<close>

locale sent_pred =
  fixes P :: "net_action \<Rightarrow> bool"
    and wake :: int
  assumes not_sent: "(\<And>fd out. a \<noteq> Act_send fd out) \<Longrightarrow> P a"
    and wake_up: "P (Act_send wake ''x'')"
    and refused: "(code, msg) \<in> set refusals \<Longrightarrow> prefix out (refusal_page code msg) \<Longrightarrow> P (Act_send fd out)"
begin

lemma not_sent_simps [simp]:
  "P (Act_close fd)" "P (Act_kevent_add fd slot)" "P (Act_kevent_enable fd slot)" "P (Act_kevent_delete fd)"
  by (simp_all add: not_sent)

lemma close_connection_ok [simp]: "net_ok P reg wake (close_connection fd rt) \<longleftrightarrow> net_ok P reg wake rt"
  by (simp add: close_connection_def)

lemma drop_connection_ok [simp]: "net_ok P reg wake (drop_connection fd rt) \<longleftrightarrow> net_ok P reg wake rt"
  by (simp add: drop_connection_def)

lemma try_rearm_ok: "try_rearm_keepalive slot io rt = (ok, rt') \<Longrightarrow> net_ok P reg wake rt' \<longleftrightarrow> net_ok P reg wake rt"
  by (auto simp: try_rearm_keepalive_def Let_def split: if_splits)

lemma refusal_ok:
  assumes "net_ok P reg wake rt" "on_socket fd io (error_handler code msg (internal_request fd)) rt = Some (rc, keep, rt')"
    and "(code, msg) \<in> set refusals"
  shows "net_ok P reg wake rt'"
proof -
  let ?hc = "socket_ctx io rt"
  obtain hc where hc: "http_send_error (internal_request fd) code (Some msg) ?hc = Some (rc, hc)"
    and rt': "rt' = rt\<lparr>sv_http := hc, sv_trace := sv_trace rt @ [Act_send fd (hc_out hc)]\<rparr>"
    using assms(2) by (auto simp: on_socket_def error_handler_def socket_ctx_def)
  have idle: "pools_idle ?hc" using net_ok_idle(1) [OF assms(1)] .
  have b: "100 \<le> code" "code < 600" "length msg \<le> 1500" "code \<noteq> 405" using assms(3) by (auto simp: refusals_def)
  have "delivered ?hc (refusal_page code msg) = Some (rc, hc)"
    using hc http_send_error_delivered [OF pools_idle_can_create [OF idle] b(1-3)] b(4)
    by (simp add: refusal_page_def allow_lines_def internal_request_def)
  then have "prefix (hc_out hc) (refusal_page code msg)" using delivered_prefix by (fastforce simp: socket_ctx_def)
  then have "P (Act_send fd (hc_out hc))" by (rule refused [OF assms(3)])
  moreover have "gives_back ?hc hc" using tidyD [OF tidy_send_error _ hc] idle by (simp add: pools_idle_def)
  ultimately show ?thesis unfolding rt' by (intro net_ok_sent [OF assms(1)]) simp_all
qed

lemma handle_accept_ok: "handle_accept config os rt = Some rt' \<Longrightarrow> net_ok P reg wake rt \<Longrightarrow> net_ok P reg wake rt'"
proof (induction config os rt arbitrary: rt' rule: handle_accept.induct)
  case (5 config cfd caddr io os rt)
  obtain r pool where a: "miniweb_connection_alloc (sv_pool rt) cfd (Some caddr) (cf_max_conns config) (io_now io) = (r, pool)" by fastforce
  show ?case
  proof (cases r)
    case None
    then obtain rc keep rt1 where e: "on_socket cfd io (error_handler 503 ''Server busy'' (internal_request cfd)) rt = Some (rc, keep, rt1)"
      and rest: "handle_accept config os (act [Act_close cfd] rt1) = Some rt'"
      using "5.prems"(1) a by (auto split: option.splits)
    have "net_ok P reg wake rt1" by (rule refusal_ok [OF "5.prems"(2) e]) (simp add: refusals_def)
    then show ?thesis using "5.IH"(1) [OF a [symmetric] None e refl refl rest] by simp
  next
    case (Some slot)
    then show ?thesis using "5.IH"(2,3) "5.prems" a by (auto simp: Let_def split: if_splits)
  qed
qed auto

lemma sweep_idle_ok: "net_ok P reg wake rt \<Longrightarrow> net_ok P reg wake (sweep_idle config now rt)"
proof -
  have "net_ok P reg wake (foldl (\<lambda>rt fd. drop_connection fd rt) rt fds)" if "net_ok P reg wake rt" for fds
    using that by (induction fds arbitrary: rt) simp_all
  then show "net_ok P reg wake rt \<Longrightarrow> ?thesis" by (simp add: sweep_idle_def Let_def)
qed

lemma dispatch_event_ok: "dispatch_event config ev rt = Some rt' \<Longrightarrow> net_ok P reg wake rt \<Longrightarrow> net_ok P reg wake rt'"
  by (auto simp: dispatch_event_def Let_def split: if_splits prod.splits intro: handle_accept_ok)

lemma dispatch_events_ok: "dispatch_events config evs rt = Some rt' \<Longrightarrow> net_ok P reg wake rt \<Longrightarrow> net_ok P reg wake rt'"
  by (induction evs arbitrary: rt) (auto split: option.splits intro: dispatch_event_ok)

lemma server_iteration_ok:
  "server_iteration config now kev rt ls = Some (go, rt', ls') \<Longrightarrow> net_ok P reg wake rt \<Longrightarrow> net_ok P reg wake rt'"
  by (auto simp: server_iteration_def Let_def split: kevent_outcome.splits if_splits intro: dispatch_events_ok sweep_idle_ok)

lemma worker_take_ok: "worker_take rt = (r, rt') \<Longrightarrow> net_ok P reg wake rt \<Longrightarrow> net_ok P reg wake rt'"
  by (auto simp: worker_take_def Let_def split: if_splits prod.splits pop_result.splits)

lemma worker_serve_ok:
  assumes "worker_serve config handlers io fd slot rt = Some rt'" "net_ok P reg wake rt"
    and run: "\<And>req rc keep hc. served_request config io fd slot rt = Some req \<Longrightarrow>
      serve_run handlers req (socket_ctx io rt) = Some (rc, keep, hc) \<Longrightarrow>
      gives_back (socket_ctx io rt) hc \<and> P (Act_send fd (hc_out hc))"
  shows "net_ok P reg wake rt'"
proof -
  obtain res conn where r: "recv_loop (nat (cf_max_req_size config)) (cp_pool (sv_pool rt) ! slot) (io_recvs io) = Some (res, conn)"
    using assms(1) by (auto simp: worker_serve_def split: option.splits)
  let ?rt = "put_recv slot conn rt"
  have ok: "net_ok P reg wake ?rt" using assms(2) by simp
  have same: "sv_http ?rt = sv_http rt" by (simp add: put_recv_def)
  show ?thesis
  proof (cases "res = Recv_done \<and> parse_request_line (c_str (conn_buffer conn)) \<noteq> None")
    case True
    then obtain meth path version where p: "parse_request_line (c_str (conn_buffer conn)) = Some (meth, path, version)" by auto
    let ?req = "worker_req fd conn meth path version"
    have req: "served_request config io fd slot rt = Some ?req" using r True p by (simp add: served_request_def)
    obtain rc keep rt1 where on: "on_socket fd io (serve_run handlers ?req) ?rt = Some (rc, keep, rt1)"
      and rt': "rt' = (if keep \<and> rc = 0
          then (let (ok, rt2) = try_rearm_keepalive slot io rt1 in if ok then rt2 else close_connection fd rt2)
          else close_connection fd rt1)"
      using assms(1) r True p
      by (auto simp: worker_serve_def worker_respond_def serve_run_def on_socket_def Let_def split: option.splits if_splits prod.splits)
    from on obtain hc where hc: "serve_run handlers ?req (socket_ctx io rt) = Some (rc, keep, hc)"
      and rt1: "rt1 = ?rt\<lparr>sv_http := hc, sv_trace := sv_trace ?rt @ [Act_send fd (hc_out hc)]\<rparr>"
      by (auto simp: on_socket_def socket_ctx_def same)
    have "gives_back (socket_ctx io ?rt) hc" using run [OF req hc] same by (simp add: socket_ctx_def)
    then have "net_ok P reg wake rt1" unfolding rt1 using run [OF req hc] by (intro net_ok_sent [OF ok]) auto
    then show ?thesis unfolding rt' by (auto simp: Let_def try_rearm_ok split: prod.split if_split)
  next
    case False
    have refused: "net_ok P reg wake rt1"
      if "on_socket fd io (error_handler 400 msg (internal_request fd)) ?rt = Some (rc, keep, rt1)" "msg \<in> {''Bad Request'', ''Request Too Large''}"
      for msg rc keep rt1
      by (rule refusal_ok [OF ok that(1)]) (use that(2) in \<open>auto simp: refusals_def\<close>)
    show ?thesis
      using assms(1) r ok False
      by (auto simp: worker_serve_def worker_respond_def send_error_response_def Let_def split: recv_result.splits option.splits dest: refused)
  qed
qed

lemma server_step_ok:
  assumes "server_step config handlers s t" "net_ok P reg wake (sy_rt s)"
    and run: "\<And>io fd req rc keep hc. req_fd req = fd \<Longrightarrow> serve_run handlers req (socket_ctx io (sy_rt s)) = Some (rc, keep, hc) \<Longrightarrow>
      gives_back (socket_ctx io (sy_rt s)) hc \<and> P (Act_send fd (hc_out hc))"
  shows "net_ok P reg wake (sy_rt t)"
  using assms(1)
proof cases
  case (step_serve i fd slot io rt')
  then show ?thesis using worker_serve_ok [OF step_serve(4) assms(2) run [OF served_request_fd]] by simp
next
  case (step_stop rt')
  moreover have "sv_signal_pipe_wfd (sy_rt s) = wake" using assms(2) by (simp add: net_ok_def)
  ultimately show ?thesis using assms(2) wake_up by (auto simp: miniweb_server_stop_def)
qed (use assms(2) in \<open>auto intro: server_iteration_ok worker_take_ok\<close>)

end

interpretation wire: sent_pred "wire_ok config reg ap0 wake" wake for config reg ap0 wake
proof
  show "wire_ok config reg ap0 wake a" if "\<And>fd out. a \<noteq> Act_send fd out" for a using that by (cases a) auto
qed auto

interpretation any: sent_pred "\<lambda>_. True" wake for wake
  by unfold_locales simp_all

lemma served_app_run:
  assumes "worker_serve config (app_handlers config env ap) io fd slot rt = Some rt'" "served_request config io fd slot rt = Some req"
  obtains rc keep ap' hc' where "app_request config env req (ap, socket_ctx io rt) = Inr (rc, keep, ap', hc')"
    "served_app config env io fd slot rt ap = Inr ap'"
proof -
  obtain conn meth path version where r: "recv_loop (nat (cf_max_req_size config)) (cp_pool (sv_pool rt) ! slot) (io_recvs io) = Some (Recv_done, conn)"
    and p: "parse_request_line (c_str (conn_buffer conn)) = Some (meth, path, version)" and req: "req = worker_req fd conn meth path version"
    using assms(2) by (auto simp: served_request_def split: option.splits recv_result.splits)
  obtain rc keep hc where "serve_run (app_handlers config env ap) req (socket_ctx io rt) = Some (rc, keep, hc)"
    using assms(1) r p req
    by (auto simp: worker_serve_def worker_respond_def serve_run_def on_socket_def socket_ctx_def put_recv_def Let_def
        split: option.splits if_splits prod.splits)
  then obtain ap' where "app_request config env req (ap, socket_ctx io rt) = Inr (rc, keep, ap', hc)" using serve_run_app by blast
  then show thesis using that assms(2) by (simp add: served_app_def)
qed

section \<open>The application behind the server\<close>

definition system_inv :: "miniweb_conf_t \<Rightarrow> url_registry \<Rightarrow> system \<Rightarrow> bool" where
  "system_inv config reg y \<longleftrightarrow> server_inv config (ss_srv y) \<and> (\<exists>wake. net_ok (\<lambda>_. True) reg wake (sy_rt (ss_srv y)))"

lemma system_init_server: "system_init config reg ap0 y \<Longrightarrow> server_init config (ss_srv y)"
  by (auto simp: system_init_def server_init_def)

lemma server_setup_fresh:
  assumes "server_setup config su (runtime_init hc) = (True, n, rt)"
  shows "sv_http rt = hc" "sv_trace rt = []"
  using assms by (auto simp: server_setup_def runtime_init_def Let_def split: option.splits prod.splits if_splits)

lemma system_init_net:
  assumes "system_init config reg ap0 y"
  shows "net_ok P reg (sv_signal_pipe_wfd (sy_rt (ss_srv y))) (sy_rt (ss_srv y))"
proof -
  obtain su hc n rt where i: "hc_registry hc = reg" "hc_pools hc = response_pools0"
    "server_setup config su (runtime_init hc) = (True, n, rt)" "sy_rt (ss_srv y) = rt"
    using assms by (auto simp: system_init_def)
  then show ?thesis using server_setup_fresh [OF i(3)] pools_idle_start by (simp add: net_ok_def)
qed

lemma serve_run_back:
  assumes "net_ok P reg wake rt" "serve_run (app_handlers config env ap) req (socket_ctx io rt) = Some (rc, keep, hc)"
  shows "gives_back (socket_ctx io rt) hc"
  using assms serve_run_app app_request_back net_ok_idle(1) [OF assms(1)] by (fastforce simp: pools_idle_def)

lemma server_inv_thread: "server_inv config s \<Longrightarrow> server_inv config (s\<lparr>sy_rt := as_thread tid ok (sy_rt s)\<rparr>)"
  using rt_inv_cong by (fastforce simp: server_inv_def as_thread_def)

lemma serve_inv:
  assumes "server_inv config s" "i < length (sy_workers s)" "sy_workers s ! i = Some (fd, slot)"
    and "worker_serve config handlers io fd slot (as_thread tid ok (sy_rt s)) = Some rt'"
  shows "server_inv config (s\<lparr>sy_rt := rt', sy_workers := (sy_workers s)[i := None]\<rparr>)"
proof -
  let ?s = "s\<lparr>sy_rt := as_thread tid ok (sy_rt s)\<rparr>"
  have "server_step config handlers ?s (?s\<lparr>sy_rt := rt', sy_workers := (sy_workers ?s)[i := None]\<rparr>)"
    by (rule step_serve) (use assms in simp_all)
  from srv.step_invar [OF server_inv_thread [OF assms(1)] this] show ?thesis by simp
qed

lemma system_step_inv:
  assumes "system_inv config reg y" "system_step config y z"
  shows "system_inv config reg z"
proof -
  obtain wake where inv: "server_inv config (ss_srv y)" and net: "net_ok (\<lambda>_. True) reg wake (sy_rt (ss_srv y))"
    using assms(1) by (auto simp: system_inv_def)
  from assms(2) show ?thesis
  proof cases
    case (sys_server s tid calloc_ok s')
    let ?s = "s\<lparr>sy_rt := as_thread tid calloc_ok (sy_rt s)\<rparr>"
    have thread: "net_ok (\<lambda>_. True) reg wake (sy_rt ?s)" using net sys_server(2) by simp
    have "net_ok (\<lambda>_. True) reg wake (sy_rt s')"
      by (rule any.server_step_ok [OF sys_server(3) thread]) (use serve_run_back [OF thread] serve_run_mono in blast)
    moreover have "server_inv config s'" using srv.step_invar [OF server_inv_thread sys_server(3)] inv sys_server(2) by blast
    ultimately show ?thesis using sys_server(1) by (auto simp: system_inv_def)
  next
    case (sys_serve s i fd slot rt tid calloc_ok env io rt' ap')
    have thread: "net_ok (\<lambda>_. True) reg wake rt" using net sys_serve by simp
    have "net_ok (\<lambda>_. True) reg wake rt'"
      by (rule any.worker_serve_ok [OF sys_serve(6) thread]) (use serve_run_back [OF thread] in blast)
    moreover have "server_inv config (s\<lparr>sy_rt := rt', sy_workers := (sy_workers s)[i := None]\<rparr>)"
      by (rule serve_inv [of config s i fd slot]) (use inv sys_serve in auto)
    ultimately show ?thesis using sys_serve(1) by (auto simp: system_inv_def)
  qed (use assms(1) in \<open>auto simp: system_inv_def\<close>)
qed

text \<open>Every step is one of the application, on the routing table of the process, or does not touch it.\<close>

lemma system_step_app:
  assumes "system_inv config reg y" "system_step config y z"
  shows "ss_app z = ss_app y \<or> (\<exists>e. app_step config reg e (ss_app y) = Inr (ss_app z))"
  using assms(2)
proof cases
  case (sys_serve s i fd slot rt tid calloc_ok env io rt' ap')
  obtain wake where "net_ok (\<lambda>_. True) reg wake (sy_rt (ss_srv y))" using assms(1) by (auto simp: system_inv_def)
  then have "hc_registry (socket_ctx io rt) = reg" using sys_serve(2,5) by (simp add: net_ok_def socket_ctx_def as_thread_def)
  then have same: "(socket_ctx io rt)\<lparr>hc_registry := reg\<rparr> = socket_ctx io rt" by auto
  have z: "ss_app z = ap'" using sys_serve(1) by simp
  show ?thesis
  proof (cases "served_request config io fd slot rt")
    case None
    then show ?thesis using sys_serve(7) z by (simp add: served_app_def)
  next
    case (Some req)
    then have "app_step config reg (Request env req (socket_ctx io rt)) (ss_app y) = Inr ap'"
      using sys_serve(7) same by (simp add: served_app_def)
    then show ?thesis using z by blast
  qed
next
  case (sys_metrics_beat env st)
  then show ?thesis by (intro disjI2 exI [of _ "Metrics_beat env"]) simp
next
  case (sys_network_beat env st)
  then show ?thesis by (intro disjI2 exI [of _ "Network_beat env"]) simp
qed simp

interpretation sys: simulation "system_init config reg ap0" "system_step config" "system_inv config reg" ss_app ap0
  "\<lambda>a b. \<exists>e. app_step config reg e a = Inr b" for config reg ap0
proof
  show "system_inv config reg y" if "system_init config reg ap0 y" for y
    using server_init_inv [OF system_init_server [OF that]] system_init_net [OF that] by (auto simp: system_inv_def)
  show "ss_app y = ap0" if "system_init config reg ap0 y" for y using that by (simp add: system_init_def)
qed (use system_step_inv system_step_app in blast)+

lemma app_run_append: "app_run config reg (es @ es') ap = bindR (app_run config reg es ap) (app_run config reg es')"
proof (induction es arbitrary: ap)
  case (Cons e es)
  then show ?case by (cases "app_step config reg e ap") simp_all
qed simp

lemma app_run_steps:
  "(\<lambda>a b. \<exists>e. app_step config reg e a = Inr b)\<^sup>*\<^sup>* ap0 ap \<Longrightarrow> \<exists>es. app_run config reg es ap0 = Inr ap"
proof (induction rule: rtranclp_induct)
  case base
  show ?case by (rule exI [of _ "[]"]) simp
next
  case (step a b)
  then obtain es e where "app_run config reg es ap0 = Inr a" "app_step config reg e a = Inr b" by blast
  then show ?case by (intro exI [of _ "es @ [e]"]) (simp add: app_run_append)
qed

lemmas system_app_run = app_run_steps [OF sys.reach_view]

text \<open>
  What holds of every history holds of the running server: it starts only the programs, and writes only
  the files, that the application is confined to.
\<close>

corollary system_confined:
  assumes "reach (system_init config reg ap0) (system_step config) y" "ap_man ap0 = man_state0" "pk_trace (ap_pkg ap0) = []"
  shows "app_confined config (ss_app y)"
  using system_app_run [OF assms(1)] app_run_confined [OF _ assms(2,3)] by blast

text \<open>What a worker sends in a reachable state is an answer of the application.\<close>

lemma serve_run_answers:
  assumes "reach (system_init config reg ap0) (system_step config) y" "net_ok P reg wake rt"
    and "serve_run (app_handlers config env (ss_app y)) req (socket_ctx io rt) = Some (rc, keep, hc)" "req_fd req = fd"
  shows "gives_back (socket_ctx io rt) hc \<and> wire_ok config reg ap0 wake (Act_send fd (hc_out hc))"
proof -
  note idle = net_ok_idle [OF assms(2), of io]
  obtain ap' where a: "app_request config env req (ss_app y, socket_ctx io rt) = Inr (rc, keep, ap', hc)"
    using assms(3) serve_run_app by blast
  obtain es where "app_run config reg es ap0 = Inr (ss_app y)" using system_app_run [OF assms(1)] by blast
  then have "answer_of config reg ap0 fd (hc_out hc)"
    using a idle assms(4) pools_idle_can_create [OF idle(1)] unfolding answer_of_def
    by (intro exI [of _ es] exI [of _ "ss_app y"] exI [of _ env] exI [of _ req] exI [of _ "socket_ctx io rt"]) (auto simp: socket_ctx_def)
  then show ?thesis using serve_run_back [OF assms(2,3)] by simp
qed

lemma system_wire_ok:
  "reach (system_init config reg ap0) (system_step config) y \<Longrightarrow>
    \<exists>wake. net_ok (wire_ok config reg ap0 wake) reg wake (sy_rt (ss_srv y))"
proof (induction rule: reach.induct)
  case (reach_init y)
  then show ?case using system_init_net by blast
next
  case (reach_step y z)
  then obtain wake where net: "net_ok (wire_ok config reg ap0 wake) reg wake (sy_rt (ss_srv y))" by blast
  note answers = serve_run_answers [OF reach_step(1)]
  from reach_step(2) show ?case
  proof cases
    case (sys_server s tid calloc_ok s')
    have thread: "net_ok (wire_ok config reg ap0 wake) reg wake (sy_rt (s\<lparr>sy_rt := as_thread tid calloc_ok (sy_rt s)\<rparr>))"
      using net sys_server(2) by simp
    have "net_ok (wire_ok config reg ap0 wake) reg wake (sy_rt s')"
      by (rule wire.server_step_ok [OF sys_server(3) thread]) (use answers [OF thread] serve_run_mono in blast)
    then show ?thesis using sys_server(1) by auto
  next
    case (sys_serve s i fd slot rt tid calloc_ok env io rt' ap')
    have thread: "net_ok (wire_ok config reg ap0 wake) reg wake rt" using net sys_serve by simp
    have "net_ok (wire_ok config reg ap0 wake) reg wake rt'"
      by (rule wire.worker_serve_ok [OF sys_serve(6) thread]) (use answers [OF thread _ served_request_fd] in blast)
    then show ?thesis using sys_serve(1) by auto
  qed (use net in auto)
qed

section \<open>Properties\<close>


text \<open>
  C6. The running system leaks neither responses nor connections: in every reachable state, between
  the requests, all 1024 response objects of each of the 16 shards are back in their pool, whatever
  the handlers did, and at most the configured number of connections is open, each with a
  connection object of its own.
\<close>

theorem system_resources:
  assumes "reach (system_init config reg ap0) (system_step config) y" "1 \<le> cf_max_conns config"
  shows "length (hc_pools (sv_http (sy_rt (ss_srv y)))) = 16 \<and>
    (\<forall>p \<in> set (hc_pools (sv_http (sy_rt (ss_srv y)))). length (rp_free p) = 1024 \<and> distinct (rp_free p)) \<and>
    int (card (dom (conn_at (sv_pool (sy_rt (ss_srv y)))))) \<le> cf_max_conns config \<and>
    inj_on (conn_at (sv_pool (sy_rt (ss_srv y)))) (dom (conn_at (sv_pool (sy_rt (ss_srv y)))))"
proof -
  have inv: "system_inv config reg y" using assms(1) by (rule sys.reach_invar)
  then have rt: "rt_inv config (sy_rt (ss_srv y))" and idle: "pools_idle (sv_http (sy_rt (ss_srv y)))"
    by (auto simp: system_inv_def server_inv_def net_ok_def)
  have pool: "conn_pool_inv (sv_pool (sy_rt (ss_srv y)))" using rt by (simp add: rt_inv_def)
  have "int (card (dom (conn_at (sv_pool (sy_rt (ss_srv y)))))) \<le> cf_max_conns config"
    using card_conn_at [OF pool] rt assms(2) by (simp add: rt_inv_def)
  moreover have "length (hc_pools (sv_http (sy_rt (ss_srv y)))) = 16"
    using idle by (simp add: pools_idle_def pools_ok_def RESPONSE_POOL_SHARDS_def)
  moreover have "\<forall>p \<in> set (hc_pools (sv_http (sy_rt (ss_srv y)))). length (rp_free p) = 1024 \<and> distinct (rp_free p)"
    using idle by (auto simp: pools_idle_def pools_ok_def response_pool_inv_def RESPONSE_POOL_ITEMS_def)
  ultimately show ?thesis using cp.live_finite_inj(1) [OF pool] by blast
qed

section \<open>A concrete run\<close>

text \<open>A client asks a server without routes for \<open>/x\<close> and goes away after ten bytes of the answer.\<close>

definition sys_sample_io :: socket_io where
  "sys_sample_io = \<lparr>io_recvs = [Recv_data 0 (''GET /x HTTP/1.0'' @ CRLF @ CRLF)], io_ws = [Accepts 10, Write_error], io_ps = [],
     io_kevent_ok = True, io_now = 0\<rparr>"

definition sys_sample :: "server_sys \<Rightarrow> system" where
  "sys_sample s = \<lparr>ss_srv = s, ss_app = app_sample_state\<rparr>"

lemma sys_sample_init: "system_init (conf_defaults 1) \<lparr>routes = [], prefix_routes = []\<rparr> app_sample_state (sys_sample sample_sys)"
  unfolding system_init_def sys_sample_def
  by (intro conjI exI [of _ sample_setup] exI [of _ sample_ctx] exI [of _ 1] exI [of _ sample_rt])
    (use sample_setup_ok in \<open>simp_all add: sample_sys_def sample_ctx_def\<close>)

lemma as_thread_same: "as_thread (hc_tid (sv_http rt)) (hc_calloc_ok (sv_http rt)) rt = rt"
  by (simp add: as_thread_def)

lemma server_reach_system:
  "reach (\<lambda>s. s = sample_sys) (server_step (conf_defaults 1) (\<lambda>_ _ _. None)) s \<Longrightarrow>
    reach (system_init (conf_defaults 1) \<lparr>routes = [], prefix_routes = []\<rparr> app_sample_state) (system_step (conf_defaults 1)) (sys_sample s)"
proof (induction rule: reach.induct)
  case (reach_init s)
  then show ?case using sys_sample_init by (auto intro: reach.reach_init)
next
  case (reach_step s t)
  have "server_step (conf_defaults 1) (\<lambda>_ _ _. None)
      (s\<lparr>sy_rt := as_thread (hc_tid (sv_http (sy_rt s))) (hc_calloc_ok (sv_http (sy_rt s))) (sy_rt s)\<rparr>) t"
    using reach_step(2) by (simp add: as_thread_same)
  then have "system_step (conf_defaults 1) (sys_sample s) ((sys_sample s)\<lparr>ss_srv := t\<rparr>)"
    by (intro system_step.sys_server) (simp_all add: sys_sample_def)
  then show ?case using reach.reach_step [OF reach_step(3)] by (simp add: sys_sample_def)
qed

abbreviation sys_sample_req :: bytes where
  "sys_sample_req \<equiv> ''GET /x HTTP/1.0'' @ CRLF @ CRLF"

abbreviation no_routes :: url_registry where
  "no_routes \<equiv> \<lparr>routes = [], prefix_routes = []\<rparr>"

lemma sys_sample_parse:
  "parse_request_line (c_str sys_sample_req) = Some (''GET'', ''/x'', ''HTTP/1.0'')"
  "find_header_end (c_str sys_sample_req) \<noteq> None"
  "request_keep_alive (c_str sys_sample_req) ''HTTP/1.0'' = False"
  by code_simp+

lemma sys_sample_recv:
  assumes "conn_bytes_read conn = 0"
  obtains conn' where "recv_loop (nat (cf_max_req_size (conf_defaults 1))) conn (io_recvs sys_sample_io) = Some (Recv_done, conn')"
    "conn_buffer conn' = sys_sample_req"
  using that [of "recv_append conn 0 sys_sample_req"] assms sys_sample_parse(2)
  by (simp add: sys_sample_io_def conf_defaults_def recv_append_def Let_def)

lemma sys_sample_answer:
  assumes "sv_http rt = sample_ctx" "\<not> req_keep_alive req"
  obtains hc where "error_handler 404 ''Not Found'' req (socket_ctx sys_sample_io rt) = Some (-1, False, hc)" "length (hc_out hc) = 10"
proof -
  let ?m = "http_message False 404 ''text/html; charset=utf-8'' [] (error_page 404 (Some ''Not Found''))"
  have len: "10 < length ?m" by (simp add: http_message_def message_lines_def)
  then have "http_response_write_all ?m [Accepts 10, Write_error] [] = Some (-1, take 10 ?m, [], [])"
    by (cases ?m) (simp_all add: http_response_write_all_def after_sent_def Let_def)
  moreover have can: "can_create (socket_ctx sys_sample_io rt)"
    using sample_ctx_can_create [of "hc_registry sample_ctx"] assms(1) by (simp add: can_create_def socket_ctx_def)
  ultimately show thesis
    using that http_send_error_delivered [OF can, of 404 "''Not Found''" req] assms(2) len
    by (auto simp: error_handler_def delivered_def allow_lines_def socket_ctx_def sys_sample_io_def)
qed

lemma sys_sample_run:
  obtains y out where "reach (system_init (conf_defaults 1) no_routes app_sample_state) (system_step (conf_defaults 1)) y"
    "Act_send 9 out \<in> set (sv_trace (sy_rt (ss_srv y)))" "length out = 10"
proof -
  let ?cf = "conf_defaults 1" and ?h = "app_handlers (conf_defaults 1) app_sample_env app_sample_state"
  obtain slot rt where r: "reach (\<lambda>s. s = sample_sys) (server_step ?cf (\<lambda>_ _ _. None))
      \<lparr>sy_rt = rt, sy_workers = [Some (9, slot)], sy_last_sweep = 0\<rparr>"
    and rd: "conn_bytes_read (cp_pool (sv_pool rt) ! slot) = 0" and hc: "sv_http rt = sample_ctx"
    using worker_holds_connection [where init = "\<lambda>s. s = sample_sys" and handlers = "\<lambda>_ _ _. None"] by metis
  obtain c where recv: "recv_loop (nat (cf_max_req_size ?cf)) (cp_pool (sv_pool rt) ! slot) (io_recvs sys_sample_io) = Some (Recv_done, c)"
    and buf: "conn_buffer c = sys_sample_req" using rd by (rule sys_sample_recv)
  let ?req = "worker_req 9 c ''GET'' ''/x'' ''HTTP/1.0''"
  obtain hc' where err: "error_handler 404 ''Not Found'' ?req (socket_ctx sys_sample_io rt) = Some (-1, False, hc')" "length (hc_out hc') = 10"
    by (rule sys_sample_answer [OF hc, of ?req]) (use sys_sample_parse(3) buf in simp)
  have none: "route_match no_routes ''GET'' ''/x'' = None" "\<not> route_path_known no_routes (Some ''/x'')"
    by (simp_all add: route_match_def route_path_known_def)
  have reg: "hc_registry sample_ctx = no_routes" by (simp add: sample_ctx_def)
  define rt' where "rt' = close_connection 9 ((put_recv slot c rt)\<lparr>sv_http := hc', sv_trace := sv_trace (put_recv slot c rt) @ [Act_send 9 (hc_out hc')]\<rparr>)"
  have serve: "worker_serve ?cf ?h sys_sample_io 9 slot rt = Some rt'"
    using recv buf sys_sample_parse(1) err(1) none hc reg
    by (simp add: worker_serve_def worker_respond_def on_socket_def socket_ctx_def put_recv_def rt'_def Let_def)
  have req: "served_request ?cf sys_sample_io 9 slot rt = Some ?req" using recv buf sys_sample_parse(1) by (simp add: served_request_def)
  have app: "served_app ?cf app_sample_env sys_sample_io 9 slot rt app_sample_state = Inr app_sample_state"
    using req none err(1) hc reg by (simp add: served_app_def app_request_def socket_ctx_def from_option_def Let_def)
  let ?y = "sys_sample \<lparr>sy_rt = rt, sy_workers = [Some (9, slot)], sy_last_sweep = 0\<rparr>"
  have "system_step ?cf ?y (sys_sample \<lparr>sy_rt = rt', sy_workers = [None], sy_last_sweep = 0\<rparr>)"
    using system_step.sys_serve [OF refl, of 0 ?y 9 slot rt "hc_tid (sv_http rt)" "hc_calloc_ok (sv_http rt)"] serve app
    by (simp add: sys_sample_def as_thread_same)
  from reach_step [OF server_reach_system [OF r] this]
  show thesis by (rule that [of _ "hc_out hc'"]) (use err(2) in \<open>simp_all add: sys_sample_def rt'_def\<close>)
qed


theorem system_resources_witness:
  "\<exists>y out. reach (system_init (conf_defaults 1) no_routes app_sample_state) (system_step (conf_defaults 1)) y \<and>
     Act_send 9 out \<in> set (sv_trace (sy_rt (ss_srv y))) \<and>
     (\<forall>p \<in> set (hc_pools (sv_http (sy_rt (ss_srv y)))). length (rp_free p) = 1024)"
proof -
  obtain y out where r: "reach (system_init (conf_defaults 1) no_routes app_sample_state) (system_step (conf_defaults 1)) y"
    and out: "Act_send 9 out \<in> set (sv_trace (sy_rt (ss_srv y)))" by (rule sys_sample_run)
  have "1 \<le> cf_max_conns (conf_defaults 1)" by (simp add: conf_defaults_def)
  from system_resources [OF r this] show ?thesis using r out by blast
qed

end
