(* ===== verification/Spec2Isabelle.thy ===== *)
theory Spec2Isabelle
  imports Mw_Prelude Interfaces Work_Queue Connection_Pool Http_Request Conf Router
    Response_Io Response_Pool Http_Response Worker Server
    World Http_Utils File_Cache Template Static_Files Views Heartbeat
    Subprocess Query_String Packages Metrics_System Metrics Networking
    Man_Index Man_Render Man_Module Storage Log Security Response_Use Application System
begin

text \<open>
  A verification development of miniweb, a small HTTP server for OpenBSD written in C.

  \<^bold>\<open>The program.\<close> A dispatcher thread (\<^verbatim>\<open>src/net/server.c\<close>) waits on a kqueue for new connections and for
  requests on open ones, keeps the connections in a fixed pool (\<^verbatim>\<open>src/net/connection_pool.c\<close>) and
  hands ready ones to worker threads through a bounded queue (\<^verbatim>\<open>src/net/work_queue.c\<close>). A worker
  (\<^verbatim>\<open>src/net/worker.c\<close>) reads the request, parses it, looks the handler up in the URL registry
  (\<^verbatim>\<open>src/router/\<close>), runs it and keeps or closes the connection. Handlers build responses from a pool
  (\<^verbatim>\<open>src/http/\<close>) and get their content from files and a file cache, from templates
  (\<^verbatim>\<open>src/render/\<close>), or from the modules under \<^verbatim>\<open>src/modules/\<close>, which sample the system on a
  heartbeat thread (\<^verbatim>\<open>src/core/heartbeat*.c\<close>) or run \<^verbatim>\<open>pkg_info\<close>, \<^verbatim>\<open>man\<close>, \<^verbatim>\<open>apropos\<close> and \<^verbatim>\<open>mandoc\<close> in
  child processes. \<^verbatim>\<open>src/app_main.c\<close> reads the configuration, opens the log (\<^verbatim>\<open>src/core/log.c\<close>), runs the
  server and cleans up. \<^verbatim>\<open>src/storage/\<close> is a facade for a database that no handler uses yet.

  \<^bold>\<open>Conventions.\<close> A C struct is a record with a two-letter prefix on its fields, an operation is a
  definition with the name of the C function, a loop is a recursive function whose name ends in
  \<^verbatim>\<open>_loop\<close>. System calls are data: an operation that performs them takes the list of their
  outcomes, or a record of the environment (\<open>world\<close>, \<open>pkg_env\<close>, \<open>metrics_env\<close>, \<open>net_env\<close>, \<open>man_env\<close>, \<dots>), and
  the theorems hold for every such list. A loop that runs out of outcomes returns \<open>None\<close>, so that
  a claim that it returns is stated as such. A write outside an object, a use of freed memory or a
  second unlock is a value of the type \<open>fault\<close>. Heap objects owned by one operation are passed by
  value; where aliasing matters (the connection pool, the response pool, freed output of a child, the
  handles of \<open>Storage\<close>) addresses are explicit. Sections guarded by a mutex are single steps; code between two sections
  is interleaved by a step relation where threads share it (\<open>server_step\<close>, \<open>hb_step\<close>, \<open>system_step\<close>). Serving one request is
  one step: two requests that overlap in time are ordered.

  \<^bold>\<open>The theories.\<close>
  \<^item> \<open>Mw_Prelude\<close>: the C string library the sources use (\<^verbatim>\<open>strchr\<close>, \<^verbatim>\<open>strstr\<close>, \<^verbatim>\<open>strlcpy\<close>, \<^verbatim>\<open>snprintf\<close>,
    \<^verbatim>\<open>strtok_r\<close>, \<^verbatim>\<open>fgets\<close>, \<^verbatim>\<open>atoi\<close>) and generic lemmas on lists.
  \<^item> \<open>Interfaces\<close>: the locales \<open>bounded_fifo\<close>, \<open>overwriting_ring\<close>, \<open>slot_allocator\<close>,
    \<open>normalising_cache\<close>, \<open>coherent_cache\<close>, \<open>invariant_system\<close> and its extension \<open>simulation\<close>, each with what its
    clients may conclude; the component theories interpret every one of them on the code's model.
  \<^item> \<open>World\<close>: the file system seen at one moment, faults, output buffers.
  \<^item> \<open>Work_Queue\<close>, \<open>Connection_Pool\<close>: the queue refines a list; the pool never hands one slot to two
    descriptors.
  \<^item> \<open>Http_Request\<close>: the request line parser and the keep-alive decision, with their grammars.
  \<^item> \<open>Conf\<close>: configuration files, defaults, command line (\<^verbatim>\<open>src/core/conf*.c\<close>, \<^verbatim>\<open>src/app_main.c\<close>); a server
    that starts runs inside its compile-time limits.
  \<^item> \<open>Router\<close>: registration, lookup and the routing table that results for every choice of modules.
  \<^item> \<open>Response_Io\<close>, \<open>Response_Pool\<close>, \<open>Http_Response\<close>: write loops with partial writes and retries, the
    sharded pool, the response API and the helpers up to the bytes on the wire.
  \<^item> \<open>Worker\<close>, \<open>Server\<close>: the worker loop and the dispatcher, their step relation and its invariant.
  \<^item> \<open>Http_Utils\<close>, \<open>Subprocess\<close>: escaping, decoding, content types; reading a child process.
  \<^item> \<open>File_Cache\<close>, \<open>Static_Files\<close>: the sharded file cache, file responses, the static handler with its
    directory index, and that it stays below the configured directory.
  \<^item> \<open>Template\<close>, \<open>Views\<close>: the template cache, substitution and composition, the view handler with its hot
    cache, and how old what they serve can be.
  \<^item> \<open>Heartbeat\<close>: the task table and the scheduling thread.
  \<^item> \<open>Packages\<close>, \<open>Metrics_System\<close>, \<open>Metrics\<close>, \<open>Networking\<close>: the modules, from the kernel's tables to
    the JSON answers.
  \<^item> \<open>Query_String\<close>: the reading of query parameters that modules share.
  \<^item> \<open>Man_Index\<close>, \<open>Man_Render\<close>, \<open>Man_Module\<close>: the manual pages (\<^verbatim>\<open>src/modules/man/\<close>): the lists and the search, the
    resolution of a page to a file, the rendering with its semaphore, the cache in memory and the pages on disk, the two
    handlers; a page that is served is a recent rendering of exactly that page.
  \<^item> \<open>Storage\<close>: database handles on an explicit heap; they refine a catalogue of names and leak nothing.
  \<^item> \<open>Log\<close>: the log refines a list of lines for each destination.
  \<^item> \<open>Security\<close>: the sandbox (\<^verbatim>\<open>src/platform/openbsd/security.c\<close>) with the documented meaning of \<^verbatim>\<open>unveil\<close>; what may be
    executed and written in it.
  \<^item> \<open>Application\<close>: every handler behind the router, the state of all modules, the requests and beats as one sequence of
    events, and \<^verbatim>\<open>main\<close>; a manual page from the bytes of the request to the bytes of the answer, which programs and files
    the whole server can touch and that its sandbox lets it, what a disabled module means, how the process ends.
  \<^item> \<open>Response_Use\<close>: every handler gives back the response objects it takes, on every path, and leaves the rest of
    the thread's context alone.
  \<^item> \<open>System\<close>: server and application together. Its step relation \<open>system_step\<close> lets the dispatcher, any worker or the
    heartbeat act next, on the state of the network and of the modules; a worker runs the handler of its request in the
    present state of the modules. The system simulates the histories of \<open>Application\<close>, so that what is shown of every
    history there holds of the running server (\<open>system_confined\<close> for the programs and files); the
    locale \<open>sent_pred\<close> carries a property of what is sent through dispatcher and workers once, for all its uses.

  \<^bold>\<open>What the properties show.\<close> Invariants under every interleaving (server, heartbeat, the running system) and every
  history of calls (templates, views, metrics, networking, manual pages, the whole application);
  functional correctness of parsers, routing and answers; refinement of queues, rings, gathered
  writes, database handles, the log and of the histories of the application by the running system; round trips of encodings; bounds of every buffer that is
  filled in a loop; termination of write and read loops; confinement of commands and files; error
  answers and exit status. Lemmas beside them record where the code does not do what it means to,
  for example \<open>pkg_json_build_overruns\<close> in \<open>Packages\<close>, \<open>disk_section_overruns\<close> in \<open>Metrics\<close>,
  \<open>man_area_may_be_parent\<close> in \<open>Man_Module\<close> or \<open>beat_after_cleanup\<close> in \<open>Application\<close>.

  \<^bold>\<open>Bounds.\<close> Capacities are those of the headers (4096 queue items, 1024 pooled responses, 16384 bytes
  of request, 32 tables). Ring capacities divide a byte budget by the size of the C struct on a 64-bit
  machine. No fuel is used: loops recurse on their data, or on the outcomes of the system calls.

  \<^bold>\<open>Not modelled.\<close> The help text of \<^verbatim>\<open>usage\<close>; the debug lines of the modules; which system calls the promises of
  \<^verbatim>\<open>pledge\<close> allow; what the kernel, \<^verbatim>\<open>mandoc\<close> and the other programs answer, which is an argument; tests,
  templates and static assets. Floating point numbers are rational, and their printed form is a parameter.
\<close>

end
